(* ===== verification/Rust_Prelude.thy ===== *)
theory Rust_Prelude
  imports Main "HOL-Library.Word" "HOL-Library.Multiset" "HOL-Library.List_Lexorder"
begin

text \<open>
  The vocabulary every component shares: Rust's fixed-width integers as words, a result type
  with a third outcome for a panic, byte strings, the slice operations of the standard library
  with their out-of-range behaviour written out, and the generic lemmas about them.
\<close>

unbundle bit_operations_syntax

section \<open>Integers, byte strings and results\<close>

type_synonym u8 = "8 word"
type_synonym u16 = "16 word"
type_synonym u32 = "32 word"
type_synonym u64 = "64 word"
type_synonym bytes = "u8 list"

text \<open>A fallible Rust computation returns \<open>Ok\<close>, returns \<open>Err\<close>, or panics.\<close>

datatype ('a, 'e) outcome = Ok 'a | Err 'e | Panic

text \<open>The \<open>?\<close> operator: continue on \<open>Ok\<close>, leave with the error (or the panic) otherwise.\<close>

fun and_then :: "('a, 'e) outcome \<Rightarrow> ('a \<Rightarrow> ('b, 'e) outcome) \<Rightarrow> ('b, 'e) outcome" where
  "and_then (Ok x) f = f x"
| "and_then (Err e) f = Err e"
| "and_then Panic f = Panic"

text \<open>\<open>Result::unwrap\<close>: an error becomes a panic.\<close>

fun unwrap :: "('a, 'e) outcome \<Rightarrow> ('a, 'f) outcome" where
  "unwrap (Ok x) = Ok x"
| "unwrap (Err e) = Panic"
| "unwrap Panic = Panic"

text \<open>\<open>Option::ok_or\<close>.\<close>

fun ok_or :: "'a option \<Rightarrow> 'e \<Rightarrow> ('a, 'e) outcome" where
  "ok_or (Some x) e = Ok x"
| "ok_or None e = Err e"

text \<open>\<open>Result::map_err\<close> and \<open>Result::ok\<close>.\<close>

fun map_err :: "('a, 'e) outcome \<Rightarrow> ('e \<Rightarrow> 'f) \<Rightarrow> ('a, 'f) outcome" where
  "map_err (Ok x) f = Ok x"
| "map_err (Err e) f = Err (f e)"
| "map_err Panic f = Panic"

fun result_ok :: "('a, 'e) outcome \<Rightarrow> ('a option, 'f) outcome" where
  "result_ok (Ok x) = Ok (Some x)"
| "result_ok (Err e) = Ok None"
| "result_ok Panic = Panic"

text \<open>The bytes of an ASCII literal \<open>b"..."\<close>.\<close>

definition byte_of_char :: "char \<Rightarrow> u8" where
  "byte_of_char c = of_char c"

definition ascii :: "string \<Rightarrow> bytes" where
  "ascii s = map byte_of_char s"

section \<open>Machine arithmetic\<close>

text \<open>
  Rust's \<open>+\<close> and \<open>-\<close> on fixed-width integers panic on overflow in a build with overflow checks
  (\<open>chk\<close>) and wrap in one without. Signed integers are \<open>int\<close>, brought back to their width here.
\<close>

definition word_add :: "bool \<Rightarrow> 'w::len word \<Rightarrow> 'w word \<Rightarrow> ('w word, 'e) outcome" where
  "word_add chk a b = (if chk \<and> 2 ^ LENGTH('w) \<le> unat a + unat b then Panic else Ok (a + b))"

definition word_sub :: "bool \<Rightarrow> 'w::len word \<Rightarrow> 'w word \<Rightarrow> ('w word, 'e) outcome" where
  "word_sub chk a b = (if chk \<and> unat a < unat b then Panic else Ok (a - b))"

definition wrap_i32 :: "int \<Rightarrow> int" where
  "wrap_i32 v = (v + 2 ^ 31) mod 2 ^ 32 - 2 ^ 31"

definition i32_result :: "bool \<Rightarrow> int \<Rightarrow> (int, 'e) outcome" where
  "i32_result chk v = (if wrap_i32 v = v then Ok v else if chk then Panic else Ok (wrap_i32 v))"

text \<open>Integer division rounds toward zero.\<close>

definition trunc_div :: "int \<Rightarrow> int \<Rightarrow> int" where
  "trunc_div a b = sgn a * sgn b * (\<bar>a\<bar> div \<bar>b\<bar>)"

section \<open>Slices\<close>

text \<open>\<open>&xs[a..b]\<close>, which panics unless \<open>a <= b <= xs.len()\<close>.\<close>

definition slice_range :: "'a list \<Rightarrow> nat \<Rightarrow> nat \<Rightarrow> ('a list, 'e) outcome" where
  "slice_range xs a b = (if a \<le> b \<and> b \<le> length xs then Ok (take (b - a) (drop a xs)) else Panic)"

text \<open>\<open>xs[i]\<close>, which panics out of range, and \<open>xs.get(i)\<close>, which does not.\<close>

definition index_slice :: "'a list \<Rightarrow> nat \<Rightarrow> ('a, 'e) outcome" where
  "index_slice xs i = (if i < length xs then Ok (xs ! i) else Panic)"

definition get_slice :: "'a list \<Rightarrow> nat \<Rightarrow> 'a option" where
  "get_slice xs i = (if i < length xs then Some (xs ! i) else None)"

text \<open>The elements of \<open>xs\<close> from position \<open>a\<close> up to \<open>b\<close>, what a slice within range denotes.\<close>

definition segment :: "'a list \<Rightarrow> nat \<Rightarrow> nat \<Rightarrow> 'a list" where
  "segment xs a b = take (b - a) (drop a xs)"

text \<open>\<open>iter().position(p)\<close>: the index of the first element that satisfies \<open>p\<close>.\<close>

fun position :: "('a \<Rightarrow> bool) \<Rightarrow> 'a list \<Rightarrow> nat option" where
  "position p [] = None"
| "position p (x # xs) = (if p x then Some 0 else map_option Suc (position p xs))"

section \<open>UTF-8\<close>

text \<open>\<open>str::from_utf8\<close> accepts exactly the well-formed UTF-8 byte sequences (shortest form, no
  surrogates, at most U+10FFFF).\<close>

definition utf8_cont :: "u8 \<Rightarrow> bool" where
  "utf8_cont b \<longleftrightarrow> 0x80 \<le> b \<and> b \<le> 0xBF"

fun utf8_valid :: "bytes \<Rightarrow> bool" where
  "utf8_valid [] = True"
| "utf8_valid (a # bs) =
     (if a < 0x80 then utf8_valid bs
      else case bs of [] \<Rightarrow> False | b # cs \<Rightarrow>
        if 0xC2 \<le> a \<and> a \<le> 0xDF then utf8_cont b \<and> utf8_valid cs
        else case cs of [] \<Rightarrow> False | c # ds \<Rightarrow>
          if a = 0xE0 then 0xA0 \<le> b \<and> b \<le> 0xBF \<and> utf8_cont c \<and> utf8_valid ds
          else if a = 0xED then 0x80 \<le> b \<and> b \<le> 0x9F \<and> utf8_cont c \<and> utf8_valid ds
          else if 0xE1 \<le> a \<and> a \<le> 0xEF then utf8_cont b \<and> utf8_cont c \<and> utf8_valid ds
          else case ds of [] \<Rightarrow> False | d # es \<Rightarrow>
            if a = 0xF0 then 0x90 \<le> b \<and> b \<le> 0xBF \<and> utf8_cont c \<and> utf8_cont d \<and> utf8_valid es
            else if 0xF1 \<le> a \<and> a \<le> 0xF3 then
              utf8_cont b \<and> utf8_cont c \<and> utf8_cont d \<and> utf8_valid es
            else if a = 0xF4 then 0x80 \<le> b \<and> b \<le> 0x8F \<and> utf8_cont c \<and> utf8_cont d \<and> utf8_valid es
            else False)"

section \<open>Decimal integers\<close>

text \<open>\<open>to_string\<close> of an unsigned and of a signed integer, as ASCII bytes.\<close>

fun decimal_nat :: "nat \<Rightarrow> bytes" where
  "decimal_nat n =
     (if n < 10 then [48 + of_nat n] else decimal_nat (n div 10) @ [48 + of_nat (n mod 10)])"

declare decimal_nat.simps [simp del]

definition decimal_int :: "int \<Rightarrow> bytes" where
  "decimal_int i = (if i < 0 then 45 # decimal_nat (nat (- i)) else decimal_nat (nat i))"

definition is_digit :: "u8 \<Rightarrow> bool" where
  "is_digit b \<longleftrightarrow> 48 \<le> b \<and> b \<le> 57"

text \<open>The value of a run of decimal digits, \<open>None\<close> at the first byte that is no digit.\<close>

fun digits_value :: "nat \<Rightarrow> bytes \<Rightarrow> nat option" where
  "digits_value acc [] = Some acc"
| "digits_value acc (b # bs) =
     (if is_digit b then digits_value (10 * acc + unat (b - 48)) bs else None)"

definition i64_range :: "int \<Rightarrow> bool" where
  "i64_range i \<longleftrightarrow> - (2 ^ 63) \<le> i \<and> i < 2 ^ 63"

text \<open>\<open>i64::from_str_radix(s, 10)\<close>: an optional sign, then at least one digit and nothing else,
  with an error when the value leaves the range of \<open>i64\<close>.\<close>

definition i64_from_str :: "bytes \<Rightarrow> int option" where
  "i64_from_str bs =
     (let (neg, ds) =
        (case bs of
           [] \<Rightarrow> (False, [])
         | c # rest \<Rightarrow> if c = 45 then (True, rest) else if c = 43 then (False, rest) else (False, bs))
      in if ds = [] then None
         else case digits_value 0 ds of
                None \<Rightarrow> None
              | Some n \<Rightarrow>
                  let i = (if neg then - int n else int n) in if i64_range i then Some i else None)"

section \<open>Lemmas\<close>

named_theorems rust_simps \<open>definitions of the standard library operations\<close>

lemmas [rust_simps] = slice_range_def index_slice_def get_slice_def

lemma and_then_cong [fundef_cong]:
  assumes "r = r'" and "\<And>x. r' = Ok x \<Longrightarrow> f x = f' x"
  shows "and_then r f = and_then r' f'"
  using assms by (cases r') auto

lemma and_then_eq_Ok [simp]:
  "and_then r f = Ok y \<longleftrightarrow> (\<exists>x. r = Ok x \<and> f x = Ok y)"
  by (cases r) auto

lemma and_then_eq_Err:
  "and_then r f = Err e \<longleftrightarrow> r = Err e \<or> (\<exists>x. r = Ok x \<and> f x = Err e)"
  by (cases r) auto

lemma and_then_eq_Panic:
  "and_then r f = Panic \<longleftrightarrow> r = Panic \<or> (\<exists>x. r = Ok x \<and> f x = Panic)"
  by (cases r) auto

lemma unwrap_eq_Ok [simp]: "unwrap r = Ok x \<longleftrightarrow> r = Ok x"
  by (cases r) auto

lemma unwrap_not_Err [simp]: "unwrap r \<noteq> Err e"
  by (cases r) auto

lemma ok_or_eq_Ok [simp]: "ok_or opt e = Ok x \<longleftrightarrow> opt = Some x"
  by (cases opt) auto

lemma ok_or_eq_Err [simp]: "ok_or opt e = Err e' \<longleftrightarrow> opt = None \<and> e = e'"
  by (cases opt) auto

lemma ok_or_not_Panic [simp]: "ok_or opt e \<noteq> Panic"
  by (cases opt) auto

lemma map_err_eq_Ok [simp]: "map_err r f = Ok x \<longleftrightarrow> r = Ok x"
  by (cases r) auto

lemma map_err_eq_Panic [simp]: "map_err r f = Panic \<longleftrightarrow> r = Panic"
  by (cases r) auto

lemma result_ok_eq_Ok: "result_ok r = Ok x \<longleftrightarrow> (\<exists>y. r = Ok y \<and> x = Some y) \<or> (\<exists>e. r = Err e \<and> x = None)"
  by (cases r) auto

lemma result_ok_eq_Panic [simp]: "result_ok r = Panic \<longleftrightarrow> r = Panic"
  by (cases r) auto

lemma unwrap_eq_Panic: "unwrap r = Panic \<longleftrightarrow> (\<forall>x. r \<noteq> Ok x)"
  by (cases r) auto

lemma slice_range_eq_Ok:
  "slice_range xs a b = Ok ys \<longleftrightarrow> a \<le> b \<and> b \<le> length xs \<and> ys = take (b - a) (drop a xs)"
  by (auto simp: slice_range_def)

lemma slice_range_eq_Panic [simp]:
  "slice_range xs a b = Panic \<longleftrightarrow> \<not> (a \<le> b \<and> b \<le> length xs)"
  by (auto simp: slice_range_def)

lemma slice_range_not_Err [simp]: "slice_range xs a b \<noteq> Err e"
  by (auto simp: slice_range_def)

lemma slice_range_append [simp]:
  "slice_range (xs @ ys @ zs) (length xs) (length xs + length ys) = Ok ys"
  by (simp add: slice_range_def)

lemma segment_split: "a \<le> b \<Longrightarrow> b \<le> c \<Longrightarrow> segment xs a c = segment xs a b @ segment xs b c"
  using take_add [of "b - a" "c - b" "drop a xs"] by (simp add: segment_def)

lemma segment_one: "a < length xs \<Longrightarrow> segment xs a (Suc a) = [xs ! a]"
  by (simp add: segment_def take_Suc_conv_app_nth)

lemma segment_head:
  "a < b \<Longrightarrow> b \<le> length xs \<Longrightarrow> segment xs a b = xs ! a # segment xs (Suc a) b"
  using segment_split [of a "Suc a" b xs] by (simp add: segment_one)

lemma length_segment [simp]: "b \<le> length xs \<Longrightarrow> length (segment xs a b) = b - a"
  by (simp add: segment_def)

lemma set_segment: "set (segment xs a b) \<subseteq> set xs"
  by (auto simp: segment_def dest: in_set_takeD in_set_dropD)

lemma list_update_Cons_numeral [simp]: "(x # xs)[numeral k := y] = x # xs[pred_numeral k := y]"
  by (simp add: numeral_eq_Suc)

text \<open>A loop that writes every index of an array once.\<close>

lemma fold_list_update:
  assumes "n \<le> length xs"
  shows "fold (\<lambda>i ys. ys[i := f i]) [0..<n] xs = map f [0..<n] @ drop n xs"
  using assms
proof (induction n)
  case (Suc n)
  then show ?case by (simp add: list_update_append flip: Cons_nth_drop_Suc)
qed simp

lemma word_add_eq_Ok [simp]:
  "word_add chk a (b :: 'w::len word) = Ok c \<longleftrightarrow> c = a + b \<and> (chk \<longrightarrow> unat a + unat b < 2 ^ LENGTH('w))"
  by (auto simp: word_add_def)

lemma word_sub_eq_Ok [simp]: "word_sub chk a b = Ok c \<longleftrightarrow> c = a - b \<and> (chk \<longrightarrow> unat b \<le> unat a)"
  by (auto simp: word_sub_def)

lemma wrap_i32_range: "- (2 ^ 31) \<le> wrap_i32 v \<and> wrap_i32 v < 2 ^ 31"
  by (simp add: wrap_i32_def)

lemma i32_result_range: "i32_result chk v = Ok w \<Longrightarrow> - (2 ^ 31) \<le> w \<and> w < 2 ^ 31"
  using wrap_i32_range [of v] by (auto simp: i32_result_def split: if_splits)

lemma position_Some_iff:
  "position p xs = Some i \<longleftrightarrow> i < length xs \<and> p (xs ! i) \<and> (\<forall>j < i. \<not> p (xs ! j))"
proof (induction xs arbitrary: i)
  case Nil
  then show ?case by simp
next
  case (Cons x xs)
  show ?case
  proof (cases i)
    case 0
    then show ?thesis by auto
  next
    case (Suc k)
    then show ?thesis by (auto simp: Cons.IH All_less_Suc2 nth_Cons')
  qed
qed

lemma position_None_iff: "position p xs = None \<longleftrightarrow> (\<forall>x \<in> set xs. \<not> p x)"
  by (induction xs) auto

lemma position_less: "position p xs = Some i \<Longrightarrow> i < length xs"
  by (simp add: position_Some_iff)

lemma position_append:
  "(\<forall>x \<in> set xs. \<not> p x) \<Longrightarrow> p y \<Longrightarrow> position p (xs @ y # ys) = Some (length xs)"
  by (induction xs) auto

lemma position_takes:
  "position p xs = Some i \<Longrightarrow> xs = take i xs @ xs ! i # drop (Suc i) xs"
  by (simp add: position_less id_take_nth_drop)


section \<open>Decimal round trip\<close>

lemma utf8_valid_ascii: "\<forall>b \<in> set bs. b < 0x80 \<Longrightarrow> utf8_valid bs"
  by (induction bs) auto

lemma is_digit_of_nat: "d < 10 \<Longrightarrow> is_digit (48 + of_nat d)"
  by (simp add: is_digit_def word_le_nat_alt unat_word_ariths unat_of_nat)

lemma digit_value_of_nat: "d < 10 \<Longrightarrow> unat ((48 + of_nat d :: u8) - 48) = d"
  by (simp add: unat_of_nat)

lemma decimal_nat_digits: "\<forall>b \<in> set (decimal_nat n). is_digit b"
proof (induction n rule: decimal_nat.induct)
  case (1 n)
  show ?case
  proof (cases "n < 10")
    case True
    then show ?thesis by (simp add: decimal_nat.simps [of n] is_digit_of_nat)
  next
    case False
    with 1 show ?thesis by (auto simp: decimal_nat.simps [of n] is_digit_of_nat)
  qed
qed

lemma decimal_nat_not_Nil [simp]: "decimal_nat n \<noteq> []"
  by (subst decimal_nat.simps) simp

lemma digits_value_append:
  "digits_value acc (xs @ ys) = Option.bind (digits_value acc xs) (\<lambda>a. digits_value a ys)"
  by (induction acc xs rule: digits_value.induct) auto

lemma digits_value_decimal_nat [simp]: "digits_value 0 (decimal_nat n) = Some n"
proof (induction n rule: decimal_nat.induct)
  case (1 n)
  show ?case
  proof (cases "n < 10")
    case True
    then show ?thesis by (simp add: decimal_nat.simps [of n] is_digit_of_nat unat_of_nat)
  next
    case False
    with 1 show ?thesis
      by (simp add: decimal_nat.simps [of n] digits_value_append is_digit_of_nat unat_of_nat)
  qed
qed

lemma decimal_nat_zero_padding:
  "decimal_nat n ! 0 = 48 \<Longrightarrow> n = 0"
proof (induction n rule: decimal_nat.induct)
  case (1 n)
  show ?case
  proof (cases "n < 10")
    case True
    with "1.prems" have "of_nat n = (0 :: u8)" by (simp add: decimal_nat.simps [of n])
    with True show ?thesis by (auto simp: word_of_nat_eq_0_iff dest: dvd_imp_le)
  next
    case False
    then have "decimal_nat n ! 0 = decimal_nat (n div 10) ! 0"
      by (simp add: decimal_nat.simps [of n] nth_append)
    with False 1 show ?thesis by simp
  qed
qed

lemma decimal_nat_0 [simp]: "decimal_nat 0 = [48]"
  by (simp add: decimal_nat.simps)

lemma digit_cases:
  assumes "is_digit b"
  obtains d where "d < 10" "b = 48 + of_nat d" "unat (b - 48) = d"
proof
  from assms have le: "48 \<le> b" and "unat b \<le> 57" by (auto simp: is_digit_def word_le_nat_alt)
  then have *: "unat (b - 48) = unat b - 48" by (simp add: unat_sub)
  with \<open>unat b \<le> 57\<close> show "unat (b - 48) < 10" by simp
qed simp_all

text \<open>A digit string without zero padding is the decimal form of its value.\<close>

lemma digits_value_unique:
  assumes "digits_value 0 ds = Some n" and "ds \<noteq> []" and "1 < length ds \<longrightarrow> ds ! 0 \<noteq> 48"
  shows "ds = decimal_nat n"
  using assms
proof (induction ds arbitrary: n rule: rev_induct)
  case (snoc b ds)
  then have "is_digit b" by (auto simp: digits_value_append split: bind_splits if_splits)
  then obtain d where d: "d < 10" "b = 48 + of_nat d" "unat (b - 48) = d" by (rule digit_cases)
  show ?case
  proof (cases "ds = []")
    case True
    with snoc.prems \<open>is_digit b\<close> d show ?thesis by (simp add: decimal_nat.simps)
  next
    case False
    with snoc.prems \<open>is_digit b\<close> d(3) obtain m where m: "digits_value 0 ds = Some m" "n = 10 * m + d"
      by (auto simp: digits_value_append split: bind_splits)
    from False snoc.prems have "ds ! 0 \<noteq> 48" by (simp add: nth_append split: if_splits)
    with snoc.IH [OF m(1) False] have ds: "ds = decimal_nat m" by simp
    with \<open>ds ! 0 \<noteq> 48\<close> have "m \<noteq> 0" by (cases "m = 0") auto
    with m(2) d ds show ?thesis by (simp add: decimal_nat.simps [of "10 * m + d"])
  qed
qed simp

lemma decimal_int_digits: "b \<in> set (decimal_int i) \<Longrightarrow> b = 45 \<or> is_digit b"
  by (auto simp: decimal_int_def decimal_nat_digits split: if_splits)

lemma decimal_int_not_Nil [simp]: "decimal_int i \<noteq> []"
  by (simp add: decimal_int_def)

lemma i64_from_decimal_int: "i64_range i \<Longrightarrow> i64_from_str (decimal_int i) = Some i"
proof -
  assume i: "i64_range i"
  show ?thesis
  proof (cases "i < 0")
    case True
    with i show ?thesis by (simp add: i64_from_str_def decimal_int_def)
  next
    case False
    obtain c cs where cs: "decimal_nat (nat i) = c # cs" by (cases "decimal_nat (nat i)") auto
    with decimal_nat_digits [of "nat i"] have "is_digit c" by simp
    then have "c \<noteq> 45" and "c \<noteq> 43" by (auto simp: is_digit_def)
    with False i cs digits_value_decimal_nat [of "nat i"] show ?thesis
      by (simp add: i64_from_str_def decimal_int_def del: digits_value_decimal_nat)
  qed
qed

lemma decimal_int_utf8 [simp]: "utf8_valid (decimal_int i)"
  by (rule utf8_valid_ascii) (auto dest!: decimal_int_digits simp: is_digit_def word_less_nat_alt word_le_nat_alt)

section \<open>Big-endian integers\<close>

text \<open>The value of a byte string in network order, and the byte string of a given length.\<close>

definition be_value :: "bytes \<Rightarrow> nat" where
  "be_value bs = foldl (\<lambda>acc b. 256 * acc + unat b) 0 bs"

fun be_bytes :: "nat \<Rightarrow> nat \<Rightarrow> bytes" where
  "be_bytes 0 n = []"
| "be_bytes (Suc k) n = be_bytes k (n div 256) @ [of_nat (n mod 256)]"

lemma be_value_Nil [simp]: "be_value [] = 0"
  by (simp add: be_value_def)

lemma be_value_snoc [simp]: "be_value (bs @ [b]) = 256 * be_value bs + unat b"
  by (simp add: be_value_def)

lemma length_be_bytes [simp]: "length (be_bytes k n) = k"
  by (induction k n rule: be_bytes.induct) simp_all

lemma unat_u8_less: "unat (b :: u8) < 256"
  using unsigned_less [of b, where ?'a = nat] by simp

lemma be_value_less: "be_value bs < 256 ^ length bs"
proof (induction bs rule: rev_induct)
  case (snoc b bs)
  with unat_u8_less [of b] show ?case by simp
qed simp

lemma be_value_be_bytes [simp]: "be_value (be_bytes k n) = n mod 256 ^ k"
proof (induction k n rule: be_bytes.induct)
  case (2 k n)
  then show ?case by (simp add: unat_of_nat mod_mult2_eq)
qed simp

lemma be_bytes_be_value [simp]: "length bs = k \<Longrightarrow> be_bytes k (be_value bs) = bs"
proof (induction bs arbitrary: k rule: rev_induct)
  case (snoc b bs)
  have "unat b < 256" by (rule unat_u8_less)
  then have "(256 * be_value bs + unat b) div 256 = be_value bs"
    and "(256 * be_value bs + unat b) mod 256 = unat b" by simp_all
  with snoc show ?case by (cases k) simp_all
qed simp

section \<open>Chunks of a slice\<close>

function chunks :: "nat \<Rightarrow> 'a list \<Rightarrow> 'a list list" where
  "chunks n xs = (if xs = [] \<or> n = 0 then [] else take n xs # chunks n (drop n xs))"
  by pat_completeness auto
termination
  by (relation "measure (\<lambda>(n, xs). length xs)") auto

declare chunks.simps [simp del]

lemma concat_chunks: "0 < n \<Longrightarrow> concat (chunks n xs) = xs \<and> (\<forall>c \<in> set (chunks n xs). length c \<le> n \<and> c \<noteq> [])"
proof (induction n xs rule: chunks.induct)
  case (1 n xs)
  show ?case
  proof (cases "xs = []")
    case True
    then show ?thesis by (simp add: chunks.simps [of n "[]"])
  next
    case False
    with 1 have "chunks n xs = take n xs # chunks n (drop n xs)" by (simp add: chunks.simps [of n xs])
    with 1 False show ?thesis by auto
  qed
qed

end
