(* ===== verification/BTree_Map.thy ===== *)
theory BTree_Map
  imports Rust_Prelude
begin

text \<open>
  The ordered map of Rust's standard library, \<open>BTreeMap\<close>, as the association list its
  iterator yields (keys strictly ascending), and the trait \<open>BDictAccess\<close> that
  \<open>src/bencode/access/dict.rs\<close> implements for it. The trait is the locale \<open>bdict_access\<close>;
  its laws are what the bencode encoder, the conversion layer and the message builders rely on.
\<close>

section \<open>The map and the trait's operations\<close>

type_synonym ('k, 'v) btree_map = "('k \<times> 'v) list"

definition btree_wf :: "('k::linorder, 'v) btree_map \<Rightarrow> bool" where
  "btree_wf m \<longleftrightarrow> sorted_wrt (<) (map fst m)"

text \<open>\<open>BTreeMap::insert\<close>: the old value, if any, and the updated map.\<close>

fun btree_put :: "('k::linorder, 'v) btree_map \<Rightarrow> 'k \<Rightarrow> 'v \<Rightarrow> ('k, 'v) btree_map" where
  "btree_put [] k v = [(k, v)]"
| "btree_put ((k', v') # m) k v =
     (if k < k' then (k, v) # (k', v') # m
      else if k = k' then (k, v) # m
      else (k', v') # btree_put m k v)"

definition dict_new :: "('k, 'v) btree_map" where
  "dict_new = []"

definition dict_to_list :: "('k, 'v) btree_map \<Rightarrow> ('k \<times> 'v) list" where
  "dict_to_list m = m"

definition dict_lookup :: "('k, 'v) btree_map \<Rightarrow> 'k \<Rightarrow> 'v option" where
  "dict_lookup m k = map_of m k"

definition dict_insert ::
    "('k::linorder, 'v) btree_map \<Rightarrow> 'k \<Rightarrow> 'v \<Rightarrow> 'v option \<times> ('k, 'v) btree_map" where
  "dict_insert m k v = (map_of m k, btree_put m k v)"

definition dict_remove ::
    "('k, 'v) btree_map \<Rightarrow> 'k \<Rightarrow> 'v option \<times> ('k, 'v) btree_map" where
  "dict_remove m k = (map_of m k, filter (\<lambda>(k', v). k' \<noteq> k) m)"

text \<open>\<open>lookup_mut\<close> hands out a mutable reference; the caller's write through it is \<open>f\<close>.\<close>

definition dict_lookup_mut ::
    "('k, 'v) btree_map \<Rightarrow> 'k \<Rightarrow> ('v \<Rightarrow> 'v) \<Rightarrow> ('k, 'v) btree_map" where
  "dict_lookup_mut m k f = map (\<lambda>(k', v). if k' = k then (k', f v) else (k', v)) m"

text \<open>\<open>keys().last()\<close>.\<close>

definition btree_last_key :: "('k, 'v) btree_map \<Rightarrow> 'k option" where
  "btree_last_key m = (if m = [] then None else Some (fst (last m)))"

section \<open>The interface\<close>

locale bdict_access =
  fixes new :: 'm
    and to_list :: "'m \<Rightarrow> ('k \<times> 'v) list"
    and lookup :: "'m \<Rightarrow> 'k \<Rightarrow> 'v option"
    and insert :: "'m \<Rightarrow> 'k \<Rightarrow> 'v \<Rightarrow> 'v option \<times> 'm"
    and remove :: "'m \<Rightarrow> 'k \<Rightarrow> 'v option \<times> 'm"
    and invar :: "'m \<Rightarrow> bool"
  assumes lookup_new: "lookup new k = None"
    and invar_new: "invar new"
    and lookup_insert: "invar m \<Longrightarrow> lookup (snd (insert m k v)) = (lookup m)(k \<mapsto> v)"
    and insert_old: "fst (insert m k v) = lookup m k"
    and invar_insert: "invar m \<Longrightarrow> invar (snd (insert m k v))"
    and lookup_remove: "invar m \<Longrightarrow> lookup (snd (remove m k)) = (lookup m)(k := None)"
    and remove_old: "fst (remove m k) = lookup m k"
    and invar_remove: "invar m \<Longrightarrow> invar (snd (remove m k))"
    and to_list_lookup: "invar m \<Longrightarrow> map_of (to_list m) = lookup m"
    and to_list_keys: "invar m \<Longrightarrow> distinct (map fst (to_list m))"
begin

text \<open>Inserting a list of pairs one after the other, as the \<open>ben_map!\<close> macro does.\<close>

lemma invar_inserts:
  "invar m \<Longrightarrow> invar (fold (\<lambda>(k, v) m. snd (insert m k v)) kvs m)"
proof (induction kvs arbitrary: m)
  case (Cons kv kvs)
  then show ?case by (cases kv) (simp add: invar_insert)
qed simp

lemma lookup_inserts:
  "invar m \<Longrightarrow>
   lookup (fold (\<lambda>(k, v) m. snd (insert m k v)) kvs m) = lookup m ++ map_of (rev kvs)"
proof (induction kvs arbitrary: m)
  case (Cons kv kvs)
  obtain k v where kv: "kv = (k, v)" by (cases kv)
  from Cons show ?case
    by (simp add: kv invar_insert lookup_insert map_add_assoc [symmetric] map_add_upd_left
        fun_eq_iff map_add_def split: option.splits)
qed simp

lemma lookup_inserts_new:
  "lookup (fold (\<lambda>(k, v) m. snd (insert m k v)) kvs new) = map_of (rev kvs)"
  using lookup_inserts [OF invar_new] by (simp add: fun_eq_iff map_add_def lookup_new split: option.splits)

lemma insert_remove_absent:
  "invar m \<Longrightarrow> lookup m k = None \<Longrightarrow> lookup (snd (remove (snd (insert m k v)) k)) = lookup m"
  by (simp add: invar_insert lookup_insert lookup_remove fun_upd_idem)

lemma to_list_mem:
  "invar m \<Longrightarrow> (k, v) \<in> set (to_list m) \<longleftrightarrow> lookup m k = Some v"
  by (metis map_of_eq_Some_iff to_list_keys to_list_lookup)

end

section \<open>The map implements the interface\<close>

lemma btree_wf_Nil [simp]: "btree_wf []"
  by (simp add: btree_wf_def)

lemma btree_wf_Cons: "btree_wf ((k, v) # m) \<longleftrightarrow> (\<forall>k' \<in> fst ` set m. k < k') \<and> btree_wf m"
  by (auto simp: btree_wf_def)

lemma btree_wf_distinct: "btree_wf m \<Longrightarrow> distinct (map fst m)"
  by (simp add: btree_wf_def strict_sorted_iff)

lemma map_of_btree_put: "map_of (btree_put m k v) = (map_of m)(k \<mapsto> v)"
  by (induction m k v rule: btree_put.induct) (auto simp: fun_eq_iff)

lemma keys_btree_put: "fst ` set (btree_put m k v) = insert k (fst ` set m)"
  by (induction m k v rule: btree_put.induct) auto

lemma btree_wf_put: "btree_wf m \<Longrightarrow> btree_wf (btree_put m k v)"
proof (induction m k v rule: btree_put.induct)
  case (2 k' v' m k v)
  then show ?case by (force simp: btree_wf_Cons keys_btree_put)
qed (simp add: btree_wf_Cons)

lemma btree_put_snoc:
  assumes "\<forall>k' \<in> fst ` set m. k' < k"
  shows "btree_put m k v = m @ [(k, v)]"
  using assms by (induction m k v rule: btree_put.induct) auto

lemma btree_wf_filter: "btree_wf m \<Longrightarrow> btree_wf (filter P m)"
  by (induction m) (auto simp: btree_wf_def)

lemma map_of_filter_neq:
  "map_of (filter (\<lambda>(k', v). k' \<noteq> k) m) = (map_of m)(k := None)"
  by (induction m) (auto simp: fun_eq_iff)

lemma btree_wf_snoc_iff:
  "btree_wf (m @ [(k, v)]) \<longleftrightarrow> btree_wf m \<and> (\<forall>k' \<in> fst ` set m. k' < k)"
  by (auto simp: btree_wf_def sorted_wrt_append)

lemma btree_last_key_greatest:
  assumes "btree_wf m" and "btree_last_key m = Some k"
  shows "\<forall>k' \<in> fst ` set m. k' \<le> k"
proof (cases m rule: rev_cases)
  case Nil
  with assms show ?thesis by (simp add: btree_last_key_def)
next
  case (snoc ys y)
  with assms show ?thesis
    by (cases y) (auto simp: btree_last_key_def btree_wf_snoc_iff less_imp_le)
qed

interpretation btree: bdict_access
  "dict_new :: ('k::linorder, 'v) btree_map" dict_to_list dict_lookup dict_insert dict_remove btree_wf
proof
  fix m :: "('k, 'v) btree_map" and k v
  show "dict_lookup (dict_new :: ('k, 'v) btree_map) k = None"
    by (simp add: dict_new_def dict_lookup_def)
  show "btree_wf (dict_new :: ('k, 'v) btree_map)"
    by (simp add: dict_new_def)
  show "fst (dict_insert m k v) = dict_lookup m k"
    by (simp add: dict_insert_def dict_lookup_def)
  show "fst (dict_remove m k) = dict_lookup m k"
    by (simp add: dict_remove_def dict_lookup_def)
  assume wf: "btree_wf m"
  show "dict_lookup (snd (dict_insert m k v)) = (dict_lookup m)(k \<mapsto> v)"
    by (simp add: dict_insert_def dict_lookup_def fun_eq_iff map_of_btree_put)
  show "btree_wf (snd (dict_insert m k v))"
    using wf by (simp add: dict_insert_def btree_wf_put)
  show "dict_lookup (snd (dict_remove m k)) = (dict_lookup m)(k := None)"
    by (simp add: dict_remove_def dict_lookup_def fun_eq_iff map_of_filter_neq)
  show "btree_wf (snd (dict_remove m k))"
    using wf by (simp add: dict_remove_def btree_wf_filter)
  show "map_of (dict_to_list m) = dict_lookup m"
    by (simp add: dict_to_list_def dict_lookup_def fun_eq_iff)
  show "distinct (map fst (dict_to_list m))"
    using wf by (simp add: dict_to_list_def btree_wf_distinct)
qed

text \<open>Two maps with the same entries are the same list.\<close>

lemma btree_ext:
  assumes "btree_wf m" and "btree_wf n" and "dict_lookup m = dict_lookup n"
  shows "m = n"
proof -
  have "set m = set n"
    using btree.to_list_mem [OF assms(1)] btree.to_list_mem [OF assms(2)] assms(3)
    by (auto simp: dict_to_list_def)
  with assms(1,2) show ?thesis
    by (intro map_sorted_distinct_set_unique [where f = fst])
       (auto simp: btree_wf_def strict_sorted_iff distinct_map)
qed

end
