(* ===== verification/Bencode_Decode.thy ===== *)
theory Bencode_Decode
  imports BTree_Map
begin

text \<open>
  The zero-copy decoder of \<open>src/bencode/reference\<close>: its options, its errors, the
  \<open>BencodeRef\<close> value with the buffer slice every node carries, and the mutually recursive
  functions \<open>decode\<close>, \<open>decode_list\<close> and \<open>decode_dict\<close> with the positions they pass along.
  Positions are \<open>nat\<close>: a \<open>usize\<close> that indexes a slice stays far below its width.
\<close>

section \<open>Constants, errors, options\<close>

definition BEN_END :: u8 where "BEN_END = 101"
definition DICT_START :: u8 where "DICT_START = 100"
definition LIST_START :: u8 where "LIST_START = 108"
definition INT_START :: u8 where "INT_START = 105"
definition BYTE_LEN_LOW :: u8 where "BYTE_LEN_LOW = 48"
definition BYTE_LEN_HIGH :: u8 where "BYTE_LEN_HIGH = 57"
definition BYTE_LEN_END :: u8 where "BYTE_LEN_END = 58"

lemmas ben_consts =
  BEN_END_def DICT_START_def LIST_START_def INT_START_def
  BYTE_LEN_LOW_def BYTE_LEN_HIGH_def BYTE_LEN_END_def

datatype bencode_parse_error =
    BytesEmpty nat
  | InvalidByte nat
  | InvalidIntNoDelimiter nat
  | InvalidIntNegativeZero nat
  | InvalidIntZeroPadding nat
  | InvalidIntParseError nat
  | InvalidKeyOrdering nat bytes
  | InvalidKeyDuplicates nat bytes
  | InvalidLengthNegative nat
  | InvalidLengthOverflow nat
  | InvalidRecursionExceeded nat nat

type_synonym 'a parse_result = "('a, bencode_parse_error) outcome"

record bdecode_opt =
  max_recursion :: nat
  check_key_sort :: bool
  enforce_full_decode :: bool

definition bdecode_opt_default :: bdecode_opt where
  "bdecode_opt_default =
     \<lparr>max_recursion = 50, check_key_sort = False, enforce_full_decode = True\<rparr>"

text \<open>\<open>InnerBencodeRef\<close>: each node keeps the slice of the input it was decoded from.\<close>

datatype bencode_ref =
    RInt int bytes
  | RBytes bytes bytes
  | RList "bencode_ref list" bytes
  | RDict "(bytes \<times> bencode_ref) list" bytes

fun buffer :: "bencode_ref \<Rightarrow> bytes" where
  "buffer (RInt _ b) = b"
| "buffer (RBytes _ b) = b"
| "buffer (RList _ b) = b"
| "buffer (RDict _ b) = b"

section \<open>The decoder\<close>

definition peek_byte :: "bytes \<Rightarrow> nat \<Rightarrow> u8 parse_result" where
  "peek_byte bytes pos = ok_or (get_slice bytes pos) (BytesEmpty pos)"

definition decode_int :: "bytes \<Rightarrow> nat \<Rightarrow> u8 \<Rightarrow> (int \<times> nat) parse_result" where
  "decode_int bytes pos delim =
     and_then (slice_range bytes pos (length bytes)) (\<lambda>begin_decode.
       case position (\<lambda>n. n = delim) begin_decode of
         None \<Rightarrow> Err (InvalidIntNoDelimiter pos)
       | Some relative_end_pos \<Rightarrow>
           let int_byte_slice = take relative_end_pos begin_decode in
           if length int_byte_slice > 1 \<and> int_byte_slice ! 0 = 45 \<and> int_byte_slice ! 1 = 48
           then Err (InvalidIntNegativeZero pos)
           else if length int_byte_slice > 1 \<and> int_byte_slice ! 0 = 48
           then Err (InvalidIntZeroPadding pos)
           else if \<not> utf8_valid int_byte_slice then Err (InvalidIntParseError pos)
           else case i64_from_str int_byte_slice of
                  Some n \<Rightarrow> Ok (n, pos + relative_end_pos + 1)
                | None \<Rightarrow> Err (InvalidIntParseError pos))"

definition decode_bytes :: "bytes \<Rightarrow> nat \<Rightarrow> (bytes \<times> nat) parse_result" where
  "decode_bytes bytes pos =
     and_then (decode_int bytes pos BYTE_LEN_END) (\<lambda>(num_bytes, start_pos).
       if num_bytes < 0 then Err (InvalidLengthNegative pos)
       else and_then (slice_range bytes start_pos (length bytes)) (\<lambda>rest.
         if nat num_bytes > length rest then Err (InvalidLengthOverflow pos)
         else
           let next_pos = start_pos + nat num_bytes in
           and_then (slice_range bytes start_pos next_pos) (\<lambda>s. Ok (s, next_pos))))"

lemma peek_byte_eq_Ok [simp]: "peek_byte bytes pos = Ok c \<longleftrightarrow> pos < length bytes \<and> bytes ! pos = c"
  by (auto simp: peek_byte_def get_slice_def)

lemma peek_byte_eq_Err [simp]:
  "peek_byte bytes pos = Err e \<longleftrightarrow> length bytes \<le> pos \<and> e = BytesEmpty pos"
  by (auto simp: peek_byte_def get_slice_def)

lemma peek_byte_not_Panic [simp]: "peek_byte bytes pos \<noteq> Panic"
  by (simp add: peek_byte_def)

lemma decode_int_progress:
  assumes "decode_int bytes pos delim = Ok (n, next_pos)"
  shows "pos < next_pos \<and> next_pos \<le> length bytes"
proof -
  from assms obtain i where le: "pos \<le> length bytes"
      and i: "position (\<lambda>n. n = delim) (drop pos bytes) = Some i" and np: "next_pos = pos + i + 1"
    by (auto simp: decode_int_def slice_range_eq_Ok Let_def split: option.splits if_splits)
  from position_less [OF i] le show ?thesis by (simp add: np)
qed

lemma decode_bytes_progress:
  assumes "decode_bytes bytes pos = Ok (s, next_pos)"
  shows "pos < next_pos \<and> next_pos \<le> length bytes"
proof -
  from assms obtain n start where i: "decode_int bytes pos BYTE_LEN_END = Ok (n, start)"
      and le: "nat n \<le> length bytes - start" and np: "next_pos = start + nat n"
    by (auto simp: decode_bytes_def slice_range_eq_Ok Let_def split: if_splits)
  from decode_int_progress [OF i] le show ?thesis by (auto simp: np)
qed

text \<open>The key checks of one round of the \<open>while\<close> loop of \<open>decode_dict\<close>.\<close>

definition key_out_of_order :: "bdecode_opt \<Rightarrow> (bytes \<times> bencode_ref) list \<Rightarrow> bytes \<Rightarrow> bool" where
  "key_out_of_order opts dict key_bytes =
     (case btree_last_key dict of
        Some last_key \<Rightarrow> check_key_sort opts \<and> key_bytes < last_key
      | None \<Rightarrow> False)"

text \<open>
  The loops of \<open>decode_list\<close> and \<open>decode_dict\<close> are recursive functions on the current position
  and the container built so far. A value inside a dictionary is decoded with \<open>unwrap()\<close>, so its
  error is a panic of the whole call.
\<close>

function decode :: "bytes \<Rightarrow> nat \<Rightarrow> bdecode_opt \<Rightarrow> nat \<Rightarrow> (bencode_ref \<times> nat) parse_result"
  and decode_list ::
    "bytes \<Rightarrow> nat \<Rightarrow> bdecode_opt \<Rightarrow> nat \<Rightarrow> bencode_ref list \<Rightarrow> (bencode_ref list \<times> nat) parse_result"
  and decode_dict ::
    "bytes \<Rightarrow> nat \<Rightarrow> bdecode_opt \<Rightarrow> nat \<Rightarrow> (bytes \<times> bencode_ref) list \<Rightarrow>
       ((bytes \<times> bencode_ref) list \<times> nat) parse_result"
where
  "decode bytes pos opts depth =
     (if depth \<ge> max_recursion opts then Err (InvalidRecursionExceeded pos depth)
      else and_then (peek_byte bytes pos) (\<lambda>curr_byte.
        if curr_byte = INT_START then
          and_then (decode_int bytes (pos + 1) BEN_END) (\<lambda>(n, next_pos).
            and_then (slice_range bytes pos next_pos) (\<lambda>buf. Ok (RInt n buf, next_pos)))
        else if curr_byte = LIST_START then
          and_then (decode_list bytes (pos + 1) opts depth []) (\<lambda>(l, next_pos).
            and_then (slice_range bytes pos next_pos) (\<lambda>buf. Ok (RList l buf, next_pos)))
        else if curr_byte = DICT_START then
          and_then (decode_dict bytes (pos + 1) opts depth []) (\<lambda>(d, next_pos).
            and_then (slice_range bytes pos next_pos) (\<lambda>buf. Ok (RDict d buf, next_pos)))
        else if BYTE_LEN_LOW \<le> curr_byte \<and> curr_byte \<le> BYTE_LEN_HIGH then
          and_then (decode_bytes bytes pos) (\<lambda>(s, next_pos).
            and_then (slice_range bytes pos next_pos) (\<lambda>buf. Ok (RBytes s buf, next_pos)))
        else Err (InvalidByte pos)))"
| "decode_list bytes curr_pos opts depth bencode_list =
     and_then (peek_byte bytes curr_pos) (\<lambda>curr_byte.
       if curr_byte = BEN_END then Ok (bencode_list, curr_pos + 1)
       else and_then (decode bytes curr_pos opts (depth + 1)) (\<lambda>(bencode, next_pos).
         decode_list bytes next_pos opts depth (bencode_list @ [bencode])))"
| "decode_dict bytes curr_pos opts depth bencode_dict =
     and_then (peek_byte bytes curr_pos) (\<lambda>curr_byte.
       if curr_byte = BEN_END then Ok (bencode_dict, curr_pos + 1)
       else and_then (decode_bytes bytes curr_pos) (\<lambda>(key_bytes, value_pos).
         if key_out_of_order opts bencode_dict key_bytes
         then Err (InvalidKeyOrdering curr_pos key_bytes)
         else and_then (unwrap (decode bytes value_pos opts (depth + 1))) (\<lambda>(value, next_pos).
           if dict_lookup bencode_dict key_bytes \<noteq> None
           then Err (InvalidKeyDuplicates value_pos key_bytes)
           else decode_dict bytes next_pos opts depth
                  (snd (dict_insert bencode_dict key_bytes value)))))"
  by pat_completeness auto


text \<open>
  Every call that returns moves the position forward and stays within the input. The lemma is
  proved on the domain of the functions first, because their termination rests on it.
\<close>

lemma decode_progress_dom:
  shows "decode_decode_list_decode_dict_dom (Inl (bytes, pos, opts, depth)) \<Longrightarrow>
      decode bytes pos opts depth = Ok (b, next_pos) \<Longrightarrow> pos < next_pos \<and> next_pos \<le> length bytes"
    and "decode_decode_list_decode_dict_dom (Inr (Inl (bytes, pos, opts, depth, l))) \<Longrightarrow>
      decode_list bytes pos opts depth l = Ok (l', next_pos) \<Longrightarrow> pos < next_pos \<and> next_pos \<le> length bytes"
    and "decode_decode_list_decode_dict_dom (Inr (Inr (bytes, pos, opts, depth, d))) \<Longrightarrow>
      decode_dict bytes pos opts depth d = Ok (d', next_pos) \<Longrightarrow> pos < next_pos \<and> next_pos \<le> length bytes"
proof (induction bytes pos opts depth and bytes pos opts depth l and bytes pos opts depth d
    arbitrary: b next_pos and l' next_pos and d' next_pos
    rule: decode_decode_list_decode_dict.pinduct)

  case (1 bytes pos opts depth)
  have l: "pos + 1 < np \<and> np \<le> length bytes"
    if "decode_list bytes (Suc pos) opts depth [] = Ok (l', np)"
      "pos < length bytes" "bytes ! pos = LIST_START" "\<not> max_recursion opts \<le> depth" for l' np
    using "1.IH"(1) [of "bytes ! pos" l' np] that by (simp add: ben_consts)
  have d: "pos + 1 < np \<and> np \<le> length bytes"
    if "decode_dict bytes (Suc pos) opts depth [] = Ok (d', np)"
      "pos < length bytes" "bytes ! pos = DICT_START" "\<not> max_recursion opts \<le> depth" for d' np
    using "1.IH"(2) [of "bytes ! pos" d' np] that by (simp add: ben_consts)
  from "1.prems" consider
      n where "decode_int bytes (Suc pos) BEN_END = Ok (n, next_pos)"
    | l' where "decode_list bytes (Suc pos) opts depth [] = Ok (l', next_pos)"
      "pos < length bytes" "bytes ! pos = LIST_START" "\<not> max_recursion opts \<le> depth"
    | d' where "decode_dict bytes (Suc pos) opts depth [] = Ok (d', next_pos)"
      "pos < length bytes" "bytes ! pos = DICT_START" "\<not> max_recursion opts \<le> depth"
    | s where "decode_bytes bytes pos = Ok (s, next_pos)"
    by (auto simp: decode.psimps [OF "1.hyps"] split: if_splits)
  then show ?case
  proof cases
    case 1
    then show ?thesis by (auto dest: decode_int_progress)
  next
    case 2
    then show ?thesis using l by force
  next
    case 3
    then show ?thesis using d by force
  next
    case 4
    then show ?thesis by (rule decode_bytes_progress)
  qed
next
  case (2 bytes pos opts depth l)
  from "2.prems" consider "next_pos = pos + 1" "pos < length bytes"
    | b p where "pos < length bytes" "bytes ! pos \<noteq> BEN_END"
      "decode bytes pos opts (depth + 1) = Ok (b, p)"
      "decode_list bytes p opts depth (l @ [b]) = Ok (l', next_pos)"
    by (auto simp: decode_list.psimps [OF "2.hyps"] split: if_splits)
  then show ?case
  proof cases
    case 2
    then have "pos < p" using "2.IH"(1) by simp
    moreover from 2 have "p < next_pos \<and> next_pos \<le> length bytes" using "2.IH"(2) by simp
    ultimately show ?thesis by simp
  qed simp
next
  case (3 bytes pos opts depth d)
  from "3.prems" consider "next_pos = pos + 1" "pos < length bytes"
    | k p v q where "pos < length bytes" "bytes ! pos \<noteq> BEN_END" "decode_bytes bytes pos = Ok (k, p)"
      "\<not> key_out_of_order opts d k" "decode bytes p opts (depth + 1) = Ok (v, q)"
      "dict_lookup d k = None"
      "decode_dict bytes q opts depth (snd (dict_insert d k v)) = Ok (d', next_pos)"
    by (auto simp: decode_dict.psimps [OF "3.hyps"] split: if_splits)
  then show ?case
  proof cases
    case 2
    then have "pos < p" by (blast dest: decode_bytes_progress)
    moreover from 2 have "p < q" using "3.IH"(1) by simp
    moreover from 2 have "q < next_pos \<and> next_pos \<le> length bytes" using "3.IH"(2) by simp
    ultimately show ?thesis by simp
  qed simp
qed

text \<open>
  The remaining recursion depth decreases from a loop to the value it decodes (a value at the
  limit is not entered), the rest of the input from one round of a loop to the next.
\<close>

definition depth_left :: "bdecode_opt \<Rightarrow> nat \<Rightarrow> nat" where
  "depth_left opts depth = Suc (max_recursion opts - depth)"

lemma decode_total: "All decode_decode_list_decode_dict_dom"
proof (relation "measures
    [case_sum (\<lambda>(bytes, pos, opts, depth).
        if max_recursion opts \<le> depth then 0 else depth_left opts depth)
      (case_sum (\<lambda>(bytes, pos, opts, depth, l). depth_left opts depth)
        (\<lambda>(bytes, pos, opts, depth, d). depth_left opts depth)),
     case_sum (\<lambda>(bytes, pos, opts, depth). length bytes - pos)
      (case_sum (\<lambda>(bytes, pos, opts, depth, l). length bytes - pos)
        (\<lambda>(bytes, pos, opts, depth, d). length bytes - pos))]", goal_cases)
  case (5 bytes pos opts depth l c r b next_pos)
  then have "pos < next_pos" by (metis decode_progress_dom(1))
  with 5 show ?case by auto
next
  case (7 bytes pos opts depth d c r k p r' v next_pos)
  from 7 have "decode bytes p opts (depth + 1) = Ok (v, next_pos)" by (simp only: unwrap_eq_Ok)
  with 7(9) have "p < next_pos" using decode_progress_dom(1) by blast
  moreover have "pos < p" using decode_bytes_progress [of bytes pos k p] 7(3,4) by auto
  ultimately have "pos < next_pos" by simp
  with 7 show ?case by auto
qed (auto simp: depth_left_def)

termination decode
  by (rule decode_total)

lemmas decode_progress = decode_progress_dom [OF decode_total [THEN spec]]

declare decode.simps [simp del] decode_list.simps [simp del] decode_dict.simps [simp del]

text \<open>
  An induction rule for successful runs: one case per way a value, a list loop or a dictionary
  loop returns.
\<close>

lemma decode_Ok_induct [case_names Int Lst Dict Byts Lnil Lcons Dnil Dcons]:
  fixes P :: "nat \<Rightarrow> nat \<Rightarrow> bencode_ref \<Rightarrow> nat \<Rightarrow> bool"
    and Q :: "nat \<Rightarrow> nat \<Rightarrow> bencode_ref list \<Rightarrow> bencode_ref list \<Rightarrow> nat \<Rightarrow> bool"
    and R :: "nat \<Rightarrow> nat \<Rightarrow> (bytes \<times> bencode_ref) list \<Rightarrow> (bytes \<times> bencode_ref) list \<Rightarrow> nat \<Rightarrow> bool"
  assumes Int: "\<And>pos depth n np. depth < max_recursion opts \<Longrightarrow> pos < length bytes \<Longrightarrow> bytes ! pos = INT_START \<Longrightarrow>
      decode_int bytes (Suc pos) BEN_END = Ok (n, np) \<Longrightarrow> P pos depth (RInt n (take (np - pos) (drop pos bytes))) np"
    and Lst: "\<And>pos depth l np. depth < max_recursion opts \<Longrightarrow> pos < length bytes \<Longrightarrow> bytes ! pos = LIST_START \<Longrightarrow>
      decode_list bytes (Suc pos) opts depth [] = Ok (l, np) \<Longrightarrow> Q (Suc pos) depth [] l np \<Longrightarrow>
      P pos depth (RList l (take (np - pos) (drop pos bytes))) np"
    and Dict: "\<And>pos depth d np. depth < max_recursion opts \<Longrightarrow> pos < length bytes \<Longrightarrow> bytes ! pos = DICT_START \<Longrightarrow>
      decode_dict bytes (Suc pos) opts depth [] = Ok (d, np) \<Longrightarrow> R (Suc pos) depth [] d np \<Longrightarrow>
      P pos depth (RDict d (take (np - pos) (drop pos bytes))) np"
    and Byts: "\<And>pos depth s np. depth < max_recursion opts \<Longrightarrow> pos < length bytes \<Longrightarrow>
      BYTE_LEN_LOW \<le> bytes ! pos \<Longrightarrow> bytes ! pos \<le> BYTE_LEN_HIGH \<Longrightarrow>
      decode_bytes bytes pos = Ok (s, np) \<Longrightarrow> P pos depth (RBytes s (take (np - pos) (drop pos bytes))) np"
    and Lnil: "\<And>pos depth l. pos < length bytes \<Longrightarrow> bytes ! pos = BEN_END \<Longrightarrow> Q pos depth l l (Suc pos)"
    and Lcons: "\<And>pos depth l b np l' np'. pos < length bytes \<Longrightarrow>
      decode bytes pos opts (Suc depth) = Ok (b, np) \<Longrightarrow> P pos (Suc depth) b np \<Longrightarrow>
      decode_list bytes np opts depth (l @ [b]) = Ok (l', np') \<Longrightarrow> Q np depth (l @ [b]) l' np' \<Longrightarrow>
      Q pos depth l l' np'"
    and Dnil: "\<And>pos depth d. pos < length bytes \<Longrightarrow> bytes ! pos = BEN_END \<Longrightarrow> R pos depth d d (Suc pos)"
    and Dcons: "\<And>pos depth d k vp v np d' np'. pos < length bytes \<Longrightarrow>
      decode_bytes bytes pos = Ok (k, vp) \<Longrightarrow> \<not> key_out_of_order opts d k \<Longrightarrow>
      decode bytes vp opts (Suc depth) = Ok (v, np) \<Longrightarrow> P vp (Suc depth) v np \<Longrightarrow> dict_lookup d k = None \<Longrightarrow>
      decode_dict bytes np opts depth (snd (dict_insert d k v)) = Ok (d', np') \<Longrightarrow>
      R np depth (snd (dict_insert d k v)) d' np' \<Longrightarrow> R pos depth d d' np'"
  shows "decode bytes pos opts depth = Ok (b, np) \<Longrightarrow> P pos depth b np"
    and "decode_list bytes pos opts depth l = Ok (l', np) \<Longrightarrow> Q pos depth l l' np"
    and "decode_dict bytes pos opts depth d = Ok (d', np) \<Longrightarrow> R pos depth d d' np"
proof -
  have "decode bs pos os depth = Ok (b, np) \<Longrightarrow> bs = bytes \<Longrightarrow> os = opts \<Longrightarrow> P pos depth b np"
    and "decode_list bs pos os depth l = Ok (l', np) \<Longrightarrow> bs = bytes \<Longrightarrow> os = opts \<Longrightarrow> Q pos depth l l' np"
    and "decode_dict bs pos os depth d = Ok (d', np) \<Longrightarrow> bs = bytes \<Longrightarrow> os = opts \<Longrightarrow> R pos depth d d' np"
    for bs os
  proof (induction bs pos os depth and bs pos os depth l and bs pos os depth d
      arbitrary: b np and l' np and d' np rule: decode_decode_list_decode_dict.induct)
    case (1 bs pos os depth)
    have neq: "LIST_START \<noteq> INT_START" "DICT_START \<noteq> INT_START" "DICT_START \<noteq> LIST_START"
      by (simp_all add: ben_consts)
    have IH: "depth < max_recursion opts \<Longrightarrow> bytes ! pos = LIST_START \<Longrightarrow> pos < length bytes \<Longrightarrow>
        decode_list bytes (Suc pos) opts depth [] = Ok (l, np) \<Longrightarrow> Q (Suc pos) depth [] l np"
      "depth < max_recursion opts \<Longrightarrow> bytes ! pos = DICT_START \<Longrightarrow> pos < length bytes \<Longrightarrow>
        decode_dict bytes (Suc pos) opts depth [] = Ok (d, np) \<Longrightarrow> R (Suc pos) depth [] d np" for l d
      using "1.IH" [of "bytes ! pos"] "1.prems"(2,3) by (simp_all add: neq)
    from "1.prems" show ?case
      by (auto simp: decode.simps [of bytes pos opts] slice_range_eq_Ok not_le neq split: if_splits
          intro!: Int Lst Dict Byts IH)
  next
    case (2 bs pos os depth l)
    from "2.prems" consider "l' = l" "np = Suc pos" "pos < length bytes" "bytes ! pos = BEN_END"
      | b p where "pos < length bytes" "bytes ! pos \<noteq> BEN_END" "decode bytes pos opts (Suc depth) = Ok (b, p)"
        "decode_list bytes p opts depth (l @ [b]) = Ok (l', np)"
      by (auto simp: decode_list.simps [of bytes pos opts] split: if_splits)
    then show ?case
    proof cases
      case 1
      then show ?thesis by (simp add: Lnil)
    next
      case 2
      with "2.IH" "2.prems" show ?thesis by (intro Lcons [of pos depth b p]) auto
    qed
  next
    case (3 bs pos os depth d)
    from "3.prems" consider "d' = d" "np = Suc pos" "pos < length bytes" "bytes ! pos = BEN_END"
      | k p v q where "pos < length bytes" "bytes ! pos \<noteq> BEN_END" "decode_bytes bytes pos = Ok (k, p)"
        "\<not> key_out_of_order opts d k" "decode bytes p opts (Suc depth) = Ok (v, q)"
        "dict_lookup d k = None" "decode_dict bytes q opts depth (snd (dict_insert d k v)) = Ok (d', np)"
      by (auto simp: decode_dict.simps [of bytes pos opts] split: if_splits)
    then show ?case
    proof cases
      case 1
      then show ?thesis by (simp add: Dnil)
    next
      case 2
      with "3.IH" "3.prems" show ?thesis by (intro Dcons [of pos k p d depth v q]) auto
    qed
  qed
  then show "decode bytes pos opts depth = Ok (b, np) \<Longrightarrow> P pos depth b np"
    and "decode_list bytes pos opts depth l = Ok (l', np) \<Longrightarrow> Q pos depth l l' np"
    and "decode_dict bytes pos opts depth d = Ok (d', np) \<Longrightarrow> R pos depth d d' np"
    by blast+
qed

text \<open>\<open>BencodeRef::decode\<close>: decode from the start, then the check for trailing bytes.\<close>

definition bencode_decode :: "bytes \<Rightarrow> bdecode_opt \<Rightarrow> bencode_ref parse_result" where
  "bencode_decode bytes opts =
     and_then (decode bytes 0 opts 0) (\<lambda>(bencode, end_pos).
       if end_pos \<noteq> length bytes \<and> enforce_full_decode opts then Err (BytesEmpty end_pos)
       else Ok bencode)"

end
