(* ===== verification/Bencode_Encode.thy ===== *)
theory Bencode_Encode
  imports Bencode_Decode
begin

text \<open>
  The owned value \<open>BencodeMut\<close> of \<open>src/bencode/mutable\<close>, its constructors and mutable
  accessors, the \<open>ben_map!\<close>/\<open>ben_list!\<close> builders of \<open>src/bencode/mod.rs\<close>, and the encoder, which
  appends to the caller's buffer. The reference definition \<open>bencoding\<close> is the grammar of the
  format, free of buffers; \<open>encode_spec\<close> shows that the encoder appends exactly it.
\<close>

section \<open>The owned value\<close>

datatype bencode_mut =
    MInt int
  | MBytes bytes
  | MList "bencode_mut list"
  | MDict "(bytes \<times> bencode_mut) list"

definition new_int :: "int \<Rightarrow> bencode_mut" where "new_int value = MInt value"
definition new_bytes :: "bytes \<Rightarrow> bencode_mut" where "new_bytes value = MBytes value"
definition new_list :: bencode_mut where "new_list = MList []"
definition new_dict :: bencode_mut where "new_dict = MDict dict_new"

text \<open>\<open>list_mut\<close> and \<open>dict_mut\<close> hand out a mutable container; the caller's update of it is \<open>f\<close>.\<close>

fun list_mut :: "bencode_mut \<Rightarrow> (bencode_mut list \<Rightarrow> bencode_mut list) \<Rightarrow> bencode_mut option" where
  "list_mut (MList n) f = Some (MList (f n))"
| "list_mut _ f = None"

fun dict_mut ::
    "bencode_mut \<Rightarrow> ((bytes \<times> bencode_mut) list \<Rightarrow> (bytes \<times> bencode_mut) list) \<Rightarrow> bencode_mut option" where
  "dict_mut (MDict n) f = Some (MDict (f n))"
| "dict_mut _ f = None"

text \<open>The macros: a fresh container, then one \<open>insert\<close> or \<open>push\<close> per element.\<close>

definition ben_map :: "(bytes \<times> bencode_mut) list \<Rightarrow> bencode_mut option" where
  "ben_map kvs = dict_mut new_dict (fold (\<lambda>(k, v) m. snd (dict_insert m k v)) kvs)"

definition ben_list :: "bencode_mut list \<Rightarrow> bencode_mut option" where
  "ben_list vs = list_mut new_list (fold (\<lambda>v l. l @ [v]) vs)"

section \<open>The encoder\<close>

definition encode_int :: "int \<Rightarrow> bytes \<Rightarrow> bytes" where
  "encode_int val bytes = (bytes @ [INT_START]) @ decimal_int val @ [BEN_END]"

definition encode_bytes :: "bytes \<Rightarrow> bytes \<Rightarrow> bytes" where
  "encode_bytes list bytes = ((bytes @ decimal_nat (length list)) @ [BYTE_LEN_END]) @ list"

lemma size_dict_value [termination_simp]:
  "(k, v) \<in> set (dict_to_list d) \<Longrightarrow> size v < Suc (size_list (\<lambda>x. Suc (size (snd x))) d)"
  by (induction d) (auto simp: dict_to_list_def)

fun encode :: "bencode_mut \<Rightarrow> bytes \<Rightarrow> bytes" where
  "encode (MInt n) bytes = encode_int n bytes"
| "encode (MBytes n) bytes = encode_bytes n bytes"
| "encode (MList n) bytes = fold (\<lambda>i b. encode i b) n (bytes @ [LIST_START]) @ [BEN_END]"
| "encode (MDict n) bytes =
     (let sort_dict = sort_key fst (dict_to_list n) in
      fold (\<lambda>(key, value) b. encode value (encode_bytes key b)) sort_dict (bytes @ [DICT_START])
        @ [BEN_END])"

text \<open>\<open>BencodeMut::encode\<close>.\<close>

definition bencode_encode :: "bencode_mut \<Rightarrow> bytes" where
  "bencode_encode b = encode b []"

section \<open>The format\<close>

definition bencoding_bytes :: "bytes \<Rightarrow> bytes" where
  "bencoding_bytes s = decimal_nat (length s) @ BYTE_LEN_END # s"

fun bencoding :: "bencode_mut \<Rightarrow> bytes" where
  "bencoding (MInt n) = INT_START # decimal_int n @ [BEN_END]"
| "bencoding (MBytes s) = bencoding_bytes s"
| "bencoding (MList l) = LIST_START # concat (map bencoding l) @ [BEN_END]"
| "bencoding (MDict d) =
     DICT_START # concat (map (\<lambda>(k, v). bencoding_bytes k @ bencoding v) (sort_key fst d)) @ [BEN_END]"

text \<open>Values a Rust program can hold: integers in range, containers no longer than \<open>isize::MAX\<close>,
  dictionaries with their keys in the map's order.\<close>

fun ben_wf :: "bencode_mut \<Rightarrow> bool" where
  "ben_wf (MInt n) = i64_range n"
| "ben_wf (MBytes s) = (length s < 2 ^ 63)"
| "ben_wf (MList l) = list_all ben_wf l"
| "ben_wf (MDict d) = (btree_wf d \<and> list_all (\<lambda>(k, v). length k < 2 ^ 63 \<and> ben_wf v) d)"

fun ben_height :: "bencode_mut \<Rightarrow> nat" where
  "ben_height (MInt n) = 1"
| "ben_height (MBytes s) = 1"
| "ben_height (MList l) = Suc (Max (set (0 # map ben_height l)))"
| "ben_height (MDict d) = Suc (Max (set (0 # map (\<lambda>(k, v). ben_height v) d)))"

lemma encode_bytes_spec: "encode_bytes s buf = buf @ bencoding_bytes s"
  by (simp add: encode_bytes_def bencoding_bytes_def)

lemma fold_append_map:
  assumes "\<And>x buf. x \<in> set xs \<Longrightarrow> f x buf = buf @ g x"
  shows "fold f xs buf = buf @ concat (map g xs)"
  using assms by (induction xs arbitrary: buf) simp_all

lemma encode_append: "encode b buf = buf @ bencoding b"
proof (induction b arbitrary: buf)
  case (MList l)
  then show ?case by (simp add: fold_append_map [where g = bencoding])
next
  case (MDict d)
  have "fold (\<lambda>(k, v) b. encode v (encode_bytes k b)) (sort_key fst d) (buf @ [DICT_START]) =
      (buf @ [DICT_START]) @ concat (map (\<lambda>(k, v). bencoding_bytes k @ bencoding v) (sort_key fst d))"
    by (rule fold_append_map) (auto simp: encode_bytes_spec MDict)
  then show ?case by (simp add: dict_to_list_def)
qed (simp_all add: encode_int_def encode_bytes_spec)

lemma sort_key_btree: "btree_wf d \<Longrightarrow> sort_key fst d = d"
  by (rule sort_key_id_if_sorted) (simp add: btree_wf_def strict_sorted_iff)

lemma ben_wf_dict_insert:
  "ben_wf (MDict d) \<Longrightarrow> length k < 2 ^ 63 \<Longrightarrow> ben_wf v \<Longrightarrow> ben_wf (MDict (snd (dict_insert d k v)))"
proof (induction d)
  case Nil
  then show ?case by (simp add: dict_insert_def btree_wf_Cons)
next
  case (Cons a d)
  then have "btree_wf (snd (dict_insert (a # d) k v))" by (simp add: btree.invar_insert)
  with Cons show ?case
    by (cases a) (auto simp: dict_insert_def btree_wf_Cons split: if_splits)
qed

lemma ben_wf_ben_map:
  assumes "\<forall>(k, v) \<in> set kvs. length k < 2 ^ 63 \<and> ben_wf v" and "ben_map kvs = Some b"
  shows "ben_wf b"
proof -
  have "ben_wf (MDict m) \<Longrightarrow> ben_wf (MDict (fold (\<lambda>(k, v) m. snd (dict_insert m k v)) kvs m))" for m
    using assms(1)
  proof (induction kvs arbitrary: m)
    case (Cons kv kvs)
    obtain k v where kv: "kv = (k, v)" by (cases kv)
    from Cons.prems have "ben_wf (MDict (snd (dict_insert m k v)))"
      by (intro ben_wf_dict_insert) (simp_all add: kv)
    then show ?case using Cons by (simp add: kv)
  qed simp
  from this [of dict_new] assms(2) show ?thesis
    by (auto simp: ben_map_def new_dict_def dict_new_def)
qed

end
