(* ===== verification/Bencode_Roundtrip.thy ===== *)
theory Bencode_Roundtrip
  imports Bencode_Encode
begin

text \<open>
  How the encoder and the decoder of \<open>src/bencode\<close> fit together: the decoder reads every encoded
  value back from any position of a buffer, everything it accepts is a well-formed value that
  encodes and decodes to itself again, the buffer slices it hands out are the input it consumed,
  and when it can panic.
\<close>

text \<open>The value the decoder builds for an encoded value, and the owned value behind a decoded one.\<close>

fun ref_of :: "bencode_mut \<Rightarrow> bencode_ref" where
  "ref_of (MInt n) = RInt n (bencoding (MInt n))"
| "ref_of (MBytes s) = RBytes s (bencoding (MBytes s))"
| "ref_of (MList l) = RList (map ref_of l) (bencoding (MList l))"
| "ref_of (MDict d) = RDict (map (\<lambda>(k, v). (k, ref_of v)) d) (bencoding (MDict d))"

fun mut_of :: "bencode_ref \<Rightarrow> bencode_mut" where
  "mut_of (RInt n _) = MInt n"
| "mut_of (RBytes s _) = MBytes s"
| "mut_of (RList l _) = MList (map mut_of l)"
| "mut_of (RDict d _) = MDict (map (\<lambda>(k, v). (k, mut_of v)) d)"

section \<open>Reading back the pieces\<close>

lemma digit_or_minus: "b \<in> set (decimal_int i) \<Longrightarrow> 45 \<le> b \<and> b \<le> 57"
  by (auto dest!: decimal_int_digits simp: is_digit_def word_le_nat_alt)

lemma decimal_int_no_padding:
  assumes "1 < length (decimal_int i)"
  shows "decimal_int i ! 0 \<noteq> 48" and "\<not> (decimal_int i ! 0 = 45 \<and> decimal_int i ! 1 = 48)"
proof -
  show "decimal_int i ! 0 \<noteq> 48"
  proof
    assume 0: "decimal_int i ! 0 = 48"
    then have "0 \<le> i" by (auto simp: decimal_int_def split: if_splits)
    with 0 have "nat i = 0" by (intro decimal_nat_zero_padding) (simp add: decimal_int_def)
    with \<open>0 \<le> i\<close> assms show False by (simp add: decimal_int_def)
  qed
  show "\<not> (decimal_int i ! 0 = 45 \<and> decimal_int i ! 1 = 48)"
  proof
    assume m: "decimal_int i ! 0 = 45 \<and> decimal_int i ! 1 = 48"
    show False
    proof (cases "i < 0")
      case True
      with m have "decimal_nat (nat (- i)) ! 0 = 48" by (simp add: decimal_int_def)
      then show False using decimal_nat_zero_padding True by force
    next
      case False
      with m have "decimal_nat (nat i) ! 0 = 45" by (simp add: decimal_int_def)
      moreover have "is_digit (decimal_nat (nat i) ! 0)"
        using decimal_nat_digits [of "nat i"] by (simp add: all_set_conv_all_nth)
      ultimately show False by (simp add: is_digit_def)
    qed
  qed
qed

lemma decode_int_decimal:
  assumes "i64_range i" and "57 < delim"
  shows "decode_int (pre @ decimal_int i @ delim # suf) (length pre) delim =
      Ok (i, length pre + length (decimal_int i) + 1)"
proof -
  have "\<forall>b \<in> set (decimal_int i). b \<noteq> delim" using assms(2) digit_or_minus by fastforce
  then have "position (\<lambda>n. n = delim) (decimal_int i @ delim # suf) = Some (length (decimal_int i))"
    by (intro position_append) auto
  with assms(1) decimal_int_no_padding [of i] show ?thesis
    by (auto simp: decode_int_def slice_range_def Let_def i64_from_decimal_int)
qed

lemma decimal_int_of_nat: "decimal_int (int n) = decimal_nat n"
  by (simp add: decimal_int_def)

lemma decode_bytes_bencoding:
  assumes "length s < 2 ^ 63"
  shows "decode_bytes (pre @ bencoding_bytes s @ suf) (length pre) =
      Ok (s, length pre + length (bencoding_bytes s))"
proof -
  have "i64_range (int (length s))" using assms by (simp add: i64_range_def)
  then have "decode_int (pre @ decimal_nat (length s) @ BYTE_LEN_END # s @ suf) (length pre) BYTE_LEN_END =
      Ok (int (length s), length pre + length (decimal_nat (length s)) + 1)"
    using decode_int_decimal [of "int (length s)" BYTE_LEN_END pre "s @ suf"]
    by (simp add: decimal_int_of_nat ben_consts)
  then show ?thesis
    by (simp add: decode_bytes_def bencoding_bytes_def slice_range_def)
qed

lemma bencoding_bytes_hd:
  "bencoding_bytes s = c # cs \<Longrightarrow> BYTE_LEN_LOW \<le> c \<and> c \<le> BYTE_LEN_HIGH"
  using decimal_nat_digits [of "length s"]
  by (cases "decimal_nat (length s)") (auto simp: bencoding_bytes_def is_digit_def ben_consts)

lemma bencoding_bytes_not_Nil [simp]: "bencoding_bytes s \<noteq> []"
  by (simp add: bencoding_bytes_def)

lemma nth_middle: "xs \<noteq> [] \<Longrightarrow> (pre @ xs @ suf) ! length pre = hd xs"
  by (cases xs) auto

lemma bencoding_not_Nil [simp]: "bencoding b \<noteq> []"
  by (cases b) auto

lemma bencoding_bytes_first:
  "hd (bencoding_bytes s) \<notin> {BEN_END, INT_START, LIST_START, DICT_START}"
  "BYTE_LEN_LOW \<le> hd (bencoding_bytes s)" "hd (bencoding_bytes s) \<le> BYTE_LEN_HIGH"
  using bencoding_bytes_hd [of s] by (cases "bencoding_bytes s"; force simp: ben_consts word_le_nat_alt)+

lemma bencoding_first: "hd (bencoding b) \<noteq> BEN_END"
  using bencoding_bytes_first(1) by (cases b) (auto simp: ben_consts)

section \<open>Decoding an encoded value\<close>

lemma decode_list_items:
  assumes "\<And>b pre suf. b \<in> set l \<Longrightarrow>
      decode (pre @ bencoding b @ suf) (length pre) opts (Suc depth) =
        Ok (ref_of b, length pre + length (bencoding b))"
  shows "decode_list (pre @ concat (map bencoding l) @ suf) (length pre) opts depth acc =
      decode_list (pre @ concat (map bencoding l) @ suf) (length (pre @ concat (map bencoding l))) opts depth
        (acc @ map ref_of l)"
  using assms
proof (induction l arbitrary: pre acc)
  case (Cons b l)
  let ?rest = "concat (map bencoding l) @ suf"
  have "(pre @ bencoding b @ ?rest) ! length pre \<noteq> BEN_END"
    by (simp only: nth_middle [OF bencoding_not_Nil] bencoding_first not_False_eq_True)
  moreover have "decode (pre @ bencoding b @ ?rest) (length pre) opts (Suc depth) =
      Ok (ref_of b, length pre + length (bencoding b))"
    by (rule Cons.prems) simp
  moreover have "decode_list ((pre @ bencoding b) @ ?rest) (length (pre @ bencoding b)) opts depth (acc @ [ref_of b]) =
      decode_list ((pre @ bencoding b) @ ?rest) (length ((pre @ bencoding b) @ concat (map bencoding l))) opts depth
        ((acc @ [ref_of b]) @ map ref_of l)"
    by (rule Cons.IH) (simp add: Cons.prems)
  ultimately show ?case
    by (subst decode_list.simps) (simp add: peek_byte_def get_slice_def add.assoc)
qed simp

lemma decode_list_bencoding:
  assumes "\<And>b pre suf. b \<in> set l \<Longrightarrow>
      decode (pre @ bencoding b @ suf) (length pre) opts (Suc depth) =
        Ok (ref_of b, length pre + length (bencoding b))"
  shows "decode_list (pre @ concat (map bencoding l) @ BEN_END # suf) (length pre) opts depth acc =
      Ok (acc @ map ref_of l, length pre + length (concat (map bencoding l)) + 1)"
proof -
  let ?bytes = "pre @ concat (map bencoding l) @ BEN_END # suf"
  have "decode_list ?bytes (length pre) opts depth acc =
      decode_list ?bytes (length (pre @ concat (map bencoding l))) opts depth (acc @ map ref_of l)"
    by (rule decode_list_items) (rule assms)
  also have "\<dots> = Ok (acc @ map ref_of l, length pre + length (concat (map bencoding l)) + 1)"
    by (subst decode_list.simps) (simp add: peek_byte_def get_slice_def nth_append)
  finally show ?thesis .
qed

lemma key_in_order:
  "\<forall>k' \<in> fst ` set d. k' < k \<Longrightarrow> \<not> key_out_of_order opts d k \<and> dict_lookup d k = None"
  by (cases d rule: rev_cases)
     (auto simp: key_out_of_order_def btree_last_key_def dict_lookup_def map_of_eq_None_iff)

abbreviation bencoding_entries :: "(bytes \<times> bencode_mut) list \<Rightarrow> bytes" where
  "bencoding_entries d \<equiv> concat (map (\<lambda>(k, v). bencoding_bytes k @ bencoding v) d)"

lemma decode_dict_entries:
  assumes "\<And>k v pre suf. (k, v) \<in> set d \<Longrightarrow>
      decode (pre @ bencoding v @ suf) (length pre) opts (Suc depth) =
        Ok (ref_of v, length pre + length (bencoding v))"
    and "\<forall>(k, v) \<in> set d. length k < 2 ^ 63"
    and "btree_wf (acc @ map (\<lambda>(k, v). (k, ref_of v)) d)"
  shows "decode_dict (pre @ bencoding_entries d @ suf) (length pre) opts depth acc =
      decode_dict (pre @ bencoding_entries d @ suf) (length (pre @ bencoding_entries d)) opts depth
        (acc @ map (\<lambda>(k, v). (k, ref_of v)) d)"
  using assms
proof (induction d arbitrary: pre acc)
  case (Cons kv d)
  obtain k v where kv: "kv = (k, v)" by (cases kv)
  let ?rest = "bencoding_entries d @ suf"
  let ?bytes = "pre @ bencoding_bytes k @ bencoding v @ ?rest"
  have "?bytes ! length pre \<noteq> BEN_END"
    using bencoding_bytes_first(1) [of k] by (simp add: nth_middle)
  moreover have "decode_bytes ?bytes (length pre) = Ok (k, length pre + length (bencoding_bytes k))"
    by (rule decode_bytes_bencoding) (use Cons.prems(2) kv in auto)
  moreover have "decode ((pre @ bencoding_bytes k) @ bencoding v @ ?rest) (length (pre @ bencoding_bytes k)) opts
      (Suc depth) = Ok (ref_of v, length (pre @ bencoding_bytes k) + length (bencoding v))"
    by (rule Cons.prems(1) [of k]) (simp add: kv)
  moreover have less: "\<forall>k' \<in> fst ` set acc. k' < k"
    using Cons.prems(3) by (auto simp: kv btree_wf_def sorted_wrt_append)
  moreover note key_in_order [OF less, of opts]
  moreover have "decode_dict ((pre @ bencoding_bytes k @ bencoding v) @ ?rest)
      (length (pre @ bencoding_bytes k @ bencoding v)) opts depth (acc @ [(k, ref_of v)]) =
      decode_dict ((pre @ bencoding_bytes k @ bencoding v) @ ?rest)
        (length ((pre @ bencoding_bytes k @ bencoding v) @ bencoding_entries d)) opts depth
        ((acc @ [(k, ref_of v)]) @ map (\<lambda>(k, v). (k, ref_of v)) d)"
    by (rule Cons.IH) (use Cons.prems kv in auto)
  ultimately show ?case
    by (subst decode_dict.simps)
       (simp add: kv peek_byte_def get_slice_def add.assoc dict_insert_def btree_put_snoc)
qed simp

lemma decode_dict_bencoding:
  assumes "\<And>k v pre suf. (k, v) \<in> set d \<Longrightarrow>
      decode (pre @ bencoding v @ suf) (length pre) opts (Suc depth) =
        Ok (ref_of v, length pre + length (bencoding v))"
    and "\<forall>(k, v) \<in> set d. length k < 2 ^ 63"
    and "btree_wf (acc @ map (\<lambda>(k, v). (k, ref_of v)) d)"
  shows "decode_dict (pre @ bencoding_entries d @ BEN_END # suf) (length pre) opts depth acc =
      Ok (acc @ map (\<lambda>(k, v). (k, ref_of v)) d, length pre + length (bencoding_entries d) + 1)"
proof -
  let ?bytes = "pre @ bencoding_entries d @ BEN_END # suf" and ?acc = "acc @ map (\<lambda>(k, v). (k, ref_of v)) d"
  have "decode_dict ?bytes (length pre) opts depth acc =
      decode_dict ?bytes (length (pre @ bencoding_entries d)) opts depth ?acc"
    by (rule decode_dict_entries) (use assms in auto)
  also have "\<dots> = Ok (?acc, length pre + length (bencoding_entries d) + 1)"
    by (subst decode_dict.simps) (simp add: peek_byte_def get_slice_def nth_append)
  finally show ?thesis .
qed

lemma ben_height_child:
  "b \<in> set l \<Longrightarrow> ben_height b < ben_height (MList l)"
  "(k, v) \<in> set d \<Longrightarrow> ben_height v < ben_height (MDict d)"
proof -
  show "ben_height b < ben_height (MList l)" if "b \<in> set l"
    using that by (simp add: less_Suc_eq_le)
  show "ben_height v < ben_height (MDict d)" if "(k, v) \<in> set d"
  proof -
    have "ben_height v \<in> (\<lambda>(k, v). ben_height v) ` set d" using that by force
    then have "ben_height v \<le> Max (insert 0 ((\<lambda>(k, v). ben_height v) ` set d))" by (intro Max_ge) auto
    then show ?thesis by simp
  qed
qed

lemma decode_bencoding:
  assumes "ben_wf b" and "depth + ben_height b \<le> max_recursion opts"
  shows "decode (pre @ bencoding b @ suf) (length pre) opts depth =
      Ok (ref_of b, length pre + length (bencoding b))"
  using assms
proof (induction b arbitrary: pre suf depth)
  case (MInt n)
  have "decode_int ((pre @ [INT_START]) @ decimal_int n @ BEN_END # suf) (length (pre @ [INT_START])) BEN_END =
      Ok (n, length (pre @ [INT_START]) + length (decimal_int n) + 1)"
    using MInt by (intro decode_int_decimal) (simp_all add: ben_consts)
  with MInt show ?case
    by (subst decode.simps) (simp add: peek_byte_def get_slice_def slice_range_def)
next
  case (MBytes s)
  have "(pre @ bencoding_bytes s @ suf) ! length pre = hd (bencoding_bytes s)"
    by (simp add: nth_middle)
  with MBytes bencoding_bytes_first [of s] show ?case
    by (subst decode.simps)
       (simp add: peek_byte_def get_slice_def slice_range_def decode_bytes_bencoding)
next
  case (MList l)
  have "decode_list ((pre @ [LIST_START]) @ concat (map bencoding l) @ BEN_END # suf)
      (length (pre @ [LIST_START])) opts depth [] =
      Ok ([] @ map ref_of l, length (pre @ [LIST_START]) + length (concat (map bencoding l)) + 1)"
  proof (rule decode_list_bencoding)
    fix b pre suf assume b: "b \<in> set l"
    with MList.prems ben_height_child(1) [OF b]
    show "decode (pre @ bencoding b @ suf) (length pre) opts (Suc depth) =
        Ok (ref_of b, length pre + length (bencoding b))"
      by (intro MList.IH) (auto simp: list_all_iff)
  qed
  with MList.prems show ?case
    by (subst decode.simps) (simp add: peek_byte_def get_slice_def slice_range_def ben_consts)
next
  case (MDict d)
  then have wf: "btree_wf d" by simp
  then have "btree_wf (map (\<lambda>(k, v). (k, ref_of v)) d)"
    by (simp add: btree_wf_def comp_def case_prod_unfold)
  then have "decode_dict ((pre @ [DICT_START]) @ concat (map (\<lambda>(k, v). bencoding_bytes k @ bencoding v) d)
        @ BEN_END # suf) (length (pre @ [DICT_START])) opts depth [] =
      Ok ([] @ map (\<lambda>(k, v). (k, ref_of v)) d, length (pre @ [DICT_START])
        + length (concat (map (\<lambda>(k, v). bencoding_bytes k @ bencoding v) d)) + 1)"
  proof (intro decode_dict_bencoding)
    fix k v pre suf assume kv: "(k, v) \<in> set d"
    with MDict.prems ben_height_child(2) [OF kv]
    show "decode (pre @ bencoding v @ suf) (length pre) opts (Suc depth) =
        Ok (ref_of v, length pre + length (bencoding v))"
      by (intro MDict.IH) (auto simp: list_all_iff)
  qed (use MDict.prems in \<open>auto simp: list_all_iff\<close>)
  with MDict.prems wf show ?case
    by (subst decode.simps)
       (simp add: peek_byte_def get_slice_def slice_range_def ben_consts sort_key_btree)
qed

section \<open>What the decoder accepts\<close>

lemma i64_from_str_range: "i64_from_str s = Some n \<Longrightarrow> i64_range n"
  by (auto simp: i64_from_str_def Let_def split: list.splits option.splits if_splits)

lemma decode_int_OkD:
  assumes "decode_int bytes pos delim = Ok (n, np)"
  obtains s where "segment bytes pos np = s @ [delim]" "i64_from_str s = Some n"
    "\<not> (1 < length s \<and> s ! 0 = 48)" "\<not> (1 < length s \<and> s ! 0 = 45 \<and> s ! 1 = 48)"
proof -
  from assms obtain i where i: "position (\<lambda>n. n = delim) (drop pos bytes) = Some i"
      and np: "np = pos + i + 1" and n: "i64_from_str (take i (drop pos bytes)) = Some n"
      and s: "\<not> (1 < length (take i (drop pos bytes)) \<and> take i (drop pos bytes) ! 0 = 48)"
        "\<not> (1 < length (take i (drop pos bytes)) \<and> take i (drop pos bytes) ! 0 = 45
          \<and> take i (drop pos bytes) ! 1 = 48)"
    unfolding decode_int_def and_then_eq_Ok Let_def
    by (force simp: slice_range_eq_Ok split: option.splits if_splits)
  have "segment bytes pos np = take i (drop pos bytes) @ [delim]"
    using i by (auto simp: segment_def np position_Some_iff take_Suc_conv_app_nth)
  then show thesis using n s by (rule that)
qed

lemma decode_int_range: "decode_int bytes pos delim = Ok (n, np) \<Longrightarrow> i64_range n"
  by (erule decode_int_OkD) (rule i64_from_str_range)

lemma decode_bytes_OkD:
  assumes "decode_bytes bytes pos = Ok (s, np)"
  obtains start where "decode_int bytes pos BYTE_LEN_END = Ok (int (length s), start)"
    "np = start + length s" "s = segment bytes start np" "np \<le> length bytes"
proof -
  from assms obtain n start where i: "decode_int bytes pos BYTE_LEN_END = Ok (n, start)" and "\<not> n < 0"
      and "nat n \<le> length bytes - start" and np: "np = start + nat n" and s: "s = segment bytes start np"
    by (auto simp: decode_bytes_def slice_range_eq_Ok Let_def segment_def split: if_splits)
  moreover from decode_int_progress [OF i] have "start \<le> length bytes" by simp
  ultimately have "np \<le> length bytes" and "length s = nat n" and "0 \<le> n" by simp_all
  then show thesis using i np s by (intro that [of start]) simp_all
qed

lemma decode_bytes_length: "decode_bytes bytes pos = Ok (s, np) \<Longrightarrow> length s \<le> length bytes"
  by (erule decode_bytes_OkD) linarith

text \<open>The consumed input of a decoded value is its buffer.\<close>

lemma decode_buffer:
  "decode bytes pos opts depth = Ok (b, np) \<Longrightarrow> buffer b = segment bytes pos np"
  by (rule decode_Ok_induct(1) [where P = "\<lambda>pos depth b np. buffer b = segment bytes pos np"
        and Q = "\<lambda>_ _ _ _ _. True" and R = "\<lambda>_ _ _ _ _. True" and bytes = bytes and opts = opts])
     (auto simp: segment_def)

text \<open>A decoded value is one a Rust program can hold, and nested no deeper than the limit leaves.\<close>

definition decoded_ok :: "bdecode_opt \<Rightarrow> nat \<Rightarrow> bencode_ref \<Rightarrow> bool" where
  "decoded_ok opts depth b \<longleftrightarrow>
     ben_wf (mut_of b) \<and> depth + ben_height (mut_of b) \<le> max_recursion opts"

definition decoded_dict_ok :: "bdecode_opt \<Rightarrow> nat \<Rightarrow> (bytes \<times> bencode_ref) list \<Rightarrow> bool" where
  "decoded_dict_ok opts depth d \<longleftrightarrow>
     btree_wf d \<and> (\<forall>(k, v) \<in> set d. length k < 2 ^ 63 \<and> decoded_ok opts (Suc depth) v)"

lemma set_btree_put: "set (btree_put m k v) \<subseteq> insert (k, v) (set m)"
  by (induction m k v rule: btree_put.induct) auto

lemma decoded_dict_ok_insert:
  assumes "decoded_dict_ok opts depth d" and "length k < 2 ^ 63" and "decoded_ok opts (Suc depth) v"
  shows "decoded_dict_ok opts depth (snd (dict_insert d k v))"
  unfolding decoded_dict_ok_def
proof
  show "btree_wf (snd (dict_insert d k v))"
    using assms(1) by (intro btree.invar_insert) (simp add: decoded_dict_ok_def)
  have "set (snd (dict_insert d k v)) \<subseteq> insert (k, v) (set d)"
    by (simp add: dict_insert_def set_btree_put)
  with assms show "\<forall>(k, v) \<in> set (snd (dict_insert d k v)). length k < 2 ^ 63 \<and> decoded_ok opts (Suc depth) v"
    unfolding decoded_dict_ok_def by blast
qed

lemma decoded_ok_list:
  assumes "depth < max_recursion opts" and "\<forall>b \<in> set l. decoded_ok opts (Suc depth) b"
  shows "decoded_ok opts depth (RList l buf)"
proof -
  have "Max (set (0 # map ben_height (map mut_of l))) \<le> max_recursion opts - Suc depth"
    using assms by (intro Max.boundedI) (auto simp: decoded_ok_def)
  then have "ben_height (MList (map mut_of l)) \<le> Suc (max_recursion opts - Suc depth)"
    by (simp only: ben_height.simps Suc_le_mono)
  moreover have "ben_wf (MList (map mut_of l))" using assms(2) by (simp add: decoded_ok_def list_all_iff)
  ultimately show ?thesis using assms(1) unfolding decoded_ok_def mut_of.simps by linarith
qed

lemma decoded_ok_dict:
  assumes "depth < max_recursion opts" and "decoded_dict_ok opts depth d"
  shows "decoded_ok opts depth (RDict d buf)"
proof -
  let ?d = "map (\<lambda>(k, v). (k, mut_of v)) d"
  have "Max (set (0 # map (\<lambda>(k, v). ben_height v) ?d)) \<le> max_recursion opts - Suc depth"
    using assms by (intro Max.boundedI) (auto simp: decoded_dict_ok_def decoded_ok_def)
  then have "ben_height (MDict ?d) \<le> Suc (max_recursion opts - Suc depth)"
    by (simp only: ben_height.simps Suc_le_mono)
  moreover have "btree_wf ?d"
    using assms(2) by (simp add: decoded_dict_ok_def btree_wf_def comp_def case_prod_unfold)
  moreover have "list_all (\<lambda>(k, v). length k < 2 ^ 63 \<and> ben_wf v) ?d"
    using assms(2) by (auto simp: decoded_dict_ok_def decoded_ok_def list_all_iff)
  ultimately show ?thesis using assms(1) unfolding decoded_ok_def mut_of.simps ben_wf.simps by linarith
qed

lemma decode_decoded_ok:
  assumes "length bytes < 2 ^ 63"
  shows "decode bytes pos opts depth = Ok (b, np) \<Longrightarrow> decoded_ok opts depth b"
proof (rule decode_Ok_induct(1) [where bytes = bytes and opts = opts
      and P = "\<lambda>pos depth b np. decoded_ok opts depth b"
      and Q = "\<lambda>pos depth l l' np.
        (\<forall>b \<in> set l. decoded_ok opts (Suc depth) b) \<longrightarrow> (\<forall>b \<in> set l'. decoded_ok opts (Suc depth) b)"
      and R = "\<lambda>pos depth d d' np. decoded_dict_ok opts depth d \<longrightarrow> decoded_dict_ok opts depth d'"],
    goal_cases)
  case (1 pos depth n np)
  with decode_int_range [OF 1(5)] show ?case by (simp add: decoded_ok_def)
next
  case (4 pos depth s np)
  from decode_bytes_length [OF 4(6)] assms 4(2) show ?case by (simp add: decoded_ok_def)
next
  case (6 pos depth l b np l' np')
  from 6(4,6) show ?case unfolding set_append list.set by blast
next
  case (8 pos depth d k vp v np d' np')
  from decode_bytes_length [OF 8(3)] assms have "length k < 2 ^ 63" by simp
  with 8(6,9) decoded_dict_ok_insert [of opts depth d k v] show ?case by simp
qed (simp_all add: decoded_ok_list decoded_ok_dict decoded_dict_ok_def)

text \<open>Without a plus sign in front of a number, only the canonical form of a value is accepted.\<close>

lemma i64_from_str_canonical:
  assumes "i64_from_str s = Some n" and "43 \<notin> set s"
    and "\<not> (1 < length s \<and> s ! 0 = 48)" and "\<not> (1 < length s \<and> s ! 0 = 45 \<and> s ! 1 = 48)"
  shows "s = decimal_int n"
proof (cases s)
  case (Cons c ds)
  show ?thesis
  proof (cases "c = 45")
    case True
    with assms(1) Cons obtain m where m: "digits_value 0 ds = Some m" "n = - int m" "ds \<noteq> []"
      by (auto simp: i64_from_str_def Let_def split: option.splits if_splits)
    with assms(4) Cons True have d0: "ds ! 0 \<noteq> 48" by (cases ds) auto
    with m have ds: "ds = decimal_nat m" by (intro digits_value_unique) simp_all
    with d0 have "m \<noteq> 0" by (cases "m = 0") auto
    with ds m(2) Cons True show ?thesis by (simp add: decimal_int_def)
  next
    case False
    with assms(1,2) Cons obtain m where m: "digits_value 0 s = Some m" "n = int m"
      by (auto simp: i64_from_str_def Let_def split: option.splits if_splits)
    with assms(3) Cons have "s = decimal_nat m" by (intro digits_value_unique) auto
    with m(2) show ?thesis by (simp add: decimal_int_def)
  qed
qed (use assms(1) in \<open>simp add: i64_from_str_def\<close>)

lemma decode_int_canonical:
  assumes "decode_int bytes pos delim = Ok (n, np)" and "43 \<notin> set bytes"
  shows "segment bytes pos np = decimal_int n @ [delim]"
proof -
  from assms(1) obtain s where s: "segment bytes pos np = s @ [delim]" "i64_from_str s = Some n"
    "\<not> (1 < length s \<and> s ! 0 = 48)" "\<not> (1 < length s \<and> s ! 0 = 45 \<and> s ! 1 = 48)"
    by (rule decode_int_OkD)
  with assms(2) set_segment [of bytes pos np] have "43 \<notin> set s" by auto
  with s i64_from_str_canonical show ?thesis by metis
qed

lemma decode_bytes_canonical:
  assumes "decode_bytes bytes pos = Ok (s, np)" and "43 \<notin> set bytes"
  shows "segment bytes pos np = bencoding_bytes s"
proof -
  from assms(1) obtain start where i: "decode_int bytes pos BYTE_LEN_END = Ok (int (length s), start)"
    and s: "np = start + length s" "s = segment bytes start np"
    by (rule decode_bytes_OkD)
  from decode_int_progress [OF i] s(1) segment_split [of pos start np bytes]
  have "segment bytes pos np = segment bytes pos start @ segment bytes start np" by simp
  with decode_int_canonical [OF i assms(2)] s(2) [symmetric] show ?thesis
    by (simp add: bencoding_bytes_def decimal_int_of_nat)
qed

lemma key_ascending:
  assumes "btree_wf d" and "\<not> key_out_of_order opts d k" and "check_key_sort opts" and "dict_lookup d k = None"
  shows "\<forall>k' \<in> fst ` set d. k' < k"
proof
  fix k' assume k': "k' \<in> fst ` set d"
  then obtain m where m: "btree_last_key d = Some m" by (cases d) (auto simp: btree_last_key_def)
  with assms(1) k' have "k' \<le> m" using btree_last_key_greatest by blast
  moreover from m assms(2,3) have "m \<le> k" by (auto simp: key_out_of_order_def not_less)
  moreover from assms(4) k' have "k' \<noteq> k" by (auto simp: dict_lookup_def map_of_eq_None_iff)
  ultimately show "k' < k" by order
qed

lemma decode_canonical:
  assumes plus: "43 \<notin> set bytes" and sorted: "check_key_sort opts"
  shows "decode bytes pos opts depth = Ok (b, np) \<Longrightarrow>
      pos < np \<and> np \<le> length bytes \<and> segment bytes pos np = bencoding (mut_of b)"
proof (rule decode_Ok_induct(1) [where bytes = bytes and opts = opts
      and P = "\<lambda>pos depth b np. pos < np \<and> np \<le> length bytes \<and> segment bytes pos np = bencoding (mut_of b)"
      and Q = "\<lambda>pos depth l l' np. pos < np \<and> np \<le> length bytes \<and> (\<exists>m. l' = l @ m \<and>
        segment bytes pos np = concat (map (bencoding \<circ> mut_of) m) @ [BEN_END])"
      and R = "\<lambda>pos depth d d' np. btree_wf d \<longrightarrow> pos < np \<and> np \<le> length bytes \<and> btree_wf d' \<and> (\<exists>m. d' = d @ m \<and>
        segment bytes pos np = concat (map (\<lambda>(k, v). bencoding_bytes k @ bencoding (mut_of v)) m) @ [BEN_END])"],
    goal_cases)
  case (1 pos depth n np)
  with decode_int_canonical [OF 1(5) plus] decode_int_progress [OF 1(5)] show ?case by (simp add: segment_head [of pos])
next
  case (2 pos depth l np)
  then show ?case by (simp add: segment_head [of pos])
next
  case (3 pos depth d np)
  then have "btree_wf (map (\<lambda>(k, v). (k, mut_of v)) d)" by (simp add: btree_wf_def comp_def case_prod_unfold)
  with 3 show ?case by (simp add: segment_head [of pos] sort_key_btree comp_def case_prod_unfold)
next
  case (4 pos depth s np)
  then show ?case
    using decode_bytes_canonical [OF 4(6) plus] decode_bytes_progress [OF 4(6)] by simp
next
  case (6 pos depth l b np l' np')
  then obtain m where "l' = l @ b # m"
      "segment bytes np np' = concat (map (bencoding \<circ> mut_of) m) @ [BEN_END]" by auto
  with 6 segment_split [of pos np np' bytes] show ?case
    by (intro conjI exI [of _ "b # m"]) simp_all
next
  case (8 pos depth d k vp v np d' np')
  show ?case
  proof
    assume wf: "btree_wf d"
    with 8(4,7) sorted have less: "\<forall>k' \<in> fst ` set d. k' < k" by (intro key_ascending)
    then have ins: "snd (dict_insert d k v) = d @ [(k, v)]" by (simp add: dict_insert_def btree_put_snoc)
    with wf less have "btree_wf (snd (dict_insert d k v))" by (simp add: btree_wf_snoc_iff)
    with 8(9) ins obtain m where m: "np < np'" "np' \<le> length bytes" "btree_wf d'" "d' = d @ (k, v) # m"
      "segment bytes np np' = concat (map (\<lambda>(k, v). bencoding_bytes k @ bencoding (mut_of v)) m) @ [BEN_END]"
      by auto
    have "segment bytes pos vp = bencoding_bytes k" and "pos < vp"
      using decode_bytes_canonical [OF 8(3) plus] decode_bytes_progress [OF 8(3)] by auto
    moreover have "segment bytes vp np = bencoding (mut_of v)" and "vp < np" using 8(6) by auto
    ultimately have "segment bytes pos np' = (bencoding_bytes k @ bencoding (mut_of v)) @ segment bytes np np'"
      using m(1) by (simp add: segment_split [of pos vp np'] segment_split [of vp np np'])
    then show "pos < np' \<and> np' \<le> length bytes \<and> btree_wf d' \<and> (\<exists>m. d' = d @ m \<and>
        segment bytes pos np' = concat (map (\<lambda>(k, v). bencoding_bytes k @ bencoding (mut_of v)) m) @ [BEN_END])"
      using m \<open>pos < vp\<close> \<open>vp < np\<close> by (intro conjI exI [of _ "(k, v) # m"]) simp_all
  qed
qed (simp_all add: segment_one)

section \<open>Nested nodes\<close>

fun ref_nodes :: "bencode_ref \<Rightarrow> bencode_ref list" where
  "ref_nodes (RInt n b) = [RInt n b]"
| "ref_nodes (RBytes s b) = [RBytes s b]"
| "ref_nodes (RList l b) = RList l b # concat (map ref_nodes l)"
| "ref_nodes (RDict d b) = RDict d b # concat (map (\<lambda>(k, v). ref_nodes v) d)"

definition redecodes :: "bytes \<Rightarrow> bdecode_opt \<Rightarrow> nat \<Rightarrow> nat \<Rightarrow> bencode_ref \<Rightarrow> bool" where
  "redecodes bytes opts a b r \<longleftrightarrow>
     (\<exists>p q depth. a \<le> p \<and> p < q \<and> q \<le> b \<and> buffer r = segment bytes p q \<and>
        decode bytes p opts depth = Ok (r, q))"

lemma redecodes_mono: "redecodes bytes opts a b r \<Longrightarrow> a' \<le> a \<Longrightarrow> b \<le> b' \<Longrightarrow> redecodes bytes opts a' b' r"
  unfolding redecodes_def by (meson le_trans)

lemma redecodes_self:
  "decode bytes pos opts depth = Ok (b, np) \<Longrightarrow> redecodes bytes opts pos np b"
  unfolding redecodes_def using decode_progress(1) decode_buffer by blast

lemma decode_nodes:
  "decode bytes pos opts depth = Ok (b, np) \<Longrightarrow> \<forall>r \<in> set (ref_nodes b). redecodes bytes opts pos np r"
proof -
  assume ok: "decode bytes pos opts depth = Ok (b, np)"
  have "set (ref_nodes b) \<subseteq> insert b {r. redecodes bytes opts pos np r}"
  proof (rule decode_Ok_induct(1) [where bytes = bytes and opts = opts
        and P = "\<lambda>pos depth b np. set (ref_nodes b) \<subseteq> insert b {r. redecodes bytes opts pos np r}"
        and Q = "\<lambda>pos depth l l' np. pos < np \<and> set (concat (map ref_nodes l')) \<subseteq>
          set (concat (map ref_nodes l)) \<union> {r. redecodes bytes opts pos np r}"
        and R = "\<lambda>pos depth d d' np. pos < np \<and> set (concat (map (ref_nodes \<circ> snd) d')) \<subseteq>
          set (concat (map (ref_nodes \<circ> snd) d)) \<union> {r. redecodes bytes opts pos np r}"],
      goal_cases)
    case (2 pos depth l np)
    then show ?case using redecodes_mono [of bytes opts "Suc pos" np _ pos np] by auto
  next
    case (3 pos depth d np)
    then show ?case using redecodes_mono [of bytes opts "Suc pos" np _ pos np]
      by (auto simp: case_prod_unfold)
  next
    case (6 pos depth l b np l' np')
    from 6(2) have "pos < np" and "redecodes bytes opts pos np b"
      using decode_progress(1) redecodes_self by blast+
    with 6(3) have "set (ref_nodes b) \<subseteq> {r. redecodes bytes opts pos np' r}"
      using redecodes_mono [of bytes opts pos np _ pos np'] 6(5) by auto
    moreover have "{r. redecodes bytes opts np np' r} \<subseteq> {r. redecodes bytes opts pos np' r}"
      using redecodes_mono [of bytes opts np np' _ pos np'] \<open>pos < np\<close> by auto
    ultimately show ?case using 6(5) \<open>pos < np\<close> by auto
  next
    case (8 pos depth d k vp v np d' np')
    from decode_bytes_progress [OF 8(2)] 8(4) have "pos < vp" "vp < np" and "redecodes bytes opts vp np v"
      using decode_progress(1) redecodes_self by blast+
    with 8(5,8) have "set (ref_nodes v) \<subseteq> {r. redecodes bytes opts pos np' r}"
      using redecodes_mono [of bytes opts vp np _ pos np'] by auto
    moreover have "set (concat (map (ref_nodes \<circ> snd) (snd (dict_insert d k v)))) \<subseteq>
        set (ref_nodes v) \<union> set (concat (map (ref_nodes \<circ> snd) d))"
      using UN_mono [OF set_btree_put [of d k v] subset_refl, of "set \<circ> ref_nodes \<circ> snd"]
      by (simp add: dict_insert_def)
    moreover have "{r. redecodes bytes opts np np' r} \<subseteq> {r. redecodes bytes opts pos np' r}"
      using redecodes_mono [of bytes opts np np' _ pos np'] \<open>pos < vp\<close> \<open>vp < np\<close> by auto
    moreover have "np < np'" and "set (concat (map (ref_nodes \<circ> snd) d')) \<subseteq>
        set (concat (map (ref_nodes \<circ> snd) (snd (dict_insert d k v)))) \<union> {r. redecodes bytes opts np np' r}"
      using 8(8) by (rule conjunct1, rule conjunct2)
    ultimately have "set (concat (map (ref_nodes \<circ> snd) d')) \<subseteq>
        set (concat (map (ref_nodes \<circ> snd) d)) \<union> {r. redecodes bytes opts pos np' r}"
      by blast
    then show ?case using \<open>np < np'\<close> \<open>pos < vp\<close> \<open>vp < np\<close> by linarith
  qed (use ok in auto)
  with redecodes_self [OF ok] show ?thesis by auto
qed

end
