(* ===== verification/Bencode_Props.thy ===== *)
theory Bencode_Props
  imports Bencode_Roundtrip
begin

text \<open>
  When the decoder panics and when it gives up, and the properties of the bencode component:
  round trip, normal forms, buffers, panics, the recursion limit, key order.
\<close>

section \<open>Panics\<close>

lemma decode_int_panic_iff: "decode_int bytes pos delim = Panic \<longleftrightarrow> length bytes < pos"
  by (auto simp: decode_int_def and_then_eq_Panic slice_range_eq_Ok Let_def split: option.splits)

lemma decode_bytes_no_panic: "pos \<le> length bytes \<Longrightarrow> decode_bytes bytes pos \<noteq> Panic"
  by (auto simp: decode_bytes_def and_then_eq_Panic decode_int_panic_iff Let_def slice_range_eq_Ok
      dest: decode_int_progress split: if_splits)

text \<open>Only a dictionary can panic.\<close>

lemma decode_no_panic_aux:
  shows "DICT_START \<notin> set bytes \<Longrightarrow> decode bytes pos opts depth \<noteq> Panic"
    and "DICT_START \<notin> set bytes \<Longrightarrow> decode_list bytes pos opts depth l \<noteq> Panic"
    and "decode_dict bytes pos opts depth d = decode_dict bytes pos opts depth d"
proof (induction bytes pos opts depth and bytes pos opts depth l and bytes pos opts depth d
    rule: decode_decode_list_decode_dict.induct)
  case (1 bytes pos opts depth)
  have "bytes ! pos \<noteq> DICT_START" if "pos < length bytes" using that "1.prems" nth_mem by metis
  moreover have "LIST_START \<noteq> INT_START" by (simp add: ben_consts)
  then have "decode_list bytes (Suc pos) opts depth [] \<noteq> Panic"
    if "depth < max_recursion opts" "pos < length bytes" "bytes ! pos = LIST_START"
    using that "1.IH"(1) "1.prems" by simp
  moreover have "slice_range bytes pos np \<noteq> Panic" if "pos < np" "np \<le> length bytes" for np
    using that by simp
  ultimately show ?case
    using decode_int_progress [of bytes "Suc pos" BEN_END] decode_bytes_progress [of bytes pos]
      decode_progress(2) [of bytes "Suc pos" opts depth "[]"]
    by (auto simp: decode.simps [of bytes pos] and_then_eq_Panic decode_int_panic_iff
        decode_bytes_no_panic not_le dest: Suc_lessD)
next
  case (2 bytes pos opts depth l)
  then show ?case by (auto simp: decode_list.simps [of bytes pos] and_then_eq_Panic)
qed simp

text \<open>Lists nested deeper than the limit are refused at the limit.\<close>

lemma decode_nested_lists:
  assumes "bytes = replicate n LIST_START @ suf" and "max_recursion opts < n" and "depth \<le> max_recursion opts"
  shows "decode bytes depth opts depth =
      Err (InvalidRecursionExceeded (max_recursion opts) (max_recursion opts))"
  using assms(3)
proof (induction "max_recursion opts - depth" arbitrary: depth)
  case 0
  then have "depth = max_recursion opts" by simp
  then show ?case by (simp add: decode.simps)
next
  case (Suc k)
  then have lt: "depth < max_recursion opts" by simp
  then have "bytes ! depth = LIST_START" and "bytes ! Suc depth = LIST_START" and "Suc depth < length bytes"
    using assms(1,2) by (simp_all add: nth_append)
  moreover have "decode bytes (Suc depth) opts (Suc depth) =
      Err (InvalidRecursionExceeded (max_recursion opts) (max_recursion opts))"
    using Suc lt by simp
  ultimately show ?case using lt
    by (subst decode.simps) (simp add: decode_list.simps peek_byte_def get_slice_def ben_consts)
qed

section \<open>Errors inside containers\<close>

text \<open>An open container: what of a list or a dictionary stands before a nested value. A list has its
  items so far, a dictionary its entries so far and the key of the value.\<close>

datatype frame = ListFrame "bencode_mut list" | DictFrame "(bytes \<times> bencode_mut) list" bytes

fun open_bytes :: "frame \<Rightarrow> bytes" where
  "open_bytes (ListFrame l) = LIST_START # concat (map bencoding l)"
| "open_bytes (DictFrame d k) = DICT_START # bencoding_entries d @ bencoding_bytes k"

definition item_fits :: "bdecode_opt \<Rightarrow> nat \<Rightarrow> bencode_mut \<Rightarrow> bool" where
  "item_fits opts depth b \<longleftrightarrow> ben_wf b \<and> depth + ben_height b \<le> max_recursion opts"

fun frame_ok :: "bdecode_opt \<Rightarrow> nat \<Rightarrow> frame \<Rightarrow> bool" where
  "frame_ok opts depth (ListFrame l) = list_all (item_fits opts (Suc depth)) l"
| "frame_ok opts depth (DictFrame d k) =
     (list_all (\<lambda>(k, v). length k < 2 ^ 63 \<and> item_fits opts (Suc depth) v) d \<and> length k < 2 ^ 63 \<and>
      sorted_wrt (<) (map fst d @ [k]))"

fun frames_ok :: "bdecode_opt \<Rightarrow> nat \<Rightarrow> frame list \<Rightarrow> bool" where
  "frames_ok opts depth [] = True"
| "frames_ok opts depth (f # fs) = (depth < max_recursion opts \<and> frame_ok opts depth f \<and> frames_ok opts (Suc depth) fs)"

fun is_dict_frame :: "frame \<Rightarrow> bool" where
  "is_dict_frame (ListFrame l) = False"
| "is_dict_frame (DictFrame d k) = True"

text \<open>The bytes do not close the container: more input follows than its end, or none while the depth is
  allowed.\<close>

definition value_starts :: "bdecode_opt \<Rightarrow> nat \<Rightarrow> bytes \<Rightarrow> bool" where
  "value_starts opts depth bs \<longleftrightarrow> (if bs = [] then depth < max_recursion opts else hd bs \<noteq> BEN_END)"

text \<open>What a failure of the nested value makes of the container around it.\<close>


lemma item_fits_decode:
  "item_fits opts depth b \<Longrightarrow> decode (pre @ bencoding b @ suf) (length pre) opts depth =
     Ok (ref_of b, length pre + length (bencoding b))"
  unfolding item_fits_def by (elim conjE) (rule decode_bencoding)

lemma decode_open_list:
  assumes "depth < max_recursion opts" and "frame_ok opts depth (ListFrame l)"
    and "decode (pre @ open_bytes (ListFrame l) @ suf) (length (pre @ open_bytes (ListFrame l))) opts (Suc depth) = r"
    and "r = Err e \<or> r = Panic" and "value_starts opts (Suc depth) suf"
  shows "decode (pre @ open_bytes (ListFrame l) @ suf) (length pre) opts depth =
    (case r of Ok _ \<Rightarrow> Panic | Err e \<Rightarrow> Err e | Panic \<Rightarrow> Panic)"
proof -
  let ?bytes = "pre @ open_bytes (ListFrame l) @ suf" and ?p = "pre @ [LIST_START]"
  let ?body = "concat (map bencoding l)"
  have bytes: "?bytes = ?p @ ?body @ suf" by simp
  have "decode_list (?p @ ?body @ suf) (length ?p) opts depth [] =
      decode_list (?p @ ?body @ suf) (length (?p @ ?body)) opts depth ([] @ map ref_of l)"
    by (rule decode_list_items) (use assms(2) in \<open>auto simp: list_all_iff intro: item_fits_decode\<close>)
  also have "\<dots> = (case r of Ok _ \<Rightarrow> Panic | Err e \<Rightarrow> Err e | Panic \<Rightarrow> Panic)"
  proof (cases "suf = []")
    case True
    then have "r = Err (BytesEmpty (length (?p @ ?body)))"
      using assms(3,5) by (simp add: decode.simps value_starts_def peek_byte_def get_slice_def)
    then show ?thesis by (subst decode_list.simps) (simp add: True peek_byte_def get_slice_def)
  next
    case False
    then show ?thesis using assms(3-5)
      by (subst decode_list.simps) (auto simp: value_starts_def peek_byte_def get_slice_def nth_append hd_conv_nth)
  qed
  finally show ?thesis using assms(1,4)
    by (subst decode.simps) (auto simp: peek_byte_def get_slice_def nth_append ben_consts)
qed

lemma decode_open_dict:
  assumes "depth < max_recursion opts" and "frame_ok opts depth (DictFrame d k)"
    and "\<And>r. decode (pre @ open_bytes (DictFrame d k) @ suf) (length (pre @ open_bytes (DictFrame d k))) opts (Suc depth) \<noteq> Ok r"
  shows "decode (pre @ open_bytes (DictFrame d k) @ suf) (length pre) opts depth = Panic"
proof -
  let ?bytes = "pre @ open_bytes (DictFrame d k) @ suf" and ?p = "pre @ [DICT_START]"
  let ?acc = "map (\<lambda>(k, v). (k, ref_of v)) d"
  have keys: "fst ` set ?acc = fst ` set d" by force
  have fit: "item_fits opts (Suc depth) v" if "(k', v) \<in> set d" for k' v
    using assms(2) that by (auto simp: list_all_iff)
  have less: "\<forall>k' \<in> fst ` set ?acc. k' < k" using assms(2) unfolding keys by (auto simp: sorted_wrt_append)
  have "decode_dict (?p @ bencoding_entries d @ bencoding_bytes k @ suf) (length ?p) opts depth [] =
      decode_dict (?p @ bencoding_entries d @ bencoding_bytes k @ suf) (length (?p @ bencoding_entries d)) opts depth
        ([] @ ?acc)"
    by (rule decode_dict_entries)
       (use assms(2) in \<open>auto simp: list_all_iff btree_wf_def sorted_wrt_append comp_def case_prod_unfold
         intro!: item_fits_decode fit\<close>)
  also have "\<dots> = Panic"
  proof -
    let ?q = "?p @ bencoding_entries d"
    have "(?q @ bencoding_bytes k @ suf) ! length ?q \<noteq> BEN_END"
      using bencoding_bytes_first(1) [of k] by (subst nth_middle) auto
    moreover have "decode_bytes (?q @ bencoding_bytes k @ suf) (length ?q) = Ok (k, length ?q + length (bencoding_bytes k))"
      by (rule decode_bytes_bencoding) (use assms(2) in auto)
    moreover have "decode (?q @ bencoding_bytes k @ suf) (length ?q + length (bencoding_bytes k)) opts (Suc depth) \<noteq> Ok r" for r
      using assms(3) [of r] by (simp add: add.assoc)
    then have "unwrap (decode (?q @ bencoding_bytes k @ suf) (length ?q + length (bencoding_bytes k)) opts (Suc depth)) =
       (Panic :: (bencode_ref \<times> nat) parse_result)"
      by (cases "decode (?q @ bencoding_bytes k @ suf) (length ?q + length (bencoding_bytes k)) opts (Suc depth)") auto
    moreover note key_in_order [OF less, of opts]
    ultimately have "decode_dict (?q @ bencoding_bytes k @ suf) (length ?q) opts depth ?acc = Panic"
      by (subst decode_dict.simps) (simp add: peek_byte_def get_slice_def)
    then show ?thesis by simp
  qed
  finally show ?thesis using assms(1)
    by (subst decode.simps) (auto simp: peek_byte_def get_slice_def nth_append ben_consts)
qed

lemma hd_open_bytes: "open_bytes f \<noteq> []" "hd (open_bytes f @ xs) \<noteq> BEN_END"
  by (cases f; simp add: ben_consts)+

lemma decode_open_frames:
  assumes "frames_ok opts depth fs"
    and "decode (pre @ concat (map open_bytes fs) @ suf) (length (pre @ concat (map open_bytes fs))) opts (depth + length fs) = Err e"
    and "value_starts opts (depth + length fs) suf"
  shows "decode (pre @ concat (map open_bytes fs) @ suf) (length pre) opts depth =
    (if \<exists>f \<in> set fs. is_dict_frame f then Panic else Err e)"
  using assms
proof (induction fs arbitrary: pre depth)
  case (Cons f fs)
  let ?suf = "concat (map open_bytes fs) @ suf"
  have IH: "decode ((pre @ open_bytes f) @ ?suf) (length (pre @ open_bytes f)) opts (Suc depth) =
      (if \<exists>f \<in> set fs. is_dict_frame f then Panic else Err e)"
    by (rule Cons.IH) (use Cons.prems in simp_all)
  have suf: "value_starts opts (Suc depth) ?suf"
    using Cons.prems(3) hd_open_bytes by (cases fs) (auto simp: value_starts_def)
  show ?case
  proof (cases f)
    case (ListFrame l)
    with decode_open_list [of depth opts l pre ?suf _ e] IH suf Cons.prems(1) show ?thesis by auto
  next
    case (DictFrame d k)
    with decode_open_dict [of depth opts d k pre ?suf] IH Cons.prems(1) show ?thesis by auto
  qed
qed simp

section \<open>Auxiliary facts of the properties\<close>

lemma bencode_encode_eq: "bencode_encode b = bencoding b"
  by (simp add: bencode_encode_def encode_append)

lemma mut_of_ref_of: "mut_of (ref_of b) = b"
  by (induction b) (auto simp: comp_def case_prod_unfold intro!: map_idI)

lemma buffer_ref_of: "buffer (ref_of b) = bencoding b"
  by (cases b) simp_all

lemma bencode_decode_encoded:
  assumes "ben_wf b" and "ben_height b \<le> max_recursion opts"
  shows "bencode_decode (bencoding b) opts = Ok (ref_of b)"
  using decode_bencoding [OF assms(1), of 0 opts "[]" "[]"] assms(2) by (simp add: bencode_decode_def)

lemma bencode_decode_eq_Ok:
  "bencode_decode bytes opts = Ok b \<longleftrightarrow> (\<exists>np. decode bytes 0 opts 0 = Ok (b, np) \<and>
     (enforce_full_decode opts \<longrightarrow> np = length bytes))"
  by (auto simp: bencode_decode_def)

section \<open>Properties\<close>

text \<open>C1: For every value a program can hold, nested no deeper than the decoder's limit, decoding
  its encoding under any options gives the value back, with the encoding as its buffer.\<close>

theorem bencode_roundtrip:
  assumes "ben_wf b" and "ben_height b \<le> max_recursion opts"
  shows "bencode_decode (bencode_encode b) opts = Ok (ref_of b) \<and>
    mut_of (ref_of b) = b \<and> buffer (ref_of b) = bencode_encode b"
  using bencode_decode_encoded [OF assms] by (simp add: bencode_encode_eq mut_of_ref_of buffer_ref_of)

theorem bencode_roundtrip_witness:
  "bencode_decode (bencode_encode (MList [MInt (- 5), MDict [([97], MBytes [1, 2]), ([98], MList [])]]))
     bdecode_opt_default =
   Ok (ref_of (MList [MInt (- 5), MDict [([97], MBytes [1, 2]), ([98], MList [])]]))"
  using bencode_roundtrip [of "MList [MInt (- 5), MDict [([97], MBytes [1, 2]), ([98], MList [])]]"
      bdecode_opt_default]
  by (simp add: i64_range_def btree_wf_def bdecode_opt_default_def)

text \<open>Decoding, encoding the decoded value and decoding again gives the same value: the decoder
  only accepts values that the encoder can represent, whatever the input (unsorted keys, a sign in
  front of a number, trailing bytes).\<close>

theorem bencode_decode_normalises:
  assumes "bencode_decode bytes opts = Ok r" and "length bytes < 2 ^ 63"
  shows "ben_wf (mut_of r) \<and>
    (\<exists>r'. bencode_decode (bencode_encode (mut_of r)) opts = Ok r' \<and> mut_of r' = mut_of r)"
proof -
  from assms(1) obtain np where "decode bytes 0 opts 0 = Ok (r, np)"
    by (auto simp: bencode_decode_eq_Ok)
  from decode_decoded_ok [OF assms(2) this] have ok: "decoded_ok opts 0 r" .
  then have "bencode_decode (bencoding (mut_of r)) opts = Ok (ref_of (mut_of r))"
    by (intro bencode_decode_encoded) (simp_all add: decoded_ok_def)
  with ok show ?thesis by (simp add: bencode_encode_eq mut_of_ref_of decoded_ok_def)
qed

theorem bencode_decode_normalises_witness:
  "bencode_decode (ascii ''d1:bi1e1:ai+2ee'') bdecode_opt_default =
     Ok (RDict [([97], RInt 2 (ascii ''i+2e'')), ([98], RInt 1 (ascii ''i1e''))] (ascii ''d1:bi1e1:ai+2ee'')) \<and>
   (\<exists>r'. bencode_decode (bencode_encode (MDict [([97], MInt 2), ([98], MInt 1)])) bdecode_opt_default = Ok r' \<and>
     mut_of r' = MDict [([97], MInt 2), ([98], MInt 1)])"
proof -
  have "bencode_decode (ascii ''d1:bi1e1:ai+2ee'') bdecode_opt_default =
     Ok (RDict [([97], RInt 2 (ascii ''i+2e'')), ([98], RInt 1 (ascii ''i1e''))] (ascii ''d1:bi1e1:ai+2ee''))"
    by code_simp
  moreover from bencode_decode_normalises [OF this] show ?thesis
    using calculation by (simp add: ascii_def)
qed

text \<open>C2: With sorted keys enforced and the whole input read, an input without plus signs that decodes
  is the encoding of the decoded value, byte for byte: the accepted form is canonical.\<close>

theorem bencode_decode_canonical:
  assumes "bencode_decode bytes opts = Ok r"
    and "check_key_sort opts" and "enforce_full_decode opts" and "43 \<notin> set bytes"
  shows "bencode_encode (mut_of r) = bytes"
proof -
  from assms(1,3) have "decode bytes 0 opts 0 = Ok (r, length bytes)"
    by (auto simp: bencode_decode_eq_Ok)
  from decode_canonical [OF assms(4,2) this] show ?thesis
    by (simp add: bencode_encode_eq segment_def)
qed

theorem bencode_decode_canonical_witness:
  "bencode_decode (ascii ''d1:ai-2e1:blee'')
     \<lparr>max_recursion = 5, check_key_sort = True, enforce_full_decode = True\<rparr> =
     Ok (RDict [([97], RInt (- 2) (ascii ''i-2e'')), ([98], RList [] (ascii ''le''))] (ascii ''d1:ai-2e1:blee'')) \<and>
   bencode_encode (MDict [([97], MInt (- 2)), ([98], MList [])]) = ascii ''d1:ai-2e1:blee''"
proof -
  have ok: "bencode_decode (ascii ''d1:ai-2e1:blee'')
     \<lparr>max_recursion = 5, check_key_sort = True, enforce_full_decode = True\<rparr> =
     Ok (RDict [([97], RInt (- 2) (ascii ''i-2e'')), ([98], RList [] (ascii ''le''))] (ascii ''d1:ai-2e1:blee''))"
    by code_simp
  have "43 \<notin> set (ascii ''d1:ai-2e1:blee'')" by code_simp
  with bencode_decode_canonical [OF ok] ok show ?thesis by simp
qed

text \<open>C6: Every node of a decoded value carries the slice of the input it was decoded from, and
  decoding at that slice yields the node again. Nodes lie within the part of the input the decoder
  consumed.\<close>

theorem bencode_node_buffers:
  assumes "bencode_decode bytes opts = Ok r" and "r' \<in> set (ref_nodes r)"
  shows "\<exists>p q depth. p < q \<and> q \<le> length bytes \<and> buffer r' = segment bytes p q \<and>
    decode bytes p opts depth = Ok (r', q)"
proof -
  from assms(1) obtain np where ok: "decode bytes 0 opts 0 = Ok (r, np)"
    by (auto simp: bencode_decode_eq_Ok)
  from decode_nodes [OF ok] assms(2) have "redecodes bytes opts 0 np r'" by simp
  with decode_progress(1) [OF ok] show ?thesis unfolding redecodes_def by (meson le_trans)
qed

theorem bencode_node_buffers_witness:
  "\<exists>p q depth. p < q \<and> q \<le> length (ascii ''li7ee'') \<and> ascii ''i7e'' = segment (ascii ''li7ee'') p q \<and>
     decode (ascii ''li7ee'') p bdecode_opt_default depth = Ok (RInt 7 (ascii ''i7e''), q)"
proof -
  have "bencode_decode (ascii ''li7ee'') bdecode_opt_default =
      Ok (RList [RInt 7 (ascii ''i7e'')] (ascii ''li7ee''))"
    by code_simp
  from bencode_node_buffers [OF this, of "RInt 7 (ascii ''i7e'')"] show ?thesis by simp
qed

text \<open>C7: An input without the byte that starts a dictionary never makes the decoder panic: it
  returns a value or an error.\<close>

theorem bencode_decode_no_panic:
  assumes "DICT_START \<notin> set bytes"
  shows "bencode_decode bytes opts \<noteq> Panic"
  using decode_no_panic_aux(1) [OF assms] by (auto simp: bencode_decode_def and_then_eq_Panic)

theorem bencode_decode_no_panic_witness:
  "bencode_decode (ascii ''l3:abi5ee'') bdecode_opt_default \<noteq> Panic"
proof -
  have "DICT_START \<notin> set (ascii ''l3:abi5ee'')" by code_simp
  then show ?thesis by (rule bencode_decode_no_panic)
qed

text \<open>C8: When decoding fails with an error at a value nested in open containers, the whole call panics if
  one of these containers is a dictionary, because a dictionary decodes its values with \<open>unwrap\<close>;
  the error is reported only if all of them are lists. The containers may hold any items and entries
  before the failing value, and the input may end there.\<close>

theorem nested_error_panics:
  assumes "frames_ok opts 0 fs" and "value_starts opts (length fs) suf"
    and "decode (concat (map open_bytes fs) @ suf) (length (concat (map open_bytes fs))) opts (length fs) = Err e"
  shows "bencode_decode (concat (map open_bytes fs) @ suf) opts =
    (if \<exists>f. f \<in> set fs \<and> is_dict_frame f then Panic else Err e)"
  using decode_open_frames [OF assms(1), of "[]" suf e] assms(2,3)
  by (auto simp: bencode_decode_def)

theorem nested_error_panics_witness:
  "bencode_decode (ascii ''ld1:ai7e1:bl?'') bdecode_opt_default = Panic \<and>
   bencode_decode (ascii ''d1:a'') bdecode_opt_default = Panic \<and>
   bencode_decode (ascii ''l1:al?'') bdecode_opt_default = Err (InvalidByte 5)"
proof -
  let ?fs = "[ListFrame [], DictFrame [([97], MInt 7)] [98], ListFrame []]" and ?gs = "[ListFrame [MBytes [97]], ListFrame []]"
  let ?hs = "[DictFrame [] [97]]"
  have o: "concat (map open_bytes ?fs) @ [63] = ascii ''ld1:ai7e1:bl?''" "concat (map open_bytes ?gs) @ [63] = ascii ''l1:al?''"
    "concat (map open_bytes ?hs) @ [] = ascii ''d1:a''"
    "length (concat (map open_bytes ?fs)) = 12" "length (concat (map open_bytes ?gs)) = 5" "length (concat (map open_bytes ?hs)) = 4"
    by code_simp+
  have f: "frames_ok bdecode_opt_default 0 ?fs" "frames_ok bdecode_opt_default 0 ?gs" "frames_ok bdecode_opt_default 0 ?hs"
    by (simp_all add: bdecode_opt_default_def item_fits_def i64_range_def)
  have v: "value_starts bdecode_opt_default (length ?fs) [63]" "value_starts bdecode_opt_default (length ?gs) [63]"
    "value_starts bdecode_opt_default (length ?hs) []"
    by (simp_all add: value_starts_def ben_consts bdecode_opt_default_def)
  have d: "decode (concat (map open_bytes ?fs) @ [63]) (length (concat (map open_bytes ?fs))) bdecode_opt_default (length ?fs) = Err (InvalidByte 12)"
    "decode (concat (map open_bytes ?gs) @ [63]) (length (concat (map open_bytes ?gs))) bdecode_opt_default (length ?gs) = Err (InvalidByte 5)"
    "decode (concat (map open_bytes ?hs) @ []) (length (concat (map open_bytes ?hs))) bdecode_opt_default (length ?hs) = Err (BytesEmpty 4)"
    by code_simp+
  from nested_error_panics [OF f(1) v(1) d(1)] nested_error_panics [OF f(2) v(2) d(2)] nested_error_panics [OF f(3) v(3) d(3)]
  show ?thesis unfolding o by auto
qed
text \<open>Input nested deeper than \<open>max_recursion\<close> is refused with the recursion error at the limit,
  whatever follows.\<close>

theorem bencode_recursion_limit:
  assumes "max_recursion opts < n"
  shows "bencode_decode (replicate n LIST_START @ suf) opts =
    Err (InvalidRecursionExceeded (max_recursion opts) (max_recursion opts))"
  using decode_nested_lists [OF refl assms, of 0 suf] by (simp add: bencode_decode_def)

theorem bencode_recursion_limit_witness:
  "bencode_decode (replicate 51 LIST_START @ [0]) bdecode_opt_default = Err (InvalidRecursionExceeded 50 50)"
  using bencode_recursion_limit [of bdecode_opt_default 51 "[0]"] by (simp add: bdecode_opt_default_def)

text \<open>The encoding of a dictionary built with the \<open>ben_map!\<close> macro does not depend on the order in
  which its entries are written, when their keys are distinct.\<close>

theorem ben_map_order_irrelevant:
  assumes "mset kvs = mset kvs'" and "distinct (map fst kvs)"
  shows "map_option bencode_encode (ben_map kvs) = map_option bencode_encode (ben_map kvs')"
proof -
  have d: "distinct (map fst kvs')"
    using assms by (metis mset_eq_imp_distinct_iff mset_map)
  have "set kvs = set kvs'" using assms(1) by (rule mset_eq_setD)
  with assms(2) d have "map_of (rev kvs) = map_of (rev kvs')"
    by (subst map_of_inject_set) (simp_all flip: rev_map)
  then have "fold (\<lambda>(k, v) m. snd (dict_insert m k v)) kvs dict_new =
      fold (\<lambda>(k, v) m. snd (dict_insert m k v)) kvs' dict_new"
    by (intro btree_ext btree.invar_inserts btree.invar_new) (simp add: btree.lookup_inserts_new)
  then show ?thesis by (simp add: ben_map_def new_dict_def)
qed

theorem ben_map_order_irrelevant_witness:
  "map_option bencode_encode (ben_map [([98], MInt 1), ([97], MInt 2)]) =
   map_option bencode_encode (ben_map [([97], MInt 2), ([98], MInt 1)])"
  using ben_map_order_irrelevant [of "[([98], MInt 1), ([97], MInt 2)]" "[([97], MInt 2), ([98], MInt 1)]"]
  by simp

end
