(* ===== verification/Bencode_Access.thy ===== *)
theory Bencode_Access
  imports Bencode_Roundtrip
begin

text \<open>
  The access traits of \<open>src/bencode/access\<close>: \<open>BRefAccess\<close> for both bencode values, \<open>BListAccess\<close>
  for \<open>Vec\<close> with its iterator, and the typed lookups \<open>BConvert\<close>/\<open>BConvertExt\<close> every message parser
  uses. The traits are the locales \<open>bref_access\<close> and \<open>blist_access\<close>; what holds of the typed lookups
  for any value type is proved in the first, once.
\<close>

section \<open>BRefAccess\<close>

datatype 'v bencode_kind = KInt int | KBytes bytes | KList "'v list" | KDict "(bytes \<times> 'v) list"

fun ref_kind :: "bencode_ref \<Rightarrow> bencode_ref bencode_kind" where
  "ref_kind (RInt n _) = KInt n"
| "ref_kind (RBytes n _) = KBytes n"
| "ref_kind (RList n _) = KList n"
| "ref_kind (RDict n _) = KDict n"

fun ref_int :: "bencode_ref \<Rightarrow> int option" where
  "ref_int (RInt n _) = Some n"
| "ref_int _ = None"

fun ref_bytes_ext :: "bencode_ref \<Rightarrow> bytes option" where
  "ref_bytes_ext (RBytes n _) = Some n"
| "ref_bytes_ext _ = None"

definition ref_str_ext :: "bencode_ref \<Rightarrow> bytes option" where
  "ref_str_ext b =
     (case ref_bytes_ext b of None \<Rightarrow> None | Some s \<Rightarrow> if utf8_valid s then Some s else None)"

definition ref_bytes :: "bencode_ref \<Rightarrow> bytes option" where "ref_bytes = ref_bytes_ext"
definition ref_str :: "bencode_ref \<Rightarrow> bytes option" where "ref_str = ref_str_ext"

fun ref_list :: "bencode_ref \<Rightarrow> bencode_ref list option" where
  "ref_list (RList n _) = Some n"
| "ref_list _ = None"

fun ref_dict :: "bencode_ref \<Rightarrow> (bytes \<times> bencode_ref) list option" where
  "ref_dict (RDict n _) = Some n"
| "ref_dict _ = None"

fun mut_kind :: "bencode_mut \<Rightarrow> bencode_mut bencode_kind" where
  "mut_kind (MInt n) = KInt n"
| "mut_kind (MBytes n) = KBytes n"
| "mut_kind (MList n) = KList n"
| "mut_kind (MDict n) = KDict n"

fun mut_int :: "bencode_mut \<Rightarrow> int option" where
  "mut_int (MInt n) = Some n"
| "mut_int _ = None"

fun mut_bytes :: "bencode_mut \<Rightarrow> bytes option" where
  "mut_bytes (MBytes n) = Some n"
| "mut_bytes _ = None"

definition mut_str :: "bencode_mut \<Rightarrow> bytes option" where
  "mut_str b =
     (case mut_bytes b of None \<Rightarrow> None | Some s \<Rightarrow> if utf8_valid s then Some s else None)"

fun mut_list :: "bencode_mut \<Rightarrow> bencode_mut list option" where
  "mut_list (MList n) = Some n"
| "mut_list _ = None"

fun mut_dict :: "bencode_mut \<Rightarrow> (bytes \<times> bencode_mut) list option" where
  "mut_dict (MDict n) = Some n"
| "mut_dict _ = None"

section \<open>BListAccess\<close>

definition list_get :: "'v list \<Rightarrow> nat \<Rightarrow> 'v option" where
  "list_get xs index = get_slice xs index"

definition list_get_mut :: "'v list \<Rightarrow> nat \<Rightarrow> ('v \<Rightarrow> 'v) \<Rightarrow> 'v list option" where
  "list_get_mut xs index f = (if index < length xs then Some (xs[index := f (xs ! index)]) else None)"

definition list_remove :: "'v list \<Rightarrow> nat \<Rightarrow> 'v option \<times> 'v list" where
  "list_remove xs index =
     (if index \<ge> length xs then (None, xs)
      else (Some (xs ! index), take index xs @ drop (Suc index) xs))"

text \<open>\<open>Vec::insert\<close> panics when the index is beyond the end.\<close>

definition list_insert :: "'v list \<Rightarrow> nat \<Rightarrow> 'v \<Rightarrow> ('v list, 'e) outcome" where
  "list_insert xs index item =
     (if index \<le> length xs then Ok (take index xs @ item # drop index xs) else Panic)"

definition list_push :: "'v list \<Rightarrow> 'v \<Rightarrow> 'v list" where
  "list_push xs item = xs @ [item]"

definition list_len :: "'v list \<Rightarrow> nat" where
  "list_len xs = length xs"

text \<open>\<open>Index::index\<close> of a list trait object: \<open>get(index).unwrap()\<close>.\<close>

definition list_index :: "('l \<Rightarrow> nat \<Rightarrow> 'v option) \<Rightarrow> 'l \<Rightarrow> nat \<Rightarrow> ('v, 'e) outcome" where
  "list_index get access index = (case get access index of Some v \<Rightarrow> Ok v | None \<Rightarrow> Panic)"

text \<open>\<open>BListIter\<close>: the index and the list it reads through \<open>get\<close>.\<close>

record 'l blist_iter =
  iter_index :: nat
  iter_access :: 'l

definition blist_into_iter :: "'l \<Rightarrow> 'l blist_iter" where
  "blist_into_iter access = \<lparr>iter_index = 0, iter_access = access\<rparr>"

definition blist_iter_next ::
    "('l \<Rightarrow> nat \<Rightarrow> 'v option) \<Rightarrow> 'l blist_iter \<Rightarrow> 'v option \<times> 'l blist_iter" where
  "blist_iter_next get it =
     (let opt_next = get (iter_access it) (iter_index it) in
      (opt_next, if opt_next \<noteq> None then it\<lparr>iter_index := iter_index it + 1\<rparr> else it))"

text \<open>A \<open>for\<close> loop over the iterator, at most \<open>fuel\<close> rounds; \<open>None\<close> when it has not ended.\<close>

fun blist_for :: "('l \<Rightarrow> nat \<Rightarrow> 'v option) \<Rightarrow> nat \<Rightarrow> 'l blist_iter \<Rightarrow> 'v list option" where
  "blist_for get 0 it = None"
| "blist_for get (Suc fuel) it =
     (case blist_iter_next get it of
        (None, _) \<Rightarrow> Some []
      | (Some v, it') \<Rightarrow> map_option ((#) v) (blist_for get fuel it'))"

section \<open>BConvert\<close>

datatype bencode_convert_error = MissingKey bytes | WrongType bytes string

text \<open>\<open>handle_error\<close> is the implementor's method; the accessor of the value's type is an argument.\<close>

definition convert_int ::
    "(bencode_convert_error \<Rightarrow> 'e) \<Rightarrow> ('b \<Rightarrow> int option) \<Rightarrow> 'b \<Rightarrow> bytes \<Rightarrow> (int, 'e) outcome" where
  "convert_int handle_error as_int bencode error_key =
     ok_or (as_int bencode) (handle_error (WrongType error_key ''Integer''))"

definition convert_bytes ::
    "(bencode_convert_error \<Rightarrow> 'e) \<Rightarrow> ('b \<Rightarrow> bytes option) \<Rightarrow> 'b \<Rightarrow> bytes \<Rightarrow> (bytes, 'e) outcome" where
  "convert_bytes handle_error bytes bencode error_key =
     ok_or (bytes bencode) (handle_error (WrongType error_key ''Bytes''))"

definition convert_str ::
    "(bencode_convert_error \<Rightarrow> 'e) \<Rightarrow> ('b \<Rightarrow> bytes option) \<Rightarrow> 'b \<Rightarrow> bytes \<Rightarrow> (bytes, 'e) outcome" where
  "convert_str handle_error str bencode error_key =
     ok_or (str bencode) (handle_error (WrongType error_key ''UTF-8 Bytes''))"

definition convert_list ::
    "(bencode_convert_error \<Rightarrow> 'e) \<Rightarrow> ('b \<Rightarrow> 'b list option) \<Rightarrow> 'b \<Rightarrow> bytes \<Rightarrow> ('b list, 'e) outcome" where
  "convert_list handle_error list bencode error_key =
     ok_or (list bencode) (handle_error (WrongType error_key ''List''))"

definition convert_dict ::
    "(bencode_convert_error \<Rightarrow> 'e) \<Rightarrow> ('b \<Rightarrow> (bytes \<times> 'b) list option) \<Rightarrow> 'b \<Rightarrow> bytes \<Rightarrow>
       ((bytes \<times> 'b) list, 'e) outcome" where
  "convert_dict handle_error dict bencode error_key =
     ok_or (dict bencode) (handle_error (WrongType error_key ''Dictionary''))"

definition convert_lookup ::
    "(bencode_convert_error \<Rightarrow> 'e) \<Rightarrow> (bytes \<times> 'b) list \<Rightarrow> bytes \<Rightarrow> ('b, 'e) outcome" where
  "convert_lookup handle_error dictionary key =
     (case dict_lookup dictionary key of
        Some n \<Rightarrow> Ok n
      | None \<Rightarrow> Err (handle_error (MissingKey key)))"

definition lookup_and_convert_int ::
    "(bencode_convert_error \<Rightarrow> 'e) \<Rightarrow> ('b \<Rightarrow> int option) \<Rightarrow> (bytes \<times> 'b) list \<Rightarrow> bytes \<Rightarrow> (int, 'e) outcome" where
  "lookup_and_convert_int h as_int dictionary key =
     and_then (convert_lookup h dictionary key) (\<lambda>b. convert_int h as_int b key)"

definition lookup_and_convert_bytes ::
    "(bencode_convert_error \<Rightarrow> 'e) \<Rightarrow> ('b \<Rightarrow> bytes option) \<Rightarrow> (bytes \<times> 'b) list \<Rightarrow> bytes \<Rightarrow> (bytes, 'e) outcome" where
  "lookup_and_convert_bytes h bytes dictionary key =
     and_then (convert_lookup h dictionary key) (\<lambda>b. convert_bytes h bytes b key)"

definition lookup_and_convert_str ::
    "(bencode_convert_error \<Rightarrow> 'e) \<Rightarrow> ('b \<Rightarrow> bytes option) \<Rightarrow> (bytes \<times> 'b) list \<Rightarrow> bytes \<Rightarrow> (bytes, 'e) outcome" where
  "lookup_and_convert_str h str dictionary key =
     and_then (convert_lookup h dictionary key) (\<lambda>b. convert_str h str b key)"

definition lookup_and_convert_list ::
    "(bencode_convert_error \<Rightarrow> 'e) \<Rightarrow> ('b \<Rightarrow> 'b list option) \<Rightarrow> (bytes \<times> 'b) list \<Rightarrow> bytes \<Rightarrow> ('b list, 'e) outcome" where
  "lookup_and_convert_list h list dictionary key =
     and_then (convert_lookup h dictionary key) (\<lambda>b. convert_list h list b key)"

definition lookup_and_convert_dict ::
    "(bencode_convert_error \<Rightarrow> 'e) \<Rightarrow> ('b \<Rightarrow> (bytes \<times> 'b) list option) \<Rightarrow> (bytes \<times> 'b) list \<Rightarrow> bytes \<Rightarrow>
       ((bytes \<times> 'b) list, 'e) outcome" where
  "lookup_and_convert_dict h dict dictionary key =
     and_then (convert_lookup h dictionary key) (\<lambda>b. convert_dict h dict b key)"

lemmas convert_defs =
  convert_int_def convert_bytes_def convert_str_def convert_list_def convert_dict_def
  lookup_and_convert_int_def lookup_and_convert_bytes_def lookup_and_convert_str_def
  lookup_and_convert_list_def lookup_and_convert_dict_def convert_lookup_def
section \<open>The interfaces and what they give\<close>

locale bref_access =
  fixes kind :: "'b \<Rightarrow> 'b bencode_kind"
    and as_int :: "'b \<Rightarrow> int option"
    and as_bytes :: "'b \<Rightarrow> bytes option"
    and as_str :: "'b \<Rightarrow> bytes option"
    and as_list :: "'b \<Rightarrow> 'b list option"
    and as_dict :: "'b \<Rightarrow> (bytes \<times> 'b) list option"
  assumes as_int_kind: "as_int b = Some n \<longleftrightarrow> kind b = KInt n"
    and as_bytes_kind: "as_bytes b = Some s \<longleftrightarrow> kind b = KBytes s"
    and as_str_kind: "as_str b = Some s \<longleftrightarrow> kind b = KBytes s \<and> utf8_valid s"
    and as_list_kind: "as_list b = Some l \<longleftrightarrow> kind b = KList l"
    and as_dict_kind: "as_dict b = Some d \<longleftrightarrow> kind b = KDict d"
begin

text \<open>A value answers exactly one of the accessors (a string answers two).\<close>

lemma accessors_exclusive:
  "(as_int b \<noteq> None) = (\<exists>n. kind b = KInt n)"
  "as_int b \<noteq> None \<Longrightarrow> as_bytes b = None \<and> as_list b = None \<and> as_dict b = None"
  "as_list b \<noteq> None \<Longrightarrow> as_int b = None \<and> as_bytes b = None \<and> as_dict b = None"
  by (auto simp: as_int_kind as_list_kind)
     (metis as_int_kind as_bytes_kind as_list_kind as_dict_kind bencode_kind.distinct not_None_eq)+

lemma lookup_int_Ok:
  "lookup_and_convert_int h as_int d k = Ok n \<longleftrightarrow> (\<exists>b. dict_lookup d k = Some b \<and> kind b = KInt n)"
  by (auto simp: convert_defs as_int_kind split: option.splits)

lemma lookup_bytes_Ok:
  "lookup_and_convert_bytes h as_bytes d k = Ok s \<longleftrightarrow> (\<exists>b. dict_lookup d k = Some b \<and> kind b = KBytes s)"
  by (auto simp: convert_defs as_bytes_kind split: option.splits)

lemma lookup_str_Ok:
  "lookup_and_convert_str h as_str d k = Ok s \<longleftrightarrow>
     (\<exists>b. dict_lookup d k = Some b \<and> kind b = KBytes s \<and> utf8_valid s)"
  by (auto simp: convert_defs as_str_kind split: option.splits)

lemma lookup_list_Ok:
  "lookup_and_convert_list h as_list d k = Ok l \<longleftrightarrow> (\<exists>b. dict_lookup d k = Some b \<and> kind b = KList l)"
  by (auto simp: convert_defs as_list_kind split: option.splits)

lemma lookup_dict_Ok:
  "lookup_and_convert_dict h as_dict d k = Ok m \<longleftrightarrow> (\<exists>b. dict_lookup d k = Some b \<and> kind b = KDict m)"
  by (auto simp: convert_defs as_dict_kind split: option.splits)

lemma as_int_None: "as_int b = None \<longleftrightarrow> (\<forall>n. kind b \<noteq> KInt n)"
  by (simp flip: as_int_kind)

text \<open>The error says what was wrong: the key is absent, or its value has another type.\<close>

lemma lookup_int_Err:
  "lookup_and_convert_int h as_int d k = Err e \<longleftrightarrow>
     (dict_lookup d k = None \<and> e = h (MissingKey k)) \<or>
     (\<exists>b. dict_lookup d k = Some b \<and> (\<forall>n. kind b \<noteq> KInt n) \<and> e = h (WrongType k ''Integer''))"
  by (auto simp: convert_defs and_then_eq_Err as_int_None split: option.splits)

end

interpretation ref_access: bref_access ref_kind ref_int ref_bytes ref_str ref_list ref_dict
proof
  fix b n s l d
  show "ref_int b = Some n \<longleftrightarrow> ref_kind b = KInt n" by (cases b) auto
  show "ref_bytes b = Some s \<longleftrightarrow> ref_kind b = KBytes s" by (cases b) (auto simp: ref_bytes_def)
  show "ref_str b = Some s \<longleftrightarrow> ref_kind b = KBytes s \<and> utf8_valid s"
    by (cases b) (auto simp: ref_str_def ref_str_ext_def)
  show "ref_list b = Some l \<longleftrightarrow> ref_kind b = KList l" by (cases b) auto
  show "ref_dict b = Some d \<longleftrightarrow> ref_kind b = KDict d" by (cases b) auto
qed

interpretation mut_access: bref_access mut_kind mut_int mut_bytes mut_str mut_list mut_dict
proof
  fix b n s l d
  show "mut_int b = Some n \<longleftrightarrow> mut_kind b = KInt n" by (cases b) auto
  show "mut_bytes b = Some s \<longleftrightarrow> mut_kind b = KBytes s" by (cases b) auto
  show "mut_str b = Some s \<longleftrightarrow> mut_kind b = KBytes s \<and> utf8_valid s"
    by (cases b) (auto simp: mut_str_def)
  show "mut_list b = Some l \<longleftrightarrow> mut_kind b = KList l" by (cases b) auto
  show "mut_dict b = Some d \<longleftrightarrow> mut_kind b = KDict d" by (cases b) auto
qed

text \<open>The list trait: what the iterator and the index operator need of \<open>get\<close> and \<open>len\<close>.\<close>

locale blist_access =
  fixes get :: "'l \<Rightarrow> nat \<Rightarrow> 'v option"
    and push :: "'l \<Rightarrow> 'v \<Rightarrow> 'l"
    and len :: "'l \<Rightarrow> nat"
  assumes get_None: "get l i = None \<longleftrightarrow> len l \<le> i"
    and len_push: "len (push l v) = Suc (len l)"
    and get_push: "get (push l v) i = (if i = len l then Some v else get l i)"
begin

lemma index_panics: "list_index get l i = Panic \<longleftrightarrow> len l \<le> i"
  using get_None [of l i] by (auto simp: list_index_def split: option.splits)

text \<open>A loop over the iterator ends after \<open>len\<close> rounds and sees the elements in order.\<close>

lemma blist_for_from:
  assumes "i \<le> len l" and "len l - i < fuel"
  shows "blist_for get fuel \<lparr>iter_index = i, iter_access = l\<rparr> = Some (map (\<lambda>j. the (get l j)) [i..<len l])"
  using assms
proof (induction fuel arbitrary: i)
  case (Suc fuel)
  show ?case
  proof (cases "i = len l")
    case True
    then have "get l i = None" by (simp add: get_None)
    with True show ?thesis by (simp add: blist_iter_next_def)
  next
    case False
    with Suc.prems obtain v where "get l i = Some v" using get_None [of l i] by force
    with False Suc show ?thesis by (simp add: blist_iter_next_def upt_conv_Cons [of i])
  qed
qed simp

lemma blist_for_all:
  "blist_for get (Suc (len l)) (blist_into_iter l) = Some (map (\<lambda>j. the (get l j)) [0..<len l])"
  by (simp add: blist_into_iter_def blist_for_from del: blist_for.simps)

end

interpretation vec: blist_access list_get list_push list_len
  by unfold_locales (auto simp: list_get_def list_push_def list_len_def get_slice_def nth_append)

section \<open>Properties\<close>

lemma dict_lookup_ref_of:
  "dict_lookup (map (\<lambda>(k, v). (k, ref_of v)) d) k = map_option ref_of (dict_lookup d k)"
  by (induction d) (auto simp: dict_lookup_def)

lemma ref_kind_ref_of:
  "ref_kind (ref_of v) = KInt n \<longleftrightarrow> mut_kind v = KInt n"
  "ref_kind (ref_of v) = KBytes s \<longleftrightarrow> mut_kind v = KBytes s"
  by (cases v; auto)+

text \<open>C9: A typed lookup on a decoded message gives what its builder put there: for a dictionary built
  with \<open>ben_map!\<close>, encoded and decoded, looking up an integer succeeds exactly when the last entry
  written under the key is that integer, and likewise for byte strings.\<close>

theorem lookup_after_roundtrip:
  assumes "ben_map kvs = Some b" and "\<forall>(k, v) \<in> set kvs. length k < 2 ^ 63 \<and> ben_wf v"
    and "ben_height b \<le> max_recursion opts"
  shows "\<exists>r d. bencode_decode (bencode_encode b) opts = Ok r \<and> ref_dict r = Some d \<and>
    (\<forall>h k n. lookup_and_convert_int h ref_int d k = Ok n \<longleftrightarrow> map_of (rev kvs) k = Some (MInt n)) \<and>
    (\<forall>h k s. lookup_and_convert_bytes h ref_bytes d k = Ok s \<longleftrightarrow> map_of (rev kvs) k = Some (MBytes s))"
proof -
  let ?m = "fold (\<lambda>(k, v) m. snd (dict_insert m k v)) kvs dict_new"
  have b: "b = MDict ?m" using assms(1) by (simp add: ben_map_def new_dict_def)
  have "ben_wf b" using assms(1,2) by (intro ben_wf_ben_map)
  then have dec: "bencode_decode (bencode_encode b) opts = Ok (ref_of b)"
    using decode_bencoding [of b 0 opts "[]" "[]"] assms(3)
    by (simp add: bencode_decode_def bencode_encode_def encode_append)
  have kind: "mut_kind v = KInt n \<longleftrightarrow> v = MInt n" "mut_kind v = KBytes s \<longleftrightarrow> v = MBytes s" for v n s
    by (cases v; simp)+
  have "dict_lookup (map (\<lambda>(k, v). (k, ref_of v)) ?m) k = map_option ref_of (map_of (rev kvs) k)" for k
    by (simp add: dict_lookup_ref_of btree.lookup_inserts_new)
  then show ?thesis
    using dec by (auto simp: b ref_access.lookup_int_Ok ref_access.lookup_bytes_Ok ref_kind_ref_of kind)
qed

theorem lookup_after_roundtrip_witness:
  "\<exists>r d. bencode_decode (bencode_encode (MDict [(ascii ''q'', MBytes (ascii ''ping'')), (ascii ''t'', MInt 7)]))
      bdecode_opt_default = Ok r \<and> ref_dict r = Some d \<and>
    lookup_and_convert_int id ref_int d (ascii ''t'') = Ok 7"
proof -
  let ?kvs = "[(ascii ''t'', MInt 7), (ascii ''q'', MBytes (ascii ''ping''))]"
  have "ben_map ?kvs = Some (MDict [(ascii ''q'', MBytes (ascii ''ping'')), (ascii ''t'', MInt 7)])"
    by code_simp
  from lookup_after_roundtrip [OF this, of bdecode_opt_default] show ?thesis
    by (fastforce simp: ascii_def bdecode_opt_default_def i64_range_def byte_of_char_def)
qed

text \<open>A \<open>for\<close> loop over a list through \<open>BListIter\<close> ends and visits every element once, in order.\<close>

theorem blist_iter_complete:
  "blist_for list_get (Suc (length xs)) (blist_into_iter xs) = Some xs"
proof -
  have "map (\<lambda>j. the (list_get xs j)) [0..<length xs] = xs"
    by (rule nth_equalityI) (simp_all add: list_get_def get_slice_def)
  with vec.blist_for_all [of xs] show ?thesis by (simp add: list_len_def del: blist_for.simps)
qed

end
