(* ===== verification/Util_Convert.thy ===== *)
theory Util_Convert
  imports Rust_Prelude
begin

text \<open>
  The conversions of \<open>src/util/convert.rs\<close> between integers, addresses, socket addresses and their
  network-order bytes. A fixed-size Rust array is a list; the functions that take an array of
  \<open>n\<close> bytes are used, and their lemmas stated, on lists of that length. The address types are those
  of \<open>std::net\<close>.
\<close>

datatype ipv4_addr = Ipv4Addr u8 u8 u8 u8
datatype ipv6_addr = Ipv6Addr u16 u16 u16 u16 u16 u16 u16 u16

fun octets :: "ipv4_addr \<Rightarrow> bytes" where
  "octets (Ipv4Addr a b c d) = [a, b, c, d]"

fun segments :: "ipv6_addr \<Rightarrow> u16 list" where
  "segments (Ipv6Addr a b c d e f g h) = [a, b, c, d, e, f, g, h]"

record socket_addr_v4 =
  v4_ip :: ipv4_addr
  v4_port :: u16

record socket_addr_v6 =
  v6_ip :: ipv6_addr
  v6_port :: u16
  v6_flowinfo :: u32
  v6_scope_id :: u32

datatype socket_addr = V4 socket_addr_v4 | V6 socket_addr_v6
datatype ip_addr = IpV4 ipv4_addr | IpV6 ipv6_addr

definition eight_bytes_to_array :: "u64 \<Rightarrow> bytes" where
  "eight_bytes_to_array bytes =
     [ucast (drop_bit 56 bytes), ucast (drop_bit 48 bytes), ucast (drop_bit 40 bytes),
      ucast (drop_bit 32 bytes), ucast (drop_bit 24 bytes), ucast (drop_bit 16 bytes),
      ucast (drop_bit 8 bytes), ucast bytes]"

definition four_bytes_to_array :: "u32 \<Rightarrow> bytes" where
  "four_bytes_to_array bytes =
     (let eight_bytes = eight_bytes_to_array (ucast bytes)
      in [eight_bytes ! 4, eight_bytes ! 5, eight_bytes ! 6, eight_bytes ! 7])"

definition ipv4_to_bytes_be :: "ipv4_addr \<Rightarrow> bytes" where
  "ipv4_to_bytes_be v4_addr = octets v4_addr"

definition ipv6_to_bytes_be :: "ipv6_addr \<Rightarrow> bytes" where
  "ipv6_to_bytes_be v6_addr =
     (let segs = segments v6_addr in
      fold (\<lambda>index bytes.
          let segment_index = index div 2;
              segment_byte_index = index mod 2;
              byte_shift_bits = 8 - segment_byte_index * 8
          in bytes[index := ucast (drop_bit byte_shift_bits (segs ! segment_index))])
        [0..<16] (replicate 16 0))"

definition port_to_bytes_be :: "u16 \<Rightarrow> bytes" where
  "port_to_bytes_be port = [ucast (drop_bit 8 port), ucast (drop_bit 0 port)]"

text \<open>Copying through \<open>zip\<close> with a zeroed array: the source, padded or cut to the array's size.\<close>

definition copy_into :: "nat \<Rightarrow> bytes \<Rightarrow> bytes" where
  "copy_into n src = take n (src @ replicate (n - length src) 0)"

definition sock_v4_to_bytes_be :: "socket_addr_v4 \<Rightarrow> bytes" where
  "sock_v4_to_bytes_be v4_sock =
     copy_into 6 (ipv4_to_bytes_be (v4_ip v4_sock) @ port_to_bytes_be (v4_port v4_sock))"

definition sock_v6_to_bytes_be :: "socket_addr_v6 \<Rightarrow> bytes" where
  "sock_v6_to_bytes_be v6_sock =
     copy_into 18 (ipv6_to_bytes_be (v6_ip v6_sock) @ port_to_bytes_be (v6_port v6_sock))"

definition bytes_be_to_ipv4 :: "bytes \<Rightarrow> ipv4_addr" where
  "bytes_be_to_ipv4 bytes = Ipv4Addr (bytes ! 0) (bytes ! 1) (bytes ! 2) (bytes ! 3)"

definition bytes_be_to_ipv6 :: "bytes \<Rightarrow> ipv6_addr" where
  "bytes_be_to_ipv6 bytes =
     (let combined = fold (\<lambda>(index, value) combined_bytes.
          let combined_index = index div 2;
              should_shift = (index mod 2 = 0);
              adjusted_value = (if should_shift then push_bit 8 (ucast value) else ucast value)
          in combined_bytes[combined_index := (combined_bytes ! combined_index) OR adjusted_value])
        (enumerate 0 bytes) (replicate 8 0 :: u16 list)
      in Ipv6Addr (combined ! 0) (combined ! 1) (combined ! 2) (combined ! 3)
           (combined ! 4) (combined ! 5) (combined ! 6) (combined ! 7))"

definition bytes_be_to_port :: "bytes \<Rightarrow> u16" where
  "bytes_be_to_port bytes = push_bit 8 (ucast (bytes ! 0)) OR ucast (bytes ! 1)"

definition bytes_be_to_sock_v4 :: "bytes \<Rightarrow> socket_addr_v4" where
  "bytes_be_to_sock_v4 bytes =
     (let ip_bytes = [bytes ! 0, bytes ! 1, bytes ! 2, bytes ! 3];
          port_bytes = [bytes ! 4, bytes ! 5]
      in \<lparr>v4_ip = bytes_be_to_ipv4 ip_bytes, v4_port = bytes_be_to_port port_bytes\<rparr>)"

definition bytes_be_to_sock_v6 :: "bytes \<Rightarrow> socket_addr_v6" where
  "bytes_be_to_sock_v6 bytes =
     (let port_bytes = [bytes ! 16, bytes ! 17];
          ip_bytes = copy_into 16 (take 16 bytes)
      in \<lparr>v6_ip = bytes_be_to_ipv6 ip_bytes, v6_port = bytes_be_to_port port_bytes,
          v6_flowinfo = 0, v6_scope_id = 0\<rparr>)"

section \<open>Lemmas\<close>

named_theorems convert_simps \<open>the conversions, unfolded\<close>

lemmas [convert_simps] =
  ipv4_to_bytes_be_def port_to_bytes_be_def copy_into_def sock_v4_to_bytes_be_def
  sock_v6_to_bytes_be_def bytes_be_to_ipv4_def bytes_be_to_port_def bytes_be_to_sock_v4_def
  bytes_be_to_sock_v6_def

lemma upt_16: "[0..<16] = [0, 1, 2, 3, 4, 5, 6, 7, 8, 9, 10, 11, 12, 13, 14, 15 :: nat]"
  by (simp add: upt_rec)

lemma upt_6: "[0..<6] = [0, 1, 2, 3, 4, 5 :: nat]"
  by (simp add: upt_rec)

lemma replicate_8: "replicate 8 x = [x, x, x, x, x, x, x, x]"
  by (simp add: numeral_eq_Suc)

lemma list_of_16:
  assumes "length xs = 16"
  shows "xs = [xs ! 0, xs ! 1, xs ! 2, xs ! 3, xs ! 4, xs ! 5, xs ! 6, xs ! 7,
    xs ! 8, xs ! 9, xs ! 10, xs ! 11, xs ! 12, xs ! 13, xs ! 14, xs ! 15]"
  using map_nth [of xs] assms by (simp add: upt_16)

text \<open>High and low byte of a 16-bit word.\<close>

lemma word16_split_join:
  "push_bit 8 (ucast (ucast (drop_bit 8 w) :: u8)) OR ucast (ucast w :: u8) = (w :: u16)"
  by (rule bit_word_eqI) (auto simp: bit_simps)

lemma word16_join_high:
  "ucast (drop_bit 8 (push_bit 8 (ucast (a :: u8) :: u16)) OR drop_bit 8 (ucast (b :: u8))) = a"
  by (rule bit_word_eqI) (auto simp: bit_simps dest: bit_imp_le_length)

lemma word16_join_low:
  "ucast (push_bit 8 (ucast (a :: u8)) OR ucast (b :: u8) :: u16) = b"
  by (rule bit_word_eqI) (auto simp: bit_simps)

lemmas [simp] = word16_split_join word16_join_high word16_join_low

lemma ipv6_to_bytes_be_eq:
  "ipv6_to_bytes_be a = concat (map (\<lambda>w. [ucast (drop_bit 8 w), ucast w]) (segments a))"
proof -
  have "ipv6_to_bytes_be a = map (\<lambda>i. ucast (drop_bit (8 - i mod 2 * 8) (segments a ! (i div 2)))) [0..<16]"
    by (simp add: ipv6_to_bytes_be_def Let_def fold_list_update)
  then show ?thesis by (cases a) (simp add: upt_16)
qed

lemma bytes_be_to_ipv6_eq:
  "length bs = 16 \<Longrightarrow> bytes_be_to_ipv6 bs =
     Ipv6Addr (bytes_be_to_port [bs ! 0, bs ! 1]) (bytes_be_to_port [bs ! 2, bs ! 3])
       (bytes_be_to_port [bs ! 4, bs ! 5]) (bytes_be_to_port [bs ! 6, bs ! 7])
       (bytes_be_to_port [bs ! 8, bs ! 9]) (bytes_be_to_port [bs ! 10, bs ! 11])
       (bytes_be_to_port [bs ! 12, bs ! 13]) (bytes_be_to_port [bs ! 14, bs ! 15])"
  by (subst list_of_16, assumption)
     (simp add: bytes_be_to_ipv6_def bytes_be_to_port_def replicate_8)

lemma list_of_6:
  assumes "length xs = 6"
  shows "xs = [xs ! 0, xs ! 1, xs ! 2, xs ! 3, xs ! 4, xs ! 5]"
  using map_nth [of xs] assms by (simp add: upt_6)

lemma ipv6_roundtrip [simp]: "bytes_be_to_ipv6 (ipv6_to_bytes_be a) = a"
  by (cases a) (simp add: bytes_be_to_ipv6_eq ipv6_to_bytes_be_eq bytes_be_to_port_def)

lemma ipv6_bytes_roundtrip [simp]:
  assumes "length bs = 16"
  shows "ipv6_to_bytes_be (bytes_be_to_ipv6 bs) = bs"
  using list_of_16 [OF assms, symmetric]
  by (simp add: bytes_be_to_ipv6_eq assms ipv6_to_bytes_be_eq bytes_be_to_port_def)

lemma length_ipv6_to_bytes_be [simp]: "length (ipv6_to_bytes_be a) = 16"
  by (cases a) (simp add: ipv6_to_bytes_be_eq)

lemma unat_ucast_u8: "unat (ucast (x :: 'a::len word) :: u8) = unat x mod 256"
  by (simp add: unsigned_ucast_eq take_bit_eq_mod)

lemma unat_ucast_drop_bit:
  "unat (ucast (drop_bit k (x :: 'a::len word)) :: u8) = unat x div 2 ^ k mod 256"
  using unsigned_less [of x, where ?'a = nat]
  by (simp add: unat_ucast_u8 unsigned_drop_bit_eq take_bit_nat_eq_self drop_bit_eq_div [where ?'a = nat])

lemma be_value_8:
  "be_value [a, b, c, d, e, f, g, h] =
    unat h + 256 * (unat g + 256 * (unat f + 256 * (unat e + 256 * (unat d + 256 * (unat c
      + 256 * (unat b + 256 * unat a))))))"
  by (simp add: be_value_def)

text \<open>Peeling off the bytes of a number from the low end.\<close>

lemma byte_digit: "n div 2 ^ k mod 256 + 256 * (n div 2 ^ (k + 8)) = (n div 2 ^ k :: nat)"
  by (simp add: power_add div_mult2_eq mult.commute)

lemma be_value_eight_bytes: "be_value (eight_bytes_to_array x) = unat x"
proof -
  have "unat x div 2 ^ 64 = 0" using unsigned_less [of x, where ?'a = nat] by simp
  then have "unat x div 2 ^ 56 mod 256 = unat x div 2 ^ 56" using byte_digit [of "unat x" 56] by simp
  then show ?thesis
    using byte_digit [of "unat x" 48] byte_digit [of "unat x" 40] byte_digit [of "unat x" 32]
      byte_digit [of "unat x" 24] byte_digit [of "unat x" 16] byte_digit [of "unat x" 8]
      byte_digit [of "unat x" 0]
    unfolding eight_bytes_to_array_def be_value_8 unat_ucast_drop_bit by (simp add: unat_ucast_u8)
qed

lemma sock_v4_bytes_roundtrip:
  assumes "length bs = 6"
  shows "sock_v4_to_bytes_be (bytes_be_to_sock_v4 bs) = bs"
  using assms list_of_6 [of bs, symmetric] by (simp add: convert_simps)

lemma sock_v6_roundtrip:
  "bytes_be_to_sock_v6 (sock_v6_to_bytes_be s) = s\<lparr>v6_flowinfo := 0, v6_scope_id := 0\<rparr>"
  by (cases s) (simp add: convert_simps nth_append)

lemma length_sock_v6_to_bytes_be [simp]: "length (sock_v6_to_bytes_be s) = 18"
  by (simp add: convert_simps)

lemma sock_v4_roundtrip: "bytes_be_to_sock_v4 (sock_v4_to_bytes_be s4) = s4"
  by (cases s4; cases "v4_ip s4") (simp add: convert_simps)

lemma length_sock_v4_to_bytes_be [simp]: "length (sock_v4_to_bytes_be s4) = 6"
  by (cases "v4_ip s4") (simp add: convert_simps)

section \<open>Properties\<close>

text \<open>A socket address survives the trip to network bytes and back, and so do the bytes (an IPv6
  address loses its flow label and scope, which the wire format has no place for).\<close>

theorem sock_addr_roundtrip:
  "bytes_be_to_sock_v4 (sock_v4_to_bytes_be s4) = s4 \<and>
   bytes_be_to_sock_v6 (sock_v6_to_bytes_be s6) = s6\<lparr>v6_flowinfo := 0, v6_scope_id := 0\<rparr> \<and>
   (length b4 = 6 \<longrightarrow> sock_v4_to_bytes_be (bytes_be_to_sock_v4 b4) = b4) \<and>
   (length b6 = 18 \<longrightarrow> sock_v6_to_bytes_be (bytes_be_to_sock_v6 b6) = b6)"
proof (intro conjI impI)
  show "bytes_be_to_sock_v4 (sock_v4_to_bytes_be s4) = s4"
    by (rule sock_v4_roundtrip)
  show "bytes_be_to_sock_v6 (sock_v6_to_bytes_be s6) = s6\<lparr>v6_flowinfo := 0, v6_scope_id := 0\<rparr>"
    by (rule sock_v6_roundtrip)
next
  assume "length b4 = 6"
  then show "sock_v4_to_bytes_be (bytes_be_to_sock_v4 b4) = b4"
    by (rule sock_v4_bytes_roundtrip)
next
  assume l: "length b6 = 18"
  then have "b6 = take 16 b6 @ [b6 ! 16, b6 ! 17]"
    using id_take_nth_drop [of 16 b6] by (simp add: Cons_nth_drop_Suc [of 17, symmetric])
  with l show "sock_v6_to_bytes_be (bytes_be_to_sock_v6 b6) = b6"
    by (simp add: convert_simps)
qed

theorem sock_addr_roundtrip_witness:
  "sock_v4_to_bytes_be (bytes_be_to_sock_v4 [127, 0, 0, 1, 6, 64]) = [127, 0, 0, 1, 6, 64]"
  using sock_addr_roundtrip [where ?b4.0 = "[127, 0, 0, 1, 6, 64]"] by simp

text \<open>The integer arrays are the big-endian digits of the integer.\<close>

theorem integer_arrays_big_endian:
  "be_value (eight_bytes_to_array x) = unat x \<and> be_value (four_bytes_to_array y) = unat y"
proof
  show "be_value (eight_bytes_to_array x) = unat x" by (rule be_value_eight_bytes)
  have y: "unat (ucast y :: u64) = unat y" 
    using unsigned_less [of y, where ?'a = nat] by (simp add: unsigned_ucast_eq take_bit_eq_mod)
  have "be_value (eight_bytes_to_array (ucast y)) = be_value (four_bytes_to_array y)"
    using unsigned_less [of y, where ?'a = nat]
    by (simp add: four_bytes_to_array_def eight_bytes_to_array_def be_value_def unat_ucast_drop_bit y)
  then show "be_value (four_bytes_to_array y) = unat y" by (simp add: be_value_eight_bytes y)
qed

end
