(* ===== verification/Util_Hash.thy ===== *)
theory Util_Hash
  imports Rust_Prelude
begin

text \<open>
  \<open>src/util/sha\<close>: the 20-byte hash type (node ids, info hashes), its comparison and exclusive or,
  the iterators over its bits, and the hash builder. The SHA-1 implementation is an external
  package: a digest state, its update and its result are parameters.
\<close>

section \<open>Hashes\<close>

definition SHA_HASH_LEN :: nat where "SHA_HASH_LEN = 20"

datatype length_error_kind = LengthExceeded | LengthExpected | LengthMultipleExpected

record length_error =
  le_kind :: length_error_kind
  le_length :: nat
  le_index :: "nat option"

definition length_error_new :: "length_error_kind \<Rightarrow> nat \<Rightarrow> length_error" where
  "length_error_new kind len = \<lparr>le_kind = kind, le_length = len, le_index = None\<rparr>"

definition length_error_with_index :: "length_error_kind \<Rightarrow> nat \<Rightarrow> nat \<Rightarrow> length_error" where
  "length_error_with_index kind len index =
     \<lparr>le_kind = kind, le_length = len, le_index = Some index\<rparr>"

datatype sha_hash = ShaHash (sha_bytes: bytes)

definition from_hash :: "bytes \<Rightarrow> (sha_hash, length_error) outcome" where
  "from_hash hash =
     (if length hash \<noteq> SHA_HASH_LEN then Err (length_error_new LengthExpected SHA_HASH_LEN)
      else Ok (ShaHash (map snd (zip (replicate SHA_HASH_LEN (0 :: u8)) hash))))"

definition sha_eq_slice :: "sha_hash \<Rightarrow> bytes \<Rightarrow> bool" where
  "sha_eq_slice self other =
     fold (\<lambda>(h, oth) prev. prev \<and> h = oth) (zip (sha_bytes self) other)
       (length other = length (sha_bytes self))"

definition bitxor :: "sha_hash \<Rightarrow> sha_hash \<Rightarrow> sha_hash" where
  "bitxor self rhs =
     ShaHash (map2 (\<lambda>dst src. src XOR dst) (sha_bytes self) (sha_bytes rhs)
       @ drop (length (sha_bytes rhs)) (sha_bytes self))"

section \<open>Bit iterators\<close>

datatype xor_rep = Diff | Same
datatype bit_rep = BitSet | BitUnset

fun bit_rep_eq_xor_rep :: "bit_rep \<Rightarrow> xor_rep \<Rightarrow> bool" where
  "bit_rep_eq_xor_rep BitSet Diff = True"
| "bit_rep_eq_xor_rep BitUnset Same = True"
| "bit_rep_eq_xor_rep _ _ = False"

record bits =
  bits_bytes :: bytes
  bit_pos :: nat

definition bits_new :: "bytes \<Rightarrow> bits" where
  "bits_new bs = \<lparr>bits_bytes = bs, bit_pos = 0\<rparr>"

definition sha_bits :: "sha_hash \<Rightarrow> bits" where
  "sha_bits self = bits_new (sha_bytes self)"

definition bits_next :: "bits \<Rightarrow> bit_rep option \<times> bits" where
  "bits_next self =
     (if bit_pos self < length (bits_bytes self) * 8 then
        let byte_index = bit_pos self div 8;
            bit_offset = 7 - bit_pos self mod 8;
            bit_value = drop_bit bit_offset (bits_bytes self ! byte_index)
        in (Some (if bit_value = 1 then BitSet else BitUnset),
            self\<lparr>bit_pos := bit_pos self + 1\<rparr>)
      else (None, self))"

definition xor_bits_next :: "bits \<Rightarrow> xor_rep option \<times> bits" where
  "xor_bits_next self =
     (let (n, self') = bits_next self
      in (map_option (\<lambda>r. case r of BitSet \<Rightarrow> Diff | BitUnset \<Rightarrow> Same) n, self'))"

text \<open>Counting with \<open>take_while(is_unset).count()\<close>, at most \<open>fuel\<close> calls of \<open>next\<close>; \<open>None\<close> when
  the count has not finished. A hash has 160 bits, so 161 calls always suffice.\<close>

fun count_unset :: "nat \<Rightarrow> bits \<Rightarrow> nat option" where
  "count_unset 0 it = None"
| "count_unset (Suc fuel) it =
     (case bits_next it of
        (Some BitUnset, it') \<Rightarrow> map_option Suc (count_unset fuel it')
      | _ \<Rightarrow> Some 0)"

section \<open>Builder\<close>

definition sha_builder_add :: "('s \<Rightarrow> bytes \<Rightarrow> 's) \<Rightarrow> 's \<Rightarrow> bytes \<Rightarrow> 's" where
  "sha_builder_add input sha bs = input sha bs"

definition sha_builder_build :: "('s \<Rightarrow> bytes) \<Rightarrow> 's \<Rightarrow> sha_hash" where
  "sha_builder_build result sha = ShaHash (result sha)"

text \<open>\<open>ShaHash::from_bytes\<close>.\<close>

definition sha_from_bytes :: "'s \<Rightarrow> ('s \<Rightarrow> bytes \<Rightarrow> 's) \<Rightarrow> ('s \<Rightarrow> bytes) \<Rightarrow> bytes \<Rightarrow> sha_hash" where
  "sha_from_bytes new input result bs = sha_builder_build result (sha_builder_add input new bs)"

section \<open>Lemmas\<close>

lemma from_hash_Ok [simp]: "from_hash bs = Ok h \<longleftrightarrow> length bs = SHA_HASH_LEN \<and> h = ShaHash bs"
  by (auto simp: from_hash_def)

lemma fold_all_equal:
  "fold (\<lambda>(h, oth) prev. prev \<and> h = oth) (zip xs ys) acc \<longleftrightarrow> acc \<and> (\<forall>(x, y) \<in> set (zip xs ys). x = y)"
  by (induction xs ys arbitrary: acc rule: list_induct2') auto

lemma sha_eq_slice_iff: "sha_eq_slice h bs \<longleftrightarrow> sha_bytes h = bs"
proof (cases "length bs = length (sha_bytes h)")
  case True
  have "length xs = length ys \<Longrightarrow> (\<forall>(x, y) \<in> set (zip xs ys). x = y) \<longleftrightarrow> xs = ys" for xs ys :: bytes
    by (induction xs ys rule: list_induct2) auto
  from this [OF True [symmetric]] show ?thesis by (simp only: sha_eq_slice_def fold_all_equal True) simp
next
  case False
  then show ?thesis by (auto simp add: sha_eq_slice_def fold_all_equal)
qed

lemma length_bitxor [simp]:
  "length (sha_bytes a) = length (sha_bytes b) \<Longrightarrow> length (sha_bytes (bitxor a b)) = length (sha_bytes a)"
  by (simp add: bitxor_def)

lemma bitxor_nth:
  "length (sha_bytes a) = length (sha_bytes b) \<Longrightarrow> i < length (sha_bytes a) \<Longrightarrow>
   sha_bytes (bitxor a b) ! i = (sha_bytes a ! i) XOR (sha_bytes b ! i)"
  by (simp add: bitxor_def xor.commute)

text \<open>The bits of a byte string, the most significant bit of each byte first.\<close>

definition msb_bit :: "bytes \<Rightarrow> nat \<Rightarrow> bool" where
  "msb_bit bs p = bit (bs ! (p div 8)) (7 - p mod 8)"

definition msb_bits :: "bytes \<Rightarrow> bool list" where
  "msb_bits bs = map (msb_bit bs) [0..<8 * length bs]"

lemma drop_bit_eq_1: "drop_bit k (b :: u8) = 1 \<longleftrightarrow> bit b k \<and> (\<forall>j > k. \<not> bit b j)"
proof
  assume d: "drop_bit k b = 1"
  have *: "bit b (k + i) = (i = 0)" for i
    using arg_cong [OF d, of "\<lambda>w. bit w i"] by (simp add: bit_simps bit_1_iff)
  have "\<not> bit b j" if "k < j" for j using * [of "j - k"] that by simp
  with * [of 0] show "bit b k \<and> (\<forall>j > k. \<not> bit b j)" by simp
next
  assume b: "bit b k \<and> (\<forall>j > k. \<not> bit b j)"
  then have "bit b (k + n) = (n = 0)" for n by (cases n) auto
  then show "drop_bit k b = 1" by (intro bit_word_eqI) (simp add: bit_simps bit_1_iff)
qed

text \<open>What one call of the iterator yields: the shifted byte is compared with 1 without a mask, so a
  bit reads as set only if no higher bit of its byte is set.\<close>

definition reads_set :: "bytes \<Rightarrow> nat \<Rightarrow> bool" where
  "reads_set bs p \<longleftrightarrow> msb_bit bs p \<and> (\<forall>q < p. q div 8 = p div 8 \<longrightarrow> \<not> msb_bit bs q)"

lemma same_byte_earlier: "q < p \<Longrightarrow> q div 8 = p div 8 \<Longrightarrow> q mod 8 < p mod (8 :: nat)"
  using div_mult_mod_eq [of q 8] div_mult_mod_eq [of p 8] by linarith

lemma no_higher_bit_iff:
  fixes b :: u8
  assumes "o_p < (8 :: nat)"
  shows "(\<forall>j > 7 - o_p. \<not> bit b j) \<longleftrightarrow> (\<forall>o_q < o_p. \<not> bit b (7 - o_q))"
proof
  assume l: "\<forall>o_q < o_p. \<not> bit b (7 - o_q)"
  show "\<forall>j > 7 - o_p. \<not> bit b j"
  proof (intro allI impI notI)
    fix j assume "7 - o_p < j" and "bit b j"
    then have "j < 8" by (auto dest: bit_imp_le_length)
    with \<open>7 - o_p < j\<close> have "7 - j < o_p" and "7 - (7 - j) = j" by auto
    with l \<open>bit b j\<close> show False by metis
  qed
qed (use assms in auto)

lemma bits_next_eq:
  "bits_next it =
     (if bit_pos it < 8 * length (bits_bytes it) then
        (Some (if reads_set (bits_bytes it) (bit_pos it) then BitSet else BitUnset),
         it\<lparr>bit_pos := Suc (bit_pos it)\<rparr>)
      else (None, it))"
proof -
  let ?b = "bits_bytes it ! (bit_pos it div 8)" and ?p = "bit_pos it"
  have "(\<forall>q < ?p. q div 8 = ?p div 8 \<longrightarrow> \<not> bit ?b (7 - q mod 8)) \<longleftrightarrow>
      (\<forall>o_q < ?p mod 8. \<not> bit ?b (7 - o_q))"
  proof
    assume l: "\<forall>q < ?p. q div 8 = ?p div 8 \<longrightarrow> \<not> bit ?b (7 - q mod 8)"
    show "\<forall>o_q < ?p mod 8. \<not> bit ?b (7 - o_q)"
    proof (intro allI impI)
      fix o_q assume o: "o_q < ?p mod 8"
      then have "o_q < 8" using mod_less_divisor [of 8 ?p] by linarith
      then have "(?p div 8 * 8 + o_q) div 8 = ?p div 8" "(?p div 8 * 8 + o_q) mod 8 = o_q" by simp_all
      moreover have "?p div 8 * 8 + o_q < ?p" using o div_mult_mod_eq [of ?p 8] by linarith
      ultimately show "\<not> bit ?b (7 - o_q)" using l by metis
    qed
  qed (use same_byte_earlier in blast)
  then have "reads_set (bits_bytes it) ?p \<longleftrightarrow> drop_bit (7 - ?p mod 8) ?b = 1"
    using no_higher_bit_iff [of "?p mod 8" ?b]
    by (auto simp: reads_set_def msb_bit_def drop_bit_eq_1)
  then show ?thesis by (simp add: bits_next_def Let_def mult.commute)
qed

text \<open>Counting leading unset bits is not affected: the first set bit of a byte has no higher one.\<close>

lemma count_unset_from:
  assumes "p \<le> n" and "n - p < fuel" and n: "n = 8 * length bs"
    and "\<forall>q < p. \<not> msb_bit bs q"
  shows "count_unset fuel \<lparr>bits_bytes = bs, bit_pos = p\<rparr> =
    Some (length (takeWhile Not (map (msb_bit bs) [p..<n])))"
  using assms(1,2,4)
proof (induction fuel arbitrary: p)
  case (Suc fuel)
  show ?case
  proof (cases "p < n")
    case True
    have "reads_set bs p \<longleftrightarrow> msb_bit bs p" using Suc.prems(3) by (auto simp: reads_set_def)
    moreover have "count_unset fuel \<lparr>bits_bytes = bs, bit_pos = Suc p\<rparr> =
        Some (length (takeWhile Not (map (msb_bit bs) [Suc p..<n])))" if "\<not> msb_bit bs p"
      using True Suc.prems that by (intro Suc.IH) (auto simp: less_Suc_eq)
    ultimately show ?thesis using True by (simp add: bits_next_eq n upt_conv_Cons [of p])
  next
    case False
    with Suc.prems show ?thesis by (simp add: bits_next_eq n)
  qed
qed simp

lemma count_unset_leading:
  "8 * length bs < fuel \<Longrightarrow>
   count_unset fuel (bits_new bs) = Some (length (takeWhile Not (msb_bits bs)))"
  using count_unset_from [of 0 "8 * length bs" fuel bs] by (simp add: bits_new_def msb_bits_def)

section \<open>Properties\<close>

text \<open>The bit iterator does not mask the bit it reads. It yields \<open>Set\<close> exactly when the bit is set
  and every higher bit of the same byte is clear, so of the set bits of a byte only the first is
  reported.\<close>

theorem bits_next_reports_first_set_bit:
  assumes "p < 8 * length bs"
  shows "fst (bits_next \<lparr>bits_bytes = bs, bit_pos = p\<rparr>) = Some BitSet \<longleftrightarrow>
    msb_bit bs p \<and> (\<forall>q. q < p \<and> q div 8 = p div 8 \<longrightarrow> \<not> msb_bit bs q)"
  using assms by (simp add: bits_next_eq reads_set_def)

theorem bits_next_reports_first_set_bit_witness:
  "msb_bit [0xFF] 1 \<and> fst (bits_next \<lparr>bits_bytes = [0xFF], bit_pos = 1\<rparr>) \<noteq> Some BitSet"
proof -
  have 0: "msb_bit [0xFF] 0" and 1: "msb_bit [0xFF] 1" by code_simp+
  then have "\<not> (msb_bit [0xFF] 1 \<and> (\<forall>q. q < 1 \<and> q div 8 = 1 div 8 \<longrightarrow> \<not> msb_bit [0xFF] q))" by auto
  with 1 bits_next_reports_first_set_bit [of 1 "[0xFF]"] show ?thesis by simp
qed

text \<open>Counting the leading unset bits with the iterator is right all the same, for a byte string of
  any length, and ends within one call per bit and one more.\<close>

theorem count_unset_is_leading_zeros:
  "count_unset (Suc (8 * length bs)) (bits_new bs) = Some (length (takeWhile Not (msb_bits bs)))"
  by (rule count_unset_leading) simp

end
