(* ===== verification/Util_Ids.thy ===== *)
theory Util_Ids
  imports Rust_Prelude
begin

text \<open>
  The shuffle of \<open>src/util/mod.rs\<close> and the transaction id generators of \<open>src/util/trans\<close>. The random
  number package is external: the value of the \<open>i\<close>-th call of \<open>rand::random::<usize>()\<close> in a shuffle
  is \<open>rnd i\<close>, for an arbitrary function \<open>rnd\<close>. The id type is a word of any width.
\<close>

section \<open>Fisher-Yates shuffle\<close>

definition shuffle_swap :: "'a \<Rightarrow> (nat \<Rightarrow> nat) \<Rightarrow> nat \<Rightarrow> 'a list \<Rightarrow> 'a list" where
  "shuffle_swap dflt rnd i xs =
     (let swap_index = rnd i mod (length xs - i) + i;
          src_val = xs ! i;
          xs1 = xs[i := dflt];
          dst_val = xs1 ! swap_index;
          xs2 = xs1[swap_index := dflt]
      in (xs2[i := dst_val])[swap_index := src_val])"

definition fisher_shuffle :: "'a \<Rightarrow> (nat \<Rightarrow> nat) \<Rightarrow> 'a list \<Rightarrow> 'a list" where
  "fisher_shuffle dflt rnd xs = fold (shuffle_swap dflt rnd) [0..<length xs] xs"

definition shuffle_swap_copy :: "(nat \<Rightarrow> nat) \<Rightarrow> nat \<Rightarrow> 'a list \<Rightarrow> 'a list" where
  "shuffle_swap_copy rnd i xs =
     (let swap_index = rnd i mod (length xs - i) + i; temp = xs ! i; xs1 = xs[i := xs ! swap_index]
      in xs1[swap_index := temp])"

definition fisher_shuffle_copy :: "(nat \<Rightarrow> nat) \<Rightarrow> 'a list \<Rightarrow> 'a list" where
  "fisher_shuffle_copy rnd xs = fold (shuffle_swap_copy rnd) [0..<length xs] xs"

section \<open>Sequential and locally shuffled ids\<close>

definition TRANSACTION_ID_PREALLOC_LEN :: nat where "TRANSACTION_ID_PREALLOC_LEN = 2048"

record 't sequential_ids =
  next_id :: 't

definition sequential_start_at :: "'w::len word \<Rightarrow> 'w word sequential_ids" where
  "sequential_start_at start = \<lparr>next_id = start\<rparr>"

definition sequential_generate :: "'w::len word sequential_ids \<Rightarrow> 'w word \<times> 'w word sequential_ids" where
  "sequential_generate self =
     (let curr_id = next_id self in (curr_id, self\<lparr>next_id := next_id self + 1\<rparr>))"

record 't locally_shuffled_ids =
  sequential :: "'t sequential_ids"
  stored_ids :: "'t list"

definition locally_shuffled_start_at :: "'w::len word \<Rightarrow> 'w word locally_shuffled_ids" where
  "locally_shuffled_start_at start = \<lparr>sequential = sequential_start_at start, stored_ids = []\<rparr>"

text \<open>The loop of \<open>refill_stored_ids\<close>; the maximum of a word type is \<open>- 1\<close>, the minimum is 0.\<close>

function refill_loop ::
    "nat \<Rightarrow> bool \<Rightarrow> bool \<Rightarrow> 'w::len word sequential_ids \<Rightarrow> 'w word list \<Rightarrow> 'w word sequential_ids \<times> 'w word list" where
  "refill_loop num_ids_generated contains_min_value contains_max_value seq stored =
     (if num_ids_generated < TRANSACTION_ID_PREALLOC_LEN \<and> (\<not> contains_min_value \<or> \<not> contains_max_value)
      then
        let (nxt, seq') = sequential_generate seq;
            contains_min_value' = contains_min_value \<or> nxt = 0;
            contains_max_value' = contains_max_value \<or> nxt = - 1
        in refill_loop (num_ids_generated + 1) contains_min_value' contains_max_value' seq' (stored @ [nxt])
      else (seq, stored))"
  by pat_completeness auto
termination
  by (relation "measure (\<lambda>(n, _). TRANSACTION_ID_PREALLOC_LEN - n)") auto

declare refill_loop.simps [simp del]

definition refill_stored_ids ::
    "(nat \<Rightarrow> nat) \<Rightarrow> 'w::len word locally_shuffled_ids \<Rightarrow> 'w word locally_shuffled_ids" where
  "refill_stored_ids rnd self =
     (let (seq, stored) = refill_loop 0 False False (sequential self) []
      in \<lparr>sequential = seq, stored_ids = fisher_shuffle 0 rnd stored\<rparr>)"

text \<open>\<open>generate\<close> pops an id; on an empty store it refills and calls itself. \<open>None\<close>: out of fuel.\<close>

fun locally_shuffled_generate ::
    "nat \<Rightarrow> (nat \<Rightarrow> nat) \<Rightarrow> 'w::len word locally_shuffled_ids \<Rightarrow> ('w word \<times> 'w word locally_shuffled_ids) option" where
  "locally_shuffled_generate 0 rnd self = None"
| "locally_shuffled_generate (Suc fuel) rnd self =
     (if stored_ids self \<noteq> []
      then Some (last (stored_ids self), self\<lparr>stored_ids := butlast (stored_ids self)\<rparr>)
      else locally_shuffled_generate fuel rnd (refill_stored_ids rnd self))"

section \<open>The older generator\<close>

record 't tid_generator =
  next_alloc :: 't
  curr_index :: nat
  trans_ids :: "'t list"

text \<open>\<open>NumCast::from\<close> of the block length succeeds when it fits the id type.\<close>

definition cast_alloc_len :: "'w::len word option" where
  "cast_alloc_len =
     (if TRANSACTION_ID_PREALLOC_LEN < 2 ^ LENGTH('w) then Some (of_nat TRANSACTION_ID_PREALLOC_LEN)
      else None)"

definition generate_tids :: "'w::len word \<Rightarrow> 'w word \<times> 'w word list" where
  "generate_tids curr_alloc =
     (let max_trans_id = - 1;
          (next_alloc_start, next_alloc_end) =
            (case cast_alloc_len of
               Some alloc_len \<Rightarrow>
                 if curr_alloc = max_trans_id then (0, alloc_len)
                 else (curr_alloc, curr_alloc + alloc_len)
             | None \<Rightarrow> (curr_alloc, curr_alloc));
          (_, transaction_ids) =
            fold (\<lambda>slot (next_tid, ids). (next_tid + 1, ids[slot := next_tid]))
              [0..<TRANSACTION_ID_PREALLOC_LEN]
              (next_alloc_start, replicate TRANSACTION_ID_PREALLOC_LEN 1)
      in (next_alloc_end, transaction_ids))"

definition tid_generator_new :: "(nat \<Rightarrow> nat) \<Rightarrow> 'w::len word tid_generator" where
  "tid_generator_new rnd =
     (let (alloc, ids) = generate_tids 0
      in \<lparr>next_alloc = alloc, curr_index = 0, trans_ids = fisher_shuffle_copy rnd ids\<rparr>)"

fun tid_generate ::
    "nat \<Rightarrow> (nat \<Rightarrow> nat) \<Rightarrow> 'w::len word tid_generator \<Rightarrow> ('w word \<times> 'w word tid_generator) option" where
  "tid_generate 0 rnd self = None"
| "tid_generate (Suc fuel) rnd self =
     (case get_slice (trans_ids self) (curr_index self) of
        Some transaction_id \<Rightarrow> Some (transaction_id, self\<lparr>curr_index := curr_index self + 1\<rparr>)
      | None \<Rightarrow>
          let (alloc, ids) = generate_tids (next_alloc self)
          in tid_generate fuel rnd
               \<lparr>next_alloc = alloc, curr_index = 0, trans_ids = fisher_shuffle_copy rnd ids\<rparr>)"

section \<open>A shuffle permutes\<close>

lemma swap_index_range: "i < n \<Longrightarrow> i \<le> r mod (n - i) + i \<and> r mod (n - i) + i < (n :: nat)"
  using mod_less_divisor [of "n - i" r] by linarith

lemma shuffle_swap_eq:
  assumes "i < length xs"
  shows "shuffle_swap dflt rnd i xs = shuffle_swap_copy rnd i xs"
proof -
  have "xs[i := dflt, j := dflt, i := v, j := w] = xs[i := v, j := w]" for j v w
  proof (rule nth_equalityI)
    fix k assume "k < length (xs[i := dflt, j := dflt, i := v, j := w])"
    then show "xs[i := dflt, j := dflt, i := v, j := w] ! k = xs[i := v, j := w] ! k"
      by (cases "j = k"; cases "i = k") simp_all
  qed simp
  then show ?thesis using assms
    by (simp add: shuffle_swap_def shuffle_swap_copy_def Let_def nth_list_update)
qed

lemma mset_shuffle_swap:
  assumes "i < length xs"
  shows "mset (shuffle_swap_copy rnd i xs) = mset xs"
  using swap_index_range [OF assms, of "rnd i"] assms
  by (simp add: shuffle_swap_copy_def Let_def mset_swap)

lemma length_shuffle_swap [simp]: "length (shuffle_swap_copy rnd i xs) = length xs"
  by (simp add: shuffle_swap_copy_def Let_def)

lemma shuffle_prefix:
  assumes "n \<le> length xs"
  shows "mset (fold (shuffle_swap_copy rnd) [0..<n] xs) = mset xs \<and>
    length (fold (shuffle_swap_copy rnd) [0..<n] xs) = length xs \<and>
    fold (shuffle_swap dflt rnd) [0..<n] xs = fold (shuffle_swap_copy rnd) [0..<n] xs"
  using assms
proof (induction n)
  case (Suc n)
  then show ?case by (simp add: mset_shuffle_swap shuffle_swap_eq)
qed simp

lemma fisher_shuffle_perm [simp]:
  "mset (fisher_shuffle_copy rnd xs) = mset xs"
  "fisher_shuffle dflt rnd xs = fisher_shuffle_copy rnd xs"
  using shuffle_prefix [of "length xs" xs rnd dflt]
  by (simp_all add: fisher_shuffle_def fisher_shuffle_copy_def)

lemma fisher_shuffle_distinct [simp]: "distinct (fisher_shuffle_copy rnd xs) = distinct xs"
  by (metis fisher_shuffle_perm(1) mset_eq_imp_distinct_iff)

lemma fisher_shuffle_set [simp]: "set (fisher_shuffle_copy rnd xs) = set xs"
  by (metis fisher_shuffle_perm(1) mset_eq_setD)

lemma fisher_shuffle_length [simp]: "length (fisher_shuffle_copy rnd xs) = length xs"
  by (metis fisher_shuffle_perm(1) mset_eq_length)

section \<open>Blocks of consecutive ids\<close>

definition id_block :: "'w::len word \<Rightarrow> nat \<Rightarrow> 'w word list" where
  "id_block start n = map (\<lambda>k. start + of_nat k) [0..<n]"

lemma id_block_Suc [simp]: "id_block start (Suc n) = id_block start n @ [start + of_nat n]"
  by (simp add: id_block_def)

lemma id_block_0 [simp]: "id_block start 0 = []"
  by (simp add: id_block_def)

lemma length_id_block [simp]: "length (id_block start n) = n"
  by (simp add: id_block_def)

lemma of_nat_word_inj:
  "(of_nat j :: 'w::len word) = of_nat k \<Longrightarrow> j < 2 ^ LENGTH('w) \<Longrightarrow> k < 2 ^ LENGTH('w) \<Longrightarrow> j = k"
  by (metis mod_less unat_of_nat)

lemma distinct_id_block: "n \<le> 2 ^ LENGTH('w) \<Longrightarrow> distinct (id_block (start :: 'w::len word) n)"
  by (auto simp: id_block_def distinct_map inj_on_def dest!: of_nat_word_inj)

lemma id_block_full:
  assumes "2 ^ LENGTH('w) \<le> n"
  shows "x \<in> set (id_block (start :: 'w::len word) n)"
proof -
  have "unat (x - start) < n" using unsigned_less [of "x - start", where ?'a = nat] assms by linarith
  then have "start + of_nat (unat (x - start)) \<in> set (id_block start n)"
    unfolding id_block_def set_map by (intro imageI) simp
  then show ?thesis by simp
qed

text \<open>The refill loop produces a block that stops short of a repetition.\<close>

lemma refill_loop_block:
  fixes start :: "'w::len word"
  assumes "mn \<longleftrightarrow> 0 \<in> set (id_block start n)" and "mx \<longleftrightarrow> - 1 \<in> set (id_block start n)"
    and "n \<le> 2 ^ LENGTH('w)" and "n \<le> TRANSACTION_ID_PREALLOC_LEN"
  shows "\<exists>m. n \<le> m \<and> m \<le> 2 ^ LENGTH('w) \<and> m \<le> TRANSACTION_ID_PREALLOC_LEN \<and> (n = 0 \<longrightarrow> 0 < m) \<and>
    refill_loop n mn mx \<lparr>next_id = start + of_nat n\<rparr> (id_block start n) =
      (\<lparr>next_id = start + of_nat m\<rparr>, id_block start m)"
  using assms
proof (induction "TRANSACTION_ID_PREALLOC_LEN - n" arbitrary: n mn mx)
  case 0
  then show ?case by (intro exI [of _ n]) (simp add: refill_loop.simps TRANSACTION_ID_PREALLOC_LEN_def)
next
  case (Suc k)
  then have lt: "n < TRANSACTION_ID_PREALLOC_LEN" by simp
  show ?case
  proof (cases "mn \<and> mx")
    case True
    then have "n \<noteq> 0" using Suc.prems by (cases n) auto
    with True Suc.prems show ?thesis by (intro exI [of _ n]) (simp add: refill_loop.simps)
  next
    case False
    then have "n < 2 ^ LENGTH('w)"
      using Suc.prems id_block_full [of n _ start] by (meson not_le)
    then have "\<exists>m. Suc n \<le> m \<and> m \<le> 2 ^ LENGTH('w) \<and> m \<le> TRANSACTION_ID_PREALLOC_LEN \<and> (Suc n = 0 \<longrightarrow> 0 < m) \<and>
      refill_loop (Suc n) (mn \<or> start + of_nat n = 0) (mx \<or> start + of_nat n = - 1)
        \<lparr>next_id = start + of_nat (Suc n)\<rparr> (id_block start (Suc n)) =
      (\<lparr>next_id = start + of_nat m\<rparr>, id_block start m)"
      using Suc lt by (intro Suc.hyps(1)) auto
    then obtain m where "Suc n \<le> m" "m \<le> 2 ^ LENGTH('w)" "m \<le> TRANSACTION_ID_PREALLOC_LEN"
      "refill_loop (Suc n) (mn \<or> start + of_nat n = 0) (mx \<or> start + of_nat n = - 1)
        \<lparr>next_id = start + of_nat (Suc n)\<rparr> (id_block start (Suc n)) =
      (\<lparr>next_id = start + of_nat m\<rparr>, id_block start m)" by blast
    with False lt show ?thesis
      by (intro exI [of _ m], subst refill_loop.simps)
         (simp add: sequential_generate_def ac_simps)
  qed
qed

lemma refill_stored_ids_block:
  fixes self :: "'w::len word locally_shuffled_ids"
  obtains m where "0 < m" "m \<le> 2 ^ LENGTH('w)" "m \<le> TRANSACTION_ID_PREALLOC_LEN"
    "stored_ids (refill_stored_ids rnd self) = fisher_shuffle_copy rnd (id_block (next_id (sequential self)) m)"
    "next_id (sequential (refill_stored_ids rnd self)) = next_id (sequential self) + of_nat m"
proof -
  obtain s where s: "sequential self = \<lparr>next_id = s\<rparr>" by (cases "sequential self")
  from refill_loop_block [of False s 0 False] obtain m where "0 < m" "m \<le> 2 ^ LENGTH('w)"
    "m \<le> TRANSACTION_ID_PREALLOC_LEN"
    "refill_loop 0 False False \<lparr>next_id = s\<rparr> [] = (\<lparr>next_id = s + of_nat m\<rparr>, id_block s m)"
    by auto
  then show thesis by (intro that [of m]) (simp_all add: refill_stored_ids_def s)
qed

lemma generate_tids_fold:
  fixes start :: "'w::len word"
  assumes "n \<le> length xs"
  shows "fold (\<lambda>slot (next_tid, ids). (next_tid + 1, ids[slot := next_tid])) [0..<n] (start, xs) =
    (start + of_nat n, id_block start n @ drop n xs)"
  using assms
proof (induction n)
  case (Suc n)
  then show ?case
    by (simp add: list_update_append add.commute add.left_commute flip: Cons_nth_drop_Suc)
qed simp

lemma generate_tids_block:
  fixes a :: "'w::len word"
  assumes "TRANSACTION_ID_PREALLOC_LEN < 2 ^ LENGTH('w)" and "a \<noteq> - 1"
  shows "generate_tids a =
    (a + of_nat TRANSACTION_ID_PREALLOC_LEN, id_block a TRANSACTION_ID_PREALLOC_LEN)"
  using assms by (simp add: generate_tids_def cast_alloc_len_def generate_tids_fold)

lemma id_blocks_disjoint:
  fixes a :: "'w::len word"
  assumes "n + m \<le> 2 ^ LENGTH('w)"
  shows "set (id_block a n) \<inter> set (id_block (a + of_nat n) m) = {}"
proof -
  have "id_block a (n + m) = id_block a n @ id_block (a + of_nat n) m"
    by (induction m) (simp_all add: add.assoc)
  with distinct_id_block [OF assms, of a] show ?thesis by simp
qed

section \<open>Properties\<close>

text \<open>A shuffle with any random numbers is a permutation of its input, and both variants (the one
  that moves values out through a default, and the one that copies) give the same result.\<close>

theorem fisher_shuffle_permutes:
  "mset (fisher_shuffle dflt rnd xs) = mset xs \<and> fisher_shuffle dflt rnd xs = fisher_shuffle_copy rnd xs"
  by simp

text \<open>Whatever the width of the id type, asking for an id always yields one after at most one refill,
  and the ids stored by a refill are pairwise different: the loop stops before a block repeats an id,
  also when the type has fewer values than the block length.\<close>

theorem locally_shuffled_ids_unique:
  fixes self :: "'w::len word locally_shuffled_ids"
  shows "(\<exists>tid self'. locally_shuffled_generate 2 rnd self = Some (tid, self')) \<and>
    distinct (stored_ids (refill_stored_ids rnd self)) \<and> stored_ids (refill_stored_ids rnd self) \<noteq> []"
proof -
  obtain m where m: "0 < m" "m \<le> 2 ^ LENGTH('w)" "m \<le> TRANSACTION_ID_PREALLOC_LEN"
    and st: "stored_ids (refill_stored_ids rnd self) =
      fisher_shuffle_copy rnd (id_block (next_id (sequential self)) m)"
    by (rule refill_stored_ids_block)
  then have ne: "stored_ids (refill_stored_ids rnd self) \<noteq> []"
    by (metis fisher_shuffle_length length_id_block less_irrefl list.size(3))
  moreover from st m(2) have "distinct (stored_ids (refill_stored_ids rnd self))"
    by (simp add: distinct_id_block)
  ultimately show ?thesis by (simp add: numeral_2_eq_2)
qed

text \<open>Two successive refills hand out different ids as long as the id type has room for both
  blocks, so ids are unique over two blocks.\<close>

theorem locally_shuffled_refills_disjoint:
  fixes self :: "'w::len word locally_shuffled_ids"
  assumes "2 * TRANSACTION_ID_PREALLOC_LEN \<le> 2 ^ LENGTH('w)"
  shows "set (stored_ids (refill_stored_ids rnd self)) \<inter>
    set (stored_ids (refill_stored_ids rnd' (refill_stored_ids rnd self))) = {}"
proof -
  obtain m where m: "m \<le> TRANSACTION_ID_PREALLOC_LEN"
    and st: "stored_ids (refill_stored_ids rnd self) =
      fisher_shuffle_copy rnd (id_block (next_id (sequential self)) m)"
    and nx: "next_id (sequential (refill_stored_ids rnd self)) = next_id (sequential self) + of_nat m"
    by (rule refill_stored_ids_block)
  obtain m' where m': "m' \<le> TRANSACTION_ID_PREALLOC_LEN"
    and st': "stored_ids (refill_stored_ids rnd' (refill_stored_ids rnd self)) =
      fisher_shuffle_copy rnd' (id_block (next_id (sequential (refill_stored_ids rnd self))) m')"
    by (rule refill_stored_ids_block)
  from m m' assms have "m + m' \<le> 2 ^ LENGTH('w)" by simp
  then show ?thesis by (simp add: st st' nx id_blocks_disjoint)
qed

theorem locally_shuffled_refills_disjoint_witness:
  "set (stored_ids (refill_stored_ids id (locally_shuffled_start_at (5 :: u32)))) \<inter>
   set (stored_ids (refill_stored_ids id (refill_stored_ids id (locally_shuffled_start_at 5)))) = {}"
  using locally_shuffled_refills_disjoint [where ?'w = 32] by (simp add: TRANSACTION_ID_PREALLOC_LEN_def)

text \<open>A block of the older generator holds different ids when the id type has more values than a
  block, and the next block starts right after it.\<close>

theorem generate_tids_unique:
  fixes a :: "'w::len word"
  assumes "TRANSACTION_ID_PREALLOC_LEN < 2 ^ LENGTH('w)" and "a \<noteq> - 1"
  shows "distinct (snd (generate_tids a)) \<and> length (snd (generate_tids a)) = TRANSACTION_ID_PREALLOC_LEN \<and>
    fst (generate_tids a) = last (snd (generate_tids a)) + 1"
proof -
  have "last (id_block a TRANSACTION_ID_PREALLOC_LEN) = a + of_nat (TRANSACTION_ID_PREALLOC_LEN - 1)"
    by (simp add: id_block_def TRANSACTION_ID_PREALLOC_LEN_def last_map)
  moreover have "(of_nat (TRANSACTION_ID_PREALLOC_LEN - 1) + 1 :: 'w word) = of_nat TRANSACTION_ID_PREALLOC_LEN"
    by (simp add: TRANSACTION_ID_PREALLOC_LEN_def)
  ultimately show ?thesis
    using assms by (simp add: generate_tids_block distinct_id_block add.assoc)
qed

theorem generate_tids_unique_witness:
  "distinct (snd (generate_tids (2048 :: u16)))"
  using generate_tids_unique [of "2048 :: u16"] by (simp add: TRANSACTION_ID_PREALLOC_LEN_def)

end
