(* ===== verification/Util_Contiguous.thy ===== *)
theory Util_Contiguous
  imports Rust_Prelude
begin

text \<open>
  \<open>src/util/contiguous.rs\<close>: fixed-capacity buffers. The trait \<open>ContiguousBuffer\<close> is a locale; \<open>Vec\<close>
  provides it, and \<open>ContiguousBuffers\<close>, a row of buffers of any provider, provides it again. A read
  passes slices to a closure; here it is the list of those slices, and the content of a buffer is
  their concatenation. The length of a \<open>Vec\<close> never exceeds its capacity.
\<close>

section \<open>A vector as a buffer\<close>

record 'a vec_buffer =
  vec_data :: "'a list"
  vec_cap :: nat

definition vec_capacity :: "'a vec_buffer \<Rightarrow> nat" where "vec_capacity self = vec_cap self"

definition vec_length :: "'a vec_buffer \<Rightarrow> nat" where "vec_length self = length (vec_data self)"

definition vec_clear :: "'a vec_buffer \<Rightarrow> 'a vec_buffer" where
  "vec_clear self = self\<lparr>vec_data := take 0 (vec_data self)\<rparr>"

definition vec_write :: "'a vec_buffer \<Rightarrow> 'a list \<Rightarrow> ('a vec_buffer, unit) outcome" where
  "vec_write self data =
     (let available_space = vec_capacity self - vec_length self in
      if length data > available_space then Panic
      else Ok (self\<lparr>vec_data := vec_data self @ data\<rparr>))"

definition vec_read :: "'a vec_buffer \<Rightarrow> 'a list list" where
  "vec_read self = (if vec_length self > 0 then [vec_data self] else [])"

section \<open>A row of buffers\<close>

record 'b contiguous_buffers =
  buffers :: "'b list"

definition bufs_new :: "'b contiguous_buffers" where "bufs_new = \<lparr>buffers = []\<rparr>"

definition bufs_with_buffer :: "'b \<Rightarrow> 'b contiguous_buffers" where
  "bufs_with_buffer buffer = \<lparr>buffers = [buffer]\<rparr>"

definition bufs_pack :: "'b contiguous_buffers \<Rightarrow> 'b contiguous_buffers \<Rightarrow> 'b contiguous_buffers" where
  "bufs_pack self buffer = \<lparr>buffers = buffers self @ buffers buffer\<rparr>"

definition bufs_unpack :: "'b contiguous_buffers \<Rightarrow> 'b contiguous_buffers list" where
  "bufs_unpack self = map bufs_with_buffer (buffers self)"

definition bufs_capacity :: "('b \<Rightarrow> nat) \<Rightarrow> 'b contiguous_buffers \<Rightarrow> nat" where
  "bufs_capacity capacity self = sum_list (map capacity (buffers self))"

definition bufs_length :: "('b \<Rightarrow> nat) \<Rightarrow> 'b contiguous_buffers \<Rightarrow> nat" where
  "bufs_length len self = sum_list (map len (buffers self))"

definition bufs_clear :: "('b \<Rightarrow> 'b) \<Rightarrow> 'b contiguous_buffers \<Rightarrow> 'b contiguous_buffers" where
  "bufs_clear clear self = \<lparr>buffers = map clear (buffers self)\<rparr>"

fun bufs_write_loop ::
    "('b \<Rightarrow> nat) \<Rightarrow> ('b \<Rightarrow> nat) \<Rightarrow> ('b \<Rightarrow> 'a list \<Rightarrow> ('b, unit) outcome) \<Rightarrow> 'a list \<Rightarrow> nat \<Rightarrow>
       'b list \<Rightarrow> ('b list \<times> nat, unit) outcome" where
  "bufs_write_loop capacity len write data bytes_written [] = Ok ([], bytes_written)"
| "bufs_write_loop capacity len write data bytes_written (buffer # rest) =
     (if bytes_written = length data then Ok (buffer # rest, bytes_written)
      else
        let available_capacity = capacity buffer - len buffer;
            amount_to_write = min available_capacity (length data - bytes_written)
        in and_then (slice_range data bytes_written (bytes_written + amount_to_write)) (\<lambda>part.
             and_then (write buffer part) (\<lambda>buffer'.
               and_then (bufs_write_loop capacity len write data (bytes_written + amount_to_write) rest)
                 (\<lambda>(rest', n). Ok (buffer' # rest', n)))))"

definition bufs_write ::
    "('b \<Rightarrow> nat) \<Rightarrow> ('b \<Rightarrow> nat) \<Rightarrow> ('b \<Rightarrow> 'a list \<Rightarrow> ('b, unit) outcome) \<Rightarrow>
       'b contiguous_buffers \<Rightarrow> 'a list \<Rightarrow> ('b contiguous_buffers, unit) outcome" where
  "bufs_write capacity len write self data =
     and_then (bufs_write_loop capacity len write data 0 (buffers self)) (\<lambda>(bs, bytes_written).
       if bytes_written \<noteq> length data then Panic else Ok \<lparr>buffers = bs\<rparr>)"

definition bufs_read :: "('b \<Rightarrow> 'a list list) \<Rightarrow> 'b contiguous_buffers \<Rightarrow> 'a list list" where
  "bufs_read read self = concat (map read (buffers self))"

text \<open>The buffers are filled from the front: behind one with room left, all are empty.\<close>

fun filled_in_order :: "('b \<Rightarrow> nat) \<Rightarrow> ('b \<Rightarrow> nat) \<Rightarrow> 'b list \<Rightarrow> bool" where
  "filled_in_order capacity len [] = True"
| "filled_in_order capacity len (b # bs) =
     ((len b < capacity b \<longrightarrow> (\<forall>b' \<in> set bs. len b' = 0)) \<and> filled_in_order capacity len bs)"

definition bufs_invar :: "('b \<Rightarrow> bool) \<Rightarrow> ('b \<Rightarrow> nat) \<Rightarrow> ('b \<Rightarrow> nat) \<Rightarrow> 'b contiguous_buffers \<Rightarrow> bool" where
  "bufs_invar invar capacity len self \<longleftrightarrow>
     (\<forall>b \<in> set (buffers self). invar b) \<and> filled_in_order capacity len (buffers self)"

section \<open>The interface\<close>

locale contiguous_buffer =
  fixes capacity :: "'b \<Rightarrow> nat"
    and len :: "'b \<Rightarrow> nat"
    and clear :: "'b \<Rightarrow> 'b"
    and wr :: "'b \<Rightarrow> 'a list \<Rightarrow> ('b, unit) outcome"
    and rd :: "'b \<Rightarrow> 'a list list"
    and invar :: "'b \<Rightarrow> bool"
  assumes len_le: "invar b \<Longrightarrow> len b \<le> capacity b"
    and read_len: "invar b \<Longrightarrow> length (concat (rd b)) = len b"
    and read_nonempty: "[] \<notin> set (rd b)"
    and clear_law: "invar b \<Longrightarrow> invar (clear b) \<and> len (clear b) = 0 \<and> capacity (clear b) = capacity b"
    and write_Ok: "invar b \<Longrightarrow> length d \<le> capacity b - len b \<Longrightarrow>
      \<exists>b'. wr b d = Ok b' \<and> invar b' \<and> capacity b' = capacity b \<and> concat (rd b') = concat (rd b) @ d"
    and write_Panic: "invar b \<Longrightarrow> capacity b - len b < length d \<Longrightarrow> wr b d = Panic"
begin

lemma empty_content: "invar b \<Longrightarrow> len b = 0 \<Longrightarrow> concat (rd b) = []"
  using read_len by fastforce

lemma empty_contents:
  "\<forall>b \<in> set bs. invar b \<Longrightarrow> \<forall>b \<in> set bs. len b = 0 \<Longrightarrow> concat (concat (map rd bs)) = []"
  by (induction bs) (auto dest: empty_content)

lemma len_after_write:
  "invar b \<Longrightarrow> invar b' \<Longrightarrow> concat (rd b') = concat (rd b) @ d \<Longrightarrow> len b' = len b + length d"
  using read_len by (metis length_append)

text \<open>The loop writes the rest of the data behind what the buffers hold, when there is room.\<close>

lemma write_loop_Ok:
  assumes "\<forall>b \<in> set bs. invar b" and "filled_in_order capacity len bs" and "w \<le> length data"
    and "length data - w \<le> sum_list (map capacity bs) - sum_list (map len bs)"
  shows "\<exists>bs'. bufs_write_loop capacity len wr data w bs = Ok (bs', length data) \<and>
    (\<forall>b \<in> set bs'. invar b) \<and> filled_in_order capacity len bs' \<and> map capacity bs' = map capacity bs \<and>
    concat (concat (map rd bs')) = concat (concat (map rd bs)) @ drop w data"
  using assms
proof (induction bs arbitrary: w)
  case Nil
  then show ?case by simp
next
  case (Cons b bs)
  show ?case
  proof (cases "w = length data")
    case True
    with Cons.prems show ?thesis by (intro exI [of _ "b # bs"]) simp
  next
    case False
    let ?avail = "capacity b - len b"
    define amount where "amount = min ?avail (length data - w)"
    let ?part = "take amount (drop w data)"
    have part: "length ?part = amount" by (simp add: amount_def)
    have inv: "invar b" using Cons.prems(1) by simp
    with part obtain b' where b': "wr b ?part = Ok b'" "invar b'" "capacity b' = capacity b"
        "concat (rd b') = concat (rd b) @ ?part"
      using write_Ok [of b ?part] by (auto simp: amount_def)
    then have len': "len b' = len b + amount" using len_after_write [OF inv] part by metis
    have le: "sum_list (map len bs) \<le> sum_list (map capacity bs)"
      using Cons.prems(1) len_le by (intro sum_list_mono) simp
    have "length data - (w + amount) \<le> sum_list (map capacity bs) - sum_list (map len bs)"
      using Cons.prems(4) len_le [OF inv] le by (simp add: amount_def)
    moreover have "\<forall>b \<in> set bs. invar b" and "filled_in_order capacity len bs" and "w + amount \<le> length data"
      using Cons.prems by (simp_all add: amount_def)
    ultimately obtain bs' where bs': "bufs_write_loop capacity len wr data (w + amount) bs = Ok (bs', length data)"
        "\<forall>b \<in> set bs'. invar b" "filled_in_order capacity len bs'" "map capacity bs' = map capacity bs"
        "concat (concat (map rd bs')) = concat (concat (map rd bs)) @ drop (w + amount) data"
      using Cons.IH [of "w + amount"] by blast
    have slice: "slice_range data w (w + amount) = (Ok ?part :: ('a list, unit) outcome)"
      using Cons.prems(3) by (simp add: slice_range_def amount_def)
    have room: "\<forall>b' \<in> set bs'. len b' = 0" if "len b' < capacity b'"
    proof -
      from that b'(3) len' have "amount < ?avail" by simp
      then have all: "w + amount = length data" and "0 < ?avail"
        using Cons.prems(3) by (auto simp: amount_def)
      then have "bs' = bs" using bs'(1) by (cases bs) auto
      moreover have "\<forall>b' \<in> set bs. len b' = 0" using Cons.prems(2) \<open>0 < ?avail\<close> by simp
      ultimately show ?thesis by simp
    qed
    consider "concat (concat (map rd bs)) = []" | "amount = 0"
      using Cons.prems(1,2) empty_contents [of bs] by (cases "?avail = 0") (auto simp: amount_def)
    then have "concat (concat (map rd (b' # bs'))) = concat (concat (map rd (b # bs))) @ drop w data"
    proof cases
      case 1
      have "concat (concat (map rd (b' # bs'))) = concat (rd b) @ ?part @ drop (w + amount) data"
        using b'(4) bs'(5) unfolding 1 by simp
      also have "?part @ drop (w + amount) data = drop w data"
        using append_take_drop_id [of amount "drop w data"] by (simp add: add.commute)
      finally show ?thesis using 1 by simp
    next
      case 2
      then show ?thesis using b'(4) bs'(5) by simp
    qed
    moreover have "bufs_write_loop capacity len wr data w (b # bs) = Ok (b' # bs', length data)"
      using False slice b'(1) bs'(1) by (simp add: Let_def del: and_then_eq_Ok flip: amount_def)
    ultimately show ?thesis
      using b'(2,3) bs'(2-4) room by (intro exI [of _ "b' # bs'"]) simp
  qed
qed

text \<open>Without room, the loop runs out of buffers before it has written everything.\<close>

lemma write_loop_short:
  assumes "\<forall>b \<in> set bs. invar b" and "w \<le> length data"
    and "sum_list (map capacity bs) - sum_list (map len bs) < length data - w"
  shows "\<exists>bs' n. bufs_write_loop capacity len wr data w bs = Ok (bs', n) \<and> n < length data"
  using assms
proof (induction bs arbitrary: w)
  case (Cons b bs)
  let ?avail = "capacity b - len b"
  have inv: "invar b" using Cons.prems(1) by simp
  have le: "sum_list (map len bs) \<le> sum_list (map capacity bs)"
    using Cons.prems(1) len_le by (intro sum_list_mono) simp
  with Cons.prems(3) len_le [OF inv] have short: "?avail < length data - w" by simp
  then have "length (take ?avail (drop w data)) \<le> ?avail" by simp
  then obtain b' where b': "wr b (take ?avail (drop w data)) = Ok b'" using write_Ok [OF inv] by blast
  have "sum_list (map capacity bs) - sum_list (map len bs) < length data - (w + ?avail)"
    using Cons.prems(3) len_le [OF inv] le by simp
  moreover have "\<forall>b \<in> set bs. invar b" and "w + ?avail \<le> length data" using Cons.prems(1) short by auto
  ultimately obtain bs' n where "bufs_write_loop capacity len wr data (w + ?avail) bs = Ok (bs', n)"
      "n < length data"
    using Cons.IH [of "w + ?avail"] by blast
  with b' short show ?case
    by (auto simp: Let_def slice_range_def min_absorb1)
qed simp

lemma bufs_laws:
  "contiguous_buffer (bufs_capacity capacity) (bufs_length len) (bufs_clear clear)
     (bufs_write capacity len wr) (bufs_read rd) (bufs_invar invar capacity len)"
proof
  fix b :: "'b contiguous_buffers" and d :: "'a list"
  show "[] \<notin> set (bufs_read rd b)" using read_nonempty by (auto simp: bufs_read_def)
  assume inv: "bufs_invar invar capacity len b"
  then have all: "\<forall>b \<in> set (buffers b). invar b" and ord: "filled_in_order capacity len (buffers b)"
    by (simp_all add: bufs_invar_def)
  show "bufs_length len b \<le> bufs_capacity capacity b"
    unfolding bufs_length_def bufs_capacity_def using all len_le by (intro sum_list_mono) simp
  have "\<forall>b \<in> set bs. invar b \<Longrightarrow> length (concat (concat (map rd bs))) = sum_list (map len bs)" for bs
    by (induction bs) (simp_all add: read_len)
  with all show "length (concat (bufs_read rd b)) = bufs_length len b"
    by (simp add: bufs_read_def bufs_length_def)
  have "\<forall>b \<in> set bs. invar b \<Longrightarrow> filled_in_order capacity len (map clear bs) \<and>
      sum_list (map (len \<circ> clear) bs) = 0 \<and> sum_list (map (capacity \<circ> clear) bs) = sum_list (map capacity bs)" for bs
    by (induction bs) (simp_all add: clear_law)
  with all show "bufs_invar invar capacity len (bufs_clear clear b) \<and> bufs_length len (bufs_clear clear b) = 0 \<and>
      bufs_capacity capacity (bufs_clear clear b) = bufs_capacity capacity b"
    by (auto simp: bufs_invar_def bufs_clear_def bufs_length_def bufs_capacity_def clear_law)
  {
    assume "length d \<le> bufs_capacity capacity b - bufs_length len b"
    with write_loop_Ok [OF all ord, of 0 d] show "\<exists>b'. bufs_write capacity len wr b d = Ok b' \<and>
        bufs_invar invar capacity len b' \<and> bufs_capacity capacity b' = bufs_capacity capacity b \<and>
        concat (bufs_read rd b') = concat (bufs_read rd b) @ d"
      by (fastforce simp: bufs_write_def bufs_invar_def bufs_capacity_def bufs_length_def bufs_read_def)
  next
    assume "bufs_capacity capacity b - bufs_length len b < length d"
    with write_loop_short [OF all, of 0 d] show "bufs_write capacity len wr b d = Panic"
      by (auto simp: bufs_write_def bufs_capacity_def bufs_length_def)
  }
qed

end

definition vec_invar :: "'a vec_buffer \<Rightarrow> bool" where
  "vec_invar self \<longleftrightarrow> length (vec_data self) \<le> vec_cap self"

lemmas vec_defs = vec_capacity_def vec_length_def vec_clear_def vec_write_def vec_read_def vec_invar_def

interpretation vec_buf: contiguous_buffer vec_capacity vec_length vec_clear vec_write vec_read vec_invar
  by unfold_locales (auto simp: vec_defs)

text \<open>Hence a row of vectors is a buffer too.\<close>

interpretation vec_bufs: contiguous_buffer
  "bufs_capacity vec_capacity" "bufs_length vec_length" "bufs_clear vec_clear"
  "bufs_write vec_capacity vec_length vec_write" "bufs_read vec_read"
  "bufs_invar vec_invar vec_capacity vec_length"
  by (rule vec_buf.bufs_laws)

section \<open>Properties\<close>

text \<open>C10: Writing to a row of vectors that is filled from the front appends the data to what a read sees,
  keeps the capacities and the filling order, and panics exactly when the data does not fit.\<close>

theorem bufs_write_appends:
  assumes "bufs_invar vec_invar vec_capacity vec_length b"
  shows "(if length d \<le> bufs_capacity vec_capacity b - bufs_length vec_length b
    then \<exists>b'. bufs_write vec_capacity vec_length vec_write b d = Ok b' \<and>
      bufs_invar vec_invar vec_capacity vec_length b' \<and>
      bufs_capacity vec_capacity b' = bufs_capacity vec_capacity b \<and>
      concat (bufs_read vec_read b') = concat (bufs_read vec_read b) @ d
    else bufs_write vec_capacity vec_length vec_write b d = Panic)"
  using vec_bufs.write_Ok [OF assms, of d] vec_bufs.write_Panic [OF assms, of d] by auto

theorem bufs_write_appends_witness:
  "\<exists>b'. bufs_write vec_capacity vec_length vec_write
      \<lparr>buffers = [\<lparr>vec_data = [1], vec_cap = 2\<rparr>, \<lparr>vec_data = [], vec_cap = 3\<rparr>]\<rparr> [2, 3 :: u8] = Ok b' \<and>
    concat (bufs_read vec_read b') = [1, 2, 3]"
proof -
  let ?b = "\<lparr>buffers = [\<lparr>vec_data = [1 :: u8], vec_cap = 2\<rparr>, \<lparr>vec_data = [], vec_cap = 3\<rparr>]\<rparr>"
  have "bufs_invar vec_invar vec_capacity vec_length ?b" by (simp add: bufs_invar_def vec_defs)
  from bufs_write_appends [OF this, of "[2, 3]"] show ?thesis
    by (auto simp: bufs_capacity_def bufs_length_def bufs_read_def vec_defs)
qed

end
