(* ===== verification/Utp_Packet.thy ===== *)
theory Utp_Packet
  imports Rust_Prelude
begin

text \<open>
  The packets of \<open>src/utp/packet.rs\<close> with the bit iterator of \<open>src/utp/bit_iterator.rs\<close>. A packet is
  its byte vector, as in the code; the header fields are read and written at their offsets in network
  order, which is what the casts to \<open>PacketHeader\<close> with \<open>from_be\<close>/\<open>to_be\<close> amount to on any host.
  Loops over the extension chain index the vector and panic out of range. The abstract view of a
  packet is a header, a list of typed extensions and a payload; \<open>render_exts\<close> lays extensions out.
\<close>

section \<open>Types\<close>

definition HEADER_SIZE :: nat where "HEADER_SIZE = 20"

datatype parse_error =
  InvalidExtensionLength | InvalidPacketLength | InvalidPacketType u8 | UnsupportedVersion

datatype packet_type = Data | Fin | State | Reset | Syn

definition packet_type_try_from :: "u8 \<Rightarrow> (packet_type, parse_error) outcome" where
  "packet_type_try_from original =
     (if original = 0 then Ok Data else if original = 1 then Ok Fin else if original = 2 then Ok State
      else if original = 3 then Ok Reset else if original = 4 then Ok Syn
      else Err (InvalidPacketType original))"

fun u8_of_packet_type :: "packet_type \<Rightarrow> u8" where
  "u8_of_packet_type Data = 0"
| "u8_of_packet_type Fin = 1"
| "u8_of_packet_type State = 2"
| "u8_of_packet_type Reset = 3"
| "u8_of_packet_type Syn = 4"

datatype extension_type = NoExtension | SelectiveAck | UnknownExtension u8

definition extension_type_from :: "u8 \<Rightarrow> extension_type" where
  "extension_type_from original =
     (if original = 0 then NoExtension else if original = 1 then SelectiveAck
      else UnknownExtension original)"

fun u8_of_extension_type :: "extension_type \<Rightarrow> u8" where
  "u8_of_extension_type NoExtension = 0"
| "u8_of_extension_type SelectiveAck = 1"
| "u8_of_extension_type (UnknownExtension n) = n"

record extension =
  ext_ty :: extension_type
  ext_data :: bytes

text \<open>The header as the struct the code builds; multi-byte fields hold the bytes of the buffer in
  memory order, read with the lowest address as the lowest byte (\<open>u8_to_unsigned_be!\<close>).\<close>

record packet_header =
  type_ver :: u8
  hd_extension :: u8
  hd_connection_id :: u16
  hd_timestamp :: u32
  hd_timestamp_difference :: u32
  hd_wnd_size :: u32
  hd_seq_nr :: u16
  hd_ack_nr :: u16

definition u8_to_unsigned :: "bytes \<Rightarrow> nat \<Rightarrow> nat \<Rightarrow> 'w::len word" where
  "u8_to_unsigned src start last_pos =
     fold (\<lambda>i acc. acc OR push_bit (i * 8) (ucast (src ! (start + i))))
       (rev [0..<last_pos - start + 1]) 0"

definition header_default :: packet_header where
  "header_default =
     \<lparr>type_ver = push_bit 4 (u8_of_packet_type Data) OR 1, hd_extension = 0, hd_connection_id = 0,
      hd_timestamp = 0, hd_timestamp_difference = 0, hd_wnd_size = 0, hd_seq_nr = 0, hd_ack_nr = 0\<rparr>"

definition header_set_type :: "packet_header \<Rightarrow> packet_type \<Rightarrow> packet_header" where
  "header_set_type self t =
     (let version = 0x0F AND type_ver self
      in self\<lparr>type_ver := push_bit 4 (u8_of_packet_type t) OR version\<rparr>)"

definition header_try_from :: "bytes \<Rightarrow> (packet_header, parse_error) outcome" where
  "header_try_from original =
     (if length original < HEADER_SIZE then Err InvalidPacketLength
      else if original ! 0 AND 0x0F \<noteq> 1 then Err UnsupportedVersion
      else and_then (packet_type_try_from (drop_bit 4 (original ! 0))) (\<lambda>_.
        Ok \<lparr>type_ver = original ! 0, hd_extension = original ! 1,
            hd_connection_id = u8_to_unsigned original 2 3,
            hd_timestamp = u8_to_unsigned original 4 7,
            hd_timestamp_difference = u8_to_unsigned original 8 11,
            hd_wnd_size = u8_to_unsigned original 12 15,
            hd_seq_nr = u8_to_unsigned original 16 17,
            hd_ack_nr = u8_to_unsigned original 18 19\<rparr>))"

text \<open>\<open>AsRef<[u8]>\<close>: the struct's memory, lowest byte of each field first.\<close>

definition le16 :: "u16 \<Rightarrow> bytes" where "le16 w = [ucast w, ucast (drop_bit 8 w)]"
definition le32 :: "u32 \<Rightarrow> bytes" where
  "le32 w = [ucast w, ucast (drop_bit 8 w), ucast (drop_bit 16 w), ucast (drop_bit 24 w)]"

definition header_as_ref :: "packet_header \<Rightarrow> bytes" where
  "header_as_ref self =
     [type_ver self, hd_extension self] @ le16 (hd_connection_id self) @ le32 (hd_timestamp self)
       @ le32 (hd_timestamp_difference self) @ le32 (hd_wnd_size self) @ le16 (hd_seq_nr self)
       @ le16 (hd_ack_nr self)"

section \<open>Packet operations\<close>

type_synonym packet = bytes

definition packet_new :: packet where
  "packet_new = header_as_ref header_default"

definition packet_with_payload :: "bytes \<Rightarrow> packet" where
  "packet_with_payload payload = header_as_ref (header_set_type header_default Data) @ payload"

text \<open>Reading and writing a 16-bit or 32-bit field at an offset, in network order.\<close>

definition get_be16 :: "packet \<Rightarrow> nat \<Rightarrow> u16" where
  "get_be16 p off = push_bit 8 (ucast (p ! off)) OR ucast (p ! (off + 1))"

definition set_be16 :: "nat \<Rightarrow> u16 \<Rightarrow> packet \<Rightarrow> packet" where
  "set_be16 off w p = p[off := ucast (drop_bit 8 w), off + 1 := ucast w]"

definition get_be32 :: "packet \<Rightarrow> nat \<Rightarrow> u32" where
  "get_be32 p off = push_bit 24 (ucast (p ! off)) OR push_bit 16 (ucast (p ! (off + 1)))
     OR push_bit 8 (ucast (p ! (off + 2))) OR ucast (p ! (off + 3))"

definition set_be32 :: "nat \<Rightarrow> u32 \<Rightarrow> packet \<Rightarrow> packet" where
  "set_be32 off w p = p[off := ucast (drop_bit 24 w), off + 1 := ucast (drop_bit 16 w),
     off + 2 := ucast (drop_bit 8 w), off + 3 := ucast w]"

definition pkt_set_type :: "packet_type \<Rightarrow> packet \<Rightarrow> packet" where
  "pkt_set_type t p =
     (let version = 0x0F AND (p ! 0) in p[0 := push_bit 4 (u8_of_packet_type t) OR version])"

definition pkt_get_type :: "packet \<Rightarrow> (packet_type, 'e) outcome" where
  "pkt_get_type p = unwrap (packet_type_try_from (drop_bit 4 (p ! 0)))"

definition pkt_get_version :: "packet \<Rightarrow> u8" where
  "pkt_get_version p = p ! 0 AND 0x0F"

definition pkt_get_extension_type :: "packet \<Rightarrow> extension_type" where
  "pkt_get_extension_type p = extension_type_from (p ! 1)"

definition pkt_connection_id :: "packet \<Rightarrow> u16" where "pkt_connection_id p = get_be16 p 2"
definition pkt_timestamp :: "packet \<Rightarrow> u32" where "pkt_timestamp p = get_be32 p 4"
definition pkt_wnd_size :: "packet \<Rightarrow> u32" where "pkt_wnd_size p = get_be32 p 12"
definition pkt_seq_nr :: "packet \<Rightarrow> u16" where "pkt_seq_nr p = get_be16 p 16"
definition pkt_ack_nr :: "packet \<Rightarrow> u16" where "pkt_ack_nr p = get_be16 p 18"

text \<open>A \<open>Delay\<close> is a signed 64-bit number; it goes on the wire as its low 32 bits.\<close>

definition pkt_timestamp_difference :: "packet \<Rightarrow> int" where
  "pkt_timestamp_difference p = uint (get_be32 p 8)"

definition pkt_set_connection_id :: "u16 \<Rightarrow> packet \<Rightarrow> packet" where "pkt_set_connection_id w = set_be16 2 w"
definition pkt_set_timestamp :: "u32 \<Rightarrow> packet \<Rightarrow> packet" where "pkt_set_timestamp w = set_be32 4 w"
definition pkt_set_timestamp_difference :: "int \<Rightarrow> packet \<Rightarrow> packet" where
  "pkt_set_timestamp_difference d = set_be32 8 (of_int d)"
definition pkt_set_wnd_size :: "u32 \<Rightarrow> packet \<Rightarrow> packet" where "pkt_set_wnd_size w = set_be32 12 w"
definition pkt_set_seq_nr :: "u16 \<Rightarrow> packet \<Rightarrow> packet" where "pkt_set_seq_nr w = set_be16 16 w"
definition pkt_set_ack_nr :: "u16 \<Rightarrow> packet \<Rightarrow> packet" where "pkt_set_ack_nr w = set_be16 18 w"

text \<open>The loop of \<open>payload\<close>: skip the extensions, then take the rest.\<close>

function payload_loop :: "packet \<Rightarrow> nat \<Rightarrow> extension_type \<Rightarrow> (nat, 'e) outcome" where
  "payload_loop p index ty =
     (if index < length p \<and> ty \<noteq> NoExtension then
        and_then (index_slice p (index + 1)) (\<lambda>len.
          payload_loop p (index + unat len + 2) (extension_type_from (p ! index)))
      else Ok index)"
  by pat_completeness auto
termination
  by (relation "measure (\<lambda>(p, index, ty). length p - index)") auto

declare payload_loop.simps [simp del]

definition pkt_payload :: "packet \<Rightarrow> (bytes, 'e) outcome" where
  "pkt_payload p =
     and_then (index_slice p 1) (\<lambda>b.
       and_then (payload_loop p HEADER_SIZE (extension_type_from b)) (\<lambda>index.
         slice_range p index (length p)))"

text \<open>\<open>Vec::insert\<close> panics beyond the end.\<close>

definition vec_insert :: "'a list \<Rightarrow> nat \<Rightarrow> 'a \<Rightarrow> ('a list, 'e) outcome" where
  "vec_insert xs i x = (if i \<le> length xs then Ok (take i xs @ x # drop i xs) else Panic)"

function sack_loop :: "packet \<Rightarrow> nat \<Rightarrow> extension_type \<Rightarrow> (packet \<times> nat, 'e) outcome" where
  "sack_loop p index ty =
     (if index < length p \<and> ty \<noteq> NoExtension then
        and_then (index_slice p (index + 1)) (\<lambda>len.
          let ty' = extension_type_from (p ! index);
              p' = (if ty' = NoExtension then p[index := u8_of_extension_type SelectiveAck] else p)
          in sack_loop p' (index + unat len + 2) ty')
      else Ok (p, index))"
  by pat_completeness auto
termination
  by (relation "measure (\<lambda>(p, index, ty). length p - index)") (auto simp: Let_def)

declare sack_loop.simps [simp del]

fun insert_all :: "'a list \<Rightarrow> nat \<Rightarrow> 'a list \<Rightarrow> ('a list, 'e) outcome" where
  "insert_all p i [] = Ok p"
| "insert_all p i (x # xs) = and_then (vec_insert p i x) (\<lambda>p'. insert_all p' (i + 1) xs)"

definition pkt_set_sack :: "bytes \<Rightarrow> packet \<Rightarrow> (packet, 'e) outcome" where
  "pkt_set_sack bv p =
     (if \<not> (length bv \<ge> 4 \<and> length bv mod 4 = 0) then Panic
      else and_then (index_slice p 1) (\<lambda>b.
        and_then
          (if extension_type_from b = NoExtension
           then Ok (p[1 := u8_of_extension_type SelectiveAck], HEADER_SIZE)
           else sack_loop p HEADER_SIZE (extension_type_from b)) (\<lambda>(p', index).
          and_then (vec_insert p' index (u8_of_extension_type NoExtension)) (\<lambda>p1.
            and_then (vec_insert p1 (index + 1) (of_nat (length bv))) (\<lambda>p2.
              insert_all p2 (index + 2) bv)))))"

record extension_iterator =
  raw_bytes :: bytes
  next_extension :: extension_type
  ext_index :: nat

definition extensions_new :: "packet \<Rightarrow> extension_iterator" where
  "extensions_new p =
     \<lparr>raw_bytes = p, next_extension = extension_type_from (p ! 1), ext_index = HEADER_SIZE\<rparr>"

definition extensions_next ::
    "extension_iterator \<Rightarrow> (extension option \<times> extension_iterator, 'e) outcome" where
  "extensions_next self =
     (if next_extension self = NoExtension then Ok (None, self)
      else if ext_index self < length (raw_bytes self) then
        and_then (index_slice (raw_bytes self) (ext_index self + 1)) (\<lambda>len.
          let extension_start = ext_index self + 2;
              extension_end = extension_start + unat len
          in and_then (slice_range (raw_bytes self) extension_start extension_end) (\<lambda>data.
               Ok (Some \<lparr>ext_ty = next_extension self, ext_data = data\<rparr>,
                   self\<lparr>next_extension := extension_type_from (raw_bytes self ! ext_index self),
                        ext_index := ext_index self + unat len + 2\<rparr>)))
      else Ok (None, self))"

text \<open>All extensions, with at most \<open>fuel\<close> calls of \<open>next\<close>; \<open>None\<close> when it has not ended.\<close>

fun extensions_all :: "nat \<Rightarrow> extension_iterator \<Rightarrow> (extension list option, 'e) outcome" where
  "extensions_all 0 it = Ok None"
| "extensions_all (Suc fuel) it =
     and_then (extensions_next it) (\<lambda>(e, it').
       case e of None \<Rightarrow> Ok (Some [])
       | Some x \<Rightarrow> and_then (extensions_all fuel it') (\<lambda>xs. Ok (map_option ((#) x) xs)))"

function check_loop :: "bytes \<Rightarrow> nat \<Rightarrow> extension_type \<Rightarrow> (extension_type, parse_error) outcome" where
  "check_loop data index ty =
     (if index < length data \<and> ty \<noteq> NoExtension then
        if length data < index + 2 then Err InvalidPacketLength
        else
          let len = unat (data ! (index + 1));
              extension_start = index + 2;
              extension_end = extension_start + len
          in if len = 0 \<or> len mod 4 \<noteq> 0 \<or> extension_end > length data then Err InvalidExtensionLength
             else check_loop data (index + len + 2) (extension_type_from (data ! index))
      else Ok ty)"
  by pat_completeness auto
termination
  by (relation "measure (\<lambda>(p, index, ty). length p - index)") auto

declare check_loop.simps [simp del]

definition check_extensions :: "bytes \<Rightarrow> (unit, parse_error) outcome" where
  "check_extensions data =
     (if length data < HEADER_SIZE then Err InvalidPacketLength
      else
        let ty = extension_type_from (data ! 1)
        in if length data = HEADER_SIZE \<and> ty \<noteq> NoExtension then Err InvalidExtensionLength
           else and_then (check_loop data HEADER_SIZE ty) (\<lambda>ty'.
             if ty' \<noteq> NoExtension then Err InvalidPacketLength else Ok ()))"

definition packet_try_from :: "bytes \<Rightarrow> (packet, parse_error) outcome" where
  "packet_try_from original =
     and_then (header_try_from original) (\<lambda>_. and_then (check_extensions original) (\<lambda>_. Ok original))"

section \<open>Bits of an extension\<close>

definition U8BITS :: nat where "U8BITS = 8"

record bit_iterator =
  bi_object :: bytes
  bi_next_index :: nat
  bi_end_index :: nat

definition bit_iterator_from_bytes :: "bytes \<Rightarrow> bit_iterator" where
  "bit_iterator_from_bytes obj =
     \<lparr>bi_object = obj, bi_next_index = 0, bi_end_index = length obj * U8BITS\<rparr>"

definition bit_iterator_next :: "bit_iterator \<Rightarrow> (bool option \<times> bit_iterator, 'e) outcome" where
  "bit_iterator_next self =
     (if bi_next_index self \<noteq> bi_end_index self then
        let byte_index = bi_next_index self div U8BITS;
            bit_index = bi_next_index self mod U8BITS
        in and_then (index_slice (bi_object self) byte_index) (\<lambda>byte.
             Ok (Some (drop_bit bit_index byte AND 0x1 = 0x1),
                 self\<lparr>bi_next_index := bi_next_index self + 1\<rparr>))
      else Ok (None, self))"

definition bit_iterator_count_ones :: "bit_iterator \<Rightarrow> nat" where
  "bit_iterator_count_ones self =
     fold (\<lambda>bv acc. acc + card {i. i < 8 \<and> bit bv i}) (bi_object self) 0"

fun bit_iterator_all :: "nat \<Rightarrow> bit_iterator \<Rightarrow> (bool list option, 'e) outcome" where
  "bit_iterator_all 0 it = Ok None"
| "bit_iterator_all (Suc fuel) it =
     and_then (bit_iterator_next it) (\<lambda>(e, it').
       case e of None \<Rightarrow> Ok (Some [])
       | Some x \<Rightarrow> and_then (bit_iterator_all fuel it') (\<lambda>xs. Ok (map_option ((#) x) xs)))"

text \<open>\<open>Extension::iter\<close>.\<close>

definition extension_iter :: "extension \<Rightarrow> bit_iterator" where
  "extension_iter self = bit_iterator_from_bytes (ext_data self)"

lemma bit_iterator_from:
  assumes "i \<le> 8 * length bs" and "8 * length bs - i < fuel"
  shows "bit_iterator_all fuel \<lparr>bi_object = bs, bi_next_index = i, bi_end_index = length bs * 8\<rparr> =
    Ok (Some (map (\<lambda>k. bit (bs ! (k div 8)) (k mod 8)) [i..<8 * length bs]))"
  using assms
proof (induction fuel arbitrary: i)
  case (Suc fuel)
  show ?case
  proof (cases "i = 8 * length bs")
    case True
    then show ?thesis by (simp add: bit_iterator_next_def mult.commute)
  next
    case False
    with Suc.prems have "i div 8 < length bs" by auto
    moreover have "drop_bit k b AND 1 = 1 \<longleftrightarrow> bit b k" for b :: u8 and k
      by (simp add: and_one_eq bit_iff_odd_drop_bit odd_iff_mod_2_eq_one)
    moreover have "Suc i \<le> 8 * length bs" and "8 * length bs - Suc i < fuel" using Suc.prems False by auto
    note Suc.IH [OF this]
    ultimately show ?thesis using False Suc.prems
      by (simp add: bit_iterator_next_def U8BITS_def index_slice_def mult.commute upt_conv_Cons [of i])
  qed
qed simp

section \<open>Extensions laid out\<close>

lemma extension_type_from_0 [simp]: "extension_type_from b = NoExtension \<longleftrightarrow> b = 0"
  by (simp add: extension_type_from_def)

lemma u8_of_extension_type_from [simp]: "u8_of_extension_type (extension_type_from b) = b"
  by (simp add: extension_type_from_def)

text \<open>Extensions as pairs of a type byte and data; the type of the first stands in the header, each
  extension holds the type of the next, the last the byte \<open>z\<close>.\<close>

fun first_type :: "u8 \<Rightarrow> (u8 \<times> bytes) list \<Rightarrow> u8" where
  "first_type z [] = z"
| "first_type z ((t, d) # es) = t"

fun render_exts :: "u8 \<Rightarrow> (u8 \<times> bytes) list \<Rightarrow> bytes" where
  "render_exts z [] = []"
| "render_exts z ((t, d) # es) = first_type z es # of_nat (length d) # d @ render_exts z es"

definition ext_wf :: "u8 \<times> bytes \<Rightarrow> bool" where
  "ext_wf e \<longleftrightarrow> fst e \<noteq> 0 \<and> snd e \<noteq> [] \<and> length (snd e) mod 4 = 0 \<and> length (snd e) < 256"

lemma unat_of_nat_u8: "n < 256 \<Longrightarrow> unat (of_nat n :: u8) = n"
  by (simp add: unat_of_nat)

lemma render_exts_snoc:
  "render_exts 0 (es @ [(1, bv)]) = render_exts 1 es @ 0 # of_nat (length bv) # bv"
proof (induction es)
  case (Cons e es)
  then show ?case by (cases e; cases es) auto
qed simp

lemma length_render_exts [simp]: "length (render_exts z es) = length (render_exts z' es)"
  by (induction z es rule: render_exts.induct) simp_all

lemma first_type_snoc: "first_type z (es @ [(t, d)]) = (if es = [] then t else first_type z' es)"
  by (cases es) auto

lemma nth_after_take: "drop i p = xs @ ys \<Longrightarrow> i \<le> length p \<Longrightarrow> k < length xs \<Longrightarrow> p ! (i + k) = xs ! k"
  by (metis nth_append nth_drop)

lemma drop_append_drop: "drop k p = d @ r \<Longrightarrow> drop (k + length d) p = r"
  by (metis add.commute append_eq_conv_conj drop_drop)

lemma drop_cons_cons:
  assumes "drop i p = a # b # xs" and "i \<le> length p"
  shows "p ! i = a" and "p ! (i + 1) = b" and "i + 2 \<le> length p" and "drop (i + 2) p = xs"
proof -
  have len: "length p - i = Suc (Suc (length xs))" using arg_cong [OF assms(1), of length] by simp
  then show "i + 2 \<le> length p" by simp
  show "p ! i = a" using assms len by (metis Nat.add_0_right nth_Cons_0 nth_drop)
  show "p ! (i + 1) = b" using assms len by (metis nth_Cons_0 nth_Cons_Suc nth_drop One_nat_def)
  have "drop 2 (drop i p) = xs" using assms by simp
  then show "drop (i + 2) p = xs" by (simp add: add.commute)
qed

text \<open>The check accepts exactly the byte strings that start with a laid-out chain of extensions.\<close>

lemma check_loop_complete:
  assumes "drop i p = render_exts 0 es @ pl" and "i \<le> length p" and "list_all ext_wf es"
  shows "check_loop p i (extension_type_from (first_type 0 es)) = Ok NoExtension"
  using assms
proof (induction es arbitrary: i)
  case Nil
  then show ?case by (simp add: check_loop.simps extension_type_from_def)
next
  case (Cons e es)
  obtain t d where e: "e = (t, d)" by (cases e)
  have d: "d \<noteq> []" "length d mod 4 = 0" "length d < 256" "t \<noteq> 0" using Cons.prems(3) by (auto simp: e ext_wf_def)
  note dr = drop_cons_cons [OF Cons.prems(1) [unfolded e render_exts.simps append_Cons] Cons.prems(2)]
  have dlen: "drop (i + 2 + length d) p = render_exts 0 es @ pl"
    using dr(4) by (intro drop_append_drop) simp
  have "length (drop (i + 2) p) = length d + length (render_exts 0 es @ pl)" using dr(4) by simp
  then have le: "i + 2 + length d \<le> length p" using dr(3) by simp
  have "check_loop p (i + 2 + length d) (extension_type_from (first_type 0 es)) = Ok NoExtension"
    using Cons.IH [OF dlen le] Cons.prems(3) by simp
  then show ?case
    using dr le d by (subst check_loop.simps) (simp add: e unat_of_nat_u8 Let_def add.commute add.left_commute)
qed

lemma extension_type_from_inj [simp]: "extension_type_from a = extension_type_from b \<longleftrightarrow> a = b"
  by (metis u8_of_extension_type_from)

lemma check_loop_sound:
  assumes "check_loop p i ty = Ok NoExtension" and "i \<le> length p" and "ty = extension_type_from t"
  shows "\<exists>es pl. drop i p = render_exts 0 es @ pl \<and> t = first_type 0 es \<and> list_all ext_wf es"
  using assms
proof (induction p i ty arbitrary: t rule: check_loop.induct)
  case (1 p i ty)
  show ?case
  proof (cases "t = 0")
    case True
    then show ?thesis by (intro exI [of _ "[]"] exI [of _ "drop i p"]) simp
  next
    case False
    with "1.prems"(3) have ty: "ty \<noteq> NoExtension" by simp
    let ?len = "unat (p ! (i + 1))"
    from "1.prems"(1) ty have i: "i < length p" and i2: "\<not> length p < i + 2"
        and ok: "\<not> (?len = 0 \<or> ?len mod 4 \<noteq> 0 \<or> i + 2 + ?len > length p)"
        and rest: "check_loop p (i + ?len + 2) (extension_type_from (p ! i)) = Ok NoExtension"
      by (auto simp: check_loop.simps [of p i] Let_def split: if_splits)
    from i i2 ok rest ty obtain es pl where es: "drop (i + ?len + 2) p = render_exts 0 es @ pl"
        "p ! i = first_type 0 es" "list_all ext_wf es"
      using "1.IH" [OF _ i2 refl refl refl ok rest _ refl] by auto
    let ?d = "take ?len (drop (i + 2) p)"
    have len: "length ?d = ?len" using ok by auto
    have "drop i p = p ! i # p ! (i + 1) # drop (i + 2) p"
      using i i2 by (simp add: Cons_nth_drop_Suc)
    also have "drop (i + 2) p = ?d @ drop (i + ?len + 2) p"
      using append_take_drop_id [of ?len "drop (i + 2) p"] by (simp add: add.commute add.left_commute)
    finally have "drop i p = render_exts 0 ((t, ?d) # es) @ pl"
      using len es(1) by (simp flip: es(2))
    moreover have "ext_wf (t, ?d)"
      using len ok unat_u8_less [of "p ! (i + 1)"] False by (auto simp: ext_wf_def)
    ultimately show ?thesis
      using es(3) by (intro exI [of _ "(t, ?d) # es"] exI [of _ pl]) simp
  qed
qed

text \<open>A packet as the parser accepts it: a header with a known version and type, extensions and
  payload.\<close>

definition packet_shape :: "packet \<Rightarrow> (u8 \<times> bytes) list \<Rightarrow> bytes \<Rightarrow> bool" where
  "packet_shape p es pl \<longleftrightarrow>
     HEADER_SIZE \<le> length p \<and> p ! 0 AND 0x0F = 1 \<and> drop_bit 4 (p ! 0) \<le> 4 \<and>
     list_all ext_wf es \<and> p ! 1 = first_type 0 es \<and> drop HEADER_SIZE p = render_exts 0 es @ pl"

lemma packet_type_try_from_Ok: "(\<exists>t. packet_type_try_from b = Ok t) \<longleftrightarrow> b \<le> 4"
proof -
  have "b \<le> 4 \<longleftrightarrow> b = 0 \<or> b = 1 \<or> b = 2 \<or> b = 3 \<or> b = 4"
    by (auto simp: word_le_nat_alt word_unat_eq_iff)
  then show ?thesis by (auto simp: packet_type_try_from_def)
qed

lemma check_extensions_shape:
  assumes "HEADER_SIZE \<le> length p"
  shows "check_extensions p = Ok () \<longleftrightarrow>
    (\<exists>es pl. list_all ext_wf es \<and> p ! 1 = first_type 0 es \<and> drop HEADER_SIZE p = render_exts 0 es @ pl)"
proof
  assume "check_extensions p = Ok ()"
  then have "check_loop p HEADER_SIZE (extension_type_from (p ! 1)) = Ok NoExtension"
    using assms by (auto simp: check_extensions_def Let_def split: if_splits)
  from check_loop_sound [OF this assms refl] show
    "\<exists>es pl. list_all ext_wf es \<and> p ! 1 = first_type 0 es \<and> drop HEADER_SIZE p = render_exts 0 es @ pl"
    by blast
next
  assume "\<exists>es pl. list_all ext_wf es \<and> p ! 1 = first_type 0 es \<and> drop HEADER_SIZE p = render_exts 0 es @ pl"
  then obtain es pl where es: "list_all ext_wf es" "p ! 1 = first_type 0 es"
      "drop HEADER_SIZE p = render_exts 0 es @ pl" by blast
  from check_loop_complete [OF es(3) assms es(1)] have
    "check_loop p HEADER_SIZE (extension_type_from (p ! 1)) = Ok NoExtension" by (simp only: es(2))
  moreover have "length p = HEADER_SIZE \<Longrightarrow> p ! 1 = 0"
    using es(2,3) by (cases es) auto
  ultimately show "check_extensions p = Ok ()"
    using assms by (auto simp: check_extensions_def Let_def)
qed

lemma packet_try_from_shape:
  "packet_try_from bs = Ok p \<longleftrightarrow> p = bs \<and> (\<exists>es pl. packet_shape bs es pl)"
proof (cases "HEADER_SIZE \<le> length bs")
  case True
  have "(\<exists>h. header_try_from bs = Ok h) \<longleftrightarrow> bs ! 0 AND 0x0F = 1 \<and> drop_bit 4 (bs ! 0) \<le> 4"
    using True packet_type_try_from_Ok [of "drop_bit 4 (bs ! 0)"] by (auto simp: header_try_from_def)
  with True check_extensions_shape [OF True] show ?thesis
    by (auto simp: packet_try_from_def packet_shape_def)
next
  case False
  then show ?thesis by (auto simp: packet_try_from_def header_try_from_def packet_shape_def)
qed

text \<open>Skipping the extensions and iterating over them.\<close>

lemma payload_loop_end:
  assumes "drop i p = render_exts 0 es @ pl" and "i \<le> length p" and "list_all ext_wf es"
  shows "payload_loop p i (extension_type_from (first_type 0 es)) = Ok (length p - length pl)"
  using assms
proof (induction es arbitrary: i)
  case Nil
  from arg_cong [OF Nil.prems(1), of length] Nil.prems(2) show ?case
    by (simp add: payload_loop.simps)
next
  case (Cons e es)
  obtain t d where e: "e = (t, d)" by (cases e)
  have d: "d \<noteq> []" "length d < 256" "t \<noteq> 0" using Cons.prems(3) by (auto simp: e ext_wf_def)
  note dr = drop_cons_cons [OF Cons.prems(1) [unfolded e render_exts.simps append_Cons] Cons.prems(2)]
  have dlen: "drop (i + 2 + length d) p = render_exts 0 es @ pl"
    using dr(4) by (intro drop_append_drop) simp
  have "length (drop (i + 2) p) = length d + length (render_exts 0 es @ pl)" using dr(4) by simp
  then have le: "i + 2 + length d \<le> length p" using dr(3) by simp
  note Cons.IH [OF dlen le]
  with dr le d Cons.prems(3) show ?case
    by (subst payload_loop.simps) (simp add: e unat_of_nat_u8 index_slice_def add.commute add.left_commute)
qed

lemma extensions_all_from:
  assumes "drop i p = render_exts 0 es @ pl" and "i \<le> length p" and "list_all ext_wf es"
  shows "extensions_all (Suc (length es))
      \<lparr>raw_bytes = p, next_extension = extension_type_from (first_type 0 es), ext_index = i\<rparr> =
    Ok (Some (map (\<lambda>(t, d). \<lparr>ext_ty = extension_type_from t, ext_data = d\<rparr>) es))"
  using assms
proof (induction es arbitrary: i)
  case Nil
  then show ?case by (simp add: extensions_next_def)
next
  case (Cons e es)
  obtain t d where e: "e = (t, d)" by (cases e)
  have d: "d \<noteq> []" "length d < 256" "t \<noteq> 0" using Cons.prems(3) by (auto simp: e ext_wf_def)
  note dr = drop_cons_cons [OF Cons.prems(1) [unfolded e render_exts.simps append_Cons] Cons.prems(2)]
  have dlen: "drop (i + 2 + length d) p = render_exts 0 es @ pl"
    using dr(4) by (intro drop_append_drop) simp
  have "length (drop (i + 2) p) = length d + length (render_exts 0 es @ pl)" using dr(4) by simp
  then have le: "i + 2 + length d \<le> length p" using dr(3) by simp
  have "take (length d) (drop (i + 2) p) = d" using dr(4) by simp
  moreover note Cons.IH [OF dlen le]
  ultimately show ?case
    using dr le d Cons.prems(3)
    by (subst extensions_all.simps)
       (simp add: e extensions_next_def unat_of_nat_u8 index_slice_def slice_range_def Let_def
         add.commute add.left_commute)
qed

section \<open>Adding a selective acknowledgement\<close>

lemma sack_loop_end:
  assumes "drop i p = render_exts 0 es @ pl" and "i \<le> length p" and "list_all ext_wf es" and "es \<noteq> []"
  shows "sack_loop p i (extension_type_from (first_type 0 es)) =
    Ok (take i p @ render_exts 1 es @ pl, length p - length pl)"
  using assms
proof (induction es arbitrary: i)
  case (Cons e es)
  obtain t d where e: "e = (t, d)" by (cases e)
  have d: "d \<noteq> []" "length d < 256" "t \<noteq> 0" using Cons.prems(3) by (auto simp: e ext_wf_def)
  note dr = drop_cons_cons [OF Cons.prems(1) [unfolded e render_exts.simps append_Cons] Cons.prems(2)]
  have dlen: "drop (i + 2 + length d) p = render_exts 0 es @ pl"
    using dr(4) by (intro drop_append_drop) simp
  have len: "length (drop (i + 2) p) = length d + length (render_exts 0 es @ pl)" using dr(4) by simp
  then have le: "i + 2 + length d \<le> length p" using dr(3) by simp
  have p: "p = take i p @ first_type 0 es # of_nat (length d) # d @ render_exts 0 es @ pl"
    using Cons.prems(1) append_take_drop_id [of i p] by (simp add: e)
  show ?case
  proof (cases "es = []")
    case True
    have "p[i := 1] = take i p @ 1 # of_nat (length d) # d @ pl"
      using Cons.prems(2) by (subst p) (simp add: True list_update_append)
    moreover have "length p - length pl = i + length d + 2"
      using len dr(3) by (simp add: True)
    ultimately show ?thesis
      using dr le d True
      by (subst sack_loop.simps) (simp add: e sack_loop.simps unat_of_nat_u8 index_slice_def Let_def)
  next
    case False
    then obtain t' d' es' where es: "es = (t', d') # es'" by (cases es) auto
    with Cons.prems(3) have "p ! i \<noteq> 0" using dr(1) by (simp add: ext_wf_def)
    moreover have "take (i + 2 + length d) p = take i p @ first_type 0 es # of_nat (length d) # d"
      using Cons.prems(2) by (subst p) simp
    moreover note Cons.IH [OF dlen le _ False]
    ultimately show ?thesis
      using dr le d Cons.prems(3) es
      by (subst sack_loop.simps) (simp add: e unat_of_nat_u8 index_slice_def Let_def ac_simps)
  qed
qed simp

lemma insert_all_eq: "i \<le> length p \<Longrightarrow> insert_all p i xs = Ok (take i p @ xs @ drop i p)"
  by (induction xs arbitrary: p i) (simp_all add: vec_insert_def)

lemma set_sack_inserts:
  assumes "4 \<le> length bv" and "length bv mod 4 = 0" and "HEADER_SIZE \<le> length p"
    and "list_all ext_wf es" and "p ! 1 = first_type 0 es" and "drop HEADER_SIZE p = render_exts 0 es @ pl"
  shows "pkt_set_sack bv p =
    (Ok (take HEADER_SIZE (if es = [] then p[1 := 1] else p) @ render_exts 0 (es @ [(1, bv)]) @ pl) ::
      (packet, 'e) outcome)"
proof -
  let ?hd = "take HEADER_SIZE (if es = [] then p[1 := 1] else p)"
  have hd: "length ?hd = HEADER_SIZE" using assms(3) by simp
  have p1: "index_slice p 1 = (Ok (first_type 0 es) :: (u8, 'e) outcome)"
    using assms(3,5) by (simp add: index_slice_def HEADER_SIZE_def)
  have len: "length p - length pl = HEADER_SIZE + length (render_exts 1 es)"
    using arg_cong [OF assms(6), of length] assms(3) length_render_exts [of 0 es 1] by simp
  have "(if extension_type_from (first_type 0 es) = NoExtension
      then Ok (p[1 := u8_of_extension_type SelectiveAck], HEADER_SIZE)
      else sack_loop p HEADER_SIZE (extension_type_from (first_type 0 es))) =
    (Ok (?hd @ render_exts 1 es @ pl, HEADER_SIZE + length (render_exts 1 es)) :: (packet \<times> nat, 'e) outcome)"
  proof (cases es)
    case Nil
    then have "drop HEADER_SIZE (p[1 := 1]) = pl" using assms(6) by (simp add: HEADER_SIZE_def)
    then have "take HEADER_SIZE (p[1 := 1]) @ pl = p[1 := 1]" by (metis append_take_drop_id)
    then show ?thesis by (simp add: Nil)
  next
    case (Cons e es')
    with assms(4) have "first_type 0 es \<noteq> 0" by (cases e) (auto simp: ext_wf_def)
    with sack_loop_end [OF assms(6,3,4)] Cons len show ?thesis by simp
  qed
  note this [simplified]
  then show ?thesis
    using assms(1,2) p1 hd
    by (simp add: pkt_set_sack_def vec_insert_def insert_all_eq render_exts_snoc del: and_then_eq_Ok)
qed

lemma check_loop_empty_extension:
  assumes "drop i p = render_exts 1 es @ z # 0 # rest" and "i \<le> length p" and "list_all ext_wf es"
  shows "check_loop p i (extension_type_from (first_type 1 es)) = Err InvalidExtensionLength"
  using assms
proof (induction es arbitrary: i)
  case Nil
  note dr = drop_cons_cons [OF Nil.prems(1) [simplified] Nil.prems(2)]
  show ?case using dr by (subst check_loop.simps) (simp add: extension_type_from_def Let_def)
next
  case (Cons e es)
  obtain t d where e: "e = (t, d)" by (cases e)
  have d: "d \<noteq> []" "length d mod 4 = 0" "length d < 256" "t \<noteq> 0" using Cons.prems(3) by (auto simp: e ext_wf_def)
  note dr = drop_cons_cons [OF Cons.prems(1) [unfolded e render_exts.simps append_Cons] Cons.prems(2)]
  have dlen: "drop (i + 2 + length d) p = render_exts 1 es @ z # 0 # rest"
    using dr(4) by (intro drop_append_drop) simp
  have "length (drop (i + 2) p) = length d + length (render_exts 1 es @ z # 0 # rest)" using dr(4) by simp
  then have le: "i + 2 + length d \<le> length p" using dr(3) by simp
  have "check_loop p (i + 2 + length d) (extension_type_from (first_type 1 es)) = Err InvalidExtensionLength"
    using Cons.IH [OF dlen le] Cons.prems(3) by simp
  then show ?case
    using dr le d by (subst check_loop.simps) (simp add: e unat_of_nat_u8 Let_def add.commute add.left_commute)
qed

text \<open>What \<open>set_sack\<close> writes behind the header, by the length modulo 256 it announces.\<close>

lemma render_exts_cut:
  assumes "n = length bv mod 256"
  shows "render_exts 0 (es @ [(1, bv)]) @ pl = render_exts 1 es @ 0 # of_nat n # bv @ pl"
    and "render_exts 0 (es @ [(1, bv)]) @ pl = render_exts 0 (es @ [(1, take n bv)]) @ drop n bv @ pl"
proof -
  have n: "(of_nat (length bv) :: u8) = of_nat n" and le: "n \<le> length bv"
    using assms by (simp_all add: word_unat_eq_iff unat_of_nat)
  show "render_exts 0 (es @ [(1, bv)]) @ pl = render_exts 1 es @ 0 # of_nat n # bv @ pl"
    by (simp add: render_exts_snoc n)
  show "render_exts 0 (es @ [(1, bv)]) @ pl = render_exts 0 (es @ [(1, take n bv)]) @ drop n bv @ pl"
    using le by (simp add: render_exts_snoc n min_absorb1)
qed

lemma pkt_set_sack_result:
  assumes "packet_shape p es pl" and "4 \<le> length bv" and "length bv mod 4 = 0"
  defines "n \<equiv> length bv mod 256"
  shows "\<exists>p'. pkt_set_sack bv p = (Ok p' :: (packet, 'e) outcome) \<and> (\<forall>k. k < HEADER_SIZE \<and> k \<noteq> 1 \<longrightarrow> p' ! k = p ! k) \<and>
    (if n = 0 then packet_try_from p' = Err InvalidExtensionLength
     else packet_shape p' (es @ [(1, take n bv)]) (drop n bv @ pl))"
proof -
  from assms(1) have sh: "HEADER_SIZE \<le> length p" "p ! 0 AND 0x0F = 1" "drop_bit 4 (p ! 0) \<le> 4"
      "list_all ext_wf es" "p ! 1 = first_type 0 es" "drop HEADER_SIZE p = render_exts 0 es @ pl"
    by (simp_all add: packet_shape_def)
  let ?q = "if es = [] then p[1 := 1] else p"
  let ?p = "take HEADER_SIZE ?q @ render_exts 0 (es @ [(1, bv)]) @ pl"
  have q: "HEADER_SIZE \<le> length ?q" using sh(1) by simp
  have nth: "?p ! k = ?q ! k" if "k < HEADER_SIZE" for k using that q by (simp add: nth_append)
  have p0: "?p ! 0 = p ! 0" using nth [of 0] by (simp add: HEADER_SIZE_def)
  have p1: "?p ! 1 = first_type 1 es"
    using nth [of 1] sh(1,5) by (cases es) (auto simp: HEADER_SIZE_def)
  have dr: "drop HEADER_SIZE ?p = render_exts 0 (es @ [(1, bv)]) @ pl" using q by simp
  have len: "HEADER_SIZE \<le> length ?p" using q by simp
  have "if n = 0 then packet_try_from ?p = Err InvalidExtensionLength
     else packet_shape ?p (es @ [(1, take n bv)]) (drop n bv @ pl)"
  proof (cases "n = 0")
    case True
    have "drop HEADER_SIZE ?p = render_exts 1 es @ 0 # 0 # bv @ pl"
      using dr render_exts_cut(1) [of n bv es pl] True by (simp add: n_def)
    from check_loop_empty_extension [OF this len sh(4)]
    have "check_loop ?p HEADER_SIZE (extension_type_from (?p ! 1)) = Err InvalidExtensionLength"
      by (simp only: p1)
    moreover have "?p ! 1 \<noteq> 0" using sh(4) p1 by (cases es) (auto simp: ext_wf_def)
    moreover have "HEADER_SIZE \<noteq> length ?p" using q by (simp add: render_exts_snoc)
    ultimately have "check_extensions ?p = Err InvalidExtensionLength"
      using len by (simp add: check_extensions_def Let_def)
    moreover have "\<exists>h. header_try_from ?p = Ok h"
      using p0 len sh packet_type_try_from_Ok [of "drop_bit 4 (p ! 0)"] by (auto simp: header_try_from_def)
    ultimately have "packet_try_from ?p = Err InvalidExtensionLength" by (auto simp: packet_try_from_def)
    with True show ?thesis by simp
  next
    case False
    have "n < length bv + 1" "n mod 4 = 0" using assms(3) by (simp_all add: n_def mod_mod_cancel)
    then have "ext_wf (1, take n bv)" using False assms(2) by (auto simp: ext_wf_def n_def)
    moreover have "?p ! 1 = first_type 0 (es @ [(1, take n bv)])"
      using p1 by (cases es) auto
    ultimately have "packet_shape ?p (es @ [(1, take n bv)]) (drop n bv @ pl)"
      using sh(2-4) p0 len dr render_exts_cut(2) [of n bv es pl] unfolding packet_shape_def by (simp add: n_def)
    with False show ?thesis by simp
  qed
  moreover have "\<forall>k. k < HEADER_SIZE \<and> k \<noteq> 1 \<longrightarrow> ?p ! k = p ! k" using nth by simp
  ultimately show ?thesis
    using set_sack_inserts [OF assms(2,3) sh(1,4,5,6)] by blast
qed

section \<open>Header fields\<close>

lemma length_set_be [simp]:
  "length (set_be16 off w p) = length p" "length (set_be32 off v p) = length p"
  by (simp_all add: set_be16_def set_be32_def)

lemma nth_set_be16: "k < off \<or> off + 2 \<le> k \<Longrightarrow> set_be16 off w p ! k = p ! k"
  by (auto simp: set_be16_def)

lemma nth_set_be32: "k < off \<or> off + 4 \<le> k \<Longrightarrow> set_be32 off w p ! k = p ! k"
  by (auto simp: set_be32_def)

lemma drop_set_be: "off + 2 \<le> n \<Longrightarrow> drop n (set_be16 off w p) = drop n p"
  "off + 4 \<le> n \<Longrightarrow> drop n (set_be32 off v p) = drop n p"
  by (simp_all add: set_be16_def set_be32_def)

lemma get_set_be16: "off + 2 \<le> length p \<Longrightarrow> get_be16 (set_be16 off w p) off = w"
  by (simp add: get_be16_def set_be16_def) (rule bit_word_eqI, auto simp: bit_simps)

lemma get_set_be32: "off + 4 \<le> length p \<Longrightarrow> get_be32 (set_be32 off w p) off = w"
proof (rule bit_word_eqI)
  fix n assume p: "off + 4 \<le> length p" and "n < LENGTH(32)"
  then consider "n < 8" | "8 \<le> n" "n < 16" | "16 \<le> n" "n < 24" | "24 \<le> n" "n < 32" by fastforce
  then show "bit (get_be32 (set_be32 off w p) off) n = bit w n"
    using p by cases (auto simp: get_be32_def set_be32_def nth_list_update bit_simps)
qed

lemma get_be16_other:
  "off' + 2 \<le> off \<or> off + 2 \<le> off' \<Longrightarrow> get_be16 (set_be16 off w p) off' = get_be16 p off'"
  "off' + 2 \<le> off \<or> off + 4 \<le> off' \<Longrightarrow> get_be16 (set_be32 off v p) off' = get_be16 p off'"
  by (auto simp: get_be16_def nth_set_be16 nth_set_be32)

lemma get_be32_other:
  "off' + 4 \<le> off \<or> off + 2 \<le> off' \<Longrightarrow> get_be32 (set_be16 off w p) off' = get_be32 p off'"
  "off' + 4 \<le> off \<or> off + 4 \<le> off' \<Longrightarrow> get_be32 (set_be32 off v p) off' = get_be32 p off'"
  by (auto simp: get_be32_def nth_set_be16 nth_set_be32)

lemmas pkt_field_defs =
  pkt_connection_id_def pkt_timestamp_def pkt_timestamp_difference_def pkt_wnd_size_def
  pkt_seq_nr_def pkt_ack_nr_def pkt_set_connection_id_def pkt_set_timestamp_def
  pkt_set_timestamp_difference_def pkt_set_wnd_size_def pkt_set_seq_nr_def pkt_set_ack_nr_def

lemma low_nibble: "(0x0F :: u8) = mask 4"
  by (simp add: mask_eq_exp_minus_1)

lemma bit_packet_type: "bit (u8_of_packet_type t) n \<Longrightarrow> n < 3"
proof -
  have "take_bit 3 (u8_of_packet_type t) = u8_of_packet_type t" by (cases t) simp_all
  then show "bit (u8_of_packet_type t) n \<Longrightarrow> n < 3" by (metis bit_take_bit_iff)
qed

lemma type_nibble:
  "drop_bit 4 (push_bit 4 (u8_of_packet_type t) OR (0x0F AND b)) = u8_of_packet_type t"
  "(push_bit 4 (u8_of_packet_type t) OR (0x0F AND b)) AND 0x0F = b AND 0x0F"
  unfolding low_nibble by (rule bit_word_eqI; auto simp: bit_simps dest: bit_packet_type)+

lemma packet_type_roundtrip [simp]: "packet_type_try_from (u8_of_packet_type t) = Ok t"
  by (cases t) (simp_all add: packet_type_try_from_def)

lemma pkt_get_set_type: "p \<noteq> [] \<Longrightarrow> pkt_get_type (pkt_set_type t p) = Ok t"
  by (simp add: pkt_get_type_def pkt_set_type_def type_nibble(1) del: drop_bit_or)

text \<open>A field setter does not touch what the shape of a packet is made of.\<close>

lemma packet_shape_cong:
  assumes "packet_shape p es pl" and "length q = length p" and "q ! 0 = p ! 0" and "q ! 1 = p ! 1"
    and "drop HEADER_SIZE q = drop HEADER_SIZE p"
  shows "packet_shape q es pl"
  using assms by (simp add: packet_shape_def)

lemma packet_shape_setters:
  assumes "packet_shape p es pl"
  shows "packet_shape (pkt_set_connection_id w p) es pl" "packet_shape (pkt_set_timestamp v p) es pl"
    "packet_shape (pkt_set_timestamp_difference d p) es pl" "packet_shape (pkt_set_wnd_size v p) es pl"
    "packet_shape (pkt_set_seq_nr w p) es pl" "packet_shape (pkt_set_ack_nr w p) es pl"
  by (rule packet_shape_cong [OF assms];
      simp add: pkt_field_defs nth_set_be16 nth_set_be32 drop_set_be HEADER_SIZE_def)+

lemma pkt_set_type_shape:
  assumes "packet_shape p es pl"
  shows "packet_shape (pkt_set_type t p) es pl"
proof -
  from assms have ne: "p \<noteq> []" and v: "p ! 0 AND 0x0F = 1" by (auto simp: packet_shape_def HEADER_SIZE_def)
  have "u8_of_packet_type t \<le> 4" by (cases t) (simp_all add: word_le_nat_alt)
  then show ?thesis using assms ne v
    by (simp add: packet_shape_def pkt_set_type_def type_nibble HEADER_SIZE_def del: drop_bit_or)
qed

section \<open>New packets\<close>

lemma packet_new_shape: "packet_shape packet_new [] []"
  by code_simp

lemma header_length [simp]: "length (header_as_ref h) = HEADER_SIZE"
  by (simp add: header_as_ref_def le16_def le32_def HEADER_SIZE_def)

lemma packet_with_payload_shape: "packet_shape (packet_with_payload pl) [] pl"
proof -
  let ?h = "header_as_ref (header_set_type header_default Data)"
  have h: "packet_shape ?h [] []" by code_simp
  then show ?thesis
    by (simp add: packet_shape_def packet_with_payload_def nth_append HEADER_SIZE_def)
qed

lemma u8_to_unsigned_eq:
  "u8_to_unsigned bs k (Suc k) = (push_bit 8 (ucast (bs ! Suc k)) OR ucast (bs ! k) :: u16)"
  "u8_to_unsigned bs k (k + 3) = (push_bit 24 (ucast (bs ! (k + 3))) OR push_bit 16 (ucast (bs ! (k + 2)))
     OR push_bit 8 (ucast (bs ! Suc k)) OR ucast (bs ! k) :: u32)"
  by (simp_all add: u8_to_unsigned_def upt_rec or.assoc numeral_3_eq_3)

lemma le16_join: "le16 (push_bit 8 (ucast a) OR ucast b) = [b, a]"
  by (simp add: le16_def, intro conjI; rule bit_word_eqI)
     (auto simp: bit_simps dest: bit_imp_le_length)

lemma le32_join:
  "le32 (push_bit 24 (ucast a) OR push_bit 16 (ucast b) OR push_bit 8 (ucast c) OR ucast d) = [d, c, b, a]"
  by (simp add: le32_def, intro conjI; rule bit_word_eqI)
     (auto simp: bit_simps dest: bit_imp_le_length)

lemma take_20:
  assumes "20 \<le> length bs"
  shows "take 20 bs = [bs ! 0, bs ! 1, bs ! 2, bs ! 3, bs ! 4, bs ! 5, bs ! 6, bs ! 7, bs ! 8, bs ! 9,
    bs ! 10, bs ! 11, bs ! 12, bs ! 13, bs ! 14, bs ! 15, bs ! 16, bs ! 17, bs ! 18, bs ! 19]"
proof -
  have "take 20 bs = map ((!) bs) [0..<20]" by (rule nth_equalityI) (use assms in simp_all)
  moreover have "[0..<20] = [0, 1, 2, 3, 4, 5, 6, 7, 8, 9, 10, 11, 12, 13, 14, 15, 16, 17, 18, 19 :: nat]"
    by (simp add: upt_rec)
  ultimately show ?thesis by simp
qed

lemma pkt_payload_shape:
  assumes "packet_shape p es pl"
  shows "pkt_payload p = Ok pl"
proof -
  from assms have s: "drop HEADER_SIZE p = render_exts 0 es @ pl" "HEADER_SIZE \<le> length p"
      "list_all ext_wf es" "p ! 1 = first_type 0 es"
    by (simp_all add: packet_shape_def)
  have "1 < length p" using s(2) by (simp add: HEADER_SIZE_def)
  moreover have "length pl \<le> length p" and "length p - length pl = HEADER_SIZE + length (render_exts 0 es)"
    using arg_cong [OF s(1), of length] s(2) by auto
  moreover from this(2) have "drop (length p - length pl) p = pl" using drop_append_drop [OF s(1)] by simp
  ultimately show ?thesis
    using s(4)
    by (simp add: pkt_payload_def index_slice_def slice_range_def payload_loop_end [OF s(1,2,3)]
        del: and_then_eq_Ok)
qed

section \<open>Properties\<close>

text \<open>C3: Parsing accepts exactly the byte strings that consist of a 20-byte header of version 1 and a
  known type, a chain of extensions (each non-empty, a multiple of four bytes long, announced by the
  one before it) and a payload; and it keeps the bytes as they are.\<close>

theorem packet_parse_accepts_shapes:
  "packet_try_from bs = Ok p \<longleftrightarrow> p = bs \<and> (\<exists>es pl. packet_shape bs es pl)"
  by (rule packet_try_from_shape)

text \<open>C4: On a parsed packet the accessors that assume validity never panic: the payload is what follows
  the extensions, and the extension iterator yields each of them once, with its type and data, within
  one call per extension and one more.\<close>

theorem packet_accessors_total:
  assumes "packet_try_from bs = Ok p"
  shows "\<exists>es pl. packet_shape p es pl \<and> pkt_payload p = (Ok pl :: (bytes, 'e) outcome) \<and>
    extensions_all (Suc (length es)) (extensions_new p) =
      (Ok (Some (map (\<lambda>(t, d). \<lparr>ext_ty = extension_type_from t, ext_data = d\<rparr>) es)) ::
        (extension list option, 'e) outcome) \<and>
    (\<exists>t. pkt_get_type p = (Ok t :: (packet_type, 'e) outcome))"
proof -
  from assms obtain es pl where sh: "packet_shape p es pl" by (auto simp: packet_try_from_shape)
  then have s: "drop HEADER_SIZE p = render_exts 0 es @ pl" "HEADER_SIZE \<le> length p" "list_all ext_wf es"
      "p ! 1 = first_type 0 es" "drop_bit 4 (p ! 0) \<le> 4"
    by (simp_all add: packet_shape_def)
  have "pkt_payload p = (Ok pl :: (bytes, 'e) outcome)" using sh by (rule pkt_payload_shape)
  moreover have "extensions_all (Suc (length es)) (extensions_new p) =
      (Ok (Some (map (\<lambda>(t, d). \<lparr>ext_ty = extension_type_from t, ext_data = d\<rparr>) es)) ::
        (extension list option, 'e) outcome)"
    using extensions_all_from [OF s(1,2,3)] unfolding extensions_new_def s(4) .
  moreover have "\<exists>t. pkt_get_type p = (Ok t :: (packet_type, 'e) outcome)"
    using s(5) packet_type_try_from_Ok [of "drop_bit 4 (p ! 0)"] by (auto simp: pkt_get_type_def)
  ultimately show ?thesis using sh by blast
qed

definition sample_packet :: packet where
  "sample_packet = [0x21, 1, 0, 7, 0, 0, 0, 0, 0, 0, 0, 0, 0, 0, 0, 0, 0, 1, 0, 2, 0, 4, 1, 2, 3, 4, 9, 9]"

theorem packet_accessors_total_witness:
  "packet_try_from sample_packet = Ok sample_packet \<and>
   (\<exists>es pl. packet_shape sample_packet es pl \<and> pkt_payload sample_packet = Ok pl)"
proof -
  have "packet_try_from sample_packet = Ok sample_packet" by code_simp
  with packet_accessors_total [OF this] show ?thesis by blast
qed

text \<open>C5: Adding a selective acknowledgement to a valid packet panics unless its length is a positive multiple
  of four. Otherwise all header bytes but the extension type are kept, and one extension is announced
  behind those the packet has, with the length modulo 256: up to 255 bytes the packet stays valid with
  the acknowledgement as last extension and its payload; longer ones are cut, with the rest in front of
  the payload; and a multiple of 256 makes a packet that the parser refuses.\<close>

theorem set_sack_appends_extension:
  assumes "packet_shape p es pl"
  shows "if 4 \<le> length bv \<and> length bv mod 4 = 0
    then let n = length bv mod 256 in
      \<exists>p'. pkt_set_sack bv p = Ok p' \<and> (\<forall>k. k < HEADER_SIZE \<and> k \<noteq> 1 \<longrightarrow> p' ! k = p ! k) \<and>
        (if n = 0 then packet_try_from p' = Err InvalidExtensionLength
         else packet_shape p' (es @ [(1, take n bv)]) (drop n bv @ pl))
    else pkt_set_sack bv p = Panic"
proof (cases "4 \<le> length bv \<and> length bv mod 4 = 0")
  case True
  then have "4 \<le> length bv" and "length bv mod 4 = 0" by simp_all
  from pkt_set_sack_result [OF assms this] show ?thesis unfolding Let_def if_P [OF True] .
next
  case False
  then have "pkt_set_sack bv p = Panic" by (simp add: pkt_set_sack_def)
  then show ?thesis unfolding if_not_P [OF False] .
qed

theorem set_sack_appends_extension_witness:
  "(\<exists>p'. pkt_set_sack [1, 0, 0, 0] (packet_with_payload [5]) = Ok p' \<and>
      packet_shape p' [(1, [1, 0, 0, 0])] [5]) \<and>
   (\<exists>p'. pkt_set_sack (replicate 260 7) (packet_with_payload [5]) = Ok p' \<and>
      packet_shape p' [(1, [7, 7, 7, 7])] (replicate 256 7 @ [5])) \<and>
   pkt_set_sack [1] (packet_with_payload [5]) = Panic"
proof -
  have "take 4 (replicate 260 7) = [7, 7, 7, 7 :: u8]" "drop 4 (replicate 260 7) = (replicate 256 7 :: bytes)"
    by (simp_all add: numeral_eq_Suc)
  with set_sack_appends_extension [OF packet_with_payload_shape, of "[1, 0, 0, 0]" "[5]"]
    set_sack_appends_extension [OF packet_with_payload_shape, of "replicate 260 7" "[5]"]
    set_sack_appends_extension [OF packet_with_payload_shape, of "[1]" "[5]"]
  show ?thesis by (auto simp: Let_def)
qed
text \<open>A header field reads back what was written, without disturbing the others, the type, the
  extensions or the payload.\<close>

theorem packet_fields_independent:
  assumes "packet_shape p es pl"
  shows "let q = pkt_set_ack_nr a (pkt_set_seq_nr s (pkt_set_wnd_size w (pkt_set_timestamp_difference d
      (pkt_set_timestamp ts (pkt_set_connection_id c (pkt_set_type t p))))))
    in packet_shape q es pl \<and> pkt_get_type q = Ok t \<and> pkt_connection_id q = c \<and> pkt_timestamp q = ts \<and>
      pkt_timestamp_difference q = d mod 2 ^ 32 \<and> pkt_wnd_size q = w \<and> pkt_seq_nr q = s \<and> pkt_ack_nr q = a"
proof -
  from assms have len: "20 \<le> length p" by (simp add: packet_shape_def HEADER_SIZE_def)
  then have "p \<noteq> []" by auto
  have nth0: "pkt_get_type q = pkt_get_type q'" if "q ! 0 = q' ! 0" for q q'
    using that by (simp add: pkt_get_type_def)
  let ?q = "pkt_set_ack_nr a (pkt_set_seq_nr s (pkt_set_wnd_size w (pkt_set_timestamp_difference d
      (pkt_set_timestamp ts (pkt_set_connection_id c (pkt_set_type t p))))))"
  have "?q ! 0 = pkt_set_type t p ! 0" by (simp add: pkt_field_defs nth_set_be16 nth_set_be32)
  then have "pkt_get_type ?q = Ok t" using nth0 pkt_get_set_type [OF \<open>p \<noteq> []\<close>] by metis
  moreover have "packet_shape ?q es pl" by (intro packet_shape_setters pkt_set_type_shape assms)
  moreover have "length (pkt_set_type t p) = length p" by (simp add: pkt_set_type_def)
  ultimately show ?thesis
    using len
    by (simp add: Let_def pkt_field_defs get_set_be16 get_set_be32 get_be16_other get_be32_other
        uint_word_of_int)
qed

theorem packet_fields_independent_witness:
  "let q = pkt_set_ack_nr 1 (pkt_set_seq_nr 2 (pkt_set_wnd_size 3 (pkt_set_timestamp_difference (- 1)
      (pkt_set_timestamp 5 (pkt_set_connection_id 6 (pkt_set_type Syn packet_new))))))
    in packet_shape q [] [] \<and> pkt_timestamp_difference q = 4294967295 \<and> pkt_ack_nr q = 1"
  using packet_fields_independent [OF packet_new_shape, of 1 2 3 "- 1" 5 6 Syn]
  unfolding Let_def by (elim conjE, intro conjI) simp_all

text \<open>A parsed header written back is the first twenty bytes of the input.\<close>

theorem header_roundtrip:
  assumes "header_try_from bs = Ok h"
  shows "header_as_ref h = take HEADER_SIZE bs"
proof -
  from assms have len: "20 \<le> length bs" and h: "h = \<lparr>type_ver = bs ! 0, hd_extension = bs ! 1,
      hd_connection_id = u8_to_unsigned bs 2 3, hd_timestamp = u8_to_unsigned bs 4 7,
      hd_timestamp_difference = u8_to_unsigned bs 8 11, hd_wnd_size = u8_to_unsigned bs 12 15,
      hd_seq_nr = u8_to_unsigned bs 16 17, hd_ack_nr = u8_to_unsigned bs 18 19\<rparr>"
    by (auto simp: header_try_from_def HEADER_SIZE_def split: if_splits)
  from u8_to_unsigned_eq(1) [of bs 2] u8_to_unsigned_eq(1) [of bs 16] u8_to_unsigned_eq(1) [of bs 18]
    u8_to_unsigned_eq(2) [of bs 4] u8_to_unsigned_eq(2) [of bs 8] u8_to_unsigned_eq(2) [of bs 12]
  show ?thesis
    by (simp add: h header_as_ref_def HEADER_SIZE_def take_20 [OF len] le16_join le32_join)
qed

theorem header_roundtrip_witness:
  "\<exists>h. header_try_from sample_packet = Ok h \<and> header_as_ref h = take HEADER_SIZE sample_packet"
proof -
  have "\<exists>h. header_try_from sample_packet = Ok h"
    using packet_type_try_from_Ok [of 2] by (auto simp: header_try_from_def sample_packet_def HEADER_SIZE_def)
  then obtain h where "header_try_from sample_packet = Ok h" ..
  with header_roundtrip [OF this] show ?thesis by blast
qed

end
