(* ===== verification/Utp_Socket.thy ===== *)
theory Utp_Socket
  imports Utp_Packet Util_Convert
begin

text \<open>
  The state of a uTP connection (\<open>src/utp/socket.rs\<close>) and its operations that do not wait for the
  network: the receive buffer, selective acknowledgements, replies, the send window, delay
  bookkeeping, congestion window and timeout. The clock reading of a call of \<open>now_microseconds\<close> is an
  argument \<open>now\<close>; the value a floating-point expression yields is an argument too, so that what is
  proved holds whatever the rounding. \<open>chk\<close> says whether the build has overflow checks.
\<close>

section \<open>Constants and state\<close>

definition BUF_SIZE :: nat where "BUF_SIZE = 1500"
definition ALLOWED_INCREASE :: u32 where "ALLOWED_INCREASE = 1"
definition MSS :: u32 where "MSS = 1400"
definition MIN_CWND :: u32 where "MIN_CWND = 2"
definition INIT_CWND :: u32 where "INIT_CWND = 2"
definition INITIAL_CONGESTION_TIMEOUT :: nat where "INITIAL_CONGESTION_TIMEOUT = 2000"
definition MIN_CONGESTION_TIMEOUT :: nat where "MIN_CONGESTION_TIMEOUT = 500"
definition MAX_CONGESTION_TIMEOUT :: nat where "MAX_CONGESTION_TIMEOUT = 60000"
definition BASE_HISTORY :: nat where "BASE_HISTORY = 10"
definition MAX_RETRANSMISSION_RETRIES :: u32 where "MAX_RETRANSMISSION_RETRIES = 5"
definition WINDOW_SIZE :: u32 where "WINDOW_SIZE = 1024 * 1024"
definition MAX_BASE_DELAY_AGE :: int where "MAX_BASE_DELAY_AGE = 60000000"

lemmas utp_consts =
  ALLOWED_INCREASE_def MSS_def MIN_CWND_def INIT_CWND_def INITIAL_CONGESTION_TIMEOUT_def
  MIN_CONGESTION_TIMEOUT_def MAX_CONGESTION_TIMEOUT_def BASE_HISTORY_def

datatype socket_error =
    ConnectionClosed | ConnectionReset | ConnectionTimedOut | InvalidAddress | InvalidReply
  | NotConnected | Other string

datatype socket_state = New | Connected | SynSent | FinSent | ResetReceived | Closed

record delay_difference_sample =
  received_at :: u32
  difference :: int

text \<open>The fields of \<open>UtpSocket\<close> but the UDP socket itself. Packet sizes are far below \<open>2 ^ 32\<close>; the bytes
  in flight are kept at their width.\<close>

record utp_socket =
  connected_to :: socket_addr
  sender_connection_id :: u16
  receiver_connection_id :: u16
  seq_nr :: u16
  ack_nr :: u16
  state :: socket_state
  incoming_buffer :: "packet list"
  send_window :: "packet list"
  unsent_queue :: "packet list"
  duplicate_ack_count :: u32
  last_acked :: u16
  last_acked_timestamp :: u32
  last_dropped :: u16
  rtt :: int
  rtt_variance :: int
  pending_data :: bytes
  curr_window :: u32
  remote_wnd_size :: u32
  base_delays :: "int list"
  current_delays :: "delay_difference_sample list"
  their_delay :: int
  last_rollover :: u32
  congestion_timeout :: nat
  cwnd :: u32
  max_retransmission_retries :: u32

text \<open>\<open>generate_sequential_identifiers\<close>, with the random number as argument.\<close>

definition generate_sequential_identifiers :: "u16 \<Rightarrow> u16 \<times> u16" where
  "generate_sequential_identifiers i = (if i \<noteq> - 1 then (i, i + 1) else (i - 1, i))"

definition from_raw_parts :: "u16 \<Rightarrow> socket_addr \<Rightarrow> utp_socket" where
  "from_raw_parts random_id src =
     (let (receiver_id, sender_id) = generate_sequential_identifiers random_id in
      \<lparr>connected_to = src, sender_connection_id = sender_id, receiver_connection_id = receiver_id,
       seq_nr = 1, ack_nr = 0, state = New, incoming_buffer = [], send_window = [],
       unsent_queue = [], duplicate_ack_count = 0, last_acked = 0, last_acked_timestamp = 0,
       last_dropped = 0, rtt = 0, rtt_variance = 0, pending_data = [], curr_window = 0,
       remote_wnd_size = 0, base_delays = [], current_delays = [], their_delay = 0,
       last_rollover = 0, congestion_timeout = INITIAL_CONGESTION_TIMEOUT, cwnd = INIT_CWND * MSS,
       max_retransmission_retries = MAX_RETRANSMISSION_RETRIES\<rparr>)"

text \<open>\<open>Timestamp\<close> subtraction gives a signed delay; \<open>abs_diff\<close> its absolute value.\<close>

definition timestamp_sub :: "u32 \<Rightarrow> u32 \<Rightarrow> int" where
  "timestamp_sub a b = uint a - uint b"

definition abs_diff :: "u32 \<Rightarrow> u32 \<Rightarrow> int" where
  "abs_diff a b = (if a > b then timestamp_sub a b else timestamp_sub b a)"

section \<open>Receiving\<close>

definition prepare_reply :: "u32 \<Rightarrow> utp_socket \<Rightarrow> packet \<Rightarrow> packet_type \<Rightarrow> packet" where
  "prepare_reply now self original t =
     (let resp = pkt_set_type t packet_new;
          time_difference = abs_diff now (pkt_timestamp original)
      in pkt_set_ack_nr (ack_nr self) (pkt_set_seq_nr (seq_nr self)
           (pkt_set_connection_id (sender_connection_id self)
             (pkt_set_timestamp_difference time_difference (pkt_set_timestamp now resp)))))"

definition advance_incoming_buffer :: "utp_socket \<Rightarrow> packet option \<times> utp_socket" where
  "advance_incoming_buffer self =
     (case incoming_buffer self of
        [] \<Rightarrow> (None, self)
      | packet # rest \<Rightarrow>
          (Some packet,
           self\<lparr>incoming_buffer := rest, ack_nr := pkt_seq_nr packet, last_dropped := pkt_seq_nr packet\<rparr>))"

text \<open>\<open>flush_incoming_buffer\<close> writes to the front of \<open>buf\<close>, here of length \<open>n\<close>; the result is the bytes
  written, whose number is what the code returns.\<close>

definition flush_incoming_buffer :: "bool \<Rightarrow> nat \<Rightarrow> utp_socket \<Rightarrow> (bytes \<times> utp_socket, socket_error) outcome" where
  "flush_incoming_buffer chk n self =
     (if pending_data self \<noteq> [] then
        let flushed = min (length (pending_data self)) n;
            out = take flushed (pending_data self)
        in if flushed = length (pending_data self) then
             case advance_incoming_buffer (self\<lparr>pending_data := []\<rparr>) of
               (Some package, self') \<Rightarrow>
                 and_then (pkt_payload package) (\<lambda>pl. Ok (out, self'\<lparr>pending_data := pl\<rparr>))
             | (None, self') \<Rightarrow> Ok (out, self')
           else Ok (out, self\<lparr>pending_data := drop flushed (pending_data self)\<rparr>)
      else case incoming_buffer self of
        [] \<Rightarrow> Ok ([], self)
      | packet # _ \<Rightarrow>
          and_then
            (if ack_nr self = pkt_seq_nr packet then Ok True
             else and_then (word_add chk (ack_nr self) 1) (\<lambda>k. Ok (k = pkt_seq_nr packet))) (\<lambda>in_order.
            if \<not> in_order then Ok ([], self)
            else and_then (pkt_payload packet) (\<lambda>pl.
              let flushed = min (length pl) n;
                  self1 = (if flushed = length pl then self else self\<lparr>pending_data := drop flushed pl\<rparr>)
              in Ok (take flushed pl, snd (advance_incoming_buffer self1)))))"

definition insert_into_buffer :: "packet \<Rightarrow> utp_socket \<Rightarrow> utp_socket" where
  "insert_into_buffer packet self =
     (let buf = incoming_buffer self in
      if buf \<noteq> [] \<and> pkt_seq_nr packet > pkt_seq_nr (last buf)
      then self\<lparr>incoming_buffer := buf @ [packet]\<rparr>
      else
        let i = length (filter (\<lambda>p. pkt_seq_nr p < pkt_seq_nr packet) buf)
        in if (case get_slice buf i of None \<Rightarrow> True | Some p \<Rightarrow> pkt_seq_nr p \<noteq> pkt_seq_nr packet)
           then self\<lparr>incoming_buffer := take i buf @ packet # drop i buf\<rparr>
           else self)"

lemma round_up_div: "n mod 4 \<noteq> 0 \<Longrightarrow> (n + 4) div 4 = (n + 3) div (4::nat)"
proof -
  assume a: "n mod 4 \<noteq> 0"
  obtain q r where n: "n = 4 * q + r" "r < 4"
    by (metis mult.commute div_mod_decomp mod_less_divisor zero_less_numeral)
  have "r \<noteq> 0" using a n by auto
  then have "r = 1 \<or> r = 2 \<or> r = 3" using n(2) by linarith
  with n(1) show ?thesis by auto
qed

text \<open>The padding loop of \<open>build_selective_ack\<close>.\<close>

function pad_sack :: "nat \<Rightarrow> bytes \<Rightarrow> bytes" where
  "pad_sack byte sack =
     (if byte \<ge> length sack \<or> length sack mod 4 \<noteq> 0 then pad_sack byte (sack @ [0]) else sack)"
  by pat_completeness auto
termination
proof (relation "measure (\<lambda>(byte, sack). 4 * ((max (byte + 1) (length sack) + 3) div 4) - length sack)")
  fix byte and sack :: bytes
  assume c: "byte \<ge> length sack \<or> length sack mod 4 \<noteq> 0"
  let ?m = "max (byte + 1) (length sack)"
  have "length sack < 4 * ((?m + 3) div 4)"
  proof (cases "byte \<ge> length sack")
    case True
    then show ?thesis by (simp add: max_def)
  next
    case False
    with c show ?thesis by (simp add: max_def) presburger
  qed
  moreover have "(max (byte + 1) (length sack + 1) + 3) div 4 = (?m + 3) div 4"
  proof (cases "byte \<ge> length sack")
    case True
    then show ?thesis by (simp add: max_def)
  next
    case False
    with c round_up_div [of "length sack"] show ?thesis by (simp add: max_def add.commute)
  qed
  ultimately show "((byte, sack @ [0]), byte, sack)
      \<in> measure (\<lambda>(byte, sack). 4 * ((max (byte + 1) (length sack) + 3) div 4) - length sack)"
    using diff_less_mono2 [of "length sack" "Suc (length sack)"] by simp
qed simp

declare pad_sack.simps [simp del]

definition sack_position :: "bool \<Rightarrow> u16 \<Rightarrow> u16 \<Rightarrow> (nat option, socket_error) outcome" where
  "sack_position chk ack seq =
     and_then (word_add chk ack 1) (\<lambda>next_nr.
       if seq > next_nr
       then and_then (word_sub chk seq ack) (\<lambda>a. and_then (word_sub chk a 2) (\<lambda>b. Ok (Some (unat b))))
       else Ok None)"

fun sack_loop_packets :: "bool \<Rightarrow> u16 \<Rightarrow> packet list \<Rightarrow> bytes \<Rightarrow> (bytes, socket_error) outcome" where
  "sack_loop_packets chk ack [] sack = Ok sack"
| "sack_loop_packets chk ack (pkt # pkts) sack =
     and_then (sack_position chk ack (pkt_seq_nr pkt)) (\<lambda>pos.
       case pos of
         None \<Rightarrow> sack_loop_packets chk ack pkts sack
       | Some diff \<Rightarrow>
           let byte = diff div 8; sack' = pad_sack byte sack
           in sack_loop_packets chk ack pkts (sack'[byte := (sack' ! byte) OR push_bit (diff mod 8) 1]))"

definition build_selective_ack :: "bool \<Rightarrow> utp_socket \<Rightarrow> (bytes, socket_error) outcome" where
  "build_selective_ack chk self = sack_loop_packets chk (ack_nr self) (incoming_buffer self) []"

definition handle_data_packet :: "bool \<Rightarrow> u32 \<Rightarrow> packet \<Rightarrow> utp_socket \<Rightarrow> (packet option, socket_error) outcome" where
  "handle_data_packet chk now packet self =
     (let packet_type = (if state self = FinSent then Fin else State);
          reply = prepare_reply now self packet packet_type
      in if pkt_seq_nr packet - ack_nr self > 1 then
           and_then (build_selective_ack chk self) (\<lambda>sack.
             if sack \<noteq> [] then and_then (pkt_set_sack sack reply) (\<lambda>r. Ok (Some r)) else Ok (Some reply))
         else Ok (Some reply))"

section \<open>Sending and congestion control\<close>

fun drop_acked :: "bool \<Rightarrow> nat \<Rightarrow> u32 \<Rightarrow> packet list \<Rightarrow> (u32 \<times> packet list, socket_error) outcome" where
  "drop_acked chk 0 window pkts = Ok (window, pkts)"
| "drop_acked chk (Suc n) window [] = Panic"
| "drop_acked chk (Suc n) window (p # pkts) =
     and_then (word_sub chk window (of_nat (length p))) (\<lambda>w. drop_acked chk n w pkts)"

definition advance_send_window :: "bool \<Rightarrow> utp_socket \<Rightarrow> (utp_socket, socket_error) outcome" where
  "advance_send_window chk self =
     (case position (\<lambda>packet. pkt_seq_nr packet = last_acked self) (send_window self) of
        None \<Rightarrow> Ok self
      | Some pos \<Rightarrow>
          and_then (drop_acked chk (pos + 1) (curr_window self) (send_window self)) (\<lambda>(w, pkts).
            Ok (self\<lparr>curr_window := w, send_window := pkts\<rparr>)))"

definition update_base_delay :: "int \<Rightarrow> u32 \<Rightarrow> utp_socket \<Rightarrow> utp_socket" where
  "update_base_delay base_delay now self =
     (if base_delays self = [] \<or> timestamp_sub now (last_rollover self) > MAX_BASE_DELAY_AGE then
        let kept = (if length (base_delays self) = BASE_HISTORY then tl (base_delays self)
                    else base_delays self)
        in self\<lparr>last_rollover := now, base_delays := kept @ [base_delay]\<rparr>
      else
        let last_idx = length (base_delays self) - 1
        in if base_delay < base_delays self ! last_idx
           then self\<lparr>base_delays := (base_delays self)[last_idx := base_delay]\<rparr>
           else self)"

definition update_current_delay :: "int \<Rightarrow> u32 \<Rightarrow> utp_socket \<Rightarrow> utp_socket" where
  "update_current_delay v now self =
     (let limit = rtt self * 100;
          kept = dropWhile (\<lambda>s. timestamp_sub now (received_at s) > limit) (current_delays self)
      in self\<lparr>current_delays := kept @ [\<lparr>received_at = now, difference = v\<rparr>]\<rparr>)"

text \<open>A negative \<open>i32\<close> cast to \<open>u64\<close> is sign-extended.\<close>

definition update_congestion_timeout :: "bool \<Rightarrow> int \<Rightarrow> utp_socket \<Rightarrow> (utp_socket, socket_error) outcome" where
  "update_congestion_timeout chk current_delay self =
     and_then (i32_result chk (rtt self - current_delay)) (\<lambda>delta.
     and_then (i32_result chk \<bar>delta\<bar>) (\<lambda>abs_delta.
     and_then (i32_result chk (abs_delta - rtt_variance self)) (\<lambda>var_diff.
     and_then (i32_result chk (rtt_variance self + trunc_div var_diff 4)) (\<lambda>variance'.
     and_then (i32_result chk (current_delay - rtt self)) (\<lambda>rtt_diff.
     and_then (i32_result chk (rtt self + trunc_div rtt_diff 8)) (\<lambda>rtt'.
     and_then (i32_result chk (variance' * 4)) (\<lambda>var4.
     and_then (i32_result chk (rtt' + var4)) (\<lambda>sum.
       let timeout = max (nat (sum mod 2 ^ 64)) MIN_CONGESTION_TIMEOUT
       in Ok (self\<lparr>rtt_variance := variance', rtt := rtt',
                   congestion_timeout := min timeout MAX_CONGESTION_TIMEOUT\<rparr>)))))))))"

definition min_base_delay :: "utp_socket \<Rightarrow> int" where
  "min_base_delay self = (if base_delays self = [] then 0 else Min (set (base_delays self)))"

text \<open>\<open>cwnd_float\<close> is \<open>(self.cwnd as f64 + cwnd_increase) as u32\<close>.\<close>

definition update_congestion_window :: "bool \<Rightarrow> u32 \<Rightarrow> utp_socket \<Rightarrow> (utp_socket, socket_error) outcome" where
  "update_congestion_window chk cwnd_float self =
     (let flightsize = curr_window self in
      and_then (word_add chk flightsize (ALLOWED_INCREASE * MSS)) (\<lambda>max_allowed_cwnd.
        Ok (self\<lparr>cwnd := max (min cwnd_float max_allowed_cwnd) (MIN_CWND * MSS)\<rparr>)))"

text \<open>\<open>send_to\<close> up to the call of \<open>send\<close>: the data cut into packets behind the unsent queue. The send
  window holds fewer packets than \<open>WINDOW_SIZE\<close>.\<close>

definition queue_chunk :: "bytes \<Rightarrow> utp_socket \<Rightarrow> utp_socket" where
  "queue_chunk chunk self =
     (let packet = pkt_set_connection_id (sender_connection_id self) (pkt_set_ack_nr (ack_nr self)
            (pkt_set_seq_nr (seq_nr self)
              (pkt_set_wnd_size (WINDOW_SIZE - of_nat (length (send_window self)))
                (packet_with_payload chunk))))
      in self\<lparr>unsent_queue := unsent_queue self @ [packet], seq_nr := seq_nr self + 1\<rparr>)"

definition queue_data :: "bytes \<Rightarrow> utp_socket \<Rightarrow> utp_socket" where
  "queue_data buf self = fold queue_chunk (chunks (unat MSS - HEADER_SIZE) buf) self"

end
