(* ===== verification/Utp_Socket_Props.thy ===== *)
theory Utp_Socket_Props
  imports Utp_Socket
begin

text \<open>
  What the operations of \<open>Utp_Socket\<close> guarantee: the receive buffer stays sorted and duplicate-free,
  flushing loses no byte, a selective acknowledgement has exactly the bits of the stashed packets, the
  bytes in flight are accounted for, and the congestion parameters stay within their bounds.
\<close>

section \<open>The receive buffer\<close>

definition buffer_sorted :: "packet list \<Rightarrow> bool" where
  "buffer_sorted buf \<longleftrightarrow> sorted_wrt (<) (map pkt_seq_nr buf)"

lemma filter_sorted_take:
  assumes "sorted_wrt (<) (map f xs)"
  shows "length (filter (\<lambda>x. f x < (k :: 'k::linorder)) xs) = length (takeWhile (\<lambda>x. f x < k) xs)"
  using assms
proof (induction xs)
  case (Cons x xs)
  show ?case
  proof (cases "f x < k")
    case False
    then have "\<forall>y \<in> set xs. \<not> f y < k" using Cons.prems by (auto dest: less_trans)
    then have "filter (\<lambda>x. f x < k) xs = []" by (simp add: filter_empty_conv)
    with False show ?thesis by simp
  qed (use Cons in simp)
qed simp

lemma insert_sorted_at:
  assumes "sorted_wrt (<) (map f xs)" and "i = length (filter (\<lambda>x. f x < f p) xs)"
    and "i < length xs \<Longrightarrow> f (xs ! i) \<noteq> (f p :: 'k::linorder)"
  shows "sorted_wrt (<) (map f (take i xs @ p # drop i xs))" and "f p \<notin> f ` set xs"
proof -
  let ?P = "\<lambda>x. f x < f p"
  have i: "i = length (takeWhile ?P xs)" using filter_sorted_take [OF assms(1)] assms(2) by simp
  have tk: "take i xs = takeWhile ?P xs" and dr: "drop i xs = dropWhile ?P xs"
    by (simp_all add: i takeWhile_eq_take [symmetric] dropWhile_eq_drop [symmetric])
  have less: "\<forall>x \<in> set (take i xs). f x < f p" using tk by (auto dest: set_takeWhileD)
  have greater: "\<forall>x \<in> set (drop i xs). f p < f x"
  proof (cases "i < length xs")
    case True
    then have d: "drop i xs = xs ! i # drop (Suc i) xs" by (simp add: Cons_nth_drop_Suc)
    have "\<not> f (xs ! i) < f p" using True i nth_length_takeWhile [of ?P xs] by simp
    with assms(3) [OF True] have "f p < f (xs ! i)" by simp
    moreover have "sorted_wrt (<) (map f (drop i xs))" using assms(1) by (simp add: sorted_wrt_drop drop_map [symmetric])
    ultimately show ?thesis by (auto simp: d dest: less_trans)
  qed simp
  have "sorted_wrt (<) (map f (take i xs))" and "sorted_wrt (<) (map f (drop i xs))"
    using assms(1) by (simp_all add: sorted_wrt_take sorted_wrt_drop take_map [symmetric] drop_map [symmetric])
  with less greater show "sorted_wrt (<) (map f (take i xs @ p # drop i xs))"
    by (auto simp: sorted_wrt_append dest: less_trans)
  show "f p \<notin> f ` set xs"
  proof
    assume "f p \<in> f ` set xs"
    then obtain x where x: "x \<in> set xs" "f x = f p" by force
    from x(1) have "x \<in> set (take i xs) \<or> x \<in> set (drop i xs)"
      by (metis Un_iff append_take_drop_id set_append)
    with less greater x(2) show False by force
  qed
qed

lemma insert_into_buffer_cases:
  fixes packet :: packet
  assumes "buffer_sorted (incoming_buffer self)"
  defines "buf' \<equiv> incoming_buffer (insert_into_buffer packet self)"
  shows "buffer_sorted buf' \<and>
    (if pkt_seq_nr packet \<in> pkt_seq_nr ` set (incoming_buffer self) then buf' = incoming_buffer self
     else set buf' = insert packet (set (incoming_buffer self)))"
proof -
  let ?buf = "incoming_buffer self" and ?k = "pkt_seq_nr packet"
  let ?i = "length (filter (\<lambda>p. pkt_seq_nr p < ?k) ?buf)"
  have srt: "sorted_wrt (<) (map pkt_seq_nr ?buf)" using assms(1) by (simp add: buffer_sorted_def)
  consider (push) "?buf \<noteq> []" "?k > pkt_seq_nr (last ?buf)"
    | (dup) "\<not> (?buf \<noteq> [] \<and> ?k > pkt_seq_nr (last ?buf))" "?i < length ?buf" "pkt_seq_nr (?buf ! ?i) = ?k"
    | (ins) "\<not> (?buf \<noteq> [] \<and> ?k > pkt_seq_nr (last ?buf))" "?i < length ?buf \<Longrightarrow> pkt_seq_nr (?buf ! ?i) \<noteq> ?k"
    by blast
  then show ?thesis
  proof cases
    case push
    have "\<forall>p \<in> set ?buf. pkt_seq_nr p < ?k"
    proof
      fix p assume "p \<in> set ?buf"
      moreover obtain ys y where ys: "?buf = ys @ [y]" using push(1) by (metis append_butlast_last_id)
      ultimately have "pkt_seq_nr p \<le> pkt_seq_nr y" using srt by (auto simp: sorted_wrt_append)
      with push(2) ys show "pkt_seq_nr p < ?k" by simp
    qed
    with push srt show ?thesis
      by (auto simp: buf'_def insert_into_buffer_def Let_def buffer_sorted_def sorted_wrt_append)
  next
    case dup
    then have "buf' = ?buf" by (auto simp: buf'_def insert_into_buffer_def Let_def get_slice_def)
    moreover have "?k \<in> pkt_seq_nr ` set ?buf" using dup(2,3) by (metis imageI nth_mem)
    ultimately show ?thesis using assms(1) by simp
  next
    case ins
    then have b: "buf' = take ?i ?buf @ packet # drop ?i ?buf"
      by (auto simp: buf'_def insert_into_buffer_def Let_def get_slice_def)
    from insert_sorted_at [OF srt refl ins(2)] have "buffer_sorted buf'" and "?k \<notin> pkt_seq_nr ` set ?buf"
      by (simp_all add: b buffer_sorted_def)
    moreover have "set (take ?i ?buf) \<union> set (drop ?i ?buf) = set ?buf"
      by (metis append_take_drop_id set_append)
    then have "set buf' = insert packet (set ?buf)" unfolding b set_append list.set by blast
    ultimately show ?thesis by simp
  qed
qed

text \<open>Payload bytes waiting in the socket, in the order in which they are handed out.\<close>

fun payloads :: "packet list \<Rightarrow> (bytes, socket_error) outcome" where
  "payloads [] = Ok []"
| "payloads (p # ps) = and_then (pkt_payload p) (\<lambda>pl. and_then (payloads ps) (\<lambda>r. Ok (pl @ r)))"

lemma flush_conserves:
  assumes "payloads (incoming_buffer self) = (Ok data :: (bytes, socket_error) outcome)"
    and "flush_incoming_buffer chk n self = (Ok (out, self') :: (bytes \<times> utp_socket, socket_error) outcome)"
  shows "length out \<le> n \<and> (\<exists>data'. payloads (incoming_buffer self') = (Ok data' :: (bytes, socket_error) outcome) \<and>
    out @ pending_data self' @ data' = pending_data self @ data)"
proof (cases "pending_data self = []")
  case False
  show ?thesis
  proof (cases "length (pending_data self) \<le> n")
    case True
    with False assms show ?thesis
      by (cases "incoming_buffer self")
         (auto simp: flush_incoming_buffer_def advance_incoming_buffer_def min_absorb1)
  next
    case l: False
    with False assms show ?thesis by (auto simp: flush_incoming_buffer_def min_absorb2)
  qed
next
  case True
  show ?thesis
  proof (cases "incoming_buffer self")
    case Nil
    with True assms show ?thesis by (auto simp: flush_incoming_buffer_def)
  next
    case (Cons p ps)
    with assms(1) obtain pl r where pl: "pkt_payload p = (Ok pl :: (bytes, socket_error) outcome)"
      and r: "payloads ps = (Ok r :: (bytes, socket_error) outcome)" "data = pl @ r" by auto
    from True Cons assms(2) pl consider "out = []" "self' = self"
      | "out = take (min (length pl) n) pl" "incoming_buffer self' = ps"
        "pending_data self' = drop (min (length pl) n) pl"
      by (auto simp: flush_incoming_buffer_def advance_incoming_buffer_def Let_def split: if_splits)
    then show ?thesis
    proof cases
      case 1
      with assms(1) show ?thesis by auto
    next
      case 2
      with r True show ?thesis by simp
    qed
  qed
qed

section \<open>Selective acknowledgements\<close>

text \<open>Bit \<open>k\<close> of a bit vector, least significant bit of the first byte first.\<close>

definition sack_bit :: "bytes \<Rightarrow> nat \<Rightarrow> bool" where
  "sack_bit sack k \<longleftrightarrow> k div 8 < length sack \<and> bit (sack ! (k div 8)) (k mod 8)"

lemma pad_sack_spec:
  "length (pad_sack byte sack) mod 4 = 0 \<and> byte < length (pad_sack byte sack) \<and>
   (\<forall>k. sack_bit (pad_sack byte sack) k = sack_bit sack k)"
proof (induction byte sack rule: pad_sack.induct)
  case (1 byte sack)
  have "sack_bit (sack @ [0]) k = sack_bit sack k" for k
    by (auto simp: sack_bit_def nth_append)
  with 1 show ?case by (auto simp: pad_sack.simps [of byte sack])
qed

lemma sack_bit_set:
  assumes "d div 8 < length sack"
  shows "sack_bit (sack[d div 8 := (sack ! (d div 8)) OR push_bit (d mod 8) 1]) k \<longleftrightarrow> k = d \<or> sack_bit sack k"
proof (cases "k div 8 = d div 8")
  case True
  have "k mod 8 = d mod 8 \<longleftrightarrow> k = d" using True div_mult_mod_eq [of k 8] div_mult_mod_eq [of d 8] by metis
  moreover have "bit (push_bit (d mod 8) (1 :: u8)) (k mod 8) \<longleftrightarrow> k mod 8 = d mod 8"
    by (auto simp: bit_exp_iff)
  ultimately show ?thesis using assms True by (auto simp: sack_bit_def bit_or_iff)
next
  case False
  then show ?thesis by (auto simp: sack_bit_def)
qed

lemma sack_position_eq:
  "sack_position chk ack seq =
    (if chk \<and> ack = 65535 then Panic else Ok (if ack + 1 < seq then Some (unat (seq - ack - 2)) else None))"
proof (cases "ack = 65535")
  case True
  then show ?thesis by (simp add: sack_position_def word_add_def word_sub_def)
next
  case False
  then have "unat ack < 65535" using unsigned_less [of ack, where ?'a = nat] by (simp add: word_unat_eq_iff)
  then have next_nr: "unat (ack + 1) = unat ack + 1" by (simp add: unat_word_ariths)
  have "unat (seq - ack) = unat seq - unat ack" if "unat ack + 2 \<le> unat seq"
    using that by (simp add: unat_sub word_le_nat_alt)
  with next_nr \<open>unat ack < 65535\<close> False show ?thesis
    by (auto simp: sack_position_def word_add_def word_sub_def word_less_nat_alt)
qed

text \<open>The stashed packets that the loop marks, by the position of their bit.\<close>

definition stashed_at :: "u16 \<Rightarrow> packet list \<Rightarrow> nat \<Rightarrow> bool" where
  "stashed_at ack pkts k \<longleftrightarrow> list_ex (\<lambda>p. ack + 1 < pkt_seq_nr p \<and> unat (pkt_seq_nr p - ack - 2) = k) pkts"

lemma sack_loop_packets_bits:
  assumes "\<not> (chk \<and> ack = 65535)" and "length sack mod 4 = 0"
  shows "\<exists>sack'. sack_loop_packets chk ack pkts sack = (Ok sack' :: (bytes, socket_error) outcome) \<and> length sack' mod 4 = 0 \<and>
    (\<forall>k. sack_bit sack' k \<longleftrightarrow> sack_bit sack k \<or> stashed_at ack pkts k)"
  using assms(2)
proof (induction pkts arbitrary: sack)
  case (Cons p pkts)
  note pos = sack_position_eq [of chk ack, unfolded if_not_P [OF assms(1)]]
  show ?case
  proof (cases "ack + 1 < pkt_seq_nr p")
    case True
    let ?d = "unat (pkt_seq_nr p - ack - 2)"
    let ?pad = "pad_sack (?d div 8) sack"
    let ?set = "?pad[?d div 8 := (?pad ! (?d div 8)) OR push_bit (?d mod 8) 1]"
    have pad: "length ?pad mod 4 = 0" "?d div 8 < length ?pad" "\<forall>k. sack_bit ?pad k = sack_bit sack k"
      using pad_sack_spec by blast+
    then have "length ?set mod 4 = 0" by simp
    from Cons.IH [OF this] obtain sack' where sack': "sack_loop_packets chk ack pkts ?set = (Ok sack' :: (bytes, socket_error) outcome)"
      "length sack' mod 4 = 0" "\<forall>k. sack_bit sack' k \<longleftrightarrow> sack_bit ?set k \<or> stashed_at ack pkts k"
      by (elim exE conjE) (rule that)
    with sack_bit_set [OF pad(2)] pad(3) True
    have "\<forall>k. sack_bit sack' k \<longleftrightarrow> sack_bit sack k \<or> stashed_at ack (p # pkts) k"
      by (auto simp: stashed_at_def)
    with sack'(1,2) True show ?thesis by (simp add: pos Let_def del: and_then_eq_Ok)
  next
    case False
    with Cons.IH [OF Cons.prems] show ?thesis by (auto simp: pos stashed_at_def)
  qed
qed (simp add: stashed_at_def)

section \<open>Bytes in flight\<close>

definition window_bytes :: "packet list \<Rightarrow> nat" where
  "window_bytes pkts = sum_list (map length pkts)"

definition window_accounted :: "utp_socket \<Rightarrow> bool" where
  "window_accounted self \<longleftrightarrow> unat (curr_window self) = window_bytes (send_window self)"

lemma drop_acked_accounted:
  assumes "unat w = window_bytes pkts" and "n \<le> length pkts"
  shows "\<exists>w'. drop_acked chk n w pkts = Ok (w', drop n pkts) \<and> unat w' = window_bytes (drop n pkts)"
  using assms
proof (induction n arbitrary: w pkts)
  case (Suc n)
  then obtain p ps where pkts: "pkts = p # ps" by (cases pkts) auto
  with Suc.prems have w: "unat w = length p + window_bytes ps" by (simp add: window_bytes_def)
  then have "length p < 2 ^ 32" using unsigned_less [of w, where ?'a = nat] by simp
  then have l: "unat (of_nat (length p) :: u32) = length p" by (simp add: unat_of_nat)
  with w have "unat (w - of_nat (length p)) = window_bytes ps"
    by (simp add: unat_sub word_le_nat_alt)
  from Suc.IH [OF this] Suc.prems(2) pkts w l show ?case
    by (auto simp: word_sub_def)
qed simp

lemma advance_send_window_accounted:
  assumes "window_accounted self"
  shows "\<exists>self'. advance_send_window chk self = Ok self' \<and> window_accounted self' \<and>
    send_window self' =
      (case position (\<lambda>p. pkt_seq_nr p = last_acked self) (send_window self) of
         None \<Rightarrow> send_window self | Some i \<Rightarrow> drop (Suc i) (send_window self))"
proof (cases "position (\<lambda>p. pkt_seq_nr p = last_acked self) (send_window self)")
  case None
  with assms show ?thesis by (simp add: advance_send_window_def)
next
  case (Some i)
  then have "Suc i \<le> length (send_window self)" using position_less by fastforce
  with drop_acked_accounted [of "curr_window self" "send_window self" "Suc i" chk] assms
  obtain w where "drop_acked chk (Suc i) (curr_window self) (send_window self) =
      Ok (w, drop (Suc i) (send_window self))" "unat w = window_bytes (drop (Suc i) (send_window self))"
    by (auto simp: window_accounted_def)
  with Some show ?thesis by (simp add: advance_send_window_def window_accounted_def)
qed

lemma queue_chunks:
  "unsent_queue (fold queue_chunk cs self) = unsent_queue self @
     map (\<lambda>(i, c). pkt_set_connection_id (sender_connection_id self) (pkt_set_ack_nr (ack_nr self)
       (pkt_set_seq_nr (seq_nr self + of_nat i)
         (pkt_set_wnd_size (WINDOW_SIZE - of_nat (length (send_window self))) (packet_with_payload c)))))
       (enumerate 0 cs)"
proof (induction cs arbitrary: self)
  case (Cons c cs)
  have "enumerate (Suc 0) cs = map (\<lambda>(i, c). (Suc i, c)) (enumerate 0 cs)"
    by (simp add: enumerate_Suc_eq case_prod_unfold apfst_def map_prod_def)
  with Cons [of "queue_chunk c self"] show ?case
    by (simp add: queue_chunk_def Let_def comp_def case_prod_unfold add.assoc)
qed simp

lemma queued_packet_shape:
  "packet_shape (pkt_set_connection_id c (pkt_set_ack_nr a (pkt_set_seq_nr s (pkt_set_wnd_size w
     (packet_with_payload pl))))) [] pl"
  by (intro packet_shape_setters packet_with_payload_shape)

lemma queued_packet_seq:
  "pkt_seq_nr (pkt_set_connection_id c (pkt_set_ack_nr a (pkt_set_seq_nr s (pkt_set_wnd_size w
     (packet_with_payload pl))))) = s"
proof -
  have "18 \<le> length (packet_with_payload pl)" by (simp add: packet_with_payload_def HEADER_SIZE_def)
  then show ?thesis by (simp add: pkt_field_defs get_be16_other get_set_be16)
qed

lemma payloads_queued:
  "payloads (map (\<lambda>(i, c). pkt_set_connection_id cid (pkt_set_ack_nr a (pkt_set_seq_nr (s + of_nat i)
     (pkt_set_wnd_size w (packet_with_payload c))))) (enumerate k cs)) = Ok (concat cs)"
  by (induction cs arbitrary: k) (simp_all add: pkt_payload_shape [OF queued_packet_shape])

lemma update_base_delay_bounds:
  assumes "length (base_delays self) \<le> BASE_HISTORY"
  shows "0 < length (base_delays (update_base_delay v now self)) \<and>
    length (base_delays (update_base_delay v now self)) \<le> BASE_HISTORY \<and>
    curr_window (update_base_delay v now self) = curr_window self"
  using assms by (auto simp: update_base_delay_def Let_def BASE_HISTORY_def)

text \<open>\<open>yields chk P r\<close>: the result satisfies \<open>P\<close>, or the build checks overflow and panics.\<close>

definition yields :: "bool \<Rightarrow> ('a \<Rightarrow> bool) \<Rightarrow> ('a, 'e) outcome \<Rightarrow> bool" where
  "yields chk P r = (case r of Ok s \<Rightarrow> P s | Err e \<Rightarrow> False | Panic \<Rightarrow> chk)"

lemma yields_Ok: "P s \<Longrightarrow> yields chk P (Ok s)"
  by (simp add: yields_def)

lemma yields_i32: "(\<And>r. yields chk P (f r)) \<Longrightarrow> yields chk P (and_then (i32_result chk x) f)"
  by (auto simp: i32_result_def yields_def)

lemma yields_add: "(\<And>r. \<lbrakk>r = x + y\<rbrakk> \<Longrightarrow> yields chk P (f r)) \<Longrightarrow> yields chk P (and_then (word_add chk x y) f)"
  by (auto simp: word_add_def yields_def)

lemma yields_mono: "\<lbrakk>yields chk P r; \<And>s. P s \<Longrightarrow> Q s\<rbrakk> \<Longrightarrow> yields chk Q r"
  by (auto simp: yields_def split: outcome.splits)

lemma yields_and_then: "\<lbrakk>yields chk P r; \<And>s. P s \<Longrightarrow> yields chk Q (f s)\<rbrakk> \<Longrightarrow> yields chk Q (and_then r f)"
  by (cases r) (auto simp: yields_def)

lemma update_congestion_window_bounds:
  "yields chk (\<lambda>s. MIN_CWND * MSS \<le> cwnd s \<and> (cwnd s = MIN_CWND * MSS \<or> cwnd s \<le> curr_window self + MSS) \<and>
     base_delays s = base_delays self) (update_congestion_window chk cf self)"
  unfolding update_congestion_window_def Let_def ALLOWED_INCREASE_def
  by (intro yields_add yields_Ok) (auto simp: max_def min_def)

lemma update_congestion_timeout_bounds:
  "yields chk (\<lambda>s. MIN_CONGESTION_TIMEOUT \<le> congestion_timeout s \<and> congestion_timeout s \<le> MAX_CONGESTION_TIMEOUT \<and>
     cwnd s = cwnd self \<and> base_delays s = base_delays self) (update_congestion_timeout chk d self)"
  unfolding update_congestion_timeout_def Let_def
  by (intro yields_i32 yields_Ok) (simp add: MIN_CONGESTION_TIMEOUT_def MAX_CONGESTION_TIMEOUT_def)

section \<open>Properties\<close>

definition sample_socket :: utp_socket where
  "sample_socket = from_raw_parts 7 (V4 \<lparr>v4_ip = Ipv4Addr 127 0 0 1, v4_port = 80\<rparr>)"

lemma sample_socket_simps [simp]:
  "unsent_queue sample_socket = []" "send_window sample_socket = []" "pending_data sample_socket = []"
  "base_delays sample_socket = []" "curr_window sample_socket = 0" "ack_nr sample_socket = 0"
  "state sample_socket = New"
  by (simp_all add: sample_socket_def from_raw_parts_def generate_sequential_identifiers_def)

definition numbered_packet :: "u16 \<Rightarrow> bytes \<Rightarrow> packet" where
  "numbered_packet n pl = pkt_set_seq_nr n (packet_with_payload pl)"

lemma numbered_packet_simps [simp]:
  "pkt_seq_nr (numbered_packet n pl) = n" "pkt_payload (numbered_packet n pl) = Ok pl"
proof -
  have "18 \<le> length (packet_with_payload pl)" by (simp add: packet_with_payload_def HEADER_SIZE_def)
  then show "pkt_seq_nr (numbered_packet n pl) = n"
    by (simp add: numbered_packet_def pkt_field_defs get_set_be16)
  show "pkt_payload (numbered_packet n pl) = Ok pl"
    unfolding numbered_packet_def
    by (rule pkt_payload_shape [where es = "[]"]) (intro packet_shape_setters packet_with_payload_shape)
qed

text \<open>Inserting a packet keeps the receive buffer strictly sorted by sequence number; the packet is
  added unless one with its number is already there, in which case nothing changes.\<close>

theorem insert_into_buffer_sorted:
  assumes "buffer_sorted (incoming_buffer self)"
  shows "buffer_sorted (incoming_buffer (insert_into_buffer packet self)) \<and>
    (if pkt_seq_nr packet \<in> pkt_seq_nr ` set (incoming_buffer self)
     then incoming_buffer (insert_into_buffer packet self) = incoming_buffer self
     else set (incoming_buffer (insert_into_buffer packet self)) = insert packet (set (incoming_buffer self)))"
  using insert_into_buffer_cases [OF assms] .

theorem insert_into_buffer_sorted_witness:
  "buffer_sorted (incoming_buffer (insert_into_buffer (numbered_packet 5 [1])
     (sample_socket\<lparr>incoming_buffer := [numbered_packet 3 [2], numbered_packet 9 [3]]\<rparr>)))"
  using insert_into_buffer_sorted
    [of "sample_socket\<lparr>incoming_buffer := [numbered_packet 3 [2], numbered_packet 9 [3]]\<rparr>"]
  by (simp add: buffer_sorted_def)

text \<open>C11: Flushing the receive buffer neither loses, repeats nor reorders a byte: what it writes, what it
  keeps pending and what is left in the buffer make up what was there before; and it never writes more
  than fits.\<close>

theorem flush_conserves_bytes:
  assumes "payloads (incoming_buffer self) = Ok data" and "flush_incoming_buffer chk n self = Ok (out, self')"
  shows "length out \<le> n \<and>
    (\<exists>data'. payloads (incoming_buffer self') = Ok data' \<and>
      out @ pending_data self' @ data' = pending_data self @ data)"
  using flush_conserves [OF assms] .

theorem flush_conserves_bytes_witness:
  "let s = sample_socket\<lparr>incoming_buffer := [numbered_packet 1 [7, 8, 9]]\<rparr>
   in \<exists>out s' data'. flush_incoming_buffer True 2 s = Ok (out, s') \<and> length out \<le> 2 \<and>
     payloads (incoming_buffer s') = Ok data' \<and> out @ pending_data s' @ data' = [7, 8, 9]"
proof -
  let ?s = "sample_socket\<lparr>incoming_buffer := [numbered_packet 1 [7, 8, 9]]\<rparr>"
  have "payloads (incoming_buffer ?s) = Ok [7, 8, 9]" by simp
  moreover have "\<exists>out s'. flush_incoming_buffer True 2 ?s = Ok (out, s')"
    by (simp add: flush_incoming_buffer_def word_add_def)
  then obtain out s' where f: "flush_incoming_buffer True 2 ?s = Ok (out, s')" by blast
  ultimately have "length out \<le> 2 \<and> (\<exists>data'. payloads (incoming_buffer s') = Ok data' \<and>
      out @ pending_data s' @ data' = pending_data ?s @ [7, 8, 9])"
    by (rule flush_conserves_bytes)
  moreover have "pending_data ?s = []" by simp
  ultimately show ?thesis using f unfolding Let_def by auto
qed

text \<open>After the pending bytes of a packet have been read to the end, the next packet of the buffer is
  taken whatever its sequence number: a gap in the stream is skipped and acknowledged, although the
  packets in between have not arrived.\<close>

theorem flush_skips_gap:
  assumes "pending_data self \<noteq> []" and "length (pending_data self) \<le> n"
    and "incoming_buffer self = p # ps" and "pkt_payload p = (Ok pl :: (bytes, socket_error) outcome)"
  shows "\<exists>self'. flush_incoming_buffer chk n self = Ok (pending_data self, self') \<and>
    ack_nr self' = pkt_seq_nr p \<and> pending_data self' = pl \<and> incoming_buffer self' = ps"
  using assms by (simp add: flush_incoming_buffer_def advance_incoming_buffer_def min_absorb1)

theorem flush_skips_gap_witness:
  "let s = sample_socket\<lparr>ack_nr := 3, pending_data := [1], incoming_buffer := [numbered_packet 9 [2]]\<rparr>
   in \<exists>s'. flush_incoming_buffer True 10 s = Ok ([1], s') \<and> ack_nr s' = 9 \<and> pending_data s' = [2]"
  using flush_skips_gap
    [of "sample_socket\<lparr>ack_nr := 3, pending_data := [1], incoming_buffer := [numbered_packet 9 [2]]\<rparr>" 10
      "numbered_packet 9 [2]" "[]" "[2]" True]
  by auto

text \<open>C12: Building a selective acknowledgement panics exactly in a build with overflow checks when the last
  acknowledged number is 65535 and a packet is stashed. Otherwise its length is a multiple of four, and
  bit \<open>k\<close> is set exactly when a stashed packet is numbered \<open>ack_nr + 2 + k\<close> and this number, compared
  without regard to wrap-around, is above \<open>ack_nr + 1\<close>: a stashed packet whose number has wrapped to
  one below is not marked.\<close>

theorem selective_ack_bits:
  "if chk \<and> ack_nr self = 65535 \<and> incoming_buffer self \<noteq> [] then build_selective_ack chk self = Panic
   else \<exists>sack. build_selective_ack chk self = Ok sack \<and> length sack mod 4 = 0 \<and>
     (\<forall>k. sack_bit sack k \<longleftrightarrow> (\<exists>p. p \<in> set (incoming_buffer self) \<and>
        ack_nr self + 1 < pkt_seq_nr p \<and> unat (pkt_seq_nr p - ack_nr self - 2) = k))"
proof (cases "chk \<and> ack_nr self = 65535")
  case True
  then show ?thesis by (cases "incoming_buffer self") (auto simp: build_selective_ack_def sack_position_eq sack_bit_def)
next
  case False
  with sack_loop_packets_bits [OF False, of "[]" "incoming_buffer self"] show ?thesis
    by (auto simp: build_selective_ack_def sack_bit_def stashed_at_def list_ex_iff)
qed

text \<open>When the last packet before the sequence number wraps has been acknowledged, a build with
  overflow checks panics on the next out-of-order data packet.\<close>

theorem selective_ack_overflow:
  assumes "ack_nr self = 65535" and "incoming_buffer self \<noteq> []" and "pkt_seq_nr packet - ack_nr self > 1"
  shows "handle_data_packet True now packet self = Panic"
  using assms
  by (cases "incoming_buffer self")
     (simp_all add: handle_data_packet_def build_selective_ack_def sack_position_eq Let_def)

theorem selective_ack_overflow_witness:
  "handle_data_packet True 0 (numbered_packet 4 [1])
     (sample_socket\<lparr>ack_nr := 65535, incoming_buffer := [numbered_packet 2 [2]]\<rparr>) = Panic"
  by (rule selective_ack_overflow) (simp_all add: word_less_nat_alt)

text \<open>C13: Dropping acknowledged packets keeps the count of bytes in flight equal to the sizes of the packets
  in the send window, never panics then, and removes exactly the packets up to the acknowledged one.\<close>

theorem advance_send_window_keeps_account:
  assumes "window_accounted self"
  shows "\<exists>self'. advance_send_window chk self = Ok self' \<and> window_accounted self' \<and>
    send_window self' =
      (case position (\<lambda>p. pkt_seq_nr p = last_acked self) (send_window self) of
         None \<Rightarrow> send_window self | Some i \<Rightarrow> drop (Suc i) (send_window self))"
  by (rule advance_send_window_accounted [OF assms])

theorem advance_send_window_keeps_account_witness:
  "let ps = [numbered_packet 1 [4], numbered_packet 2 [5, 6], numbered_packet 3 [7]]; s = sample_socket\<lparr>send_window := ps, curr_window := 64, last_acked := 2\<rparr>
   in \<exists>s'. advance_send_window True s = Ok s' \<and> window_accounted s' \<and> send_window s' = [numbered_packet 3 [7]]"
proof -
  let ?ps = "[numbered_packet 1 [4], numbered_packet 2 [5, 6], numbered_packet 3 [7]]"
  let ?s = "sample_socket\<lparr>send_window := ?ps, curr_window := 64, last_acked := 2\<rparr>"
  have "window_accounted ?s"
    by (simp add: window_accounted_def window_bytes_def numbered_packet_def pkt_field_defs set_be16_def
        packet_with_payload_def HEADER_SIZE_def)
  from advance_send_window_keeps_account [OF this, of True] show ?thesis
    by (simp add: Let_def)
qed

text \<open>Sending cuts the data into packets whose payloads, in queue order, are the data; they are
  numbered consecutively and carry at most 1380 bytes each.\<close>

theorem queue_data_splits:
  assumes "unsent_queue self = []"
  shows "payloads (unsent_queue (queue_data buf self)) = Ok buf \<and>
    map pkt_seq_nr (unsent_queue (queue_data buf self)) =
      map (\<lambda>i. seq_nr self + of_nat i) [0..<length (unsent_queue (queue_data buf self))] \<and>
    (\<forall>p. p \<in> set (unsent_queue (queue_data buf self)) \<longrightarrow> (\<exists>pl. pkt_payload p = Ok pl \<and> length pl \<le> 1380))"
proof -
  let ?cs = "chunks (unat MSS - HEADER_SIZE) buf"
  have n: "unat MSS - HEADER_SIZE = 1380" by (simp add: MSS_def HEADER_SIZE_def)
  then have cs: "concat ?cs = buf" "\<forall>c \<in> set ?cs. length c \<le> 1380"
    using concat_chunks [of "unat MSS - HEADER_SIZE" buf] by auto
  let ?f = "\<lambda>(i, c). pkt_set_connection_id (sender_connection_id self) (pkt_set_ack_nr (ack_nr self)
       (pkt_set_seq_nr (seq_nr self + of_nat i)
         (pkt_set_wnd_size (WINDOW_SIZE - of_nat (length (send_window self))) (packet_with_payload c))))"
  have q: "unsent_queue (queue_data buf self) = map ?f (enumerate 0 ?cs)"
    using queue_chunks [of ?cs self] assms by (simp add: queue_data_def)
  have "map pkt_seq_nr (map ?f (enumerate 0 ?cs)) = map (\<lambda>i. seq_nr self + of_nat i) (map fst (enumerate 0 ?cs))"
    unfolding map_map by (rule map_cong [OF refl]) (auto simp: queued_packet_seq)
  moreover have "\<forall>p. p \<in> set (map ?f (enumerate 0 ?cs)) \<longrightarrow> (\<exists>pl. pkt_payload p = Ok pl \<and> length pl \<le> 1380)"
    using cs(2) by (auto simp: in_set_enumerate_eq pkt_payload_shape [OF queued_packet_shape])
  ultimately show ?thesis using payloads_queued cs(1) by (simp add: q)
qed

theorem queue_data_splits_witness:
  "payloads (unsent_queue (queue_data (replicate 3000 1) sample_socket)) = Ok (replicate 3000 1)"
  by (rule conjunct1 [OF queue_data_splits]) simp

end
