(* ===== verification/Dht_Node.thy ===== *)
theory Dht_Node
  imports Util_Hash Util_Convert
begin

text \<open>
  \<open>src/dht/routing/node.rs\<close> and \<open>src/dht/routing/bucket.rs\<close>: a node of the distributed hash table
  with the times of its last request and response, its status, and the bucket of eight nodes.
  A \<open>DateTime\<close> and a \<open>Duration\<close> are numbers of nanoseconds; the clock is read once for an operation
  and passed as \<open>now\<close>. The cells of a node are fields, and an operation that sets them returns the
  node.
\<close>

section \<open>Time\<close>

type_synonym datetime = int
type_synonym duration = int

definition duration_minutes :: "int \<Rightarrow> duration" where
  "duration_minutes m = m * 60000000000"

definition duration_hours :: "int \<Rightarrow> duration" where
  "duration_hours h = h * 3600000000000"

definition travel_into_past :: "datetime \<Rightarrow> duration \<Rightarrow> datetime" where
  "travel_into_past now offset = now - offset"

section \<open>Nodes\<close>

type_synonym node_id = sha_hash

definition MAX_LAST_SEEN_MINS :: int where "MAX_LAST_SEEN_MINS = 15"
definition MAX_REFRESH_REQUESTS :: nat where "MAX_REFRESH_REQUESTS = 2"

datatype node_status = Bad | Questionable | Good

text \<open>The derived order: variants further up are less than those further down.\<close>

instantiation node_status :: linorder
begin

fun status_rank :: "node_status \<Rightarrow> nat" where
  "status_rank Bad = 0"
| "status_rank Questionable = 1"
| "status_rank Good = 2"

definition less_eq_node_status :: "node_status \<Rightarrow> node_status \<Rightarrow> bool" where
  "a \<le> b \<longleftrightarrow> status_rank a \<le> status_rank b"

definition less_node_status :: "node_status \<Rightarrow> node_status \<Rightarrow> bool" where
  "a < b \<longleftrightarrow> status_rank a < status_rank b"

instance
proof
  fix a b c :: node_status
  show "a < b \<longleftrightarrow> a \<le> b \<and> \<not> b \<le> a" by (auto simp: less_eq_node_status_def less_node_status_def)
  show "a \<le> a" by (simp add: less_eq_node_status_def)
  show "a \<le> b \<Longrightarrow> b \<le> c \<Longrightarrow> a \<le> c" by (simp add: less_eq_node_status_def)
  show "a \<le> b \<Longrightarrow> b \<le> a \<Longrightarrow> a = b" by (cases a; cases b) (simp_all add: less_eq_node_status_def)
  show "a \<le> b \<or> b \<le> a" by (auto simp: less_eq_node_status_def)
qed

end

record node =
  node_ident :: node_id
  node_addr :: socket_addr
  last_request :: "datetime option"
  last_response :: "datetime option"
  refresh_requests :: nat

definition as_good :: "datetime \<Rightarrow> node_id \<Rightarrow> socket_addr \<Rightarrow> node" where
  "as_good now ident addr =
     \<lparr>node_ident = ident, node_addr = addr, last_request = None, last_response = Some now,
      refresh_requests = 0\<rparr>"

definition as_questionable :: "datetime \<Rightarrow> node_id \<Rightarrow> socket_addr \<Rightarrow> node" where
  "as_questionable now ident addr =
     \<lparr>node_ident = ident, node_addr = addr, last_request = None,
      last_response = Some (travel_into_past now (duration_minutes MAX_LAST_SEEN_MINS)),
      refresh_requests = 0\<rparr>"

definition as_bad :: "node_id \<Rightarrow> socket_addr \<Rightarrow> node" where
  "as_bad ident addr =
     \<lparr>node_ident = ident, node_addr = addr, last_request = None, last_response = None,
      refresh_requests = 0\<rparr>"

definition recently_responded :: "node \<Rightarrow> datetime \<Rightarrow> node_status" where
  "recently_responded n curr_time =
     (case last_response n of
        None \<Rightarrow> Bad
      | Some response_time \<Rightarrow>
          if curr_time - response_time < duration_minutes MAX_LAST_SEEN_MINS then Good else Questionable)"

definition recently_requested :: "node \<Rightarrow> datetime \<Rightarrow> node_status" where
  "recently_requested n curr_time =
     (if (case last_request n of
            None \<Rightarrow> False
          | Some request_time \<Rightarrow> curr_time - request_time < duration_minutes MAX_LAST_SEEN_MINS)
      then Good
      else if refresh_requests n < MAX_REFRESH_REQUESTS then Questionable else Bad)"

definition status :: "datetime \<Rightarrow> node \<Rightarrow> node_status" where
  "status now self =
     (case recently_responded self now of
        Good \<Rightarrow> Good
      | Bad \<Rightarrow> Bad
      | Questionable \<Rightarrow> recently_requested self now)"

definition local_request :: "datetime \<Rightarrow> node \<Rightarrow> node" where
  "local_request now self =
     (if status now self \<noteq> Good then self\<lparr>refresh_requests := refresh_requests self + 1\<rparr> else self)"

definition remote_request :: "datetime \<Rightarrow> node \<Rightarrow> node" where
  "remote_request now self = self\<lparr>last_request := Some now\<rparr>"

definition remote_response :: "datetime \<Rightarrow> node \<Rightarrow> node" where
  "remote_response now self = self\<lparr>last_response := Some now, refresh_requests := 0\<rparr>"

definition node_eq :: "node \<Rightarrow> node \<Rightarrow> bool" where
  "node_eq self other \<longleftrightarrow> node_ident self = node_ident other \<and> node_addr self = node_addr other"

text \<open>The 26 bytes of a compact node: id, address and port. An IPv6 address panics.\<close>

definition node_encode :: "node \<Rightarrow> (bytes, unit) outcome" where
  "node_encode self =
     (case node_addr self of
        V4 v4 \<Rightarrow>
          let src = sha_bytes (node_ident self) @ octets (v4_ip v4);
              encoded = take 26 src @ drop (length src) (replicate 26 0);
              port = v4_port v4
          in Ok (encoded[24 := ucast (drop_bit 8 port), 25 := ucast port])
      | V6 _ \<Rightarrow> Panic)"

section \<open>Buckets\<close>

definition MAX_BUCKET_SIZE :: nat where "MAX_BUCKET_SIZE = 8"

record bucket =
  nodes :: "node list"

definition placeholder :: node where
  "placeholder = as_bad (ShaHash (replicate SHA_HASH_LEN 0))
     (V4 \<lparr>v4_ip = Ipv4Addr 127 0 0 1, v4_port = 0\<rparr>)"

definition bucket_new :: bucket where
  "bucket_new = \<lparr>nodes = replicate MAX_BUCKET_SIZE placeholder\<rparr>"

definition good_nodes_filter :: "datetime \<Rightarrow> node \<Rightarrow> bool" where
  "good_nodes_filter now n \<longleftrightarrow> status now n = Good"

definition pingable_nodes_filter :: "datetime \<Rightarrow> node \<Rightarrow> bool" where
  "pingable_nodes_filter now n \<longleftrightarrow> status now n = Good \<or> status now n = Questionable"

text \<open>\<open>next\<close> of \<open>Filter<Iter<Node>>\<close>: the iterator is the part of the slice still to be visited.\<close>

definition filter_next :: "('a \<Rightarrow> bool) \<Rightarrow> 'a list \<Rightarrow> 'a option \<times> 'a list" where
  "filter_next p it = (case dropWhile (\<lambda>x. \<not> p x) it of [] \<Rightarrow> (None, []) | x # rest \<Rightarrow> (Some x, rest))"

definition good_nodes :: "datetime \<Rightarrow> bucket \<Rightarrow> node list" where
  "good_nodes now self = filter (good_nodes_filter now) (nodes self)"

definition pingable_nodes :: "datetime \<Rightarrow> bucket \<Rightarrow> node list" where
  "pingable_nodes now self = filter (pingable_nodes_filter now) (nodes self)"

definition needs_refresh :: "datetime \<Rightarrow> bucket \<Rightarrow> bool" where
  "needs_refresh now self = fold (\<lambda>n prev. prev \<and> status now n \<noteq> Good) (nodes self) True"

definition bucket_add_node :: "datetime \<Rightarrow> node \<Rightarrow> bucket \<Rightarrow> bool \<times> bucket" where
  "bucket_add_node now new_node self =
     (let new_node_status = status now new_node in
      if new_node_status = Bad then (True, self)
      else case position (\<lambda>n. node_eq n new_node) (nodes self) of
        Some index \<Rightarrow>
          let other_node_status = status now (nodes self ! index)
          in (True, if new_node_status \<ge> other_node_status
                    then self\<lparr>nodes := (nodes self)[index := new_node]\<rparr> else self)
      | None \<Rightarrow>
          (case position (\<lambda>n. status now n < new_node_status) (nodes self) of
             Some index \<Rightarrow> (True, self\<lparr>nodes := (nodes self)[index := new_node]\<rparr>)
           | None \<Rightarrow> (False, self)))"

section \<open>Lemmas\<close>

lemma status_simps [simp]:
  "status now placeholder = Bad" "last_response placeholder = None"
  by (simp_all add: status_def recently_responded_def placeholder_def as_bad_def)

lemma status_responded: "status now n \<noteq> Bad \<Longrightarrow> last_response n \<noteq> None"
  by (auto simp: status_def recently_responded_def split: option.splits)

lemma Bad_less [simp]: "Bad < s \<longleftrightarrow> s \<noteq> Bad"
  by (cases s) (simp_all add: less_node_status_def)

lemma Good_greatest [simp]: "s \<le> Good" "\<not> Good < s" "Good \<le> s \<longleftrightarrow> s = Good" "s \<le> Bad \<longleftrightarrow> s = Bad"
  by (cases s; simp add: less_eq_node_status_def less_node_status_def)+

lemma pingable_iff: "pingable_nodes_filter now n \<longleftrightarrow> status now n \<noteq> Bad"
  by (cases "status now n") (simp_all add: pingable_nodes_filter_def)

lemma needs_refresh_iff: "needs_refresh now b \<longleftrightarrow> (\<forall>n \<in> set (nodes b). status now n \<noteq> Good)"
proof -
  have "fold (\<lambda>n prev. prev \<and> status now n \<noteq> Good) ns acc \<longleftrightarrow> acc \<and> (\<forall>n \<in> set ns. status now n \<noteq> Good)" for ns acc
    by (induction ns arbitrary: acc) auto
  then show ?thesis by (simp add: needs_refresh_def)
qed

text \<open>The three ways an attempt to add a node can end.\<close>

lemma bucket_add_node_cases:
  assumes "bucket_add_node now n b = (ok, b')"
  obtains (bad) "status now n = Bad" "ok" "b' = b"
  | (full) "status now n \<noteq> Bad" "\<not> ok" "b' = b" "\<forall>m \<in> set (nodes b). \<not> node_eq m n \<and> status now n \<le> status now m"
  | (kept) m where "status now n \<noteq> Bad" "ok" "b' = b" "m \<in> set (nodes b)" "node_eq m n" "status now n < status now m"
  | (placed) i where "status now n \<noteq> Bad" "ok" "b' = b\<lparr>nodes := (nodes b)[i := n]\<rparr>" "i < length (nodes b)"
      "node_eq (nodes b ! i) n \<and> status now (nodes b ! i) \<le> status now n \<or>
       (\<forall>m \<in> set (nodes b). \<not> node_eq m n) \<and> status now (nodes b ! i) < status now n"
  using assms
  by (auto simp: bucket_add_node_def Let_def position_Some_iff position_None_iff not_le not_less
      split: if_splits option.splits) (metis nth_mem)

lemma length_bucket_add_node [simp]:
  "length (nodes (snd (bucket_add_node now n b))) = length (nodes b)"
  by (cases "bucket_add_node now n b") (auto elim!: bucket_add_node_cases)

lemma bucket_add_node_subset:
  "set (nodes (snd (bucket_add_node now n b))) \<subseteq> insert n (set (nodes b))"
proof (cases "bucket_add_node now n b")
  case (Pair ok b')
  then show ?thesis
    by (cases rule: bucket_add_node_cases) (auto simp: Pair dest: set_update_subset_insert [THEN subsetD])
qed

text \<open>A bucket holds a contact at most once, the address and id of the placeholders apart.\<close>

definition contact :: "node \<Rightarrow> node_id \<times> socket_addr" where
  "contact n = (node_ident n, node_addr n)"

definition unique_contacts :: "node list \<Rightarrow> bool" where
  "unique_contacts ns \<longleftrightarrow>
     (\<forall>i j. i < length ns \<and> j < length ns \<and> contact (ns ! i) = contact (ns ! j) \<and>
        contact (ns ! i) \<noteq> contact placeholder \<longrightarrow> i = j)"

lemma node_eq_contact: "node_eq a b \<longleftrightarrow> contact a = contact b"
  by (auto simp: node_eq_def contact_def)

lemma bucket_new_wf [simp]:
  "length (nodes bucket_new) = MAX_BUCKET_SIZE" "unique_contacts (nodes bucket_new)"
  "set (nodes bucket_new) = {placeholder}"
  by (auto simp: bucket_new_def unique_contacts_def MAX_BUCKET_SIZE_def)

lemma bucket_add_node_unique:
  assumes "unique_contacts (nodes b)"
  shows "unique_contacts (nodes (snd (bucket_add_node now n b)))"
proof (cases "bucket_add_node now n b")
  case (Pair ok b')
  then show ?thesis
  proof (cases rule: bucket_add_node_cases)
    case (placed i)
    have "contact (nodes b ! j) = contact n \<and> contact n \<noteq> contact placeholder \<longrightarrow> j = i"
      if "j < length (nodes b)" for j
      using placed(4,5) that assms unfolding unique_contacts_def node_eq_contact
      by (metis nth_mem)
    with assms have "unique_contacts ((nodes b)[i := n])"
      unfolding unique_contacts_def length_list_update by (metis nth_list_update nth_list_update_neq)
    with Pair placed show ?thesis by simp
  qed (use Pair assms in simp_all)
qed

end
