(* ===== verification/Dht_Table.thy ===== *)
theory Dht_Table
  imports Dht_Node
begin

text \<open>
  \<open>src/dht/routing/table.rs\<close>: the routing table, a growing list of buckets indexed by the number of
  leading bits a node id shares with the local id, the last bucket holding every node that shares
  at least as many. Adding a node splits the last bucket when it is full. The iterator over the
  closest nodes visits the buckets outward from the one of the target id.
\<close>

section \<open>Placement\<close>

definition MAX_BUCKETS :: nat where "MAX_BUCKETS = SHA_HASH_LEN * 8"

text \<open>A hash has 160 bits, so 161 calls of the bit iterator always finish the count.\<close>

definition leading_bit_count :: "node_id \<Rightarrow> node_id \<Rightarrow> nat" where
  "leading_bit_count local_node remote_node =
     (case count_unset (Suc MAX_BUCKETS) (sha_bits (bitxor local_node remote_node)) of
        Some n \<Rightarrow> n
      | None \<Rightarrow> MAX_BUCKETS)"

definition bucket_placement :: "nat \<Rightarrow> nat \<Rightarrow> nat" where
  "bucket_placement num_same_bits num_buckets =
     (let ideal_index = num_same_bits
      in if ideal_index \<ge> num_buckets then num_buckets - 1 else ideal_index)"

definition can_split_bucket :: "nat \<Rightarrow> nat \<Rightarrow> bool" where
  "can_split_bucket num_buckets bucket_index \<longleftrightarrow>
     bucket_index = num_buckets - 1 \<and> bucket_index \<noteq> MAX_BUCKETS - 1"

section \<open>The table\<close>

record routing_table =
  buckets :: "bucket list"
  table_node_id :: node_id

definition routing_table_new :: "node_id \<Rightarrow> routing_table" where
  "routing_table_new ident = \<lparr>buckets = [bucket_new], table_node_id = ident\<rparr>"

text \<open>\<open>add_node\<close>, \<open>bucket_node\<close>, \<open>split_bucket\<close> and the loop of the latter. With no bucket the index
  \<open>num_buckets - 1\<close> is out of range.\<close>

function (sequential) add_node :: "datetime \<Rightarrow> node \<Rightarrow> routing_table \<Rightarrow> (routing_table, unit) outcome"
  and bucket_node :: "datetime \<Rightarrow> node \<Rightarrow> nat \<Rightarrow> routing_table \<Rightarrow> (routing_table, unit) outcome"
  and split_bucket :: "datetime \<Rightarrow> nat \<Rightarrow> routing_table \<Rightarrow> (bool \<times> routing_table, unit) outcome"
  and add_nodes :: "datetime \<Rightarrow> node list \<Rightarrow> routing_table \<Rightarrow> (routing_table, unit) outcome"
where
  "add_node now n self =
     (if status now n = Bad then Ok self
      else let num_same_bits = leading_bit_count (table_node_id self) (node_ident n)
           in if num_same_bits \<noteq> MAX_BUCKETS then bucket_node now n num_same_bits self else Ok self)"
| "bucket_node now n num_same_bits self =
     (if buckets self = [] then Panic
      else let bucket_index = bucket_placement num_same_bits (length (buckets self));
               added = bucket_add_node now n (buckets self ! bucket_index);
               self' = self\<lparr>buckets := (buckets self)[bucket_index := snd added]\<rparr>
           in if \<not> fst added then
                and_then (split_bucket now bucket_index self') (\<lambda>split.
                  if fst split then bucket_node now n num_same_bits (snd split) else Ok (snd split))
              else Ok self')"
| "split_bucket now bucket_index self =
     (if \<not> can_split_bucket (length (buckets self)) bucket_index then Ok (False, self)
      else if buckets self = [] then Panic
      else and_then (add_nodes now (nodes (last (buckets self)))
               (self\<lparr>buckets := butlast (buckets self) @ [bucket_new] @ [bucket_new]\<rparr>))
             (\<lambda>self'. Ok (True, self')))"
| "add_nodes now [] self = Ok self"
| "add_nodes now (n # ns) self = and_then (add_node now n self) (\<lambda>self'. add_nodes now ns self')"
  by pat_completeness auto

lemma leading_bit_count_le: "leading_bit_count a b \<le> MAX_BUCKETS"
proof -
  have "count_unset fuel it = Some n \<Longrightarrow> n < fuel" for fuel it n
    by (induction fuel arbitrary: it n) (auto split: prod.splits option.splits bit_rep.splits)
  from this [of "Suc MAX_BUCKETS"] show ?thesis
    by (auto simp: leading_bit_count_def simp del: count_unset.simps split: option.split)
       (simp add: less_Suc_eq_le)
qed

lemma bucket_placement_less: "0 < num \<Longrightarrow> bucket_placement k num < num"
  by (auto simp: bucket_placement_def Let_def)

lemma bucket_placement_le: "bucket_placement k num \<le> k"
  by (auto simp: bucket_placement_def Let_def)

text \<open>No operation removes a bucket, and a split adds one. Proved on the domain of the functions,
  because their termination rests on it.\<close>

abbreviation table_size :: "routing_table \<Rightarrow> nat" where
  "table_size t \<equiv> length (buckets t)"

lemma buckets_grow_dom:
  "add_node_bucket_node_split_bucket_add_nodes_dom (Inl (Inl (now, n, t))) \<Longrightarrow>
     add_node now n t = Ok t' \<Longrightarrow> table_size t \<le> table_size t'"
  "add_node_bucket_node_split_bucket_add_nodes_dom (Inl (Inr (now, n, k, t))) \<Longrightarrow>
     bucket_node now n k t = Ok t' \<Longrightarrow> table_size t \<le> table_size t'"
  "add_node_bucket_node_split_bucket_add_nodes_dom (Inr (Inl (now, i, t))) \<Longrightarrow>
     split_bucket now i t = Ok (ok, t') \<Longrightarrow>
     table_size t + of_bool ok \<le> table_size t' \<and> (ok \<longrightarrow> can_split_bucket (table_size t) i)"
  "add_node_bucket_node_split_bucket_add_nodes_dom (Inr (Inr (now, ns, t))) \<Longrightarrow>
     add_nodes now ns t = Ok t' \<Longrightarrow> table_size t \<le> table_size t'"
proof (induction now n t and now n k t and now i t and now ns t arbitrary: t' and t' and ok t' and t'
    rule: add_node_bucket_node_split_bucket_add_nodes.pinduct)
  case (1 now n self)
  then show ?case by (auto simp: add_node.psimps Let_def split: if_splits)
next
  case (2 now n k self)
  let ?i = "bucket_placement k (table_size self)"
  let ?added = "bucket_add_node now n (buckets self ! ?i)"
  let ?self = "self\<lparr>buckets := (buckets self)[?i := snd ?added]\<rparr>"
  from 2(1,4) have ne: "buckets self \<noteq> []" by (auto simp: bucket_node.psimps)
  show ?case
  proof (cases "fst ?added")
    case True
    with 2(1,4) ne show ?thesis by (auto simp: bucket_node.psimps Let_def)
  next
    case False
    with 2(1,4) ne obtain split where s: "split_bucket now ?i ?self = Ok split"
      and t': "(if fst split then bucket_node now n k (snd split) else Ok (snd split)) = Ok t'"
      by (auto simp: bucket_node.psimps Let_def)
    have "table_size ?self + of_bool (fst split) \<le> table_size (snd split)"
      using 2(2) [OF ne refl refl refl, of "fst split" "snd split"] False s by (simp add: prod_eq_iff)
    moreover have "table_size (snd split) \<le> table_size t'" if "fst split"
      by (rule 2(3) [OF ne refl refl refl, of split]) (use False s t' that in simp_all)
    ultimately show ?thesis using t' by (cases "fst split") auto
  qed
next
  case (3 now i self)
  from 3(1,3) consider "\<not> ok" "t' = self"
    | "can_split_bucket (table_size self) i" "buckets self \<noteq> []"
      "add_nodes now (nodes (last (buckets self)))
         (self\<lparr>buckets := butlast (buckets self) @ [bucket_new] @ [bucket_new]\<rparr>) = Ok t'"
    by (auto simp: split_bucket.psimps split: if_splits)
  then show ?case
  proof cases
    case 2
    then have "table_size (self\<lparr>buckets := butlast (buckets self) @ [bucket_new] @ [bucket_new]\<rparr>) \<le> table_size t'"
      by (intro 3(2)) simp_all
    with 2 show ?thesis by (cases "buckets self" rule: rev_cases) auto
  qed simp
next
  case (4 now self)
  then show ?case by (simp add: add_nodes.psimps)
next
  case (5 now n ns self)
  from 5(1,4) obtain t where "add_node now n self = Ok t" "add_nodes now ns t = Ok t'"
    by (auto simp: add_nodes.psimps)
  with 5(2) [of t] 5(3) [of t] show ?case by simp
qed

text \<open>With fewer than 160 shared bits only a table of at most 159 buckets is split, so the distance to
  161 buckets decreases from a split to the calls it makes.\<close>

termination add_node
proof (relation "measures
    [case_sum (case_sum (\<lambda>(now, n, t). 161 - table_size t)
        (\<lambda>(now, n, k, t). if k \<ge> 160 then k + 162 else 161 - table_size t))
      (case_sum (\<lambda>(now, i, t). if i \<ge> 160 then i + 161 else 161 - table_size t)
        (\<lambda>(now, ns, t). 161 - table_size t)),
     case_sum (case_sum (\<lambda>_. 2) (\<lambda>_. 1)) (case_sum (\<lambda>_. 0) (\<lambda>_. 3)),
     case_sum (case_sum (\<lambda>_. 0) (\<lambda>(now, n, k, t). k + 2 - table_size t))
      (case_sum (\<lambda>_. 0) (\<lambda>(now, ns, t). length ns))]", goal_cases)
  case (2 now n self k)
  then show ?case using leading_bit_count_le [of "table_node_id self" "node_ident n"]
    by (auto simp: MAX_BUCKETS_def SHA_HASH_LEN_def)
next
  case (3 now n k self i added self')
  then show ?case using bucket_placement_le [of k "table_size self"] by auto
next
  case (4 now n k self i added self' split)
  then have "table_size self' + of_bool (fst split) \<le> table_size (snd split)"
      "can_split_bucket (table_size self') i"
    using buckets_grow_dom(3) [of now i self' "fst split" "snd split"] by (simp_all add: prod_eq_iff)
  with 4 show ?case using bucket_placement_le [of k "table_size self"]
    by (auto simp: can_split_bucket_def)
next
  case (5 now i self)
  then show ?case by (auto simp: can_split_bucket_def MAX_BUCKETS_def SHA_HASH_LEN_def)
next
  case (7 now n ns self self')
  then show ?case using buckets_grow_dom(1) by force
qed auto

declare add_node.simps [simp del] bucket_node.simps [simp del] split_bucket.simps [simp del]

section \<open>Iterating over the buckets\<close>

datatype bucket_contents = Empty | Sorted bucket | Assorted bucket

fun is_assorted :: "bucket_contents \<Rightarrow> bool" where
  "is_assorted Empty = False"
| "is_assorted (Sorted b) = False"
| "is_assorted (Assorted b) = True"

record buckets_iter =
  bi_buckets :: "bucket list"
  bi_index :: nat

definition buckets_new :: "bucket list \<Rightarrow> buckets_iter" where
  "buckets_new bs = \<lparr>bi_buckets = bs, bi_index = 0\<rparr>"

definition buckets_next :: "buckets_iter \<Rightarrow> bucket_contents option \<times> buckets_iter" where
  "buckets_next self =
     (let len = length (bi_buckets self); self' = self\<lparr>bi_index := bi_index self + 1\<rparr> in
      if bi_index self > MAX_BUCKETS then (None, self)
      else if bi_index self = MAX_BUCKETS then
        (if len = MAX_BUCKETS \<or> bi_buckets self = [] then None
         else Some (Assorted (bi_buckets self ! (len - 1))), self')
      else if bi_index self + 1 < len \<or> len = MAX_BUCKETS then
        (Some (Sorted (bi_buckets self ! bi_index self)), self')
      else (Some Empty, self'))"

text \<open>\<open>skip(n).next()\<close> and \<open>find\<close> on this iterator.\<close>

fun skip_next :: "nat \<Rightarrow> buckets_iter \<Rightarrow> bucket_contents option" where
  "skip_next 0 it = fst (buckets_next it)"
| "skip_next (Suc n) it = (case buckets_next it of (None, _) \<Rightarrow> None | (Some _, it') \<Rightarrow> skip_next n it')"

function find_assorted :: "buckets_iter \<Rightarrow> bucket_contents option" where
  "find_assorted it =
     (case buckets_next it of
        (None, _) \<Rightarrow> None
      | (Some c, it') \<Rightarrow> if is_assorted c then Some c else find_assorted it')"
  by pat_completeness auto
termination
  by (relation "measure (\<lambda>it. Suc MAX_BUCKETS - bi_index it)")
     (auto simp: buckets_next_def Let_def split: if_splits)

declare find_assorted.simps [simp del]

definition find_node :: "datetime \<Rightarrow> node \<Rightarrow> routing_table \<Rightarrow> node option" where
  "find_node now n self =
     (let bucket_index = leading_bit_count (table_node_id self) (node_ident n);
          opt_bucket_contents =
            (case skip_next bucket_index (buckets_new (buckets self)) of
               Some c \<Rightarrow> Some c
             | None \<Rightarrow> find_assorted (buckets_new (buckets self)))
      in case opt_bucket_contents of
           Some (Sorted b) \<Rightarrow> List.find (\<lambda>m. node_eq m n) (pingable_nodes now b)
         | Some (Assorted b) \<Rightarrow> List.find (\<lambda>m. node_eq m n) (pingable_nodes now b)
         | _ \<Rightarrow> None)"

section \<open>The closest nodes\<close>

definition checked_sub :: "nat \<Rightarrow> nat \<Rightarrow> nat option" where
  "checked_sub a b = (if b \<le> a then Some (a - b) else None)"

definition index_is_in_bounds :: "nat \<Rightarrow> nat option \<Rightarrow> bool" where
  "index_is_in_bounds len checked_index = (case checked_index of Some index \<Rightarrow> index < len | None \<Rightarrow> False)"

definition next_bucket_index :: "nat \<Rightarrow> nat \<Rightarrow> nat \<Rightarrow> nat option" where
  "next_bucket_index num_buckets start_index curr_index =
     (if curr_index = start_index then
        let right_index = Some (start_index + 1); left_index = checked_sub start_index 1
        in if index_is_in_bounds num_buckets right_index then right_index
           else if index_is_in_bounds num_buckets left_index then left_index else None
      else if curr_index > start_index then
        let offset = curr_index - start_index;
            left_index = checked_sub start_index offset; right_index = Some (curr_index + 1)
        in if index_is_in_bounds num_buckets left_index then left_index
           else if index_is_in_bounds num_buckets right_index then right_index else None
      else
        let offset = (start_index - curr_index) + 1;
            right_index = Some (start_index + offset); left_index = checked_sub curr_index 1
        in if index_is_in_bounds num_buckets right_index then right_index
           else if index_is_in_bounds num_buckets left_index then left_index else None)"

definition is_good_node :: "datetime \<Rightarrow> node \<Rightarrow> bool" where
  "is_good_node now n = (let s = status now n in s = Good \<or> s = Questionable)"

definition bucket_iterator :: "bucket list \<Rightarrow> nat \<Rightarrow> node list option" where
  "bucket_iterator bs index =
     map_option nodes (get_slice (if length bs = MAX_BUCKETS then bs else butlast bs) index)"

text \<open>The entries of a tuple: bucket index, node, returned before. A bucket is an array of eight nodes.\<close>

definition precompute_assorted_nodes :: "bucket list \<Rightarrow> node_id \<Rightarrow> (nat \<times> node \<times> bool) list option" where
  "precompute_assorted_nodes bs self_node_id =
     (if length bs = MAX_BUCKETS then None
      else case nodes (last bs) of
        [] \<Rightarrow> None
      | init_reference # _ \<Rightarrow>
          Some (map (\<lambda>n. (leading_bit_count self_node_id (node_ident n), n, False)) (nodes (last bs)) @
                drop (length (nodes (last bs))) (replicate MAX_BUCKET_SIZE (0, init_reference, True))))"

record closest_nodes =
  cn_buckets :: "bucket list"
  current_iter :: "node list option"
  current_index :: nat
  start_index :: nat
  assorted_nodes :: "(nat \<times> node \<times> bool) list option"

definition closest_nodes_new :: "bucket list \<Rightarrow> node_id \<Rightarrow> node_id \<Rightarrow> (closest_nodes, unit) outcome" where
  "closest_nodes_new bs self_node_id other_node_id =
     (if bs = [] then Panic
      else let start = leading_bit_count self_node_id other_node_id
           in Ok \<lparr>cn_buckets = bs, current_iter = bucket_iterator bs start, current_index = start,
                  start_index = start, assorted_nodes = precompute_assorted_nodes bs self_node_id\<rparr>)"

definition table_closest_nodes :: "routing_table \<Rightarrow> node_id \<Rightarrow> (closest_nodes, unit) outcome" where
  "table_closest_nodes self ident = closest_nodes_new (buckets self) (table_node_id self) ident"

definition take_assorted ::
  "datetime \<Rightarrow> nat \<Rightarrow> (nat \<times> node \<times> bool) list \<Rightarrow> (node \<times> (nat \<times> node \<times> bool) list) option" where
  "take_assorted now index tups =
     (case position (\<lambda>(i, n, returned). is_good_node now n \<and> i = index \<and> \<not> returned) tups of
        None \<Rightarrow> None
      | Some j \<Rightarrow> (case tups ! j of (i, n, _) \<Rightarrow> Some (n, tups[j := (i, n, True)])))"

text \<open>The order in which the indices are visited, outward from the start: right before left.\<close>

definition visit_rank :: "nat \<Rightarrow> nat \<Rightarrow> nat" where
  "visit_rank start index = (if index > start then 2 * (index - start) - 1 else 2 * (start - index))"

lemma odd_less: "2 * c - Suc 0 < 2 * d - Suc 0 \<Longrightarrow> 2 * c \<le> 2 * d - Suc 0"
  by presburger

lemma odd_Suc_less: "2 * c - Suc 0 < 2 * d - Suc 0 \<Longrightarrow> Suc (2 * c) \<le> 2 * d - Suc 0"
  by presburger

lemma even_less: "2 * c < 2 * d - Suc 0 \<Longrightarrow> Suc (2 * c) \<le> 2 * d - Suc 0"
  by presburger

lemma next_bucket_index_Some:
  assumes "next_bucket_index num start cur = Some index"
  shows "index < num \<and> visit_rank start cur < visit_rank start index \<and>
    (\<forall>j < num. visit_rank start cur < visit_rank start j \<longrightarrow> visit_rank start index \<le> visit_rank start j)"
  using assms
  by (auto simp: next_bucket_index_def visit_rank_def index_is_in_bounds_def checked_sub_def Let_def
      Suc_diff_le odd_less odd_Suc_less even_less split: if_splits)

lemma next_bucket_index_None:
  assumes "next_bucket_index num start cur = None" and "start \<le> num"
  shows "\<forall>j < num. visit_rank start j \<le> visit_rank start cur"
  using assms
  by (auto simp: next_bucket_index_def visit_rank_def index_is_in_bounds_def checked_sub_def Let_def
      split: if_splits)

lemma visit_rank_bound: "index < num \<Longrightarrow> visit_rank start index \<le> 2 * (num + start)"
  by (auto simp: visit_rank_def)

lemma odd_visit_rank: "odd (visit_rank start index) \<longleftrightarrow> start < index"
  by (simp add: visit_rank_def)

lemma visit_rank_inj: "visit_rank start i = visit_rank start j \<Longrightarrow> i = j"
  using odd_visit_rank [of start i] odd_visit_rank [of start j]
  by (cases "start < i"; cases "start < j") (auto simp: visit_rank_def)

definition next_in_bucket :: "datetime \<Rightarrow> closest_nodes \<Rightarrow> node option \<times> closest_nodes" where
  "next_in_bucket now self =
     (case current_iter self of
        None \<Rightarrow> (None, self)
      | Some it \<Rightarrow>
          let (n, it') = filter_next (is_good_node now) it in (n, self\<lparr>current_iter := Some it'\<rparr>))"

definition next_assorted :: "datetime \<Rightarrow> closest_nodes \<Rightarrow> node option \<times> closest_nodes" where
  "next_assorted now self =
     (case assorted_nodes self of
        None \<Rightarrow> (None, self)
      | Some tups \<Rightarrow>
          (case take_assorted now (current_index self) tups of
             None \<Rightarrow> (None, self)
           | Some (n, tups') \<Rightarrow> (Some n, self\<lparr>assorted_nodes := Some tups'\<rparr>)))"

lemma next_frame:
  "start_index (snd (next_in_bucket now s)) = start_index s"
  "current_index (snd (next_in_bucket now s)) = current_index s"
  "cn_buckets (snd (next_in_bucket now s)) = cn_buckets s"
  "assorted_nodes (snd (next_in_bucket now s)) = assorted_nodes s"
  "start_index (snd (next_assorted now s)) = start_index s"
  "current_index (snd (next_assorted now s)) = current_index s"
  "cn_buckets (snd (next_assorted now s)) = cn_buckets s"
  "current_iter (snd (next_assorted now s)) = current_iter s"
  by (simp_all add: next_in_bucket_def next_assorted_def split: option.split prod.split)

function closest_next :: "datetime \<Rightarrow> closest_nodes \<Rightarrow> node option \<times> closest_nodes" where
  "closest_next now self =
     (case next_in_bucket now self of
        (Some n, self1) \<Rightarrow> (Some n, self1)
      | (None, self1) \<Rightarrow>
          (case next_assorted now self1 of
             (Some n, self2) \<Rightarrow> (Some n, self2)
           | (None, self2) \<Rightarrow>
               (case next_bucket_index MAX_BUCKETS (start_index self2) (current_index self2) of
                  Some new_index \<Rightarrow>
                    closest_next now (self2\<lparr>current_index := new_index,
                      current_iter := bucket_iterator (cn_buckets self2) new_index\<rparr>)
                | None \<Rightarrow> (None, self2))))"
  by pat_completeness auto
termination
proof (relation "measure (\<lambda>(now, s).
    Suc (2 * (MAX_BUCKETS + start_index s)) - visit_rank (start_index s) (current_index s))", goal_cases)
  case (2 now self n1 self1 n2 self2 index)
  have frame: "start_index self2 = start_index self" "current_index self2 = current_index self"
    using next_frame [of now self] next_frame [of now self1] 2(1,3) by (metis snd_conv)+
  from 2 have "next_bucket_index MAX_BUCKETS (start_index self) (current_index self) = Some index"
    using frame by simp
  from next_bucket_index_Some [OF this] show ?case
    using visit_rank_bound [of index MAX_BUCKETS "start_index self"] by (auto simp: frame)
qed simp

declare closest_next.simps [simp del]

end
