(* ===== verification/Dht_Table_Props.thy ===== *)
theory Dht_Table_Props
  imports Dht_Table
begin

text \<open>
  The routing table keeps its shape, never panics, never loses a good node, and its closest-nodes
  iterator yields every usable node once.
\<close>

section \<open>The invariant of the table\<close>

definition bucket_wf :: "bucket \<Rightarrow> bool" where
  "bucket_wf b \<longleftrightarrow> length (nodes b) = MAX_BUCKET_SIZE \<and> unique_contacts (nodes b)"

text \<open>The bucket a node belongs to in a table of a given size.\<close>

definition belongs :: "routing_table \<Rightarrow> node \<Rightarrow> nat \<Rightarrow> bool" where
  "belongs t n i \<longleftrightarrow>
     leading_bit_count (table_node_id t) (node_ident n) \<noteq> MAX_BUCKETS \<and>
     bucket_placement (leading_bit_count (table_node_id t) (node_ident n)) (table_size t) = i"

definition table_wf :: "routing_table \<Rightarrow> bool" where
  "table_wf t \<longleftrightarrow>
     0 < table_size t \<and> table_size t \<le> MAX_BUCKETS \<and>
     (\<forall>b \<in> set (buckets t). bucket_wf b) \<and>
     (\<forall>i < table_size t. \<forall>n \<in> set (nodes (buckets t ! i)). last_response n \<noteq> None \<longrightarrow> belongs t n i)"

definition good_contacts :: "datetime \<Rightarrow> routing_table \<Rightarrow> (node_id \<times> socket_addr) set" where
  "good_contacts now t = (\<Union>b \<in> set (buckets t). contact ` {m \<in> set (nodes b). status now m = Good})"

definition occupied :: "datetime \<Rightarrow> bucket \<Rightarrow> nat" where
  "occupied now b = length (filter (\<lambda>m. status now m \<noteq> Bad) (nodes b))"

lemma table_new_wf [simp]: "table_wf (routing_table_new ident)"
  by (auto simp: table_wf_def routing_table_new_def bucket_wf_def MAX_BUCKETS_def SHA_HASH_LEN_def)

lemma table_new_id [simp]: "table_node_id (routing_table_new ident) = ident"
  by (simp add: routing_table_new_def)

lemma bucket_add_keeps_good:
  "contact ` {m \<in> set (nodes b). status now m = Good}
     \<subseteq> contact ` {m \<in> set (nodes (snd (bucket_add_node now n b))). status now m = Good}"
proof (cases "bucket_add_node now n b")
  case (Pair ok b')
  then show ?thesis
  proof (cases rule: bucket_add_node_cases)
    case (placed i)
    show ?thesis
    proof
      fix c assume "c \<in> contact ` {m \<in> set (nodes b). status now m = Good}"
      then obtain j where j: "j < length (nodes b)" "status now (nodes b ! j) = Good" "c = contact (nodes b ! j)"
        by (auto simp: in_set_conv_nth)
      have i: "i < length ((nodes b)[i := n])" "j < length ((nodes b)[i := n])" using placed(4) j(1) by simp_all
      show "c \<in> contact ` {m \<in> set (nodes (snd (bucket_add_node now n b))). status now m = Good}"
      proof (cases "i = j")
        case True
        with placed j have "c = contact n" "status now n = Good"
          by (auto simp: node_eq_contact)
        with nth_mem [OF i(1)] placed(3,4) Pair show ?thesis by auto
      next
        case False
        with nth_mem [OF i(2)] placed(3,4) Pair j show ?thesis by auto
      qed
    qed
  qed (use Pair in simp_all)
qed

lemma good_contacts_update:
  assumes "i < table_size t"
  shows "good_contacts now t \<subseteq>
    good_contacts now (t\<lparr>buckets := (buckets t)[i := snd (bucket_add_node now n (buckets t ! i))]\<rparr>)"
proof
  fix c assume "c \<in> good_contacts now t"
  then obtain b where "b \<in> set (buckets t)" "c \<in> contact ` {m \<in> set (nodes b). status now m = Good}"
    by (auto simp: good_contacts_def)
  then obtain j where j: "j < table_size t" "c \<in> contact ` {m \<in> set (nodes (buckets t ! j)). status now m = Good}"
    by (metis in_set_conv_nth)
  let ?bs = "(buckets t)[i := snd (bucket_add_node now n (buckets t ! i))]"
  have "c \<in> contact ` {m \<in> set (nodes (?bs ! j)). status now m = Good}"
    using j assms bucket_add_keeps_good [of "buckets t ! i" now n] by (cases "i = j") auto
  moreover have "?bs ! j \<in> set ?bs" using j(1) by (simp add: nth_mem)
  ultimately show "c \<in> good_contacts now (t\<lparr>buckets := ?bs\<rparr>)" by (auto simp: good_contacts_def)
qed

lemma table_wf_update:
  assumes wf: "table_wf t" and n: "status now n \<noteq> Bad" and i: "belongs t n i"
  shows "table_wf (t\<lparr>buckets := (buckets t)[i := snd (bucket_add_node now n (buckets t ! i))]\<rparr>)"
proof -
  let ?b = "snd (bucket_add_node now n (buckets t ! i))"
  from wf i have len: "i < table_size t" by (auto simp: table_wf_def belongs_def bucket_placement_less)
  with wf have "bucket_wf (buckets t ! i)" by (auto simp: table_wf_def)
  then have "bucket_wf ?b" by (simp add: bucket_wf_def bucket_add_node_unique)
  with wf have b: "\<forall>b \<in> set ((buckets t)[i := ?b]). bucket_wf b"
    by (auto simp: table_wf_def dest: set_update_subset_insert [THEN subsetD])
  have "belongs t m i" if "m \<in> set (nodes ?b)" "last_response m \<noteq> None" for m
    using that bucket_add_node_subset [of now n "buckets t ! i"] wf i len by (auto simp: table_wf_def)
  then have "\<forall>j < table_size t. \<forall>m \<in> set (nodes ((buckets t)[i := ?b] ! j)).
      last_response m \<noteq> None \<longrightarrow> belongs t m j"
    using wf len by (auto simp: table_wf_def nth_list_update)
  with b wf show ?thesis by (simp add: table_wf_def belongs_def)
qed

text \<open>A bucket with a free place takes the node, and then has at most one place less.\<close>

lemma bucket_add_node_fits:
  assumes "status now n \<noteq> Bad" and "occupied now b < length (nodes b)"
  shows "fst (bucket_add_node now n b)"
    and "occupied now (snd (bucket_add_node now n b)) \<le> Suc (occupied now b)"
    and "status now n = Good \<Longrightarrow>
      contact n \<in> contact ` {m \<in> set (nodes (snd (bucket_add_node now n b))). status now m = Good}"
proof -
  obtain ok b' where r: "bucket_add_node now n b = (ok, b')" by (rule prod.exhaust)
  have free: "\<exists>m \<in> set (nodes b). status now m = Bad"
  proof (rule ccontr)
    assume "\<not> (\<exists>m \<in> set (nodes b). status now m = Bad)"
    then have "occupied now b = length (nodes b)" by (auto simp: occupied_def)
    with assms(2) show False by simp
  qed
  from r free assms(1) show "fst (bucket_add_node now n b)"
    by (cases rule: bucket_add_node_cases) (auto simp: r dest!: bspec)
  have count: "length (filter p (xs[i := x])) \<le> Suc (length (filter p xs))" for p xs i and x :: node
    by (induction xs arbitrary: i) (auto split: nat.split)
  from r show "occupied now (snd (bucket_add_node now n b)) \<le> Suc (occupied now b)"
    by (cases rule: bucket_add_node_cases) (auto simp: r occupied_def count)
  assume "status now n = Good"
  with r free show "contact n \<in> contact ` {m \<in> set (nodes (snd (bucket_add_node now n b))). status now m = Good}"
    by (cases rule: bucket_add_node_cases)
       (auto simp: r leD set_update_memI dest!: bspec)
qed

text \<open>Nodes whose buckets have room for all of them are added without a split.\<close>

lemma belongs_less: "table_wf t \<Longrightarrow> belongs t n i \<Longrightarrow> i < table_size t"
  by (auto simp: table_wf_def belongs_def bucket_placement_less)

lemma table_wf_belongs:
  "\<lbrakk>table_wf t; i < table_size t; n \<in> set (nodes (buckets t ! i)); last_response n \<noteq> None\<rbrakk> \<Longrightarrow> belongs t n i"
  by (simp add: table_wf_def)

lemma bucket_node_fits:
  assumes wf: "table_wf t" and n: "status now n \<noteq> Bad" "belongs t n i"
    and room: "occupied now (buckets t ! i) < MAX_BUCKET_SIZE"
  shows "add_node now n t = Ok (t\<lparr>buckets := (buckets t)[i := snd (bucket_add_node now n (buckets t ! i))]\<rparr>)"
proof -
  have i: "i < table_size t" using wf n(2) by (rule belongs_less)
  with wf have "length (nodes (buckets t ! i)) = MAX_BUCKET_SIZE" by (auto simp: table_wf_def bucket_wf_def)
  with room n have "fst (bucket_add_node now n (buckets t ! i))" by (intro bucket_add_node_fits) auto
  with n i show ?thesis by (auto simp: add_node.simps bucket_node.simps belongs_def Let_def)
qed

definition room_for :: "datetime \<Rightarrow> routing_table \<Rightarrow> node list \<Rightarrow> bool" where
  "room_for now t ns \<longleftrightarrow>
     (\<forall>n \<in> set ns. status now n \<noteq> Bad \<longrightarrow>
        (\<exists>i. belongs t n i \<and> occupied now (buckets t ! i) + length ns \<le> MAX_BUCKET_SIZE))"

lemma add_nodes_fits:
  assumes "table_wf t" and "room_for now t ns"
  shows "\<exists>t'. add_nodes now ns t = Ok t' \<and> table_wf t' \<and> table_size t' = table_size t \<and>
    table_node_id t' = table_node_id t \<and> good_contacts now t \<subseteq> good_contacts now t' \<and>
    (\<forall>n \<in> set ns. status now n = Good \<longrightarrow> contact n \<in> good_contacts now t')"
  using assms
proof (induction ns arbitrary: t)
  case (Cons n ns)
  show ?case
  proof (cases "status now n = Bad")
    case True
    from Cons.prems have "room_for now t ns" by (force simp: room_for_def)
    with Cons.IH [OF Cons.prems(1)] True show ?thesis by (auto simp: add_node.simps)
  next
    case False
    with Cons.prems(2) obtain i where i: "belongs t n i" "occupied now (buckets t ! i) + Suc (length ns) \<le> MAX_BUCKET_SIZE"
      by (auto simp: room_for_def)
    note len = belongs_less [OF Cons.prems(1) i(1)]
    let ?b = "snd (bucket_add_node now n (buckets t ! i))"
    let ?t = "t\<lparr>buckets := (buckets t)[i := ?b]\<rparr>"
    have add: "add_node now n t = Ok ?t" using i False Cons.prems by (intro bucket_node_fits) auto
    have bl: "length (nodes (buckets t ! i)) = MAX_BUCKET_SIZE"
      using Cons.prems(1) len by (auto simp: table_wf_def bucket_wf_def)
    have wf: "table_wf ?t" using Cons.prems(1) False i(1) by (rule table_wf_update)
    have occ: "occupied now ?b \<le> Suc (occupied now (buckets t ! i))"
      and g: "status now n = Good \<Longrightarrow> contact n \<in> good_contacts now ?t"
      using bucket_add_node_fits(2,3) [OF False, of "buckets t ! i"] i(2) bl len
      by (auto simp: good_contacts_def set_update_memI)
    have "room_for now ?t ns" unfolding room_for_def
    proof (intro ballI impI)
      fix m assume "m \<in> set ns" "status now m \<noteq> Bad"
      with Cons.prems(2) obtain j where "belongs t m j" "occupied now (buckets t ! j) + Suc (length ns) \<le> MAX_BUCKET_SIZE"
        by (auto simp: room_for_def)
      with occ len show "\<exists>i. belongs ?t m i \<and> occupied now (buckets ?t ! i) + length ns \<le> MAX_BUCKET_SIZE"
        by (intro exI [of _ j]) (auto simp: belongs_def nth_list_update)
    qed
    from Cons.IH [OF wf this] obtain t' where t': "add_nodes now ns ?t = Ok t'" "table_wf t'"
        "table_size t' = table_size t" "table_node_id t' = table_node_id t" "good_contacts now ?t \<subseteq> good_contacts now t'"
        "\<forall>n \<in> set ns. status now n = Good \<longrightarrow> contact n \<in> good_contacts now t'" by auto
    moreover have "good_contacts now t \<subseteq> good_contacts now t'"
      using good_contacts_update [OF len] t'(5) by (rule subset_trans)
    moreover have "status now n = Good \<Longrightarrow> contact n \<in> good_contacts now t'" using g t'(5) by blast
    ultimately show ?thesis using add by simp
  qed
qed simp

lemma split_bucket_wf:
  assumes wf: "table_wf t" and split: "can_split_bucket (table_size t) i"
  shows "\<exists>t'. split_bucket now i t = Ok (True, t') \<and> table_wf t' \<and> table_size t' = Suc (table_size t) \<and>
    table_node_id t' = table_node_id t \<and> good_contacts now t \<subseteq> good_contacts now t'"
proof -
  let ?t = "t\<lparr>buckets := butlast (buckets t) @ [bucket_new] @ [bucket_new]\<rparr>" and ?ns = "nodes (last (buckets t))"
  from wf have ne: "buckets t \<noteq> []" by (auto simp: table_wf_def)
  have size: "table_size ?t = Suc (table_size t)" using ne by (cases "buckets t" rule: rev_cases) auto
  have small: "table_size t < MAX_BUCKETS" using wf split by (auto simp: table_wf_def can_split_bucket_def)
  have last: "last (buckets t) = buckets t ! (table_size t - 1)" using ne by (rule last_conv_nth)
  have later: "bucket_placement k (Suc (table_size t)) = j" if "bucket_placement k (table_size t) = j" "j < table_size t - 1" for k j
    using that by (auto simp: bucket_placement_def Let_def split: if_splits)
  have "table_wf ?t" unfolding table_wf_def
  proof (intro conjI ballI allI impI)
    fix b assume "b \<in> set (buckets ?t)"
    with wf show "bucket_wf b" by (auto simp: table_wf_def bucket_wf_def dest: in_set_butlastD)
  next
    fix j n assume j: "j < table_size ?t" "n \<in> set (nodes (buckets ?t ! j))" "last_response n \<noteq> None"
    then have "j < table_size t - 1"
      by (cases "j < table_size t - 1") (auto simp: nth_append nth_Cons split: nat.splits if_splits)
    moreover from this j have "n \<in> set (nodes (buckets t ! j))" by (simp add: nth_append nth_butlast)
    moreover from calculation have "belongs t n j" using j(3) by (intro table_wf_belongs [OF wf]) auto
    ultimately show "belongs ?t n j" using later size by (simp add: belongs_def)
  qed (use size small in auto)
  moreover have "room_for now ?t ?ns" unfolding room_for_def
  proof (intro ballI impI)
    fix n assume n: "n \<in> set ?ns" "status now n \<noteq> Bad"
    then have b: "belongs t n (table_size t - 1)"
      using ne last by (intro table_wf_belongs [OF wf]) (auto dest: status_responded)
    let ?k = "leading_bit_count (table_node_id t) (node_ident n)"
    have "bucket_placement ?k (Suc (table_size t)) \<in> {table_size t - 1, table_size t}"
      using b by (auto simp: belongs_def bucket_placement_def Let_def split: if_splits)
    then have "buckets ?t ! bucket_placement ?k (Suc (table_size t)) = bucket_new"
      using ne by (auto simp: nth_append)
    moreover have "length ?ns = MAX_BUCKET_SIZE" using wf ne by (auto simp: table_wf_def bucket_wf_def)
    ultimately show "\<exists>i. belongs ?t n i \<and> occupied now (buckets ?t ! i) + length ?ns \<le> MAX_BUCKET_SIZE"
      using b size by (intro exI [of _ "bucket_placement ?k (Suc (table_size t))"])
        (auto simp: belongs_def occupied_def bucket_new_def)
  qed
  ultimately obtain t' where t': "add_nodes now ?ns ?t = Ok t'" "table_wf t'" "table_size t' = Suc (table_size t)"
      "table_node_id t' = table_node_id t" "good_contacts now ?t \<subseteq> good_contacts now t'"
      "\<forall>n \<in> set ?ns. status now n = Good \<longrightarrow> contact n \<in> good_contacts now t'"
    using add_nodes_fits [of ?t now ?ns] size by auto
  have "set (buckets t) = insert (last (buckets t)) (set (butlast (buckets t)))"
    using ne by (cases "buckets t" rule: rev_cases) auto
  then have "good_contacts now t \<subseteq> contact ` {n \<in> set ?ns. status now n = Good} \<union> good_contacts now ?t"
    by (auto simp: good_contacts_def)
  also have "\<dots> \<subseteq> good_contacts now t'" using t'(5,6) by auto
  finally show ?thesis using t' split ne by (auto simp: split_bucket.simps)
qed

text \<open>What adding a node achieves: its bucket holds the contact with at least its status, or is full of
  nodes at least as good and cannot be split.\<close>

definition settled :: "datetime \<Rightarrow> node \<Rightarrow> routing_table \<Rightarrow> bool" where
  "settled now n t \<longleftrightarrow>
     (let i = bucket_placement (leading_bit_count (table_node_id t) (node_ident n)) (table_size t);
          ms = set (nodes (buckets t ! i))
      in (\<exists>m \<in> ms. contact m = contact n \<and> status now n \<le> status now m) \<or>
         (\<forall>m \<in> ms. status now n \<le> status now m) \<and> \<not> can_split_bucket (table_size t) i)"

lemma bucket_node_result:
  assumes "table_wf t" and "status now n \<noteq> Bad"
    and "k = leading_bit_count (table_node_id t) (node_ident n)" and "k \<noteq> MAX_BUCKETS"
  shows "\<exists>t'. bucket_node now n k t = Ok t' \<and> table_wf t' \<and> table_node_id t' = table_node_id t \<and>
    table_size t \<le> table_size t' \<and> good_contacts now t \<subseteq> good_contacts now t' \<and> settled now n t'"
  using assms
proof (induction "MAX_BUCKETS - table_size t" arbitrary: t rule: less_induct)
  case less
  let ?i = "bucket_placement k (table_size t)"
  have b: "belongs t n ?i" using less.prems by (simp add: belongs_def)
  note i = belongs_less [OF less.prems(1) b]
  obtain ok b' where add: "bucket_add_node now n (buckets t ! ?i) = (ok, b')" by (rule prod.exhaust)
  let ?t = "t\<lparr>buckets := (buckets t)[?i := b']\<rparr>"
  have t: "table_wf ?t" "good_contacts now t \<subseteq> good_contacts now ?t"
    using table_wf_update [OF less.prems(1,2) b] good_contacts_update [OF i, of now n] add by simp_all
  have unfold: "bucket_node now n k t = (if ok then Ok ?t else and_then (split_bucket now ?i ?t) (\<lambda>split.
      if fst split then bucket_node now n k (snd split) else Ok (snd split)))"
    using i add by (auto simp: bucket_node.simps [of now n k t] Let_def)
  from add show ?case
  proof (cases rule: bucket_add_node_cases)
    case full
    show ?thesis
    proof (cases "can_split_bucket (table_size t) ?i")
      case True
      then obtain t2 where t2: "split_bucket now ?i ?t = Ok (True, t2)" "table_wf t2" "table_size t2 = Suc (table_size t)"
          "table_node_id t2 = table_node_id t" "good_contacts now ?t \<subseteq> good_contacts now t2"
        using split_bucket_wf [OF t(1), of ?i now] by auto
      moreover have "MAX_BUCKETS - table_size t2 < MAX_BUCKETS - table_size t"
        using t2(2,3) by (auto simp: table_wf_def)
      ultimately show ?thesis using less.hyps [of t2] less.prems full t(2) unfold by fastforce
    next
      case False
      then have "settled now n ?t" using full(3,4) i less.prems(3) by (auto simp: settled_def Let_def)
      with False t full unfold show ?thesis by (simp add: split_bucket.simps)
    qed
  next
    case (kept m)
    then have "settled now n ?t"
      using i less.prems(3) by (auto simp: settled_def Let_def node_eq_contact intro!: bexI [of _ m])
    with t kept unfold show ?thesis by simp
  next
    case (placed j)
    then have "settled now n ?t"
      using i less.prems(3) by (auto simp: settled_def Let_def set_update_memI intro!: bexI [of _ n])
    with t placed unfold show ?thesis by simp
  qed (use less.prems in simp)
qed

lemma add_node_result:
  assumes "table_wf t"
  shows "\<exists>t'. add_node now n t = Ok t' \<and> table_wf t' \<and> table_node_id t' = table_node_id t \<and>
    good_contacts now t \<subseteq> good_contacts now t' \<and>
    (status now n \<noteq> Bad \<and> leading_bit_count (table_node_id t) (node_ident n) \<noteq> MAX_BUCKETS \<longrightarrow> settled now n t')"
  using assms bucket_node_result [OF assms, of now n] by (fastforce simp: add_node.simps Let_def)

section \<open>Reachable tables\<close>

text \<open>What happens to a table: it is created, nodes are added, and the times of a usable node found in it
  are set.\<close>

definition touch :: "nat \<Rightarrow> nat \<Rightarrow> (node \<Rightarrow> node) \<Rightarrow> routing_table \<Rightarrow> routing_table" where
  "touch i j f t = t\<lparr>buckets := (buckets t)[i := (buckets t ! i)\<lparr>nodes :=
     (nodes (buckets t ! i))[j := f (nodes (buckets t ! i) ! j)]\<rparr>]\<rparr>"

inductive reachable_table :: "node_id \<Rightarrow> routing_table \<Rightarrow> bool" where
  created: "reachable_table ident (routing_table_new ident)"
| added: "reachable_table ident t \<Longrightarrow> add_node now n t = Ok t' \<Longrightarrow> reachable_table ident t'"
| touched: "reachable_table ident t \<Longrightarrow> i < table_size t \<Longrightarrow> j < length (nodes (buckets t ! i)) \<Longrightarrow>
    status now (nodes (buckets t ! i) ! j) \<noteq> Bad \<Longrightarrow>
    f \<in> {local_request now, remote_request now, remote_response now} \<Longrightarrow> reachable_table ident (touch i j f t)"

lemma touch_wf:
  assumes wf: "table_wf t" and i: "i < table_size t" and j: "j < length (nodes (buckets t ! i))"
    and s: "status now (nodes (buckets t ! i) ! j) \<noteq> Bad"
    and f: "f \<in> {local_request now, remote_request now, remote_response now}"
  shows "table_wf (touch i j f t)"
proof -
  let ?b = "buckets t ! i"
  let ?b' = "?b\<lparr>nodes := (nodes ?b)[j := f (nodes ?b ! j)]\<rparr>"
  have c: "contact (f n) = contact n" "node_ident (f n) = node_ident n" for n
    using f by (auto simp: local_request_def remote_request_def remote_response_def contact_def)
  have "bucket_wf ?b" using wf i by (auto simp: table_wf_def)
  moreover have "contact ((nodes ?b)[j := f (nodes ?b ! j)] ! k) = contact (nodes ?b ! k)" if "k < length (nodes ?b)" for k
    using j c that by (simp add: nth_list_update)
  ultimately have "bucket_wf ?b'" by (auto simp: bucket_wf_def unique_contacts_def)
  with wf have "\<forall>b \<in> set ((buckets t)[i := ?b']). bucket_wf b"
    by (auto simp: table_wf_def dest: set_update_subset_insert [THEN subsetD])
  moreover have "belongs t n i" if "n \<in> set (nodes ?b')" "last_response n \<noteq> None" for n
  proof -
    from that(1) have "n = f (nodes ?b ! j) \<or> n \<in> set (nodes ?b)"
      by (auto dest: set_update_subset_insert [THEN subsetD])
    moreover have "belongs t (nodes ?b ! j) i"
      using table_wf_belongs [OF wf i nth_mem [OF j]] status_responded [OF s] by simp
    ultimately show ?thesis using table_wf_belongs [OF wf i] that(2) c by (auto simp: belongs_def)
  qed
  then have "belongs t n k"
    if "k < table_size t" "n \<in> set (nodes ((buckets t)[i := ?b'] ! k))" "last_response n \<noteq> None" for k n
    using that i table_wf_belongs [OF wf, of k n] by (cases "k = i") simp_all
  ultimately show ?thesis using wf by (simp add: table_wf_def belongs_def touch_def)
qed

lemma reachable_table_wf: "reachable_table ident t \<Longrightarrow> table_wf t \<and> table_node_id t = ident"
proof (induction rule: reachable_table.induct)
  case (added ident t now n t')
  then show ?case using add_node_result [of t now n] by auto
next
  case (touched ident t i j now f)
  then show ?case using touch_wf by (auto simp: touch_def)
qed simp

section \<open>Finding a node\<close>

lemma skip_next_eq:
  "m + k \<le> MAX_BUCKETS \<Longrightarrow>
   skip_next k \<lparr>bi_buckets = bs, bi_index = m\<rparr> = fst (buckets_next \<lparr>bi_buckets = bs, bi_index = m + k\<rparr>)"
proof (induction k arbitrary: m)
  case (Suc k)
  from Suc.prems have "m < MAX_BUCKETS" by simp
  then have "\<exists>c. buckets_next \<lparr>bi_buckets = bs, bi_index = m\<rparr> = (Some c, \<lparr>bi_buckets = bs, bi_index = Suc m\<rparr>)"
    unfolding buckets_next_def Let_def by simp
  with Suc.IH [of "Suc m"] Suc.prems show ?case by auto
qed simp

lemma find_node_eq:
  assumes "table_wf t" and "leading_bit_count (table_node_id t) (node_ident n) = k" and "k < MAX_BUCKETS"
  shows "find_node now n t =
    (if Suc k < table_size t \<or> table_size t = MAX_BUCKETS
     then List.find (\<lambda>m. node_eq m n) (pingable_nodes now (buckets t ! k)) else None)"
proof -
  have "skip_next k (buckets_new (buckets t)) = Some (if Suc k < table_size t \<or> table_size t = MAX_BUCKETS
      then Sorted (buckets t ! k) else Empty)"
    using skip_next_eq [of 0 k "buckets t"] assms(3) by (simp add: buckets_new_def buckets_next_def Let_def)
  then show ?thesis using assms(2) by (simp add: find_node_def Let_def)
qed

section \<open>The closest nodes\<close>

text \<open>An iterator yields a list of items and then \<open>None\<close>.\<close>

fun iterates :: "('s \<Rightarrow> 'a option \<times> 's) \<Rightarrow> 's \<Rightarrow> 'a list \<Rightarrow> bool" where
  "iterates nxt s [] \<longleftrightarrow> fst (nxt s) = None"
| "iterates nxt s (x # xs) \<longleftrightarrow> fst (nxt s) = Some x \<and> iterates nxt (snd (nxt s)) xs"

function visit_from :: "nat \<Rightarrow> nat \<Rightarrow> nat \<Rightarrow> nat list" where
  "visit_from num start cur =
     (case next_bucket_index num start cur of None \<Rightarrow> [] | Some i \<Rightarrow> i # visit_from num start i)"
  by pat_completeness auto
termination
proof (relation "measure (\<lambda>(num, start, cur). Suc (2 * (num + start)) - visit_rank start cur)", goal_cases)
  case (2 num start cur i)
  from next_bucket_index_Some [OF 2] show ?case using visit_rank_bound [of i num start] by auto
qed simp

declare visit_from.simps [simp del]

lemma visit_from_spec:
  assumes "start \<le> num"
  shows "set (visit_from num start cur) = {j. j < num \<and> visit_rank start cur < visit_rank start j} \<and>
    sorted_wrt (\<lambda>i j. visit_rank start i < visit_rank start j) (visit_from num start cur)"
  using assms
proof (induction num start cur rule: visit_from.induct)
  case (1 num start cur)
  show ?case
  proof (cases "next_bucket_index num start cur")
    case None
    then show ?thesis using next_bucket_index_None [OF None 1(2)]
      by (auto simp: visit_from.simps [of num start cur] not_less)
  next
    case (Some i)
    note n = next_bucket_index_Some [OF Some]
    have "{j. j < num \<and> visit_rank start cur < visit_rank start j} =
        insert i {j. j < num \<and> visit_rank start i < visit_rank start j}"
      using n visit_rank_inj [of start i] by (auto simp: order.order_iff_strict)
    with 1(1) [OF Some 1(2)] Some show ?thesis by (auto simp: visit_from.simps [of num start cur])
  qed
qed

lemma rank_sorted_distinct: "sorted_wrt (\<lambda>i j. f i < (f j :: nat)) xs \<Longrightarrow> distinct xs"
  by (induction xs) auto

text \<open>What an iterator still has to yield.\<close>

definition assorted_at :: "datetime \<Rightarrow> nat \<Rightarrow> (nat \<times> node \<times> bool) list option \<Rightarrow> node list" where
  "assorted_at now index tups =
     (case tups of None \<Rightarrow> []
      | Some ts \<Rightarrow> map (\<lambda>(i, n, r). n) (filter (\<lambda>(i, n, r). is_good_node now n \<and> i = index \<and> \<not> r) ts))"

definition sorted_at :: "datetime \<Rightarrow> node list option \<Rightarrow> node list" where
  "sorted_at now it = (case it of None \<Rightarrow> [] | Some ns \<Rightarrow> filter (is_good_node now) ns)"

definition at_index :: "datetime \<Rightarrow> closest_nodes \<Rightarrow> nat \<Rightarrow> node list" where
  "at_index now s i = sorted_at now (bucket_iterator (cn_buckets s) i) @ assorted_at now i (assorted_nodes s)"

definition remaining :: "datetime \<Rightarrow> closest_nodes \<Rightarrow> node list" where
  "remaining now s =
     sorted_at now (current_iter s) @ assorted_at now (current_index s) (assorted_nodes s) @
     concat (map (at_index now s) (visit_from MAX_BUCKETS (start_index s) (current_index s)))"

lemma filter_next_eq:
  "filter_next p xs = (case filter p xs of [] \<Rightarrow> (None, []) | x # _ \<Rightarrow> (Some x, tl (dropWhile (\<lambda>x. \<not> p x) xs)))"
  by (induction xs) (auto simp: filter_next_def split: list.splits)

lemma filter_tl_dropWhile: "filter p xs = x # ys \<Longrightarrow> filter p (tl (dropWhile (\<lambda>x. \<not> p x) xs)) = ys"
  by (induction xs) (auto split: if_splits)

lemma next_in_bucket_spec:
  "case sorted_at now (current_iter s) of
     [] \<Rightarrow> fst (next_in_bucket now s) = None \<and> sorted_at now (current_iter (snd (next_in_bucket now s))) = []
   | n # ns \<Rightarrow> fst (next_in_bucket now s) = Some n \<and> sorted_at now (current_iter (snd (next_in_bucket now s))) = ns"
  by (auto simp: next_in_bucket_def sorted_at_def filter_next_eq filter_tl_dropWhile split: option.split list.split)

lemma filter_first_update:
  assumes "position p xs = Some j" and "\<not> p y"
  shows "filter p xs = xs ! j # filter p (xs[j := y])"
proof -
  from assms have j: "j < length xs" "p (xs ! j)" "\<forall>x \<in> set (take j xs). \<not> p x"
    by (auto simp: position_Some_iff in_set_conv_nth)
  have "filter p xs = filter p (take j xs @ xs ! j # drop (Suc j) xs)" using j(1) by (simp add: id_take_nth_drop [symmetric])
  moreover have "filter p (xs[j := y]) = filter p (take j xs @ y # drop (Suc j) xs)" using j(1) by (simp add: upd_conv_take_nth_drop)
  moreover have "filter p (take j xs) = []" using j(3) by simp
  ultimately show ?thesis using j(2) assms(2) by simp
qed

lemma filter_same_update:
  assumes "j < length xs" and "\<not> p (xs ! j)" and "\<not> p y"
  shows "filter p (xs[j := y]) = filter p xs"
proof -
  have "filter p xs = filter p (take j xs @ xs ! j # drop (Suc j) xs)" using assms(1) by (simp add: id_take_nth_drop [symmetric])
  then show ?thesis using assms by (simp add: upd_conv_take_nth_drop)
qed

lemma next_assorted_spec:
  "case assorted_at now (current_index s) (assorted_nodes s) of
     [] \<Rightarrow> fst (next_assorted now s) = None \<and> snd (next_assorted now s) = s
   | n # ns \<Rightarrow> fst (next_assorted now s) = Some n \<and>
       assorted_at now (current_index s) (assorted_nodes (snd (next_assorted now s))) = ns \<and>
       (\<forall>i. i \<noteq> current_index s \<longrightarrow>
          assorted_at now i (assorted_nodes (snd (next_assorted now s))) = assorted_at now i (assorted_nodes s))"
proof (cases "assorted_nodes s")
  case (Some ts)
  let ?P = "\<lambda>index (i, n, r). is_good_node now n \<and> i = index \<and> \<not> r"
  show ?thesis
  proof (cases "position (?P (current_index s)) ts")
    case None
    then have "filter (?P (current_index s)) ts = []" by (auto simp: position_None_iff)
    with None Some show ?thesis by (simp add: next_assorted_def take_assorted_def assorted_at_def)
  next
    case (Some j)
    obtain i n r where t: "ts ! j = (i, n, r)" by (rule prod_cases3)
    have j: "j < length ts" "i = current_index s" using Some t by (auto simp: position_Some_iff)
    have "filter (?P (current_index s)) ts = (i, n, r) # filter (?P (current_index s)) (ts[j := (i, n, True)])"
      using filter_first_update [OF Some, of "(i, n, True)"] t by simp
    moreover have "filter (?P index) (ts[j := (i, n, True)]) = filter (?P index) ts" if "index \<noteq> current_index s" for index
      using j t that by (intro filter_same_update) auto
    ultimately show ?thesis using Some t \<open>assorted_nodes s = Some ts\<close>
      by (simp add: next_assorted_def take_assorted_def assorted_at_def)
  qed
qed (simp add: assorted_at_def next_assorted_def)

lemma at_index_cong:
  "cn_buckets s' = cn_buckets s \<Longrightarrow> assorted_at now i (assorted_nodes s') = assorted_at now i (assorted_nodes s) \<Longrightarrow>
   at_index now s' i = at_index now s i"
  by (simp add: at_index_def)

lemma visit_from_later: "start \<le> num \<Longrightarrow> i \<in> set (visit_from num start cur) \<Longrightarrow> i \<noteq> cur"
  using visit_from_spec [of start num cur] by auto

lemma closest_next_remaining:
  assumes "start_index s \<le> MAX_BUCKETS"
  shows "case remaining now s of
      [] \<Rightarrow> fst (closest_next now s) = None
    | n # ns \<Rightarrow> fst (closest_next now s) = Some n \<and> remaining now (snd (closest_next now s)) = ns \<and>
        start_index (snd (closest_next now s)) = start_index s"
  using assms
proof (induction now s rule: closest_next.induct)
  case (1 now s)
  obtain r1 s1 where r1: "next_in_bucket now s = (r1, s1)" by (rule prod.exhaust)
  note f1 = next_frame(1-4) [of now s, unfolded r1 snd_conv] and b1 = next_in_bucket_spec [of now s, unfolded r1 fst_conv snd_conv]
  obtain r2 s2 where r2: "next_assorted now s1 = (r2, s2)" by (rule prod.exhaust)
  note f2 = next_frame(5-8) [of now s1, unfolded r2 snd_conv]
    and b2 = next_assorted_spec [of now s1, unfolded r2 fst_conv snd_conv]
  have at1: "at_index now s1 = at_index now s" using f1 by (simp add: at_index_def fun_eq_iff)
  show ?case
  proof (cases "sorted_at now (current_iter s)")
    case (Cons n ns)
    then show ?thesis using b1 r1 f1 at1 by (simp add: closest_next.simps [of now s] remaining_def)
  next
    case Nil
    with b1 have n1: "r1 = None" "sorted_at now (current_iter s1) = []" by simp_all
    show ?thesis
    proof (cases "assorted_at now (current_index s1) (assorted_nodes s1)")
      case (Cons n ns)
      with b2 have n2: "r2 = Some n" "assorted_at now (current_index s1) (assorted_nodes s2) = ns"
        "\<And>i. i \<noteq> current_index s1 \<Longrightarrow> assorted_at now i (assorted_nodes s2) = assorted_at now i (assorted_nodes s1)"
        by simp_all
      let ?is = "visit_from MAX_BUCKETS (start_index s) (current_index s)"
      have "concat (map (at_index now s2) ?is) = concat (map (at_index now s) ?is)"
        using visit_from_later [OF 1(2)] n2(3) f1 f2
        by (intro arg_cong [where f = concat] map_cong refl at_index_cong) auto
      then show ?thesis using Nil Cons n1 n2(1,2) r1 r2 f1 f2
        by (simp add: closest_next.simps [of now s] remaining_def)
    next
      case Nil2: Nil
      with b2 have n2: "r2 = None" "s2 = s1" by simp_all
      show ?thesis
      proof (cases "next_bucket_index MAX_BUCKETS (start_index s) (current_index s)")
        case None
        then show ?thesis using Nil Nil2 n1 n2 r1 r2 f1
          by (simp add: closest_next.simps [of now s] remaining_def visit_from.simps)
      next
        case (Some i)
        let ?s = "s1\<lparr>current_index := i, current_iter := bucket_iterator (cn_buckets s1) i\<rparr>"
        have "at_index now ?s = at_index now s" using f1 by (simp add: at_index_def fun_eq_iff)
        then have "remaining now ?s = remaining now s"
          using Nil Nil2 f1 Some visit_from.simps [of MAX_BUCKETS "start_index s" "current_index s"]
          by (simp add: remaining_def at_index_def)
        moreover have "closest_next now s = closest_next now ?s"
          using n1 n2 r1 r2 f1 Some by (simp add: closest_next.simps [of now s])
        moreover have "case remaining now ?s of [] \<Rightarrow> fst (closest_next now ?s) = None
          | n # ns \<Rightarrow> fst (closest_next now ?s) = Some n \<and> remaining now (snd (closest_next now ?s)) = ns \<and>
              start_index (snd (closest_next now ?s)) = start_index ?s"
          using 1(1) [of r1 s1 r2 s1 i] r1 r2 n1 n2 f1 Some 1(2) by simp
        ultimately show ?thesis using f1 by (cases "remaining now s") simp_all
      qed
    qed
  qed
qed

lemma closest_next_iterates:
  "start_index s \<le> MAX_BUCKETS \<Longrightarrow> remaining now s = xs \<Longrightarrow> iterates (closest_next now) s xs"
proof (induction xs arbitrary: s)
  case Nil
  with closest_next_remaining [of s now] show ?case by simp
next
  case (Cons x xs)
  with closest_next_remaining [of s now] show ?case by auto
qed

text \<open>At the start an iterator has every usable node of the table to yield, ordered by the distance of
  their buckets from the one of the target.\<close>

lemma is_good_node_iff: "is_good_node now n \<longleftrightarrow> status now n \<noteq> Bad"
  by (cases "status now n") (simp_all add: is_good_node_def)

lemma pingable_nodes_eq: "pingable_nodes now b = filter (is_good_node now) (nodes b)"
  by (simp add: pingable_nodes_def pingable_iff is_good_node_iff cong: filter_cong)

definition shared :: "routing_table \<Rightarrow> node \<Rightarrow> nat" where
  "shared t n = leading_bit_count (table_node_id t) (node_ident n)"

text \<open>The nodes an index stands for: those of the sorted bucket, or those of the assorted bucket that
  share that many bits.\<close>

definition nodes_at :: "datetime \<Rightarrow> routing_table \<Rightarrow> nat \<Rightarrow> node list" where
  "nodes_at now t i =
     (if table_size t = MAX_BUCKETS then (if i < MAX_BUCKETS then pingable_nodes now (buckets t ! i) else [])
      else (if Suc i < table_size t then pingable_nodes now (buckets t ! i) else []) @
           filter (\<lambda>n. shared t n = i) (pingable_nodes now (last (buckets t))))"

lemma at_index_new:
  assumes wf: "table_wf t" and s: "table_closest_nodes t target = Ok s"
  shows "at_index now s i = nodes_at now t i" "cn_buckets s = buckets t"
    "start_index s = leading_bit_count (table_node_id t) target"
    "remaining now s = concat (map (nodes_at now t) (start_index s # visit_from MAX_BUCKETS (start_index s) (start_index s)))"
proof -
  from wf have len: "length (nodes (last (buckets t))) = MAX_BUCKET_SIZE" "buckets t \<noteq> []"
    by (auto simp: table_wf_def bucket_wf_def)
  then obtain n0 ns where ns: "nodes (last (buckets t)) = n0 # ns" by (cases "nodes (last (buckets t))") (auto simp: MAX_BUCKET_SIZE_def)
  have a: "assorted_at now i (precompute_assorted_nodes (buckets t) (table_node_id t)) =
      (if table_size t = MAX_BUCKETS then [] else filter (\<lambda>n. shared t n = i) (pingable_nodes now (last (buckets t))))" for i
  proof -
    have "map (\<lambda>(i, n, r). n) (filter (\<lambda>(i', n, r). is_good_node now n \<and> i' = i \<and> \<not> r)
        (map (\<lambda>n. (shared t n, n, False)) xs)) = filter (\<lambda>n. shared t n = i) (filter (is_good_node now) xs)" for xs
      by (induction xs) auto
    from this [of "nodes (last (buckets t))"] show ?thesis using ns len(1)
      by (simp add: precompute_assorted_nodes_def assorted_at_def pingable_nodes_eq shared_def)
  qed
  have b: "sorted_at now (bucket_iterator (buckets t) i) = (if (if table_size t = MAX_BUCKETS then i < MAX_BUCKETS else Suc i < table_size t)
      then pingable_nodes now (buckets t ! i) else [])" for i
    by (auto simp: bucket_iterator_def sorted_at_def get_slice_def pingable_nodes_eq nth_butlast)
  from s len(2) have s': "s = \<lparr>cn_buckets = buckets t,
      current_iter = bucket_iterator (buckets t) (leading_bit_count (table_node_id t) target),
      current_index = leading_bit_count (table_node_id t) target,
      start_index = leading_bit_count (table_node_id t) target,
      assorted_nodes = precompute_assorted_nodes (buckets t) (table_node_id t)\<rparr>"
    by (simp add: table_closest_nodes_def closest_nodes_new_def Let_def)
  show at: "at_index now s i = nodes_at now t i" for i by (simp add: at_index_def s' a b nodes_at_def)
  show "cn_buckets s = buckets t" "start_index s = leading_bit_count (table_node_id t) target" by (simp_all add: s')
  have "remaining now s = concat (map (at_index now s) (start_index s # visit_from MAX_BUCKETS (start_index s) (start_index s)))"
    by (simp add: remaining_def at_index_def s')
  moreover have "at_index now s = nodes_at now t" by (rule ext) (rule at)
  ultimately show "remaining now s = concat (map (nodes_at now t) (start_index s # visit_from MAX_BUCKETS (start_index s) (start_index s)))"
    by simp
qed

lemma nodes_at_shared:
  assumes wf: "table_wf t" and n: "n \<in> set (nodes_at now t i)"
  shows "shared t n = i"
proof -
  have *: "shared t n = j" if "n \<in> set (pingable_nodes now (buckets t ! j))" "j < table_size t"
      "Suc j < table_size t \<or> table_size t = MAX_BUCKETS" for j
  proof -
    from that have "belongs t n j"
      by (intro table_wf_belongs [OF wf]) (auto simp: pingable_nodes_eq is_good_node_iff dest: status_responded)
    with that show ?thesis using leading_bit_count_le [of "table_node_id t" "node_ident n"]
      by (auto simp: belongs_def shared_def bucket_placement_def Let_def split: if_splits)
  qed
  from n * [of i] show ?thesis by (auto simp: nodes_at_def split: if_splits)
qed

lemma mset_concat_distinct: "distinct is \<Longrightarrow> mset (concat (map f is)) = (\<Sum>i \<in> set is. mset (f i))"
  by (induction "is") auto

lemma sum_filter_eq:
  assumes "\<forall>x \<in> set xs. f x < (N :: nat)"
  shows "(\<Sum>i < N. mset (filter (\<lambda>x. f x = i) xs)) = mset xs"
  using assms
proof (induction xs)
  case (Cons x xs)
  have "(\<Sum>i < N. mset (filter (\<lambda>y. f y = i) (x # xs))) =
      (\<Sum>i < N. (if f x = i then {#x#} else {#}) + mset (filter (\<lambda>y. f y = i) xs))"
    by (intro sum.cong) auto
  moreover have "(\<Sum>i < N. if f x = i then {#x#} else {#}) = {#x#}"
    using Cons.prems sum.delta' [of "{..<N}" "f x" "\<lambda>_. {#x#}"] by simp
  ultimately have "(\<Sum>i < N. mset (filter (\<lambda>y. f y = i) (x # xs))) = {#x#} + mset xs"
    using Cons by (simp add: sum.distrib)
  then show ?case by simp
qed simp

lemma mset_prefix: "mset (concat (map F [0..<k])) = (\<Sum>i < k. mset (F i))"
  by (simp add: mset_concat_distinct atLeast0LessThan)

lemma remaining_new:
  assumes wf: "table_wf t" and s: "table_closest_nodes t target = Ok s"
  shows "mset (remaining now s) = mset (concat (map (pingable_nodes now) (buckets t)))"
    and "sorted_wrt (\<lambda>m n. visit_rank (start_index s) (shared t m) \<le> visit_rank (start_index s) (shared t n)) (remaining now s)"
proof -
  let ?start = "start_index s" and ?f = "nodes_at now t"
  let ?is = "?start # visit_from MAX_BUCKETS ?start ?start"
  note new = at_index_new(2,3) [OF wf s] at_index_new(4) [OF wf s, of now]
  have start: "?start \<le> MAX_BUCKETS" by (simp add: new(2) leading_bit_count_le)
  note v = visit_from_spec [OF start, of ?start]
  have rank: "visit_rank ?start ?start = 0" by (simp add: visit_rank_def)
  then have "{j. j < MAX_BUCKETS \<and> visit_rank ?start ?start < visit_rank ?start j} = {..<MAX_BUCKETS} - {?start}"
    using visit_rank_inj [of ?start _ ?start] by auto
  with v have set: "set ?is = insert ?start {..<MAX_BUCKETS}" by auto
  have sorted: "sorted_wrt (\<lambda>i j. visit_rank ?start i < visit_rank ?start j) ?is" using v rank by auto
  have real: "shared t n < MAX_BUCKETS" if "n \<in> set (pingable_nodes now (last (buckets t)))" for n
  proof -
    from wf have ne: "buckets t \<noteq> []" by (auto simp: table_wf_def)
    then have "belongs t n (table_size t - 1)" using that
      by (intro table_wf_belongs [OF wf]) (auto simp: last_conv_nth pingable_nodes_eq is_good_node_iff dest: status_responded)
    then show ?thesis using leading_bit_count_le [of "table_node_id t" "node_ident n"] by (auto simp: belongs_def shared_def)
  qed
  then have "filter (\<lambda>n. shared t n = MAX_BUCKETS) (pingable_nodes now (last (buckets t))) = []"
    unfolding filter_empty_conv by (metis less_irrefl)
  then have "?f MAX_BUCKETS = []" using wf by (auto simp: nodes_at_def table_wf_def)
  then have "(\<Sum>i \<in> set ?is. mset (?f i)) = (\<Sum>i < MAX_BUCKETS. mset (?f i))"
    unfolding set using start by (cases "?start < MAX_BUCKETS") (auto simp: insert_absorb)
  then have "mset (remaining now s) = (\<Sum>i < MAX_BUCKETS. mset (?f i))"
    unfolding new(3) by (subst mset_concat_distinct [OF rank_sorted_distinct [OF sorted]])
  also have "\<dots> = mset (concat (map (pingable_nodes now) (buckets t)))"
  proof (cases "table_size t = MAX_BUCKETS")
    case True
    have "map (\<lambda>i. pingable_nodes now (buckets t ! i)) [0..<table_size t] = map (pingable_nodes now) (buckets t)"
      by (simp add: map_equality_iff)
    then show ?thesis using True mset_prefix [of "\<lambda>i. pingable_nodes now (buckets t ! i)" "table_size t"]
      by (simp add: nodes_at_def)
  next
    case False
    with wf obtain bs b where bs: "buckets t = bs @ [b]" "length bs < MAX_BUCKETS"
      by (cases "buckets t" rule: rev_cases) (auto simp: table_wf_def)
    have "map (\<lambda>i. pingable_nodes now ((bs @ [b]) ! i)) [0..<length bs] = map (pingable_nodes now) bs"
      by (simp add: map_equality_iff nth_append)
    then have p: "(\<Sum>i < length bs. mset (pingable_nodes now (buckets t ! i))) = mset (concat (map (pingable_nodes now) bs))"
      using mset_prefix [of "\<lambda>i. pingable_nodes now (buckets t ! i)" "length bs"] bs(1) by simp
    have "(\<Sum>i < MAX_BUCKETS. mset (?f i)) =
        (\<Sum>i < MAX_BUCKETS. if i < length bs then mset (pingable_nodes now (buckets t ! i)) else {#}) +
        (\<Sum>i < MAX_BUCKETS. mset (filter (\<lambda>n. shared t n = i) (pingable_nodes now b)))"
      unfolding sum.distrib [symmetric] using False bs(1) by (intro sum.cong) (auto simp: nodes_at_def)
    also have "(\<Sum>i < MAX_BUCKETS. if i < length bs then mset (pingable_nodes now (buckets t ! i)) else {#}) =
        (\<Sum>i < length bs. mset (pingable_nodes now (buckets t ! i)))"
      using bs(2) by (intro sum.mono_neutral_cong_right) auto
    also have "(\<Sum>i < MAX_BUCKETS. mset (filter (\<lambda>n. shared t n = i) (pingable_nodes now b))) = mset (pingable_nodes now b)"
      using real bs(1) by (intro sum_filter_eq) auto
    finally show ?thesis using p bs(1) by simp
  qed
  finally show "mset (remaining now s) = mset (concat (map (pingable_nodes now) (buckets t)))" .
  have "sorted_wrt (\<lambda>m n. visit_rank ?start (shared t m) \<le> visit_rank ?start (shared t n)) (concat (map ?f js))"
    if "sorted_wrt (\<lambda>i j. visit_rank ?start i < visit_rank ?start j) js" for js
    using that
  proof (induction js)
    case (Cons j js)
    have "sorted_wrt (\<lambda>m n. visit_rank ?start (shared t m) \<le> visit_rank ?start (shared t n)) (?f j)"
      using nodes_at_shared [OF wf] by (intro sorted_wrt_mono_rel [OF _ sorted_wrt_true]) auto
    with Cons show ?case using nodes_at_shared [OF wf] by (force simp: sorted_wrt_append)
  qed simp
  from this [OF sorted] show "sorted_wrt (\<lambda>m n. visit_rank ?start (shared t m) \<le> visit_rank ?start (shared t n)) (remaining now s)"
    unfolding new(3) .
qed

section \<open>Properties\<close>

definition sample_table :: routing_table where
  "sample_table = routing_table_new (ShaHash (replicate 20 0))"

definition sample_node :: "datetime \<Rightarrow> node" where
  "sample_node now = as_good now (ShaHash (0x40 # replicate 19 0)) (V4 \<lparr>v4_ip = Ipv4Addr 10 0 0 1, v4_port = 6881\<rparr>)"

lemma sample_wf: "table_wf sample_table"
  by (simp add: sample_table_def)

lemma sample_shared: "leading_bit_count (table_node_id sample_table) (node_ident (sample_node now)) = 1"
  unfolding sample_table_def routing_table_new_def sample_node_def as_good_def by code_simp

lemma sample_status: "status now (sample_node now) = Good"
  by (simp add: status_def recently_responded_def sample_node_def as_good_def duration_minutes_def MAX_LAST_SEEN_MINS_def)

definition filled_table :: routing_table where
  "filled_table = sample_table\<lparr>buckets := [\<lparr>nodes = sample_node 5 # replicate 7 placeholder\<rparr>]\<rparr>"

lemma sample_bucket_add:
  "snd (bucket_add_node 5 (sample_node 5) (buckets sample_table ! 0)) = \<lparr>nodes = sample_node 5 # replicate 7 placeholder\<rparr>"
proof -
  have "\<not> node_eq placeholder (sample_node 5)" by code_simp
  moreover have "status 5 placeholder < Good" by (simp add: less_node_status_def)
  ultimately show ?thesis using sample_status [of 5]
    by (simp add: bucket_add_node_def sample_table_def routing_table_new_def bucket_new_def MAX_BUCKET_SIZE_def numeral_eq_Suc)
qed

lemma sample_belongs: "belongs sample_table (sample_node 5) 0"
  using sample_shared [of 5]
  by (simp add: belongs_def MAX_BUCKETS_def SHA_HASH_LEN_def bucket_placement_def sample_table_def routing_table_new_def)

lemma filled_table_eq:
  "filled_table = sample_table\<lparr>buckets := (buckets sample_table)[0 := snd (bucket_add_node 5 (sample_node 5) (buckets sample_table ! 0))]\<rparr>"
  unfolding sample_bucket_add by (simp add: filled_table_def sample_table_def routing_table_new_def)

lemma filled_wf: "table_wf filled_table"
  using table_wf_update [OF sample_wf _ sample_belongs, of 5] sample_status [of 5] by (simp add: filled_table_eq)

lemma filled_added: "add_node 5 (sample_node 5) sample_table = Ok filled_table"
proof -
  have "occupied 5 (buckets sample_table ! 0) < MAX_BUCKET_SIZE"
    by (simp add: occupied_def sample_table_def routing_table_new_def bucket_new_def MAX_BUCKET_SIZE_def)
  with bucket_node_fits [OF sample_wf _ sample_belongs this] sample_status [of 5] show ?thesis by (simp add: filled_table_eq)
qed

lemma filled_pingable: "concat (map (pingable_nodes 5) (buckets filled_table)) = [sample_node 5]"
  using sample_status [of 5] by (simp add: filled_table_def pingable_nodes_def pingable_iff)

text \<open>C14: Whatever nodes are added at whatever times and however the nodes of a table are touched, the table
  has between 1 and 160 buckets of eight places, no contact appears twice in a bucket, every node that ever
  responded lies in the bucket of the bits it shares with the local id and is not the local node itself; and
  adding a further node never panics.\<close>

theorem routing_table_invariant:
  assumes "reachable_table ident t"
  shows "table_wf t \<and> table_node_id t = ident \<and> (\<forall>now n. \<exists>t'. add_node now n t = Ok t' \<and> table_wf t')"
  using reachable_table_wf [OF assms] add_node_result [of t] by blast

theorem routing_table_invariant_witness:
  "\<exists>t'. add_node 5 (sample_node 5) sample_table = Ok t' \<and> table_wf t'"
  using routing_table_invariant [OF reachable_table.created, of "ShaHash (replicate 20 0)"]
  by (auto simp: sample_table_def)

text \<open>C15: Adding a node loses no good contact, also when it splits buckets; and a usable node with another id
  than ours ends in its bucket, unless that bucket cannot be split and all its nodes are at least as good.\<close>

theorem add_node_keeps_good:
  assumes "table_wf t"
  shows "\<exists>t'. add_node now n t = Ok t' \<and> good_contacts now t \<subseteq> good_contacts now t' \<and>
    (status now n \<noteq> Bad \<and> leading_bit_count (table_node_id t) (node_ident n) \<noteq> MAX_BUCKETS \<longrightarrow> settled now n t')"
  using add_node_result [OF assms] by blast

theorem add_node_keeps_good_witness:
  "\<exists>t'. add_node 5 (sample_node 5) sample_table = Ok t' \<and> settled 5 (sample_node 5) t'"
  using add_node_keeps_good [OF sample_wf, of 5 "sample_node 5"] sample_shared [of 5] sample_status [of 5]
  by (auto simp: MAX_BUCKETS_def SHA_HASH_LEN_def)

text \<open>C16: The iterator over the closest nodes ends, yields every usable node of the table exactly once and
  nothing else, in the order of the distance of their buckets from the bucket of the target, the nearer to
  our own id first among two at the same distance.\<close>

theorem closest_nodes_complete:
  assumes "table_wf t"
  shows "\<exists>it found. table_closest_nodes t target = Ok it \<and> iterates (closest_next now) it found \<and>
    mset found = mset (concat (map (pingable_nodes now) (buckets t))) \<and>
    sorted_wrt (\<lambda>m n. visit_rank (leading_bit_count (table_node_id t) target) (shared t m)
      \<le> visit_rank (leading_bit_count (table_node_id t) target) (shared t n)) found"
proof -
  from assms obtain it where it: "table_closest_nodes t target = Ok it"
    by (auto simp: table_wf_def table_closest_nodes_def closest_nodes_new_def Let_def)
  note start = at_index_new(3) [OF assms it]
  have "iterates (closest_next now) it (remaining now it)"
    by (rule closest_next_iterates) (simp_all add: start leading_bit_count_le)
  with it remaining_new [OF assms it, of now] show ?thesis unfolding start by blast
qed

theorem closest_nodes_complete_witness:
  "add_node 5 (sample_node 5) sample_table = Ok filled_table \<and>
   (\<exists>it. table_closest_nodes filled_table (ShaHash (replicate 20 7)) = Ok it \<and> iterates (closest_next 5) it [sample_node 5])"
  using closest_nodes_complete [OF filled_wf, of "ShaHash (replicate 20 7)" 5] filled_added filled_pingable by auto

text \<open>Looking up a node consults its sorted bucket only: as long as that bucket has not been split off, a
  node is never found, although the table holds it in its last bucket.\<close>

theorem find_node_misses_assorted:
  assumes "table_wf t" and "leading_bit_count (table_node_id t) (node_ident n) = k" and "k < MAX_BUCKETS"
  shows "find_node now n t =
    (if Suc k < table_size t \<or> table_size t = MAX_BUCKETS
     then List.find (\<lambda>m. node_eq m n) (pingable_nodes now (buckets t ! k)) else None)"
  using assms by (rule find_node_eq)

theorem find_node_misses_assorted_witness:
  "\<exists>t'. add_node 5 (sample_node 5) sample_table = Ok t' \<and>
     contact (sample_node 5) \<in> good_contacts 5 t' \<and> find_node 5 (sample_node 5) t' = None"
proof -
  have "find_node 5 (sample_node 5) filled_table = None"
    using find_node_misses_assorted [OF filled_wf, of "sample_node 5" 1 5] sample_shared [of 5]
    by (simp add: filled_table_def sample_table_def routing_table_new_def MAX_BUCKETS_def SHA_HASH_LEN_def)
  moreover have "contact (sample_node 5) \<in> good_contacts 5 filled_table"
    using sample_status [of 5] by (auto simp: good_contacts_def filled_table_def)
  ultimately show ?thesis using filled_added by blast
qed

text \<open>A good node takes the place of the first questionable node of its bucket even when the bucket has
  free places, and the questionable node is lost.\<close>

theorem bucket_evicts_questionable:
  assumes "nodes b = q # rest" and "status now q = Questionable" and "status now n = Good"
    and "placeholder \<in> set rest" and "\<forall>m. m \<in> set (nodes b) \<longrightarrow> \<not> node_eq m n"
  shows "bucket_add_node now n b = (True, b\<lparr>nodes := n # rest\<rparr>)"
proof -
  have "position (\<lambda>m. node_eq m n) (nodes b) = None" using assms(5) by (auto simp: position_None_iff)
  moreover have "position (\<lambda>m. status now m < Good) (nodes b) = Some 0"
    using assms(1,2) by (simp add: less_node_status_def)
  ultimately show ?thesis using assms(1,3) by (simp add: bucket_add_node_def)
qed

theorem bucket_evicts_questionable_witness:
  "let q = as_questionable 0 (ShaHash (replicate 20 1)) (node_addr (sample_node 0));
       b = \<lparr>nodes = q # replicate 7 placeholder\<rparr>
   in bucket_add_node 0 (sample_node 0) b = (True, \<lparr>nodes = sample_node 0 # replicate 7 placeholder\<rparr>)"
proof -
  let ?q = "as_questionable 0 (ShaHash (replicate 20 1)) (node_addr (sample_node 0))"
  have "status 0 ?q = Questionable"
    by (simp add: status_def recently_responded_def recently_requested_def as_questionable_def travel_into_past_def
        duration_minutes_def MAX_LAST_SEEN_MINS_def MAX_REFRESH_REQUESTS_def)
  moreover have "\<not> node_eq ?q (sample_node 0)" "\<not> node_eq placeholder (sample_node 0)"
    by code_simp+
  ultimately show ?thesis
    using bucket_evicts_questionable [of "\<lparr>nodes = ?q # replicate 7 placeholder\<rparr>" ?q "replicate 7 placeholder" 0 "sample_node 0"]
      sample_status [of 0] by (auto simp: Let_def)
qed

end
