(* ===== verification/Dht_Storage.thy ===== *)
theory Dht_Storage
  imports Dht_Node
begin

text \<open>
  \<open>src/dht/storage.rs\<close>: the contacts announced for info hashes, each with the time it was inserted,
  and their expiration. Contacts compare by address and info hash only. The hash map is a partial
  function; \<open>curr_time\<close> is the first reading of the clock in an operation and \<open>now\<close> the second.
\<close>

section \<open>Definitions\<close>

type_synonym info_hash = sha_hash

definition MAX_ITEMS_STORED :: nat where "MAX_ITEMS_STORED = 500"
definition EXPIRATION_TIME_HOURS :: int where "EXPIRATION_TIME_HOURS = 24"

record item_expiration =
  exp_address :: socket_addr
  exp_inserted :: datetime
  exp_info_hash :: info_hash

definition item_expiration_new :: "datetime \<Rightarrow> info_hash \<Rightarrow> socket_addr \<Rightarrow> item_expiration" where
  "item_expiration_new now h a = \<lparr>exp_address = a, exp_inserted = now, exp_info_hash = h\<rparr>"

definition is_expired :: "datetime \<Rightarrow> item_expiration \<Rightarrow> bool" where
  "is_expired now self \<longleftrightarrow> now - exp_inserted self \<ge> duration_hours EXPIRATION_TIME_HOURS"

definition expiration_eq :: "item_expiration \<Rightarrow> item_expiration \<Rightarrow> bool" where
  "expiration_eq self other \<longleftrightarrow>
     exp_address self = exp_address other \<and> exp_info_hash self = exp_info_hash other"

datatype announce_item = AnnounceItem (item_expiration: item_expiration)

definition announce_item_new :: "datetime \<Rightarrow> info_hash \<Rightarrow> socket_addr \<Rightarrow> announce_item" where
  "announce_item_new now h a = AnnounceItem (item_expiration_new now h a)"

definition item_address :: "announce_item \<Rightarrow> socket_addr" where
  "item_address self = exp_address (item_expiration self)"

definition item_info_hash :: "announce_item \<Rightarrow> info_hash" where
  "item_info_hash self = exp_info_hash (item_expiration self)"

record announce_storage =
  storage :: "info_hash \<rightharpoonup> announce_item list"
  expires :: "item_expiration list"

definition announce_storage_new :: announce_storage where
  "announce_storage_new = \<lparr>storage = Map.empty, expires = []\<rparr>"

definition insert_contact :: "announce_item \<Rightarrow> announce_storage \<Rightarrow> bool option \<times> announce_storage" where
  "insert_contact item self =
     (let h = item_info_hash item;
          already_in_list =
            (case storage self h of
               Some items \<Rightarrow> list_ex (\<lambda>a. expiration_eq (item_expiration a) (item_expiration item)) items
             | None \<Rightarrow> False)
      in if already_in_list then (Some True, self)
         else if length (expires self) < MAX_ITEMS_STORED then
           (Some False,
            self\<lparr>storage := (storage self)(h \<mapsto>
              (case storage self h of Some items \<Rightarrow> items @ [item] | None \<Rightarrow> [item]))\<rparr>)
         else (None, self))"

definition remove_contact ::
  "item_expiration \<Rightarrow> (info_hash \<rightharpoonup> announce_item list) \<Rightarrow> (info_hash \<rightharpoonup> announce_item list)" where
  "remove_contact e m =
     (case m (exp_info_hash e) of
        None \<Rightarrow> m
      | Some items \<Rightarrow>
          let items' = filter (\<lambda>a. \<not> expiration_eq (item_expiration a) e) items
          in if items' = [] then m(exp_info_hash e := None) else m(exp_info_hash e \<mapsto> items'))"

definition remove_expired_items :: "datetime \<Rightarrow> announce_storage \<Rightarrow> announce_storage" where
  "remove_expired_items curr_time self =
     (let num_expired_items = length (takeWhile (is_expired curr_time) (expires self))
      in \<lparr>storage = fold remove_contact (take num_expired_items (expires self)) (storage self),
          expires = drop num_expired_items (expires self)\<rparr>)"

definition storage_add ::
  "datetime \<Rightarrow> datetime \<Rightarrow> info_hash \<Rightarrow> socket_addr \<Rightarrow> announce_storage \<Rightarrow> bool \<times> announce_storage" where
  "storage_add curr_time now h a self =
     (let self' = remove_expired_items curr_time self;
          item = announce_item_new now h a;
          expiration = item_expiration item
      in case insert_contact item self' of
           (Some True, s) \<Rightarrow>
             (True, s\<lparr>expires := filter (\<lambda>i. \<not> expiration_eq i expiration) (expires s) @ [expiration]\<rparr>)
         | (Some False, s) \<Rightarrow> (True, s\<lparr>expires := expires s @ [expiration]\<rparr>)
         | (None, s) \<Rightarrow> (False, s))"

text \<open>The addresses the closure of \<open>find\<close> is called with, in order.\<close>

definition storage_find :: "datetime \<Rightarrow> info_hash \<Rightarrow> announce_storage \<Rightarrow> socket_addr list \<times> announce_storage" where
  "storage_find curr_time h self =
     (let self' = remove_expired_items curr_time self
      in (case storage self' h of Some items \<Rightarrow> map item_address items | None \<Rightarrow> [], self'))"

section \<open>The abstract store\<close>

text \<open>A store of contacts with the time each was last announced: entries older than a day are gone, a
  contact already present is renewed, a new one is taken while there are fewer than 500.\<close>

type_synonym contact_key = "info_hash \<times> socket_addr"
type_synonym contact_store = "contact_key \<rightharpoonup> datetime"

definition expire :: "datetime \<Rightarrow> contact_store \<Rightarrow> contact_store" where
  "expire t m = m |` {k. \<forall>u. m k = Some u \<longrightarrow> t - u < duration_hours EXPIRATION_TIME_HOURS}"

datatype storage_event =
    Announce (at: datetime) datetime info_hash socket_addr
  | Query (at: datetime) info_hash

datatype storage_reply = Added bool | Contacts "socket_addr set"

fun store_step :: "storage_event \<Rightarrow> contact_store \<Rightarrow> storage_reply \<times> contact_store" where
  "store_step (Announce t t' h a) m =
     (let m' = expire t m
      in if (h, a) \<in> dom m' \<or> card (dom m') < MAX_ITEMS_STORED then (Added True, m'((h, a) \<mapsto> t'))
         else (Added False, m'))"
| "store_step (Query t h) m = (let m' = expire t m in (Contacts {a. (h, a) \<in> dom m'}, m'))"

fun storage_step :: "storage_event \<Rightarrow> announce_storage \<Rightarrow> storage_reply \<times> announce_storage" where
  "storage_step (Announce t t' h a) s = (let (ok, s') = storage_add t t' h a s in (Added ok, s'))"
| "storage_step (Query t h) s = (let (as, s') = storage_find t h s in (Contacts (set as), s'))"

fun run :: "('e \<Rightarrow> 's \<Rightarrow> 'r \<times> 's) \<Rightarrow> 'e list \<Rightarrow> 's \<Rightarrow> 'r list" where
  "run stp [] s = []"
| "run stp (e # es) s = (let (r, s') = stp e s in r # run stp es s')"

text \<open>The clock does not run backwards from one reading to the next.\<close>

fun clock_ok :: "datetime \<Rightarrow> storage_event list \<Rightarrow> bool" where
  "clock_ok t [] = True"
| "clock_ok t (Announce t1 t2 h a # es) = (t \<le> t1 \<and> t1 \<le> t2 \<and> clock_ok t2 es)"
| "clock_ok t (Query t1 h # es) = (t \<le> t1 \<and> clock_ok t1 es)"

section \<open>Simulation\<close>

definition key :: "item_expiration \<Rightarrow> contact_key" where
  "key e = (exp_info_hash e, exp_address e)"

definition announced :: "item_expiration list \<Rightarrow> contact_store" where
  "announced es = map_of (map (\<lambda>e. (key e, exp_inserted e)) es)"

text \<open>The two structures hold the same contacts, each once, and no list of the map is empty.\<close>

definition lists :: "info_hash \<Rightarrow> announce_item list option \<Rightarrow> socket_addr set \<Rightarrow> bool" where
  "lists h items_opt as \<longleftrightarrow>
     (case items_opt of None \<Rightarrow> as = {}
      | Some items \<Rightarrow> items \<noteq> [] \<and> (\<forall>i \<in> set items. item_info_hash i = h) \<and>
          distinct (map item_address items) \<and> item_address ` set items = as)"

definition stored :: "(info_hash \<rightharpoonup> announce_item list) \<Rightarrow> contact_key set \<Rightarrow> bool" where
  "stored m ks \<longleftrightarrow> (\<forall>h. lists h (m h) {a. (h, a) \<in> ks})"

definition storage_wf :: "announce_storage \<Rightarrow> bool" where
  "storage_wf s \<longleftrightarrow> distinct (map key (expires s)) \<and> length (expires s) \<le> MAX_ITEMS_STORED \<and>
     stored (storage s) (key ` set (expires s))"

definition in_order :: "announce_storage \<Rightarrow> datetime \<Rightarrow> bool" where
  "in_order s t \<longleftrightarrow> sorted (map exp_inserted (expires s) @ [t])"

lemma expiration_eq_key: "expiration_eq a b \<longleftrightarrow> key a = key b"
  by (auto simp: expiration_eq_def key_def)

lemma remove_contact_stored:
  assumes "stored m ks"
  shows "stored (remove_contact e m) (ks - {key e})"
  unfolding stored_def
proof
  fix h
  from assms have h: "lists h (m h) {a. (h, a) \<in> ks}" by (simp add: stored_def)
  show "lists h (remove_contact e m h) {a. (h, a) \<in> ks - {key e}}"
  proof (cases "h = exp_info_hash e")
    case False
    then have "remove_contact e m h = m h" by (simp add: remove_contact_def Let_def split: option.split)
    moreover have "{a. (h, a) \<in> ks - {key e}} = {a. (h, a) \<in> ks}" using False by (auto simp: key_def)
    ultimately show ?thesis using h by simp
  next
    case True
    show ?thesis
    proof (cases "m h")
      case None
      with h True show ?thesis by (auto simp: lists_def remove_contact_def)
    next
      case (Some items)
      let ?items = "filter (\<lambda>a. \<not> expiration_eq (item_expiration a) e) items"
      from h Some have s: "\<forall>i \<in> set items. item_info_hash i = h" "distinct (map item_address items)"
        "item_address ` set items = {a. (h, a) \<in> ks}" by (simp_all add: lists_def)
      have eq: "expiration_eq (item_expiration i) e \<longleftrightarrow> item_address i = exp_address e" if "i \<in> set items" for i
        using that s(1) True by (auto simp: expiration_eq_def item_address_def item_info_hash_def)
      have "item_address ` set ?items = item_address ` set items - {exp_address e}" using eq by auto
      also have "\<dots> = {a. (h, a) \<in> ks - {key e}}" unfolding s(3) using True by (auto simp: key_def)
      finally have as: "item_address ` set ?items = {a. (h, a) \<in> ks - {key e}}" .
      have "remove_contact e m h = (if ?items = [] then None else Some ?items)"
        using Some True by (simp add: remove_contact_def Let_def)
      with s(1) as show ?thesis using distinct_map_filter [OF s(2)] unfolding lists_def
        by (cases "?items = []") auto
    qed
  qed
qed

lemma insert_stored:
  assumes "stored m ks" and "(item_info_hash item, item_address item) \<notin> ks"
  shows "stored (m(item_info_hash item \<mapsto>
      (case m (item_info_hash item) of Some items \<Rightarrow> items @ [item] | None \<Rightarrow> [item])))
    (insert (item_info_hash item, item_address item) ks)"
  unfolding stored_def
proof
  fix h
  let ?h = "item_info_hash item"
  from assms(1) have l: "lists h (m h) {a. (h, a) \<in> ks}" by (simp add: stored_def)
  have "{a. (h, a) \<in> insert (?h, item_address item) ks} =
      (if h = ?h then insert (item_address item) {a. (h, a) \<in> ks} else {a. (h, a) \<in> ks})" by auto
  with l assms(2) show "lists h ((m(?h \<mapsto> (case m ?h of Some items \<Rightarrow> items @ [item] | None \<Rightarrow> [item]))) h)
      {a. (h, a) \<in> insert (?h, item_address item) ks}"
    by (auto simp: lists_def split: option.splits)
qed

lemma fold_remove_stored:
  "stored m ks \<Longrightarrow> stored (fold remove_contact es m) (ks - key ` set es)"
proof (induction es arbitrary: m ks)
  case (Cons e es)
  from Cons.IH [OF remove_contact_stored [OF Cons.prems, of e]] show ?case
    by (simp add: Diff_insert2 [of ks "key e" "key ` set es"])
qed simp

lemma dom_announced [simp]: "dom (announced es) = key ` set es"
  by (simp add: announced_def dom_map_of_conv_image_fst image_image)

lemma announced_Some:
  "distinct (map key es) \<Longrightarrow> announced es k = Some t \<longleftrightarrow> (\<exists>e \<in> set es. key e = k \<and> exp_inserted e = t)"
  by (auto simp: announced_def map_of_eq_Some_iff image_iff comp_def)

lemma expire_Some:
  "expire t m k = Some u \<longleftrightarrow> m k = Some u \<and> t - u < duration_hours EXPIRATION_TIME_HOURS"
  by (auto simp: expire_def restrict_map_def)

lemma drop_expired_sorted:
  "sorted (map exp_inserted es) \<Longrightarrow> dropWhile (is_expired t) es = filter (\<lambda>e. \<not> is_expired t e) es"
proof (induction es)
  case (Cons e es)
  then have "\<not> is_expired t e \<Longrightarrow> filter (\<lambda>e. \<not> is_expired t e) es = es"
    by (auto simp: filter_id_conv is_expired_def)
  with Cons show ?case by auto
qed simp

lemma remove_expired_refines:
  assumes wf: "storage_wf s" and "in_order s t"
  shows "storage_wf (remove_expired_items t s)" "in_order (remove_expired_items t s) t"
    "announced (expires (remove_expired_items t s)) = expire t (announced (expires s))"
proof -
  let ?es = "expires s" and ?s = "remove_expired_items t s"
  from wf have d: "distinct (map key ?es)" by (simp add: storage_wf_def)
  have e: "expires ?s = dropWhile (is_expired t) ?es" and m: "storage ?s = fold remove_contact (takeWhile (is_expired t) ?es) (storage s)"
    by (simp_all add: remove_expired_items_def Let_def dropWhile_eq_drop [symmetric] takeWhile_eq_take [symmetric])
  have split: "?es = takeWhile (is_expired t) ?es @ expires ?s" unfolding e by simp
  then have "distinct (map key (takeWhile (is_expired t) ?es @ expires ?s))" using d by metis
  then have d': "distinct (map key (expires ?s))" "key ` set (takeWhile (is_expired t) ?es) \<inter> key ` set (expires ?s) = {}"
    by simp_all
  have "key ` set ?es = key ` set (takeWhile (is_expired t) ?es) \<union> key ` set (expires ?s)"
    using arg_cong [OF split, of set] by (metis image_Un set_append)
  with d'(2) have ks: "key ` set ?es - key ` set (takeWhile (is_expired t) ?es) = key ` set (expires ?s)" by blast
  have "stored (storage ?s) (key ` set (expires ?s))"
    using fold_remove_stored [of "storage s" "key ` set ?es" "takeWhile (is_expired t) ?es"] wf
    unfolding m ks by (simp add: storage_wf_def)
  moreover have "length (expires ?s) \<le> length ?es" unfolding e by (rule length_dropWhile_le)
  ultimately show "storage_wf ?s" using d'(1) wf by (simp add: storage_wf_def)
  have f: "expires ?s = filter (\<lambda>e. \<not> is_expired t e) ?es"
    unfolding e using assms(2) by (intro drop_expired_sorted) (simp add: in_order_def sorted_append)
  show "in_order ?s t" using assms(2) unfolding in_order_def f by (auto simp: sorted_append sorted_filter)
  show "announced (expires ?s) = expire t (announced ?es)"
  proof
    fix k
    have "announced (expires ?s) k = Some u \<longleftrightarrow> expire t (announced ?es) k = Some u" for u
      unfolding f expire_Some announced_Some [OF d'(1) [unfolded f]] announced_Some [OF d]
      by (auto simp: is_expired_def)
    then show "announced (expires ?s) k = expire t (announced ?es) k" by (metis option.exhaust)
  qed
qed

lemma stored_lookup:
  assumes "stored m ks"
  shows "(case m h of Some items \<Rightarrow> set (map item_address items) | None \<Rightarrow> {}) = {a. (h, a) \<in> ks}"
proof -
  from assms have "lists h (m h) {a. (h, a) \<in> ks}" by (simp add: stored_def)
  then show ?thesis by (cases "m h") (simp_all add: lists_def)
qed

definition sim :: "announce_storage \<Rightarrow> contact_store \<Rightarrow> datetime \<Rightarrow> bool" where
  "sim s m t \<longleftrightarrow> storage_wf s \<and> in_order s t \<and> announced (expires s) = m"

lemma in_order_mono: "in_order s t \<Longrightarrow> t \<le> t' \<Longrightarrow> in_order s t'"
  by (auto simp: in_order_def sorted_append)

lemma storage_add_refines:
  assumes sim: "sim s m t0" and t: "t0 \<le> t" "t \<le> t'"
  shows "\<exists>ok s'. storage_add t t' h a s = (ok, s') \<and>
    fst (store_step (Announce t t' h a) m) = Added ok \<and> sim s' (snd (store_step (Announce t t' h a) m)) t'"
proof -
  let ?s = "remove_expired_items t s" and ?m = "expire t m"
  let ?e = "item_expiration_new t' h a" and ?k = "(h, a)"
  have s: "storage_wf ?s" "in_order ?s t" "announced (expires ?s) = ?m"
    using remove_expired_refines [of s t] sim t by (auto simp: sim_def intro: in_order_mono)
  let ?es = "expires ?s"
  have d: "distinct (map key ?es)" using s(1) by (simp add: storage_wf_def)
  have k [simp]: "key ?e = ?k" "exp_inserted ?e = t'" by (simp_all add: key_def item_expiration_new_def)
  have dom: "dom ?m = key ` set ?es" using s(3) by (metis dom_announced)
  then have card: "card (dom ?m) = length ?es" using distinct_card [OF d] by simp
  have sorted: "sorted (map exp_inserted es @ [t'])" if "sorted (map exp_inserted es @ [t])" for es
    using that t(2) by (auto simp: sorted_append)
  have h: "item_info_hash (AnnounceItem ?e) = h" "item_address (AnnounceItem ?e) = a"
    by (simp_all add: item_info_hash_def item_address_def item_expiration_new_def)
  have lookup: "(case storage ?s h of Some items \<Rightarrow> set (map item_address items) | None \<Rightarrow> {}) = {a. (h, a) \<in> key ` set ?es}"
    using s(1) by (intro stored_lookup) (simp add: storage_wf_def)
  have "\<forall>items. storage ?s h = Some items \<longrightarrow> (\<forall>i \<in> set items. item_info_hash i = h)"
    using s(1) by (auto simp: storage_wf_def stored_def lists_def dest!: spec [of _ h])
  then have "(case storage ?s h of
        Some items \<Rightarrow> list_ex (\<lambda>x. expiration_eq (item_expiration x) ?e) items | None \<Rightarrow> False) \<longleftrightarrow>
      a \<in> (case storage ?s h of Some items \<Rightarrow> set (map item_address items) | None \<Rightarrow> {})"
    by (auto simp: expiration_eq_def item_expiration_new_def item_address_def item_info_hash_def list_ex_iff
        split: option.splits)
  then have present: "(case storage ?s h of
        Some items \<Rightarrow> list_ex (\<lambda>x. expiration_eq (item_expiration x) ?e) items | None \<Rightarrow> False) \<longleftrightarrow> ?k \<in> dom ?m"
    unfolding lookup dom by simp
  show ?thesis
  proof (cases "?k \<in> dom ?m")
    case True
    let ?es' = "filter (\<lambda>i. \<not> expiration_eq i ?e) ?es @ [?e]"
    have add: "storage_add t t' h a s = (True, ?s\<lparr>expires := ?es'\<rparr>)"
      using True present h
      by (cases "storage ?s h") (simp_all add: storage_add_def insert_contact_def announce_item_new_def Let_def)
    have f: "filter (\<lambda>i. \<not> expiration_eq i ?e) ?es = filter (\<lambda>i. key i \<noteq> ?k) ?es"
      by (simp add: expiration_eq_key k)
    have others: "key ` set (filter (\<lambda>i. key i \<noteq> ?k) ?es) = key ` set ?es - {?k}" by force
    have ks: "key ` set ?es' = key ` set ?es" using True others unfolding dom f by (simp add: k insert_absorb)
    have d': "distinct (map key ?es')" using d others unfolding f by (simp add: k distinct_map_filter)
    then have "length ?es' = length ?es"
      using distinct_card [OF d'] distinct_card [OF d] ks by (metis length_map set_map)
    then have "storage_wf (?s\<lparr>expires := ?es'\<rparr>)" using s(1) d' ks by (simp add: storage_wf_def)
    moreover have "in_order (?s\<lparr>expires := ?es'\<rparr>) t'"
      using s(2) sorted [of ?es] by (auto simp: in_order_def sorted_append sorted_filter)
    moreover have "announced ?es' = ?m(?k \<mapsto> t')"
    proof
      fix k'
      have "announced ?es' k' = Some u \<longleftrightarrow> (?m(?k \<mapsto> t')) k' = Some u" for u
        unfolding announced_Some [OF d'] s(3) [symmetric]
        by (auto simp: announced_Some [OF d] expiration_eq_key k)
      then show "announced ?es' k' = (?m(?k \<mapsto> t')) k'" by (metis option.exhaust)
    qed
    ultimately show ?thesis using add True by (auto simp: sim_def Let_def)
  next
    case new: False
    then have other: "\<forall>e \<in> set ?es. key e \<noteq> ?k" unfolding dom by (metis image_eqI)
    show ?thesis
    proof (cases "length ?es < MAX_ITEMS_STORED")
      case True
      let ?st = "(storage ?s)(h \<mapsto> (case storage ?s h of Some items \<Rightarrow> items @ [AnnounceItem ?e] | None \<Rightarrow> [AnnounceItem ?e]))"
      let ?s' = "?s\<lparr>storage := ?st, expires := ?es @ [?e]\<rparr>"
      have add: "storage_add t t' h a s = (True, ?s')"
        using True new present h
        by (cases "storage ?s h") (simp_all add: storage_add_def insert_contact_def announce_item_new_def Let_def)
      have "stored ?st (insert ?k (key ` set ?es))"
        using insert_stored [of "storage ?s" "key ` set ?es" "AnnounceItem ?e"] new s(1) h
        unfolding dom by (simp add: storage_wf_def)
      moreover have d': "distinct (map key (?es @ [?e]))" using d new unfolding dom by (auto simp: k)
      ultimately have "storage_wf ?s'" using True by (simp add: storage_wf_def k)
      moreover have "in_order ?s' t'"
        using s(2) sorted [of ?es] by (auto simp: in_order_def sorted_append)
      moreover have "announced (?es @ [?e]) = ?m(?k \<mapsto> t')"
      proof
        fix k'
        have "announced (?es @ [?e]) k' = Some u \<longleftrightarrow> (?m(?k \<mapsto> t')) k' = Some u" for u
          unfolding announced_Some [OF d'] s(3) [symmetric] using other by (auto simp: announced_Some [OF d])
        then show "announced (?es @ [?e]) k' = (?m(?k \<mapsto> t')) k'" by (metis option.exhaust)
      qed
      ultimately show ?thesis using add new True card by (auto simp: sim_def Let_def)
    next
      case False
      then have "storage_add t t' h a s = (False, ?s)"
        using new present h
        by (cases "storage ?s h") (simp_all add: storage_add_def insert_contact_def announce_item_new_def Let_def)
      with new False card s show ?thesis using in_order_mono [OF s(2) t(2)] by (auto simp: sim_def Let_def)
    qed
  qed
qed

lemma storage_find_refines:
  assumes sim: "sim s m t0" and t: "t0 \<le> t"
  shows "\<exists>as s'. storage_find t h s = (as, s') \<and>
    fst (store_step (Query t h) m) = Contacts (set as) \<and> sim s' (snd (store_step (Query t h) m)) t"
proof -
  let ?s = "remove_expired_items t s"
  have s: "storage_wf ?s" "in_order ?s t" "announced (expires ?s) = expire t m"
    using remove_expired_refines [of s t] sim t by (auto simp: sim_def intro: in_order_mono)
  have "dom (expire t m) = key ` set (expires ?s)" using s(3) by (metis dom_announced)
  moreover have "(case storage ?s h of Some items \<Rightarrow> set (map item_address items) | None \<Rightarrow> {}) = {a. (h, a) \<in> key ` set (expires ?s)}"
    using s(1) by (intro stored_lookup) (simp add: storage_wf_def)
  ultimately have "set (fst (storage_find t h s)) = {a. (h, a) \<in> dom (expire t m)}"
    by (cases "storage ?s h") (simp_all add: storage_find_def Let_def)
  with s show ?thesis by (simp add: storage_find_def Let_def sim_def)
qed

lemma run_refines: "sim s m t \<Longrightarrow> clock_ok t es \<Longrightarrow> run storage_step es s = run store_step es m"
proof (induction es arbitrary: s m t)
  case (Cons e es)
  show ?case
  proof (cases e)
    case (Announce t1 t2 h a)
    with Cons.prems have c: "t \<le> t1" "t1 \<le> t2" "clock_ok t2 es" by simp_all
    obtain ok s' where r: "storage_add t1 t2 h a s = (ok, s')" "fst (store_step e m) = Added ok" "sim s' (snd (store_step e m)) t2"
      using storage_add_refines [OF Cons.prems(1) c(1,2), of h a] unfolding Announce by blast
    from Cons.IH [OF r(3) c(3)] r(1,2) Announce show ?thesis by (simp add: case_prod_unfold del: store_step.simps)
  next
    case (Query t1 h)
    with Cons.prems have c: "t \<le> t1" "clock_ok t1 es" by simp_all
    obtain as s' where r: "storage_find t1 h s = (as, s')" "fst (store_step e m) = Contacts (set as)" "sim s' (snd (store_step e m)) t1"
      using storage_find_refines [OF Cons.prems(1) c(1), of h] unfolding Query by blast
    from Cons.IH [OF r(3) c(2)] r(1,2) Query show ?thesis by (simp add: case_prod_unfold del: store_step.simps)
  qed
qed simp

section \<open>Properties\<close>

text \<open>C17: For any sequence of announcements and queries with a clock that does not run backwards, the
  storage answers exactly as the abstract store does: a contact is reported from its announcement for
  one day after its last renewal, and a new contact is refused exactly when 500 live ones are held.\<close>

theorem announce_storage_refines:
  assumes "clock_ok t es"
  shows "run storage_step es announce_storage_new = run store_step es Map.empty"
proof (rule run_refines [OF _ assms])
  show "sim announce_storage_new Map.empty t"
    by (simp add: sim_def storage_wf_def stored_def lists_def in_order_def announce_storage_new_def announced_def)
qed

theorem announce_storage_refines_witness:
  "let h = ShaHash (replicate 20 1); a = V4 \<lparr>v4_ip = Ipv4Addr 10 0 0 1, v4_port = 1\<rparr>
   in run storage_step [Announce 0 1 h a, Query 5 h, Query (duration_hours 24 + 1) h] announce_storage_new =
      [Added True, Contacts {a}, Contacts {}]"
proof -
  let ?h = "ShaHash (replicate 20 1)" and ?a = "V4 \<lparr>v4_ip = Ipv4Addr 10 0 0 1, v4_port = 1\<rparr>"
  have "expire t Map.empty = Map.empty" for t by (simp add: expire_def)
  moreover have "expire t [k \<mapsto> u] = (if t - u < duration_hours EXPIRATION_TIME_HOURS then [k \<mapsto> u] else Map.empty)" for t k u
    by (auto simp: expire_def restrict_map_def fun_eq_iff)
  ultimately have "run store_step [Announce 0 1 ?h ?a, Query 5 ?h, Query (duration_hours 24 + 1) ?h] Map.empty =
      [Added True, Contacts {?a}, Contacts {}]"
    by (simp add: duration_hours_def EXPIRATION_TIME_HOURS_def MAX_ITEMS_STORED_def)
  with announce_storage_refines [of 0 "[Announce 0 1 ?h ?a, Query 5 ?h, Query (duration_hours 24 + 1) ?h]"]
  show ?thesis by (simp add: duration_hours_def Let_def)
qed

end
