(* ===== verification/Dht_Token.thy ===== *)
theory Dht_Token
  imports Dht_Node
begin

text \<open>
  \<open>src/dht/token.rs\<close> and the address type of \<open>src/util/net.rs\<close>: the tokens handed to nodes, a hash of
  their address and a secret, and the store that changes its secret every ten minutes. \<open>sha\<close> stands
  for \<open>ShaHash::from_bytes\<close>, whose digest is an external package; random numbers are arguments, and
  the clock is read once per operation.
\<close>

section \<open>Definitions\<close>

fun from_socket_addr :: "socket_addr \<Rightarrow> ip_addr" where
  "from_socket_addr (V4 a) = IpV4 (v4_ip a)"
| "from_socket_addr (V6 a) = IpV6 (v6_ip a)"

definition REFRESH_INTERVAL_MINS :: int where "REFRESH_INTERVAL_MINS = 10"
definition IPV4_SECRET_BUFFER_LEN :: nat where "IPV4_SECRET_BUFFER_LEN = 4 + 4"
definition IPV6_SECRET_BUFFER_LEN :: nat where "IPV6_SECRET_BUFFER_LEN = 16 + 4"

datatype token = Token (token_bytes: bytes)

definition token_new :: "bytes \<Rightarrow> (token, length_error) outcome" where
  "token_new bs =
     (if length bs \<noteq> SHA_HASH_LEN then Err (length_error_new LengthExpected SHA_HASH_LEN)
      else Ok (Token (map fst (zip bs (replicate SHA_HASH_LEN (0 :: u8))))))"

text \<open>Copying an iterator into a zeroed buffer.\<close>

definition fill_buffer :: "nat \<Rightarrow> bytes \<Rightarrow> bytes" where
  "fill_buffer len src = take len src @ drop (length src) (replicate len 0)"

definition generate_token_from_addr_v4 :: "(bytes \<Rightarrow> sha_hash) \<Rightarrow> ipv4_addr \<Rightarrow> u32 \<Rightarrow> token" where
  "generate_token_from_addr_v4 sha v4_addr secret =
     Token (sha_bytes (sha (fill_buffer IPV4_SECRET_BUFFER_LEN (ipv4_to_bytes_be v4_addr @ four_bytes_to_array secret))))"

definition generate_token_from_addr_v6 :: "(bytes \<Rightarrow> sha_hash) \<Rightarrow> ipv6_addr \<Rightarrow> u32 \<Rightarrow> token" where
  "generate_token_from_addr_v6 sha v6_addr secret =
     Token (sha_bytes (sha (fill_buffer IPV6_SECRET_BUFFER_LEN (ipv6_to_bytes_be v6_addr @ four_bytes_to_array secret))))"

fun generate_token_from_addr :: "(bytes \<Rightarrow> sha_hash) \<Rightarrow> ip_addr \<Rightarrow> u32 \<Rightarrow> token" where
  "generate_token_from_addr sha (IpV4 v4) secret = generate_token_from_addr_v4 sha v4 secret"
| "generate_token_from_addr sha (IpV6 v6) secret = generate_token_from_addr_v6 sha v6 secret"

definition validate_token_from_addr_v4 :: "(bytes \<Rightarrow> sha_hash) \<Rightarrow> ipv4_addr \<Rightarrow> token \<Rightarrow> u32 \<Rightarrow> bool" where
  "validate_token_from_addr_v4 sha v4_addr tok secret \<longleftrightarrow> generate_token_from_addr_v4 sha v4_addr secret = tok"

definition validate_token_from_addr_v6 :: "(bytes \<Rightarrow> sha_hash) \<Rightarrow> ipv6_addr \<Rightarrow> token \<Rightarrow> u32 \<Rightarrow> bool" where
  "validate_token_from_addr_v6 sha v6_addr tok secret \<longleftrightarrow> generate_token_from_addr_v6 sha v6_addr secret = tok"

fun validate_token_from_addr :: "(bytes \<Rightarrow> sha_hash) \<Rightarrow> ip_addr \<Rightarrow> token \<Rightarrow> u32 \<Rightarrow> u32 \<Rightarrow> bool" where
  "validate_token_from_addr sha (IpV4 v4) tok secret_one secret_two \<longleftrightarrow>
     validate_token_from_addr_v4 sha v4 tok secret_one \<or> validate_token_from_addr_v4 sha v4 tok secret_two"
| "validate_token_from_addr sha (IpV6 v6) tok secret_one secret_two \<longleftrightarrow>
     validate_token_from_addr_v6 sha v6 tok secret_one \<or> validate_token_from_addr_v6 sha v6 tok secret_two"

record token_store =
  curr_secret :: u32
  last_secret :: u32
  last_refresh :: datetime

definition token_store_new :: "datetime \<Rightarrow> u32 \<Rightarrow> u32 \<Rightarrow> token_store" where
  "token_store_new now r1 r2 = \<lparr>curr_secret = r1, last_secret = r2, last_refresh = now\<rparr>"

definition num_minutes :: "duration \<Rightarrow> int" where
  "num_minutes d = trunc_div d (duration_minutes 1)"

definition intervals_passed :: "datetime \<Rightarrow> datetime \<Rightarrow> int" where
  "intervals_passed now since =
     trunc_div (num_minutes (now - since)) (num_minutes (duration_minutes REFRESH_INTERVAL_MINS))"

definition refresh_check :: "datetime \<Rightarrow> u32 \<Rightarrow> u32 \<Rightarrow> token_store \<Rightarrow> token_store" where
  "refresh_check now r1 r2 self =
     (let passed = intervals_passed now (last_refresh self) in
      if passed = 0 then self
      else if passed = 1 then \<lparr>curr_secret = r1, last_secret = curr_secret self, last_refresh = now\<rparr>
      else \<lparr>curr_secret = r2, last_secret = r1, last_refresh = now\<rparr>)"

definition checkout :: "(bytes \<Rightarrow> sha_hash) \<Rightarrow> datetime \<Rightarrow> u32 \<Rightarrow> u32 \<Rightarrow> ip_addr \<Rightarrow> token_store \<Rightarrow> token \<times> token_store" where
  "checkout sha now r1 r2 addr self =
     (let self' = refresh_check now r1 r2 self
      in (generate_token_from_addr sha addr (curr_secret self'), self'))"

definition checkin ::
  "(bytes \<Rightarrow> sha_hash) \<Rightarrow> datetime \<Rightarrow> u32 \<Rightarrow> u32 \<Rightarrow> ip_addr \<Rightarrow> token \<Rightarrow> token_store \<Rightarrow> bool \<times> token_store" where
  "checkin sha now r1 r2 addr tok self =
     (let self' = refresh_check now r1 r2 self
      in (validate_token_from_addr sha addr tok (curr_secret self') (last_secret self'), self'))"

section \<open>Sequences of operations\<close>

text \<open>An operation on the store, with the clock reading and the two random numbers at hand for it.\<close>

datatype token_event =
    Checkout (event_time: datetime) (event_rnd: "u32 \<times> u32") ip_addr
  | Checkin (event_time: datetime) (event_rnd: "u32 \<times> u32") ip_addr token

fun store_event :: "(bytes \<Rightarrow> sha_hash) \<Rightarrow> token_event \<Rightarrow> token_store \<Rightarrow> token_store" where
  "store_event sha (Checkout t (r1, r2) a) s = snd (checkout sha t r1 r2 a s)"
| "store_event sha (Checkin t (r1, r2) a tok) s = snd (checkin sha t r1 r2 a tok s)"

definition store_run :: "(bytes \<Rightarrow> sha_hash) \<Rightarrow> token_event list \<Rightarrow> token_store \<Rightarrow> token_store" where
  "store_run sha es s = fold (store_event sha) es s"

text \<open>Times within an interval that do not run backwards.\<close>

definition clock_between :: "datetime \<Rightarrow> token_event list \<Rightarrow> datetime \<Rightarrow> bool" where
  "clock_between t es t' \<longleftrightarrow> sorted (t # map event_time es @ [t'])"

section \<open>Lemmas\<close>

lemma trunc_div_nonneg: "0 \<le> a \<Longrightarrow> 0 < b \<Longrightarrow> trunc_div a b = a div b"
  by (cases "a = 0") (simp_all add: trunc_div_def)

text \<open>Whole intervals of ten minutes.\<close>

lemma intervals_passed_eq:
  assumes "since \<le> now"
  shows "intervals_passed now since = (now - since) div duration_minutes 10"
proof -
  have "num_minutes (duration_minutes REFRESH_INTERVAL_MINS) = 10"
    by (simp add: num_minutes_def trunc_div_def duration_minutes_def REFRESH_INTERVAL_MINS_def)
  moreover have "num_minutes (now - since) = (now - since) div duration_minutes 1"
    using assms by (simp add: num_minutes_def trunc_div_nonneg duration_minutes_def)
  moreover have "0 \<le> (now - since) div duration_minutes 1"
    using assms by (simp add: duration_minutes_def pos_imp_zdiv_nonneg_iff)
  ultimately show ?thesis
    by (simp add: intervals_passed_def trunc_div_nonneg duration_minutes_def div_mult2_eq [symmetric])
qed

lemma store_event_refresh:
  "store_event sha e s = refresh_check (event_time e) (fst (event_rnd e)) (snd (event_rnd e)) s"
  by (cases e) (auto simp: checkout_def checkin_def Let_def split: prod.split)

lemma validate_generated: "validate_token_from_addr sha a (generate_token_from_addr sha a s) one two" if "s = one \<or> s = two"
  using that by (cases a) (auto simp: validate_token_from_addr_v4_def validate_token_from_addr_v6_def)

text \<open>A secret that was current at time \<open>t0\<close> is still held: as the current one since less than ten minutes
  before \<open>t0\<close>, or as the last one since a refresh after \<open>t0\<close>.\<close>

definition holds_secret :: "u32 \<Rightarrow> datetime \<Rightarrow> token_store \<Rightarrow> bool" where
  "holds_secret secret t0 s \<longleftrightarrow>
     curr_secret s = secret \<and> t0 - last_refresh s < duration_minutes 10 \<or>
     last_secret s = secret \<and> t0 \<le> last_refresh s"

lemma refresh_check_cases:
  assumes "last_refresh s \<le> now"
  obtains (fresh) "now - last_refresh s < duration_minutes 10" "refresh_check now r1 r2 s = s"
  | (once) "duration_minutes 10 \<le> now - last_refresh s" "now - last_refresh s < duration_minutes 20"
      "refresh_check now r1 r2 s = \<lparr>curr_secret = r1, last_secret = curr_secret s, last_refresh = now\<rparr>"
  | (twice) "duration_minutes 20 \<le> now - last_refresh s"
      "refresh_check now r1 r2 s = \<lparr>curr_secret = r2, last_secret = r1, last_refresh = now\<rparr>"
proof -
  let ?d = "now - last_refresh s" and ?i = "duration_minutes 10"
  have d: "0 \<le> ?d" and i: "0 < ?i" "duration_minutes 20 = 2 * ?i" using assms by (simp_all add: duration_minutes_def)
  have r: "refresh_check now r1 r2 s = (if ?d div ?i = 0 then s
      else if ?d div ?i = 1 then \<lparr>curr_secret = r1, last_secret = curr_secret s, last_refresh = now\<rparr>
      else \<lparr>curr_secret = r2, last_secret = r1, last_refresh = now\<rparr>)"
    by (simp add: refresh_check_def Let_def intervals_passed_eq [OF assms])
  consider "?d < ?i" | "?i \<le> ?d" "?d < 2 * ?i" | "2 * ?i \<le> ?d" by linarith
  then show thesis
  proof cases
    case 1
    with d r show ?thesis by (intro fresh) (simp_all add: div_pos_pos_trivial)
  next
    case 2
    then have "?d div ?i = 1" by (intro int_div_pos_eq [where r = "?d - ?i"]) simp_all
    with 2 r i show ?thesis by (intro once) simp_all
  next
    case 3
    then have "2 * ?i div ?i \<le> ?d div ?i" using i(1) by (rule zdiv_mono1)
    with 3 r i show ?thesis by (intro twice) auto
  qed
qed

lemma refresh_keeps_secret:
  assumes "holds_secret secret t0 s" and "last_refresh s \<le> now" and "t0 \<le> now" and "now - t0 < duration_minutes 10"
  shows "holds_secret secret t0 (refresh_check now r1 r2 s)" "last_refresh (refresh_check now r1 r2 s) \<le> now"
proof -
  have "duration_minutes 20 = 2 * duration_minutes 10" by (simp add: duration_minutes_def)
  with assms show "holds_secret secret t0 (refresh_check now r1 r2 s)"
    by (cases rule: refresh_check_cases [OF assms(2), of r1 r2]) (auto simp: holds_secret_def)
  show "last_refresh (refresh_check now r1 r2 s) \<le> now"
    using assms(2) by (cases rule: refresh_check_cases [OF assms(2), of r1 r2]) auto
qed

lemma run_keeps_secret:
  assumes "holds_secret secret t0 s" and "last_refresh s \<le> t" and "t0 \<le> t" and "clock_between t es t'"
    and "t' - t0 < duration_minutes 10"
  shows "holds_secret secret t0 (store_run sha es s) \<and> last_refresh (store_run sha es s) \<le> t'"
  using assms
proof (induction es arbitrary: s t)
  case Nil
  then show ?case by (simp add: store_run_def clock_between_def)
next
  case (Cons e es)
  then have t: "t \<le> event_time e" "clock_between (event_time e) es t'" "event_time e \<le> t'"
    by (auto simp: clock_between_def)
  let ?s = "store_event sha e s"
  have "holds_secret secret t0 ?s" "last_refresh ?s \<le> event_time e"
    using refresh_keeps_secret [OF Cons.prems(1), of "event_time e"] Cons.prems t by (auto simp: store_event_refresh)
  with Cons.IH [of ?s "event_time e"] Cons.prems t show ?case by (simp add: store_run_def)
qed

text \<open>A secret issued at \<open>t0\<close> that is not drawn again: it is current only since before \<open>t0\<close>, and the last one
  only since less than twenty minutes after \<open>t0\<close>.\<close>

definition ages_secret :: "u32 \<Rightarrow> datetime \<Rightarrow> token_store \<Rightarrow> bool" where
  "ages_secret secret t0 s \<longleftrightarrow>
     (curr_secret s = secret \<longrightarrow> last_refresh s \<le> t0) \<and>
     (last_secret s = secret \<longrightarrow> last_refresh s < t0 + duration_minutes 20)"

lemma refresh_ages_secret:
  assumes "ages_secret secret t0 s" and "last_refresh s \<le> now" and "r1 \<noteq> secret" and "r2 \<noteq> secret"
  shows "ages_secret secret t0 (refresh_check now r1 r2 s)"
    and "t0 + duration_minutes 30 \<le> now \<Longrightarrow>
      curr_secret (refresh_check now r1 r2 s) \<noteq> secret \<and> last_secret (refresh_check now r1 r2 s) \<noteq> secret"
proof -
  have i: "duration_minutes 20 = 2 * duration_minutes 10" "duration_minutes 30 = 3 * duration_minutes 10" "0 < duration_minutes 10"
    by (simp_all add: duration_minutes_def)
  with assms show "ages_secret secret t0 (refresh_check now r1 r2 s)"
    by (cases rule: refresh_check_cases [OF assms(2), of r1 r2]) (auto simp: ages_secret_def)
  assume "t0 + duration_minutes 30 \<le> now"
  with i assms show "curr_secret (refresh_check now r1 r2 s) \<noteq> secret \<and> last_secret (refresh_check now r1 r2 s) \<noteq> secret"
    by (cases rule: refresh_check_cases [OF assms(2), of r1 r2]) (auto simp: ages_secret_def)
qed

lemma refresh_not_later:
  assumes "last_refresh s \<le> now"
  shows "last_refresh (refresh_check now r1 r2 s) \<le> now"
  using assms by (cases rule: refresh_check_cases [OF assms, of r1 r2]) auto

lemma run_ages_secret:
  assumes "ages_secret secret t0 s" and "last_refresh s \<le> t" and "clock_between t es t'"
    and "\<forall>e \<in> set es. fst (event_rnd e) \<noteq> secret \<and> snd (event_rnd e) \<noteq> secret"
  shows "ages_secret secret t0 (store_run sha es s) \<and> last_refresh (store_run sha es s) \<le> t'"
  using assms
proof (induction es arbitrary: s t)
  case Nil
  then show ?case by (simp add: store_run_def clock_between_def)
next
  case (Cons e es)
  then have t: "t \<le> event_time e" "clock_between (event_time e) es t'" by (auto simp: clock_between_def)
  let ?s = "store_event sha e s"
  have "ages_secret secret t0 ?s" "last_refresh ?s \<le> event_time e"
    using refresh_ages_secret(1) [OF Cons.prems(1), of "event_time e"] refresh_not_later [of s "event_time e"] Cons.prems t
    by (auto simp: store_event_refresh)
  with Cons.IH [of ?s "event_time e"] Cons.prems(4) t show ?case by (simp add: store_run_def)
qed

section \<open>Properties\<close>

text \<open>C18: A token is accepted from the address it was handed to for the ten minutes after its checkout, whatever
  is checked in or out in between and whatever secrets are drawn.\<close>

theorem token_valid_ten_minutes:
  assumes "last_refresh s \<le> t0" and "checkout sha t0 r1 r2 addr s = (tok, s')"
    and "clock_between t0 es t" and "t - t0 < duration_minutes 10"
  shows "fst (checkin sha t q1 q2 addr tok (store_run sha es s'))"
proof -
  from assms(2) have s': "s' = refresh_check t0 r1 r2 s" and tok: "tok = generate_token_from_addr sha addr (curr_secret s')"
    by (auto simp: checkout_def Let_def)
  have "t0 \<le> t" using assms(3) by (auto simp: clock_between_def sorted_append)
  have h: "last_refresh s' \<le> t0" unfolding s' by (rule refresh_not_later [OF assms(1)])
  have c: "holds_secret (curr_secret s') t0 s'"
    using assms(1) unfolding s' by (cases rule: refresh_check_cases [OF assms(1), of r1 r2])
      (auto simp: holds_secret_def duration_minutes_def)
  let ?s = "refresh_check t q1 q2 (store_run sha es s')"
  have "holds_secret (curr_secret s') t0 ?s"
    using run_keeps_secret [OF c h order_refl assms(3,4)] refresh_keeps_secret(1) \<open>t0 \<le> t\<close> assms(4) by blast
  then show ?thesis unfolding checkin_def Let_def fst_conv tok
    by (intro validate_generated) (auto simp: holds_secret_def)
qed

theorem token_valid_ten_minutes_witness:
  "let s = token_store_new 0 11 12; a = IpV4 (Ipv4Addr 10 0 0 1); (tok, s') = checkout ShaHash 0 1 2 a s
   in fst (checkin ShaHash (duration_minutes 9) 3 4 a tok (store_run ShaHash [Checkout 7 (5, 6) a] s'))"
  using token_valid_ten_minutes [of "token_store_new 0 11 12" 0 ShaHash 1 2 "IpV4 (Ipv4Addr 10 0 0 1)" _ _
      "[Checkout 7 (5, 6) (IpV4 (Ipv4Addr 10 0 0 1))]" "duration_minutes 9" 3 4]
  by (simp add: token_store_new_def clock_between_def duration_minutes_def Let_def split: prod.split)

text \<open>Thirty minutes after the checkout, and not before, the store is sure to have dropped the secret a
  token was made with, unless the same number is drawn again.\<close>

theorem token_forgotten_thirty_minutes:
  assumes "last_refresh s \<le> t0" and "checkout sha t0 r1 r2 addr s = (tok, s')"
    and "clock_between t0 es t" and "duration_minutes 30 \<le> t - t0"
    and "\<forall>e \<in> set es. fst (event_rnd e) \<noteq> curr_secret s' \<and> snd (event_rnd e) \<noteq> curr_secret s'"
    and "q1 \<noteq> curr_secret s'" and "q2 \<noteq> curr_secret s'"
  shows "let s2 = snd (checkin sha t q1 q2 addr tok (store_run sha es s'))
    in curr_secret s2 \<noteq> curr_secret s' \<and> last_secret s2 \<noteq> curr_secret s'"
proof -
  from assms(2) have s': "s' = refresh_check t0 r1 r2 s" by (auto simp: checkout_def Let_def)
  then have "last_refresh s' \<le> t0" using refresh_not_later [OF assms(1)] by simp
  moreover from this have "ages_secret (curr_secret s') t0 s'" by (simp add: ages_secret_def duration_minutes_def)
  ultimately have "ages_secret (curr_secret s') t0 (store_run sha es s')" "last_refresh (store_run sha es s') \<le> t"
    using run_ages_secret [OF _ _ assms(3,5)] by auto
  from refresh_ages_secret(2) [OF this assms(6,7)] assms(4) show ?thesis by (simp add: checkin_def Let_def)
qed

theorem token_forgotten_thirty_minutes_witness:
  "let s = token_store_new 0 11 12; a = IpV4 (Ipv4Addr 10 0 0 1); (tok, s') = checkout ShaHash 0 1 2 a s;
       s2 = snd (checkin ShaHash (duration_minutes 30) 3 4 a tok (store_run ShaHash [] s'))
   in curr_secret s2 \<noteq> 11 \<and> last_secret s2 \<noteq> 11"
proof -
  let ?s = "token_store_new 0 11 12" and ?a = "IpV4 (Ipv4Addr 10 0 0 1)"
  have r: "refresh_check 0 1 2 ?s = ?s" by (simp add: refresh_check_def token_store_new_def intervals_passed_def num_minutes_def trunc_div_def)
  have c: "checkout ShaHash 0 1 2 ?a ?s = (generate_token_from_addr ShaHash ?a 11, ?s)"
    by (simp add: checkout_def r) (simp add: token_store_new_def)
  have f: "curr_secret ?s = 11" "last_refresh ?s = 0" by (simp_all add: token_store_new_def)
  from token_forgotten_thirty_minutes [OF _ c, of "[]" "duration_minutes 30" 3 4] show ?thesis
    by (simp add: f c clock_between_def duration_minutes_def Let_def)
qed

text \<open>A token can be accepted nearly thirty minutes after its checkout: when the store refreshes once
  between ten and twenty minutes after the secret was drawn, the secret stays valid for ten more.\<close>

theorem token_outlives_twenty_minutes:
  assumes "last_refresh s = t0" and "checkout sha t0 r1 r2 addr s = (tok, s')"
    and "duration_minutes 10 \<le> t1 - t0" and "t1 - t0 < duration_minutes 20"
    and "t1 \<le> t2" and "t2 - t1 < duration_minutes 10"
  shows "fst (checkin sha t2 q1 q2 addr tok (snd (checkout sha t1 p1 p2 other s')))"
proof -
  have "refresh_check t0 r1 r2 s = s"
    by (rule refresh_check_cases [of s t0 r1 r2]) (use assms(1) in \<open>simp_all add: duration_minutes_def\<close>)
  with assms(2) have s': "s' = s" and tok: "tok = generate_token_from_addr sha addr (curr_secret s)"
    by (auto simp: checkout_def Let_def)
  have "last_refresh s \<le> t1" using assms(1,3) by (simp add: duration_minutes_def)
  then have 1: "refresh_check t1 p1 p2 s = \<lparr>curr_secret = p1, last_secret = curr_secret s, last_refresh = t1\<rparr>"
    by (cases rule: refresh_check_cases [of s t1 p1 p2]) (use assms in auto)
  have 2: "refresh_check t2 q1 q2 \<lparr>curr_secret = p1, last_secret = curr_secret s, last_refresh = t1\<rparr> =
      \<lparr>curr_secret = p1, last_secret = curr_secret s, last_refresh = t1\<rparr>"
    by (rule refresh_check_cases [of "\<lparr>curr_secret = p1, last_secret = curr_secret s, last_refresh = t1\<rparr>" t2 q1 q2])
       (use assms in \<open>auto simp: duration_minutes_def\<close>)
  show ?thesis unfolding s' tok by (simp add: checkin_def checkout_def Let_def 1 2 validate_generated)
qed

theorem token_outlives_twenty_minutes_witness:
  "let s = token_store_new 0 11 12; a = IpV4 (Ipv4Addr 10 0 0 1); (tok, s') = checkout ShaHash 0 1 2 a s
   in fst (checkin ShaHash (duration_minutes 28) 3 4 a tok (snd (checkout ShaHash (duration_minutes 19) 5 6 a s')))"
  using token_outlives_twenty_minutes [of "token_store_new 0 11 12" 0 ShaHash 1 2 "IpV4 (Ipv4Addr 10 0 0 1)" _ _
      "duration_minutes 19" "duration_minutes 28" 3 4 5 6 "IpV4 (Ipv4Addr 10 0 0 1)"]
  by (simp add: token_store_new_def duration_minutes_def Let_def split: prod.split)

end
