(* ===== verification/Dht_Transaction.thy ===== *)
theory Dht_Transaction
  imports Util_Ids Util_Convert
begin

text \<open>
  \<open>src/dht/transaction.rs\<close>: transaction ids of eight bytes, five for the action (a lookup, a refresh)
  and three for the message of it, handed out from shuffled blocks of 2048. The random numbers of a
  shuffle are an argument; a call that refills its block calls itself again, at most \<open>fuel\<close> times in all.
\<close>

section \<open>Definitions\<close>

definition ACTION_ID_BYTES :: nat where "ACTION_ID_BYTES = 5"
definition MESSAGE_ID_BYTES :: nat where "MESSAGE_ID_BYTES = 3"
definition TRANSACTION_ID_BYTES :: nat where "TRANSACTION_ID_BYTES = ACTION_ID_BYTES + MESSAGE_ID_BYTES"
definition ACTION_ID_SHIFT :: nat where "ACTION_ID_SHIFT = ACTION_ID_BYTES * 8"
definition MAX_ACTION_ID :: u64 where "MAX_ACTION_ID = push_bit ACTION_ID_SHIFT 1"
definition MESSAGE_ID_SHIFT :: nat where "MESSAGE_ID_SHIFT = MESSAGE_ID_BYTES * 8"
definition MAX_MESSAGE_ID :: u64 where "MAX_MESSAGE_ID = push_bit MESSAGE_ID_SHIFT 1"
definition ACTION_ID_PREALLOC_LEN :: nat where "ACTION_ID_PREALLOC_LEN = 2048"
definition MESSAGE_ID_PREALLOC_LEN :: nat where "MESSAGE_ID_PREALLOC_LEN = 2048"

datatype action_id = ActionID u64
datatype message_id = MessageID u64

definition action_id_from_transaction_id :: "u64 \<Rightarrow> action_id" where
  "action_id_from_transaction_id trans_id = ActionID (drop_bit MESSAGE_ID_SHIFT trans_id)"

definition message_id_from_transaction_id :: "u64 \<Rightarrow> message_id" where
  "message_id_from_transaction_id trans_id = MessageID (trans_id AND (MAX_MESSAGE_ID - 1))"

record transaction_id =
  trans_id :: u64
  trans_id_bytes :: bytes

definition transaction_id_new :: "u64 \<Rightarrow> transaction_id" where
  "transaction_id_new tid = \<lparr>trans_id = tid, trans_id_bytes = eight_bytes_to_array tid\<rparr>"

definition transaction_id_from_bytes :: "bytes \<Rightarrow> transaction_id option" where
  "transaction_id_from_bytes bs =
     (if length bs \<noteq> TRANSACTION_ID_BYTES then None
      else Some (transaction_id_new (fold (\<lambda>byte tid. push_bit 8 tid OR ucast byte) bs 0)))"

definition transaction_action_id :: "transaction_id \<Rightarrow> action_id" where
  "transaction_action_id self = action_id_from_transaction_id (trans_id self)"

definition transaction_message_id :: "transaction_id \<Rightarrow> message_id" where
  "transaction_message_id self = message_id_from_transaction_id (trans_id self)"

text \<open>\<open>for (index, id) in (start..end).enumerate() { ids[index] = id; }\<close> on an array of zeros.\<close>

definition enumerate_ids :: "u64 \<Rightarrow> u64 \<Rightarrow> nat \<Rightarrow> u64 list" where
  "enumerate_ids alloc_start alloc_end len =
     fold (\<lambda>(index, ident) ids. ids[index := ident])
       (enumerate 0 (map of_nat [unat alloc_start..<unat alloc_end])) (replicate len 0)"

definition generate_mids :: "u64 \<Rightarrow> u64 \<times> u64 list" where
  "generate_mids alloc =
     (let (next_alloc_start, next_alloc_end) =
            (if alloc = MAX_MESSAGE_ID then (0, of_nat MESSAGE_ID_PREALLOC_LEN)
             else (alloc, alloc + of_nat MESSAGE_ID_PREALLOC_LEN))
      in (next_alloc_end, enumerate_ids next_alloc_start next_alloc_end MESSAGE_ID_PREALLOC_LEN))"

definition generate_aids :: "u64 \<Rightarrow> u64 \<times> u64 list" where
  "generate_aids alloc =
     (let (next_alloc_start, next_alloc_end) =
            (if alloc = MAX_ACTION_ID then (0, of_nat ACTION_ID_PREALLOC_LEN)
             else (alloc, alloc + of_nat ACTION_ID_PREALLOC_LEN))
      in (next_alloc_end, enumerate_ids next_alloc_start next_alloc_end ACTION_ID_PREALLOC_LEN))"

record mid_generator =
  mid_action_id :: u64
  mid_next_alloc :: u64
  mid_curr_index :: nat
  message_ids :: "u64 list"

definition mid_generator_new :: "u64 \<Rightarrow> mid_generator" where
  "mid_generator_new aid =
     \<lparr>mid_action_id = aid, mid_next_alloc = 0, mid_curr_index = MESSAGE_ID_PREALLOC_LEN,
      message_ids = replicate MESSAGE_ID_PREALLOC_LEN 0\<rparr>"

definition mid_generator_action_id :: "mid_generator \<Rightarrow> action_id" where
  "mid_generator_action_id self = action_id_from_transaction_id (mid_action_id self)"

fun mid_generate :: "nat \<Rightarrow> (nat \<Rightarrow> nat) \<Rightarrow> mid_generator \<Rightarrow> (transaction_id \<times> mid_generator) option" where
  "mid_generate 0 rnd self = None"
| "mid_generate (Suc fuel) rnd self =
     (case get_slice (message_ids self) (mid_curr_index self) of
        Some mid \<Rightarrow> Some (transaction_id_new (mid_action_id self OR mid),
                          self\<lparr>mid_curr_index := mid_curr_index self + 1\<rparr>)
      | None \<Rightarrow>
          (case generate_mids (mid_next_alloc self) of
             (alloc, ids) \<Rightarrow>
               mid_generate fuel rnd (self\<lparr>mid_next_alloc := alloc, message_ids := fisher_shuffle 0 rnd ids,
                                           mid_curr_index := 0\<rparr>)))"

record aid_generator =
  aid_next_alloc :: u64
  aid_curr_index :: nat
  action_ids :: "u64 list"

definition aid_generator_new :: "(nat \<Rightarrow> nat) \<Rightarrow> aid_generator" where
  "aid_generator_new rnd =
     (case generate_aids 0 of
        (alloc, ids) \<Rightarrow> \<lparr>aid_next_alloc = alloc, aid_curr_index = 0, action_ids = fisher_shuffle 0 rnd ids\<rparr>)"

fun aid_generate :: "nat \<Rightarrow> (nat \<Rightarrow> nat) \<Rightarrow> aid_generator \<Rightarrow> (mid_generator \<times> aid_generator) option" where
  "aid_generate 0 rnd self = None"
| "aid_generate (Suc fuel) rnd self =
     (case get_slice (action_ids self) (aid_curr_index self) of
        Some aid \<Rightarrow> Some (mid_generator_new (push_bit MESSAGE_ID_SHIFT aid),
                          self\<lparr>aid_curr_index := aid_curr_index self + 1\<rparr>)
      | None \<Rightarrow>
          (case generate_aids (aid_next_alloc self) of
             (alloc, ids) \<Rightarrow>
               aid_generate fuel rnd (self\<lparr>aid_next_alloc := alloc, action_ids := fisher_shuffle 0 rnd ids,
                                           aid_curr_index := 0\<rparr>)))"

text \<open>\<open>n\<close> calls in a row, the \<open>k\<close>-th with its own random numbers.\<close>

fun generate_many :: "((nat \<Rightarrow> nat) \<Rightarrow> 'g \<Rightarrow> ('a \<times> 'g) option) \<Rightarrow> (nat \<Rightarrow> nat \<Rightarrow> nat) \<Rightarrow> nat \<Rightarrow> 'g \<Rightarrow> ('a list \<times> 'g) option" where
  "generate_many gen rnds 0 g = Some ([], g)"
| "generate_many gen rnds (Suc n) g =
     (case generate_many gen rnds n g of
        None \<Rightarrow> None
      | Some (xs, g') \<Rightarrow> (case gen (rnds n) g' of None \<Rightarrow> None | Some (x, g'') \<Rightarrow> Some (xs @ [x], g'')))"

section \<open>Lemmas\<close>

lemma fold_enumerate_update:
  "k + length vs \<le> length xs \<Longrightarrow>
   fold (\<lambda>(index, v) ys. ys[index := v]) (enumerate k vs) xs = take k xs @ vs @ drop (k + length vs) xs"
proof (induction vs arbitrary: k xs)
  case (Cons v vs)
  then have "fold (\<lambda>(index, v) ys. ys[index := v]) (enumerate (Suc k) vs) (xs[k := v]) =
      take (Suc k) (xs[k := v]) @ vs @ drop (Suc k + length vs) (xs[k := v])" by simp
  with Cons.prems show ?case by (simp add: take_Suc_conv_app_nth)
qed simp

lemma transaction_consts [simp]:
  "MESSAGE_ID_SHIFT = 24" "ACTION_ID_SHIFT = 40" "unat MAX_MESSAGE_ID = 2 ^ 24" "unat MAX_ACTION_ID = 2 ^ 40"
  "TRANSACTION_ID_BYTES = 8"
  by (simp_all add: MESSAGE_ID_SHIFT_def MESSAGE_ID_BYTES_def ACTION_ID_SHIFT_def ACTION_ID_BYTES_def MAX_MESSAGE_ID_def
      MAX_ACTION_ID_def TRANSACTION_ID_BYTES_def)

lemma enumerate_ids_eq:
  "unat e = unat s + len \<Longrightarrow> enumerate_ids s e len = map of_nat [unat s..<unat s + len]"
  using fold_enumerate_update [of 0 "map of_nat [unat s..<unat s + len]" "replicate len 0"]
  by (simp add: enumerate_ids_def)

text \<open>One block, with the next allocation: consecutive numbers below the limit.\<close>

lemma generate_mids_eq:
  assumes "unat alloc + 2048 \<le> 2 ^ 24"
  shows "generate_mids alloc = (alloc + 2048, map of_nat [unat alloc..<unat alloc + 2048])" "unat (alloc + 2048) = unat alloc + 2048"
proof -
  show "unat (alloc + 2048) = unat alloc + 2048" using assms by (simp add: unat_word_ariths)
  moreover have "alloc \<noteq> MAX_MESSAGE_ID" using assms by (auto simp: transaction_consts(3))
  ultimately show "generate_mids alloc = (alloc + 2048, map of_nat [unat alloc..<unat alloc + 2048])"
    by (simp add: generate_mids_def enumerate_ids_eq MESSAGE_ID_PREALLOC_LEN_def)
qed

text \<open>Generators that hand out the numbers below a limit from shuffled blocks: what a call does with the
  rest of the block, and when the block is used up.\<close>

locale block_generator =
  fixes gen :: "(nat \<Rightarrow> nat) \<Rightarrow> 'g \<Rightarrow> ('a \<times> 'g) option"
    and inv :: "'g \<Rightarrow> bool" and remaining :: "'g \<Rightarrow> nat list" and allocated :: "'g \<Rightarrow> nat"
    and ident :: "'a \<Rightarrow> nat" and good :: "'a \<Rightarrow> bool" and limit :: nat
  assumes from_block: "\<lbrakk>inv g; remaining g = r # rs\<rbrakk> \<Longrightarrow>
      \<exists>x g'. gen rnd g = Some (x, g') \<and> ident x = r \<and> good x \<and> inv g' \<and> remaining g' = rs \<and> allocated g' = allocated g"
    and new_block: "\<lbrakk>inv g; remaining g = []; allocated g < limit\<rbrakk> \<Longrightarrow>
      \<exists>x g'. gen rnd g = Some (x, g') \<and> good x \<and> inv g' \<and>
        add_mset (ident x) (mset (remaining g')) = mset [allocated g..<allocated g'] \<and> allocated g \<le> allocated g'"
begin

lemma block_ids:
  assumes "inv g" and "mset (remaining g) = mset [0..<allocated g]" and "n \<le> limit"
  shows "\<exists>xs g'. generate_many gen rnds n g = Some (xs, g') \<and> inv g' \<and> length xs = n \<and> list_all good xs \<and>
    mset (map ident xs) + mset (remaining g') = mset [0..<allocated g']"
  using assms(3)
proof (induction n)
  case 0
  with assms show ?case by simp
next
  case (Suc n)
  then obtain xs g' where g': "generate_many gen rnds n g = Some (xs, g')" "inv g'" "length xs = n" "list_all good xs"
    "mset (map ident xs) + mset (remaining g') = mset [0..<allocated g']" by auto
  show ?case
  proof (cases "remaining g'")
    case (Cons r rs)
    with from_block [OF g'(2) Cons, of "rnds n"] g' show ?thesis by auto
  next
    case Nil
    have "length xs + length (remaining g') = allocated g'" using arg_cong [OF g'(5), of size] by simp
    with Nil Suc.prems g'(3) have "allocated g' < limit" by simp
    from new_block [OF g'(2) Nil this, of "rnds n"] obtain x g'' where x: "gen (rnds n) g' = Some (x, g'')" "good x" "inv g''"
      "add_mset (ident x) (mset (remaining g'')) = mset [allocated g'..<allocated g'']" "allocated g' \<le> allocated g''" by auto
    have "mset (map ident (xs @ [x])) + mset (remaining g'') = mset (map ident xs) + add_mset (ident x) (mset (remaining g''))"
      by simp
    also have "\<dots> = mset [0..<allocated g'] + mset [allocated g'..<allocated g'']"
      unfolding x(4) using g'(5) Nil by (simp del: mset_map)
    also have "\<dots> = mset [0..<allocated g'']"
      using upt_add_eq_append [of 0 "allocated g'" "allocated g'' - allocated g'"] x(5)
      by (metis le_add_diff_inverse mset_append zero_le)
    finally show ?thesis using x g' by (simp del: mset_map)
  qed
qed

lemma block_ids_distinct:
  assumes "inv g" and "mset (remaining g) = mset [0..<allocated g]" and "n \<le> limit"
  shows "\<exists>xs g'. generate_many gen rnds n g = Some (xs, g') \<and> length xs = n \<and> list_all good xs \<and> distinct (map ident xs)"
proof -
  from block_ids [OF assms, of rnds] obtain xs g' where xs: "generate_many gen rnds n g = Some (xs, g')" "length xs = n"
    "list_all good xs" "mset (map ident xs) + mset (remaining g') = mset [0..<allocated g']" by auto
  then have "mset (map ident xs @ remaining g') = mset [0..<allocated g']" by simp
  then have "distinct (map ident xs @ remaining g')" by (metis mset_eq_imp_distinct_iff distinct_upt)
  with xs show ?thesis by auto
qed

end

lemma unat_map_of_nat: "\<forall>n \<in> set ns. n < 2 ^ 64 \<Longrightarrow> map (unat \<circ> (of_nat :: nat \<Rightarrow> u64)) ns = ns"
  by (induction ns) (auto simp: unat_of_nat)

text \<open>The two halves of a transaction id.\<close>

lemma transaction_halves:
  fixes a m :: u64
  assumes "unat a < 2 ^ 40" and "unat m < 2 ^ 24"
  shows "drop_bit 24 (push_bit 24 a OR m) = a" "(push_bit 24 a OR m) AND (MAX_MESSAGE_ID - 1) = m"
proof -
  have "m = take_bit 24 m" "a = take_bit 40 a"
    using assms by (simp_all add: word_unat_eq_iff unsigned_take_bit_eq take_bit_nat_eq_self)
  then have bits: "bit m k \<Longrightarrow> k < 24" "bit a k \<Longrightarrow> k < 40" for k by (metis bit_take_bit_iff)+
  show "drop_bit 24 (push_bit 24 a OR m) = a"
    by (rule bit_word_eqI) (auto simp: bit_simps dest: bits)
  have "MAX_MESSAGE_ID - 1 = mask 24" by (simp add: MAX_MESSAGE_ID_def mask_eq_exp_minus_1)
  then show "(push_bit 24 a OR m) AND (MAX_MESSAGE_ID - 1) = m"
    by (auto intro!: bit_word_eqI simp: bit_simps dest: bits)
qed

lemma generate_aids_eq:
  assumes "unat alloc + 2048 \<le> 2 ^ 40"
  shows "generate_aids alloc = (alloc + 2048, map of_nat [unat alloc..<unat alloc + 2048])" "unat (alloc + 2048) = unat alloc + 2048"
proof -
  show "unat (alloc + 2048) = unat alloc + 2048" using assms by (simp add: unat_word_ariths)
  moreover have "alloc \<noteq> MAX_ACTION_ID" using assms by (auto simp: transaction_consts(4))
  ultimately show "generate_aids alloc = (alloc + 2048, map of_nat [unat alloc..<unat alloc + 2048])"
    by (simp add: generate_aids_def enumerate_ids_eq ACTION_ID_PREALLOC_LEN_def)
qed

lemma shuffled_block:
  assumes "n + 2048 \<le> 2 ^ 64"
  shows "mset (map unat (fisher_shuffle_copy rnd (map of_nat [n..<n + 2048] :: u64 list))) = mset [n..<n + 2048]"
proof -
  have "map (unat \<circ> (of_nat :: nat \<Rightarrow> u64)) [n..<n + 2048] = [n..<n + 2048]"
    using assms by (intro unat_map_of_nat) auto
  then have "image_mset unat (mset (map of_nat [n..<n + 2048] :: u64 list)) = mset [n..<n + 2048]"
    by (simp only: mset_map [symmetric] map_map)
  then show ?thesis by (simp only: mset_map fisher_shuffle_perm)
qed

lemma next_block_fits:
  assumes "2048 dvd n" and "n < 2 ^ k" and "11 \<le> k"
  shows "n + 2048 \<le> (2 :: nat) ^ k"
proof -
  from assms(3) obtain j where "k = 11 + j" by (auto simp: le_iff_add)
  then have "(2 :: nat) ^ k = 2048 * 2 ^ j" by (simp add: power_add)
  with assms(1,2) show ?thesis by (auto elim!: dvdE)
qed

text \<open>The bytes of an id are its big-endian digits.\<close>

lemma fold_be:
  "length bs \<le> 8 \<Longrightarrow> unat (fold (\<lambda>byte tid. push_bit 8 tid OR ucast byte) bs (0 :: u64)) = be_value bs"
proof (induction bs rule: rev_induct)
  case (snoc b bs)
  let ?t = "fold (\<lambda>byte tid. push_bit 8 tid OR ucast byte) bs (0 :: u64)"
  have t: "unat ?t = be_value bs" using snoc by simp
  have "be_value bs < 256 ^ length bs" by (rule be_value_less)
  also have "\<dots> \<le> 256 ^ 7" using snoc.prems by (intro power_increasing) auto
  finally have small: "be_value bs < 256 ^ 7" .
  have "push_bit 8 ?t OR ucast b = push_bit 8 ?t + ucast b"
    by (rule disjunctive_add [symmetric]) (auto simp: bit_simps dest: bit_imp_le_length)
  moreover have "unat (push_bit 8 ?t) = unat ?t * 256"
    using small t by (simp add: push_bit_eq_mult unat_word_ariths)
  moreover have "unat (ucast b :: u64) = unat b"
    using unat_u8_less [of b] by (simp add: unsigned_ucast_eq take_bit_nat_eq_self)
  ultimately show ?case using small t unat_u8_less [of b] by (simp add: be_value_snoc unat_word_ariths)
qed simp

lemma from_bytes_roundtrip: "transaction_id_from_bytes (eight_bytes_to_array t) = Some (transaction_id_new t)"
proof -
  have l: "length (eight_bytes_to_array t) = 8" by (simp add: eight_bytes_to_array_def)
  then have "fold (\<lambda>byte tid. push_bit 8 tid OR ucast byte) (eight_bytes_to_array t) 0 = t"
    using fold_be [of "eight_bytes_to_array t"] by (simp add: word_unat_eq_iff be_value_eight_bytes)
  with l show ?thesis by (simp add: transaction_id_from_bytes_def)
qed

section \<open>The generators\<close>

text \<open>A transaction id of the action \<open>a\<close>.\<close>

definition message_number :: "transaction_id \<Rightarrow> nat" where
  "message_number x = (case transaction_message_id x of MessageID m \<Rightarrow> unat m)"

definition id_of_action :: "u64 \<Rightarrow> transaction_id \<Rightarrow> bool" where
  "id_of_action a x \<longleftrightarrow> transaction_action_id x = ActionID a \<and> transaction_id_from_bytes (trans_id_bytes x) = Some x"

definition mid_inv :: "u64 \<Rightarrow> mid_generator \<Rightarrow> bool" where
  "mid_inv a g \<longleftrightarrow> unat a < 2 ^ 40 \<and> mid_action_id g = push_bit 24 a \<and>
     2048 dvd unat (mid_next_alloc g) \<and> unat (mid_next_alloc g) \<le> 2 ^ 24 \<and>
     (\<forall>m \<in> set (message_ids g). unat m < 2 ^ 24)"

definition mid_remaining :: "mid_generator \<Rightarrow> nat list" where
  "mid_remaining g = map unat (drop (mid_curr_index g) (message_ids g))"

definition mid_allocated :: "mid_generator \<Rightarrow> nat" where
  "mid_allocated g = unat (mid_next_alloc g)"

lemma transaction_id_new_parts:
  assumes "unat a < 2 ^ 40" and "unat m < 2 ^ 24"
  shows "message_number (transaction_id_new (push_bit 24 a OR m)) = unat m"
    "id_of_action a (transaction_id_new (push_bit 24 a OR m))"
  using transaction_halves [OF assms] from_bytes_roundtrip [of "push_bit 24 a OR m"]
  by (simp_all add: message_number_def transaction_message_id_def message_id_from_transaction_id_def transaction_id_new_def
      id_of_action_def transaction_action_id_def action_id_from_transaction_id_def)

lemma drop_eq_Cons:
  assumes "map f (drop i xs) = r # rs"
  shows "i < length xs \<and> f (xs ! i) = r \<and> map f (drop (Suc i) xs) = rs"
proof -
  have i: "i < length xs" using assms by (cases "i < length xs") simp_all
  with assms Cons_nth_drop_Suc [OF i] show ?thesis by auto
qed

lemma mid_generate_block:
  assumes "mid_inv a g" and "mid_remaining g = r # rs"
  shows "\<exists>x g'. mid_generate (Suc fuel) rnd g = Some (x, g') \<and> message_number x = r \<and> id_of_action a x \<and> mid_inv a g' \<and>
    mid_remaining g' = rs \<and> mid_allocated g' = mid_allocated g"
  using drop_eq_Cons [OF assms(2) [unfolded mid_remaining_def]] assms(1)
  by (auto simp: mid_inv_def mid_remaining_def mid_allocated_def get_slice_def transaction_id_new_parts)

lemma mid_generate_refill:
  assumes g: "mid_inv a g" "mid_remaining g = []" and lim: "mid_allocated g < 2 ^ 24"
  shows "\<exists>x g'. mid_generate 2 rnd g = Some (x, g') \<and> id_of_action a x \<and> mid_inv a g' \<and>
    add_mset (message_number x) (mset (mid_remaining g')) = mset [mid_allocated g..<mid_allocated g'] \<and>
    mid_allocated g \<le> mid_allocated g'"
proof -
  let ?n = "unat (mid_next_alloc g)"
  have n: "?n + 2048 \<le> 2 ^ 24"
    using g(1) lim by (intro next_block_fits) (auto simp: mid_inv_def mid_allocated_def)
  let ?ids = "fisher_shuffle_copy rnd (map of_nat [?n..<?n + 2048]) :: u64 list"
  let ?g = "g\<lparr>mid_next_alloc := mid_next_alloc g + 2048, message_ids := ?ids, mid_curr_index := 0\<rparr>"
  have u: "mid_allocated ?g = ?n + 2048" using generate_mids_eq(2) [OF n] by (simp add: mid_allocated_def)
  have inv: "mid_inv a ?g" using g(1) n u unfolding mid_inv_def mid_allocated_def by (auto simp: unat_of_nat)
  have m: "mset (mid_remaining ?g) = mset [?n..<?n + 2048]"
    using shuffled_block [of ?n rnd] n unfolding mid_remaining_def by simp
  have "length (mid_remaining ?g) = 2048" by (simp add: mid_remaining_def)
  then obtain r rs where r: "mid_remaining ?g = r # rs" by (cases "mid_remaining ?g") auto
  have "get_slice (message_ids g) (mid_curr_index g) = None" using g(2) by (auto simp: mid_remaining_def get_slice_def)
  then have "mid_generate 2 rnd g = mid_generate (Suc 0) rnd ?g"
    using generate_mids_eq(1) [OF n] by (simp add: numeral_2_eq_2)
  with mid_generate_block [OF inv r, of 0 rnd] m r u show ?thesis
    by (auto simp: mid_allocated_def simp del: mid_generate.simps)
qed

interpretation mids: block_generator "mid_generate 2" "mid_inv a" mid_remaining mid_allocated message_number "id_of_action a" "2 ^ 24"
proof
  show "\<exists>x g'. mid_generate 2 rnd g = Some (x, g') \<and> message_number x = r \<and> id_of_action a x \<and> mid_inv a g' \<and>
      mid_remaining g' = rs \<and> mid_allocated g' = mid_allocated g"
    if "mid_inv a g" "mid_remaining g = r # rs" for rnd g r rs
    using mid_generate_block [OF that, of 1 rnd] by (simp only: numeral_2_eq_2 One_nat_def)
qed (rule mid_generate_refill)

text \<open>The generators of an action, numbered by it.\<close>

definition action_number :: "mid_generator \<Rightarrow> nat" where
  "action_number g = unat (drop_bit 24 (mid_action_id g))"

definition new_action :: "mid_generator \<Rightarrow> bool" where
  "new_action g \<longleftrightarrow> (\<exists>a. unat a < 2 ^ 40 \<and> g = mid_generator_new (push_bit 24 a))"

definition aid_inv :: "aid_generator \<Rightarrow> bool" where
  "aid_inv g \<longleftrightarrow> 2048 dvd unat (aid_next_alloc g) \<and> unat (aid_next_alloc g) \<le> 2 ^ 40 \<and>
     (\<forall>a \<in> set (action_ids g). unat a < 2 ^ 40)"

definition aid_remaining :: "aid_generator \<Rightarrow> nat list" where
  "aid_remaining g = map unat (drop (aid_curr_index g) (action_ids g))"

definition aid_allocated :: "aid_generator \<Rightarrow> nat" where
  "aid_allocated g = unat (aid_next_alloc g)"

lemma mid_generator_new_parts:
  assumes "unat a < 2 ^ 40"
  shows "action_number (mid_generator_new (push_bit 24 a)) = unat a" "new_action (mid_generator_new (push_bit 24 a))"
  using transaction_halves(1) [OF assms, of 0] assms by (auto simp: action_number_def mid_generator_new_def new_action_def)

lemma aid_generate_block:
  assumes "aid_inv g" and "aid_remaining g = r # rs"
  shows "\<exists>x g'. aid_generate (Suc fuel) rnd g = Some (x, g') \<and> action_number x = r \<and> new_action x \<and> aid_inv g' \<and>
    aid_remaining g' = rs \<and> aid_allocated g' = aid_allocated g"
  using drop_eq_Cons [OF assms(2) [unfolded aid_remaining_def]] assms(1)
  by (auto simp: aid_inv_def aid_remaining_def aid_allocated_def get_slice_def mid_generator_new_parts)

lemma aid_generate_refill:
  assumes g: "aid_inv g" "aid_remaining g = []" and lim: "aid_allocated g < 2 ^ 40"
  shows "\<exists>x g'. aid_generate 2 rnd g = Some (x, g') \<and> new_action x \<and> aid_inv g' \<and>
    add_mset (action_number x) (mset (aid_remaining g')) = mset [aid_allocated g..<aid_allocated g'] \<and>
    aid_allocated g \<le> aid_allocated g'"
proof -
  let ?n = "unat (aid_next_alloc g)"
  have n: "?n + 2048 \<le> 2 ^ 40"
    using g(1) lim by (intro next_block_fits) (auto simp: aid_inv_def aid_allocated_def)
  let ?ids = "fisher_shuffle_copy rnd (map of_nat [?n..<?n + 2048]) :: u64 list"
  let ?g = "g\<lparr>aid_next_alloc := aid_next_alloc g + 2048, action_ids := ?ids, aid_curr_index := 0\<rparr>"
  have u: "aid_allocated ?g = ?n + 2048" using generate_aids_eq(2) [OF n] by (simp add: aid_allocated_def)
  have inv: "aid_inv ?g" using g(1) n u unfolding aid_inv_def aid_allocated_def by (auto simp: unat_of_nat)
  have m: "mset (aid_remaining ?g) = mset [?n..<?n + 2048]"
    using shuffled_block [of ?n rnd] n unfolding aid_remaining_def by simp
  have "length (aid_remaining ?g) = 2048" by (simp add: aid_remaining_def)
  then obtain r rs where r: "aid_remaining ?g = r # rs" by (cases "aid_remaining ?g") auto
  have "get_slice (action_ids g) (aid_curr_index g) = None" using g(2) by (auto simp: aid_remaining_def get_slice_def)
  then have "aid_generate 2 rnd g = aid_generate (Suc 0) rnd ?g"
    using generate_aids_eq(1) [OF n] by (simp add: numeral_2_eq_2)
  with aid_generate_block [OF inv r, of 0 rnd] m r u show ?thesis
    by (auto simp: aid_allocated_def simp del: aid_generate.simps)
qed

interpretation aids: block_generator "aid_generate 2" aid_inv aid_remaining aid_allocated action_number new_action "2 ^ 40"
proof
  show "\<exists>x g'. aid_generate 2 rnd g = Some (x, g') \<and> action_number x = r \<and> new_action x \<and> aid_inv g' \<and>
      aid_remaining g' = rs \<and> aid_allocated g' = aid_allocated g"
    if "aid_inv g" "aid_remaining g = r # rs" for rnd g r rs
    using aid_generate_block [OF that, of 1 rnd] by (simp only: numeral_2_eq_2 One_nat_def)
qed (rule aid_generate_refill)

section \<open>Properties\<close>

lemma mid_new_ids:
  assumes "new_action g" and "n \<le> 2 ^ 24"
  shows "\<exists>xs g'. generate_many (mid_generate 2) rnds n g = Some (xs, g') \<and> length xs = n \<and>
    (\<forall>x \<in> set xs. transaction_action_id x = mid_generator_action_id g \<and> transaction_id_from_bytes (trans_id_bytes x) = Some x) \<and>
    distinct (map message_number xs)"
proof -
  from assms(1) obtain a where a: "unat a < 2 ^ 40" "g = mid_generator_new (push_bit 24 a)" by (auto simp: new_action_def)
  have "mid_generator_action_id g = ActionID a" using transaction_halves(1) [OF a(1), of 0] a(2)
    by (simp add: mid_generator_action_id_def action_id_from_transaction_id_def mid_generator_new_def)
  moreover have "mid_inv a g" "mid_remaining g = []" "mid_allocated g = 0"
    using a by (simp_all add: mid_generator_new_def mid_inv_def mid_remaining_def mid_allocated_def)
  ultimately show ?thesis using mids.block_ids_distinct [of a g n rnds] assms(2)
    by (auto simp: id_of_action_def list_all_iff)
qed

lemma aid_generator_new_eq:
  "aid_generator_new rnd = \<lparr>aid_next_alloc = 2048, aid_curr_index = 0,
      action_ids = fisher_shuffle_copy rnd (map of_nat [0..<2048])\<rparr>"
  using generate_aids_eq(1) [of 0] by (simp add: aid_generator_new_def)

lemma aid_generator_new_inv: "aid_inv (aid_generator_new rnd)"
  unfolding aid_generator_new_eq aid_inv_def by (auto simp: unat_of_nat)

lemma aid_new_ids:
  assumes "k \<le> 2 ^ 40"
  shows "\<exists>gs g'. generate_many (aid_generate 2) rnds k (aid_generator_new rnd) = Some (gs, g') \<and> length gs = k \<and>
    list_all new_action gs \<and> distinct (map action_number gs)"
proof (rule aids.block_ids_distinct [OF _ _ assms])
  let ?g = "aid_generator_new rnd"
  show "aid_inv ?g" by (rule aid_generator_new_inv)
  show "mset (aid_remaining ?g) = mset [0..<aid_allocated ?g]"
    using shuffled_block [of 0 rnd] unfolding aid_generator_new_eq by (simp add: aid_remaining_def aid_allocated_def)
qed

lemma same_action_number:
  assumes "new_action g" "new_action h" and "mid_generator_action_id g = mid_generator_action_id h"
  shows "action_number g = action_number h"
  using assms(3) by (simp add: mid_generator_action_id_def action_id_from_transaction_id_def action_number_def)

text \<open>C19: Up to 2^40 actions can be started and each can send up to 2^24 messages before any transaction id
  repeats, however the blocks are shuffled; and every id, read back from its bytes, names the action it
  was generated for.\<close>

theorem transaction_ids_unique:
  assumes "k \<le> 2 ^ 40" and "n \<le> 2 ^ 24"
  shows "\<exists>gs g' xss. generate_many (aid_generate 2) rnds k (aid_generator_new rnd) = Some (gs, g') \<and> length gs = k \<and>
    list_all2 (\<lambda>g xs. \<exists>g'. generate_many (mid_generate 2) rnds' n g = Some (xs, g') \<and> length xs = n \<and>
      list_all (\<lambda>x. \<exists>y. transaction_id_from_bytes (trans_id_bytes x) = Some y \<and>
        transaction_action_id y = mid_generator_action_id g) xs) gs xss \<and>
    distinct (concat xss)"
proof -
  from aid_new_ids [OF assms(1)] obtain gs g' where gs: "generate_many (aid_generate 2) rnds k (aid_generator_new rnd) = Some (gs, g')"
    "length gs = k" "list_all new_action gs" "distinct (map action_number gs)" by blast
  let ?P = "\<lambda>g xs. (\<exists>g'. generate_many (mid_generate 2) rnds' n g = Some (xs, g')) \<and> length xs = n \<and>
    (\<forall>x \<in> set xs. transaction_action_id x = mid_generator_action_id g \<and> transaction_id_from_bytes (trans_id_bytes x) = Some x) \<and>
    distinct (map message_number xs)"
  have "\<exists>xss. list_all2 ?P gs xss \<and> distinct (concat xss)"
    using gs(3,4)
  proof (induction gs)
    case (Cons g gs)
    then obtain xss where xss: "list_all2 ?P gs xss" "distinct (concat xss)" by auto
    from Cons.prems mid_new_ids [OF _ assms(2), of g rnds'] obtain xs where xs: "?P g xs" by auto
    have "set xs \<inter> set (concat xss) = {}"
    proof (rule ccontr)
      assume "set xs \<inter> set (concat xss) \<noteq> {}"
      then obtain x ys where x: "x \<in> set xs" "x \<in> set ys" "ys \<in> set xss" by auto
      then obtain i where i: "i < length xss" "xss ! i = ys" by (auto simp: in_set_conv_nth)
      then have h: "?P (gs ! i) ys" "gs ! i \<in> set gs" using xss(1) by (auto simp: list_all2_conv_all_nth)
      with x xs have "mid_generator_action_id g = mid_generator_action_id (gs ! i)" by metis
      then have "action_number g = action_number (gs ! i)"
        using same_action_number Cons.prems(1) h(2) by (auto simp: list_all_iff)
      with Cons.prems(2) h(2) show False by auto
    qed
    moreover have "distinct xs" using xs by (auto simp: distinct_map)
    ultimately have "list_all2 ?P (g # gs) (xs # xss)" "distinct (concat (xs # xss))" using xs xss by auto
    then show ?case by blast
  qed auto
  then obtain xss where xss: "list_all2 ?P gs xss" "distinct (concat xss)" by blast
  from xss(1) have "list_all2 (\<lambda>g xs. \<exists>g'. generate_many (mid_generate 2) rnds' n g = Some (xs, g') \<and> length xs = n \<and>
      list_all (\<lambda>x. \<exists>y. transaction_id_from_bytes (trans_id_bytes x) = Some y \<and>
        transaction_action_id y = mid_generator_action_id g) xs) gs xss"
    by (rule list_all2_mono) (auto simp: list_all_iff)
  with gs xss(2) show ?thesis by blast
qed

theorem transaction_ids_unique_witness:
  "\<exists>gs g' xss. generate_many (aid_generate 2) (\<lambda>_. id) 3000 (aid_generator_new id) = Some (gs, g') \<and>
     length gs = 3000 \<and> distinct (concat xss) \<and>
     list_all2 (\<lambda>g xs. \<exists>g'. generate_many (mid_generate 2) (\<lambda>_. id) 5000 g = Some (xs, g')) gs xss"
proof -
  from transaction_ids_unique [of 3000 5000 "\<lambda>_. id" id "\<lambda>_. id"] obtain gs g' xss where
    x: "generate_many (aid_generate 2) (\<lambda>_. id) 3000 (aid_generator_new id) = Some (gs, g')" "length gs = 3000"
      "distinct (concat xss)" and
    y: "list_all2 (\<lambda>g xs. \<exists>g'. generate_many (mid_generate 2) (\<lambda>_. id) 5000 g = Some (xs, g') \<and> length xs = 5000 \<and>
      list_all (\<lambda>x. \<exists>y. transaction_id_from_bytes (trans_id_bytes x) = Some y \<and>
        transaction_action_id y = mid_generator_action_id g) xs) gs xss" by auto
  from y have "list_all2 (\<lambda>g xs. \<exists>g'. generate_many (mid_generate 2) (\<lambda>_. id) 5000 g = Some (xs, g')) gs xss"
    by (rule list_all2_mono) auto
  with x show ?thesis by blast
qed

end
