(* ===== verification/Dht_Security.thy ===== *)
theory Dht_Security
  imports Dht_Node
begin

text \<open>
  \<open>src/dht/security.rs\<close>: node ids bound to an IPv4 address through a CRC32C checksum of the masked
  address, and the test whether an id complies. \<open>crc\<close> stands for \<open>crc32::checksum_castagnoli\<close> of an
  external package; the random bytes are arguments.
\<close>

section \<open>Definitions\<close>

definition IPV4_MASK :: u32 where "IPV4_MASK = 0x030F3FFF"
definition CRC32C_ARG_SLICE_SIZE :: nat where "CRC32C_ARG_SLICE_SIZE = 8"

text \<open>\<open>u32::from(Ipv4Addr)\<close>: the first octet is the most significant byte.\<close>

fun u32_of_ipv4 :: "ipv4_addr \<Rightarrow> u32" where
  "u32_of_ipv4 (Ipv4Addr a b c d) =
     push_bit 24 (ucast a) OR push_bit 16 (ucast b) OR push_bit 8 (ucast c) OR ucast d"

definition mask_ipv4_be :: "ipv4_addr \<Rightarrow> u32" where
  "mask_ipv4_be addr = u32_of_ipv4 addr AND IPV4_MASK"

text \<open>\<open>rand2\<close> is drawn for the third byte and \<open>filler\<close> for the bytes 3 to 18. An octet number outside
  1 to 8 makes an index leave the array.\<close>

definition generate_compliant_id ::
  "(bytes \<Rightarrow> u32) \<Rightarrow> u64 \<Rightarrow> nat \<Rightarrow> u8 \<Rightarrow> u8 \<Rightarrow> bytes \<Rightarrow> (bytes, unit) outcome" where
  "generate_compliant_id crc masked_ip_be num_octets rand rand2 filler =
     (let r = rand AND 0x07;
          masked_ip_bytes = eight_bytes_to_array masked_ip_be
      in if length masked_ip_bytes < num_octets \<or> num_octets = 0 then Panic
         else let starting_byte = length masked_ip_bytes - num_octets;
                  bs = masked_ip_bytes[starting_byte := masked_ip_bytes ! starting_byte OR push_bit 5 r];
                  crc32c_result = crc (drop starting_byte bs)
              in Ok ([ucast (drop_bit 24 crc32c_result), ucast (drop_bit 16 crc32c_result),
                      ucast (drop_bit 8 crc32c_result AND 0xF8) OR (rand2 AND 0x07)]
                     @ take 16 filler @ [rand]))"

definition generate_compliant_id_ipv4 ::
  "(bytes \<Rightarrow> u32) \<Rightarrow> u8 \<Rightarrow> u8 \<Rightarrow> bytes \<Rightarrow> ipv4_addr \<Rightarrow> (node_id, unit) outcome" where
  "generate_compliant_id_ipv4 crc rand rand2 filler addr =
     and_then (generate_compliant_id crc (ucast (mask_ipv4_be addr)) 4 rand rand2 filler) (\<lambda>ident. Ok (ShaHash ident))"

definition is_compliant_id :: "u32 \<Rightarrow> bytes \<Rightarrow> bool" where
  "is_compliant_id crc32c_result id_bytes \<longleftrightarrow>
     id_bytes ! 0 = ucast (drop_bit 24 crc32c_result) \<and>
     id_bytes ! 1 = ucast (drop_bit 16 crc32c_result) \<and>
     (let mid_id_bits = drop_bit 0 (id_bytes ! 2) AND 0xF8;
          mid_hash_bits = ucast (drop_bit 8 crc32c_result) AND 0xF8
      in mid_id_bits = mid_hash_bits)"

text \<open>The subtraction \<open>ip_bits_used - 3\<close> can leave the range only for no octets: then it panics in a build
  with overflow checks, and the shift distance wraps in one without.\<close>

definition is_compliant_addr :: "bool \<Rightarrow> (bytes \<Rightarrow> u32) \<Rightarrow> u64 \<Rightarrow> nat \<Rightarrow> node_id \<Rightarrow> (bool, unit) outcome" where
  "is_compliant_addr chk crc masked_ip_be num_octets ident =
     (if num_octets > CRC32C_ARG_SLICE_SIZE then Panic
      else let id_bytes = sha_bytes ident;
               rand = id_bytes ! 19;
               r = rand AND 0x07;
               ip_bits_used = num_octets * 8
           in if ip_bits_used < 3 \<and> chk then Panic
              else let rand_masked_ip = masked_ip_be OR push_bit ((2 ^ 64 + ip_bits_used - 3) mod 64) (ucast r);
                       crc32c_result = crc (drop 4 (eight_bytes_to_array rand_masked_ip))
                   in Ok (is_compliant_id crc32c_result id_bytes))"

definition is_security_compliant_ipv4_exempt :: "ipv4_addr \<Rightarrow> bool" where
  "is_security_compliant_ipv4_exempt addr = False"

definition is_compliant_ipv4_addr :: "bool \<Rightarrow> (bytes \<Rightarrow> u32) \<Rightarrow> ipv4_addr \<Rightarrow> node_id \<Rightarrow> (bool, unit) outcome" where
  "is_compliant_ipv4_addr chk crc addr ident =
     (if is_security_compliant_ipv4_exempt addr then Ok True
      else is_compliant_addr chk crc (ucast (mask_ipv4_be addr)) 4 ident)"

section \<open>Lemmas\<close>

lemma low_three_bits: "(7 :: u8) = mask 3" "(0xF8 :: u8) = NOT (mask 3)" "(0xF8 :: u32) = NOT (mask 3) AND mask 8"
  by (simp_all add: mask_eq_exp_minus_1)

lemma middle_byte:
  fixes w :: u32 and x :: u8
  shows "(ucast (w AND 0xF8) OR (x AND 7)) AND 0xF8 = (ucast w AND 0xF8 :: u8)"
  unfolding low_three_bits by (rule bit_word_eqI) (auto simp: bit_simps)

text \<open>Setting the three random bits in the top byte of the address or in the number it is taken from.\<close>

lemma random_bits:
  fixes m :: u64 and x :: u8
  defines "r \<equiv> x AND 7"
  shows "(let bs = eight_bytes_to_array m in drop 4 (bs[4 := bs ! 4 OR push_bit 5 r])) =
    drop 4 (eight_bytes_to_array (m OR push_bit 29 (ucast r)))"
  unfolding r_def low_three_bits eight_bytes_to_array_def Let_def
  by (simp, intro conjI bit_word_eqI) (auto simp: bit_simps)

section \<open>Properties\<close>

text \<open>C20: An id generated for an IPv4 address complies with it, whatever the checksum computes and whatever
  random bytes are drawn, and has the length of a node id.\<close>

theorem generated_id_complies:
  assumes "length filler = 16"
  shows "\<exists>ident. generate_compliant_id_ipv4 crc rand rand2 filler addr = Ok ident \<and>
    length (sha_bytes ident) = SHA_HASH_LEN \<and> is_compliant_ipv4_addr chk crc addr ident = Ok True"
proof -
  let ?m = "ucast (mask_ipv4_be addr) :: u64" and ?r = "rand AND 7"
  let ?bs = "eight_bytes_to_array ?m"
  let ?c = "crc (drop 4 (?bs[4 := ?bs ! 4 OR push_bit 5 ?r]))"
  let ?id = "[ucast (drop_bit 24 ?c), ucast (drop_bit 16 ?c), ucast (drop_bit 8 ?c AND 0xF8) OR (rand2 AND 7)]
    @ filler @ [rand]"
  have len: "length ?bs = 8" by (simp add: eight_bytes_to_array_def)
  then have g: "generate_compliant_id_ipv4 crc rand rand2 filler addr = Ok (ShaHash ?id)"
    using assms by (simp add: generate_compliant_id_ipv4_def generate_compliant_id_def Let_def)
  have "?id ! 19 = rand" using assms by (simp add: nth_append)
  moreover have "crc (drop 4 (eight_bytes_to_array (?m OR push_bit 29 (ucast ?r)))) = ?c"
    using random_bits [of ?m rand] by (simp add: Let_def)
  ultimately have "is_compliant_ipv4_addr chk crc addr (ShaHash ?id) = Ok True"
    by (simp add: is_compliant_ipv4_addr_def is_security_compliant_ipv4_exempt_def is_compliant_addr_def CRC32C_ARG_SLICE_SIZE_def
        is_compliant_id_def Let_def middle_byte)
  with g assms show ?thesis by (auto simp: SHA_HASH_LEN_def)
qed

theorem generated_id_complies_witness:
  "\<exists>ident. generate_compliant_id_ipv4 (\<lambda>bs. of_nat (be_value bs)) 1 2 (replicate 16 3) (Ipv4Addr 124 31 75 21) = Ok ident \<and>
     is_compliant_ipv4_addr True (\<lambda>bs. of_nat (be_value bs)) (Ipv4Addr 124 31 75 21) ident = Ok True"
  using generated_id_complies [of "replicate 16 3"] by fastforce

end
