(* ===== verification/Dht_Bencode.thy ===== *)
theory Dht_Bencode
  imports Bencode_Props Bencode_Access
begin

text \<open>
  \<open>src/dht/bencode\<close>: the bencode implementation the distributed hash table brings with it. Its
  value type has the four variants of \<open>BencodeMut\<close>, and its integer and byte string decoders are
  those of the reference decoder word for word, so they are shared here. Its decoder, however, is
  a loop over an explicit stack without a recursion limit. The loop is translated as it stands;
  \<open>dht_decode_agrees\<close> relates it to the recursive decoder of \<open>src/bencode/reference\<close>, which carries
  the round trip over.
\<close>

section \<open>Values\<close>

type_synonym dht_bencode = bencode_mut

definition dht_kind :: "dht_bencode \<Rightarrow> dht_bencode bencode_kind" where "dht_kind = mut_kind"
definition dht_int :: "dht_bencode \<Rightarrow> int option" where "dht_int = mut_int"
definition dht_bytes :: "dht_bencode \<Rightarrow> bytes option" where "dht_bytes = mut_bytes"
definition dht_list :: "dht_bencode \<Rightarrow> dht_bencode list option" where "dht_list = mut_list"
definition dht_dict :: "dht_bencode \<Rightarrow> (bytes \<times> dht_bencode) list option" where "dht_dict = mut_dict"

definition dht_str :: "dht_bencode \<Rightarrow> bytes option" where
  "dht_str self =
     (case dht_bytes self of
        Some bs \<Rightarrow> if utf8_valid bs then Some bs else None
      | None \<Rightarrow> None)"

text \<open>The macros \<open>dht_ben_map!\<close> and \<open>dht_ben_list!\<close>.\<close>

definition dht_ben_map :: "(bytes \<times> dht_bencode) list \<Rightarrow> dht_bencode" where
  "dht_ben_map kvs = MDict (fold (\<lambda>(k, v) m. snd (dict_insert m k v)) kvs dict_new)"

definition dht_ben_list :: "dht_bencode list \<Rightarrow> dht_bencode" where
  "dht_ben_list vs = MList (fold (\<lambda>v l. l @ [v]) vs [])"

section \<open>Encoder\<close>

definition dht_encode_int :: "int \<Rightarrow> bytes" where
  "dht_encode_int val = INT_START # decimal_int val @ [BEN_END]"

definition dht_encode_bytes :: "bytes \<Rightarrow> bytes" where
  "dht_encode_bytes list = decimal_nat (length list) @ [BYTE_LEN_END] @ list"

fun dht_encode :: "dht_bencode \<Rightarrow> bytes" where
  "dht_encode (MInt n) = dht_encode_int n"
| "dht_encode (MBytes n) = dht_encode_bytes n"
| "dht_encode (MList list) = fold (\<lambda>i bytes. bytes @ dht_encode i) list [LIST_START] @ [BEN_END]"
| "dht_encode (MDict d) =
     (let sort_dict = sort_key fst (dict_to_list d) in
      fold (\<lambda>(key, value) bytes. (bytes @ dht_encode_bytes key) @ dht_encode value) sort_dict [DICT_START]
        @ [BEN_END])"

section \<open>Decoder\<close>

text \<open>An entry of the stack: a value, or a value under the key of the dictionary below it.\<close>

datatype ibencode_type = IBencode dht_bencode | IBencodeMapping bytes dht_bencode

fun ibencode_value :: "ibencode_type \<Rightarrow> dht_bencode" where
  "ibencode_value (IBencode b) = b"
| "ibencode_value (IBencodeMapping _ b) = b"

definition decode_key :: "bytes \<Rightarrow> nat \<Rightarrow> (bytes \<times> nat) parse_result" where
  "decode_key bytes pos = and_then (decode_bytes bytes pos) (\<lambda>(key_bytes, next_pos). Ok (key_bytes, next_pos))"

definition decode_shallow :: "bytes \<Rightarrow> nat \<Rightarrow> (dht_bencode \<times> nat) parse_result" where
  "decode_shallow bytes pos =
     and_then (peek_byte bytes pos) (\<lambda>curr_byte.
       if curr_byte = INT_START then
         and_then (decode_int bytes (pos + 1) BEN_END) (\<lambda>(bencode, pos). Ok (MInt bencode, pos))
       else if curr_byte = LIST_START then Ok (MList [], pos + 1)
       else if curr_byte = DICT_START then Ok (MDict dict_new, pos + 1)
       else if BYTE_LEN_LOW \<le> curr_byte \<and> curr_byte \<le> BYTE_LEN_HIGH then
         and_then (decode_bytes bytes pos) (\<lambda>(bencode, pos). Ok (MBytes bencode, pos))
       else Err (InvalidByte pos))"

text \<open>The insertion of an entry into a dictionary: \<open>error_key\<close> is the key an error names.\<close>

definition collapse_entry ::
  "nat \<Rightarrow> bytes \<Rightarrow> bytes \<Rightarrow> dht_bencode \<Rightarrow> (bytes \<times> dht_bencode) list \<Rightarrow> ((bytes \<times> dht_bencode) list) parse_result" where
  "collapse_entry curr_pos error_key key bencode d =
     (if (case btree_last_key d of Some last_key \<Rightarrow> key < last_key | None \<Rightarrow> False)
      then Err (InvalidKeyOrdering curr_pos error_key)
      else if dict_lookup d key \<noteq> None then Err (InvalidKeyDuplicates curr_pos error_key)
      else Ok (snd (dict_insert d key bencode)))"

text \<open>
  The stack is a list with its top first. The result is the complete value when the stack is
  empty, and otherwise the stack with the value added to its top.
\<close>

definition collapse_bencode ::
  "ibencode_type list \<Rightarrow> ibencode_type \<Rightarrow> nat \<Rightarrow> (dht_bencode option \<times> ibencode_type list) parse_result" where
  "collapse_bencode stack ib curr_pos =
     (case stack of
        top_ibencode # rest \<Rightarrow>
          (case (top_ibencode, ib) of
             (IBencode (MList l), IBencode bencode) \<Rightarrow> Ok (None, IBencode (MList (l @ [bencode])) # rest)
           | (IBencode (MDict d), IBencodeMapping key bencode) \<Rightarrow>
               and_then (collapse_entry curr_pos key key bencode d) (\<lambda>d'.
                 Ok (None, IBencode (MDict d') # rest))
           | (IBencodeMapping key (MList l), IBencode bencode) \<Rightarrow>
               Ok (None, IBencodeMapping key (MList (l @ [bencode])) # rest)
           | (IBencodeMapping key (MDict d), IBencodeMapping i_key bencode) \<Rightarrow>
               and_then (collapse_entry curr_pos key i_key bencode d) (\<lambda>d'.
                 Ok (None, IBencodeMapping key (MDict d') # rest))
           | _ \<Rightarrow> Panic)
      | [] \<Rightarrow>
          (case ib of
             IBencode bencode \<Rightarrow> Ok (Some bencode, [])
           | IBencodeMapping _ _ \<Rightarrow> Panic))"

lemma decode_shallow_progress:
  "decode_shallow bytes pos = Ok (b, np) \<Longrightarrow> pos < np \<and> np \<le> length bytes"
  by (auto simp: decode_shallow_def dest: decode_int_progress decode_bytes_progress split: if_splits)

lemma collapse_bencode_length:
  "collapse_bencode stack ib pos = Ok (None, stack') \<Longrightarrow> length stack' = length stack"
  by (auto simp: collapse_bencode_def split: list.splits ibencode_type.splits bencode_mut.splits)

text \<open>The \<open>while\<close> loop of \<open>decode\<close>; the arms for a value and for a mapping do the same.\<close>

function decode_loop :: "bytes \<Rightarrow> nat \<Rightarrow> ibencode_type list \<Rightarrow> (dht_bencode \<times> nat) parse_result" where
  "decode_loop bytes pos [] = Panic"
| "decode_loop bytes pos (cur # stack) =
     (case ibencode_value cur of
        MInt _ \<Rightarrow>
          and_then (collapse_bencode stack cur pos) (\<lambda>(opt_last_type, stack').
            case opt_last_type of
              Some last_type \<Rightarrow> Ok (last_type, pos)
            | None \<Rightarrow> decode_loop bytes pos stack')
      | MBytes _ \<Rightarrow>
          and_then (collapse_bencode stack cur pos) (\<lambda>(opt_last_type, stack').
            case opt_last_type of
              Some last_type \<Rightarrow> Ok (last_type, pos)
            | None \<Rightarrow> decode_loop bytes pos stack')
      | MList _ \<Rightarrow>
          and_then (peek_byte bytes pos) (\<lambda>curr_byte.
            if curr_byte = BEN_END then
              and_then (collapse_bencode stack cur (pos + 1)) (\<lambda>(opt_last_type, stack').
                case opt_last_type of
                  Some last_type \<Rightarrow> Ok (last_type, pos + 1)
                | None \<Rightarrow> decode_loop bytes (pos + 1) stack')
            else
              and_then (decode_shallow bytes pos) (\<lambda>(shallow_type, new_pos).
                decode_loop bytes new_pos (IBencode shallow_type # cur # stack)))
      | MDict _ \<Rightarrow>
          and_then (peek_byte bytes pos) (\<lambda>curr_byte.
            if curr_byte = BEN_END then
              and_then (collapse_bencode stack cur (pos + 1)) (\<lambda>(opt_last_type, stack').
                case opt_last_type of
                  Some last_type \<Rightarrow> Ok (last_type, pos + 1)
                | None \<Rightarrow> decode_loop bytes (pos + 1) stack')
            else
              and_then (decode_key bytes pos) (\<lambda>(key, key_end).
                and_then (decode_shallow bytes key_end) (\<lambda>(shallow_type, new_pos).
                  decode_loop bytes new_pos (IBencodeMapping key shallow_type # cur # stack)))))"
  by pat_completeness auto
termination
proof (relation "measure (\<lambda>(bytes, pos, stack). 2 * (length bytes - pos) + length stack)", goal_cases)
  case (5 bytes pos cur stack l c r sh np)
  then show ?case by (auto dest: decode_shallow_progress)
next
  case (7 bytes pos cur stack d c r key key_end r' sh np)
  then show ?case
    by (auto simp: decode_key_def dest!: decode_shallow_progress decode_bytes_progress)
qed (auto dest: collapse_bencode_length)

declare decode_loop.simps(2) [simp del]

definition dht_decode :: "bytes \<Rightarrow> nat \<Rightarrow> (dht_bencode \<times> nat) parse_result" where
  "dht_decode bytes pos =
     and_then (decode_shallow bytes pos) (\<lambda>(shallow_type, new_pos).
       decode_loop bytes new_pos [IBencode shallow_type])"

text \<open>\<open>Bencode::decode\<close>.\<close>

definition dht_bencode_decode :: "bytes \<Rightarrow> dht_bencode parse_result" where
  "dht_bencode_decode bytes =
     and_then (dht_decode bytes 0) (\<lambda>(bencode, end_pos).
       if end_pos \<noteq> length bytes then Err (BytesEmpty end_pos) else Ok bencode)"


section \<open>Conversions\<close>

text \<open>The trait \<open>BencodeConvert\<close> of \<open>convert.rs\<close> and the trait \<open>Dictionary\<close>, implemented for the
  ordered map.\<close>

definition dht_dictionary_to_list :: "(bytes \<times> dht_bencode) list \<Rightarrow> (bytes \<times> dht_bencode) list" where
  "dht_dictionary_to_list = dict_to_list"

definition dht_dictionary_lookup :: "(bytes \<times> dht_bencode) list \<Rightarrow> bytes \<Rightarrow> dht_bencode option" where
  "dht_dictionary_lookup = dict_lookup"

definition dht_convert_int ::
  "(bencode_convert_error \<Rightarrow> 'e) \<Rightarrow> dht_bencode \<Rightarrow> bytes \<Rightarrow> (int, 'e) outcome" where
  "dht_convert_int handle_error bencode error_key =
     ok_or (dht_int bencode) (handle_error (WrongType error_key ''Integer''))"

definition dht_convert_bytes ::
  "(bencode_convert_error \<Rightarrow> 'e) \<Rightarrow> dht_bencode \<Rightarrow> bytes \<Rightarrow> (bytes, 'e) outcome" where
  "dht_convert_bytes handle_error bencode error_key =
     ok_or (dht_bytes bencode) (handle_error (WrongType error_key ''Bytes''))"

definition dht_convert_str ::
  "(bencode_convert_error \<Rightarrow> 'e) \<Rightarrow> dht_bencode \<Rightarrow> bytes \<Rightarrow> (bytes, 'e) outcome" where
  "dht_convert_str handle_error bencode error_key =
     ok_or (dht_str bencode) (handle_error (WrongType error_key ''UTF-8 Bytes''))"

definition dht_convert_list ::
  "(bencode_convert_error \<Rightarrow> 'e) \<Rightarrow> dht_bencode \<Rightarrow> bytes \<Rightarrow> (dht_bencode list, 'e) outcome" where
  "dht_convert_list handle_error bencode error_key =
     ok_or (dht_list bencode) (handle_error (WrongType error_key ''List''))"

definition dht_convert_dict ::
  "(bencode_convert_error \<Rightarrow> 'e) \<Rightarrow> dht_bencode \<Rightarrow> bytes \<Rightarrow> ((bytes \<times> dht_bencode) list, 'e) outcome" where
  "dht_convert_dict handle_error bencode error_key =
     ok_or (dht_dict bencode) (handle_error (WrongType error_key ''Dictionary''))"

definition dht_lookup ::
  "(bencode_convert_error \<Rightarrow> 'e) \<Rightarrow> (bytes \<times> dht_bencode) list \<Rightarrow> bytes \<Rightarrow> (dht_bencode, 'e) outcome" where
  "dht_lookup handle_error dictionary key_ref =
     (case dht_dictionary_lookup dictionary key_ref of
        Some n \<Rightarrow> Ok n
      | None \<Rightarrow> Err (handle_error (MissingKey key_ref)))"

definition dht_lookup_and_convert_int ::
  "(bencode_convert_error \<Rightarrow> 'e) \<Rightarrow> (bytes \<times> dht_bencode) list \<Rightarrow> bytes \<Rightarrow> (int, 'e) outcome" where
  "dht_lookup_and_convert_int h dictionary key =
     and_then (dht_lookup h dictionary key) (\<lambda>b. dht_convert_int h b key)"

definition dht_lookup_and_convert_bytes ::
  "(bencode_convert_error \<Rightarrow> 'e) \<Rightarrow> (bytes \<times> dht_bencode) list \<Rightarrow> bytes \<Rightarrow> (bytes, 'e) outcome" where
  "dht_lookup_and_convert_bytes h dictionary key =
     and_then (dht_lookup h dictionary key) (\<lambda>b. dht_convert_bytes h b key)"

definition dht_lookup_and_convert_str ::
  "(bencode_convert_error \<Rightarrow> 'e) \<Rightarrow> (bytes \<times> dht_bencode) list \<Rightarrow> bytes \<Rightarrow> (bytes, 'e) outcome" where
  "dht_lookup_and_convert_str h dictionary key =
     and_then (dht_lookup h dictionary key) (\<lambda>b. dht_convert_str h b key)"

definition dht_lookup_and_convert_list ::
  "(bencode_convert_error \<Rightarrow> 'e) \<Rightarrow> (bytes \<times> dht_bencode) list \<Rightarrow> bytes \<Rightarrow> (dht_bencode list, 'e) outcome" where
  "dht_lookup_and_convert_list h dictionary key =
     and_then (dht_lookup h dictionary key) (\<lambda>b. dht_convert_list h b key)"

definition dht_lookup_and_convert_dict ::
  "(bencode_convert_error \<Rightarrow> 'e) \<Rightarrow> (bytes \<times> dht_bencode) list \<Rightarrow> bytes \<Rightarrow> ((bytes \<times> dht_bencode) list, 'e) outcome" where
  "dht_lookup_and_convert_dict h dictionary key =
     and_then (dht_lookup h dictionary key) (\<lambda>b. dht_convert_dict h b key)"

lemmas dht_convert_defs =
  dht_convert_int_def dht_convert_bytes_def dht_convert_str_def dht_convert_list_def dht_convert_dict_def
  dht_lookup_and_convert_int_def dht_lookup_and_convert_bytes_def dht_lookup_and_convert_str_def
  dht_lookup_and_convert_list_def dht_lookup_and_convert_dict_def dht_lookup_def dht_dictionary_lookup_def

lemmas dht_access_defs = dht_int_def dht_bytes_def dht_str_def dht_list_def dht_dict_def

interpretation dht_access: bref_access dht_kind dht_int dht_bytes dht_str dht_list dht_dict
proof
  fix b n s l d
  show "dht_int b = Some n \<longleftrightarrow> dht_kind b = KInt n" by (cases b) (auto simp: dht_int_def dht_kind_def)
  show "dht_bytes b = Some s \<longleftrightarrow> dht_kind b = KBytes s" by (cases b) (auto simp: dht_bytes_def dht_kind_def)
  show "dht_str b = Some s \<longleftrightarrow> dht_kind b = KBytes s \<and> utf8_valid s"
    by (cases b) (auto simp: dht_str_def dht_bytes_def dht_kind_def)
  show "dht_list b = Some l \<longleftrightarrow> dht_kind b = KList l" by (cases b) (auto simp: dht_list_def dht_kind_def)
  show "dht_dict b = Some d \<longleftrightarrow> dht_kind b = KDict d" by (cases b) (auto simp: dht_dict_def dht_kind_def)
qed

lemma mut_accessors_iff:
  "mut_int b = Some n \<longleftrightarrow> b = MInt n" "mut_bytes b = Some s \<longleftrightarrow> b = MBytes s"
  "mut_list b = Some l \<longleftrightarrow> b = MList l" "mut_dict b = Some d \<longleftrightarrow> b = MDict d"
  by (cases b; simp)+

text \<open>What a typed lookup returns, and that it never panics.\<close>

lemma dht_lookup_bytes_Ok [simp]:
  "dht_lookup_and_convert_bytes h d k = Ok s \<longleftrightarrow> dict_lookup d k = Some (MBytes s)"
  by (auto simp: dht_convert_defs dht_access_defs mut_accessors_iff split: option.splits)

lemma dht_lookup_dict_Ok [simp]:
  "dht_lookup_and_convert_dict h d k = Ok m \<longleftrightarrow> dict_lookup d k = Some (MDict m)"
  by (auto simp: dht_convert_defs dht_access_defs mut_accessors_iff split: option.splits)

lemma dht_lookup_list_Ok [simp]:
  "dht_lookup_and_convert_list h d k = Ok l \<longleftrightarrow> dict_lookup d k = Some (MList l)"
  by (auto simp: dht_convert_defs dht_access_defs mut_accessors_iff split: option.splits)

lemma dht_lookup_int_Ok [simp]:
  "dht_lookup_and_convert_int h d k = Ok n \<longleftrightarrow> dict_lookup d k = Some (MInt n)"
  by (auto simp: dht_convert_defs dht_access_defs mut_accessors_iff split: option.splits)

lemma dht_lookup_str_Ok [simp]:
  "dht_lookup_and_convert_str h d k = Ok s \<longleftrightarrow> dict_lookup d k = Some (MBytes s) \<and> utf8_valid s"
  by (auto simp: dht_convert_defs dht_access.as_str_kind dht_kind_def split: option.splits)
     (auto simp: mut_access.as_bytes_kind [symmetric] mut_accessors_iff)

lemma dht_lookups_no_panic [simp]:
  "dht_lookup_and_convert_bytes h d k \<noteq> Panic" "dht_lookup_and_convert_str h d k \<noteq> Panic"
  "dht_lookup_and_convert_dict h d k \<noteq> Panic" "dht_lookup_and_convert_list h d k \<noteq> Panic"
  "dht_lookup_and_convert_int h d k \<noteq> Panic"
  by (auto simp: dht_convert_defs and_then_eq_Panic split: option.splits)

section \<open>The encoder writes the format\<close>

lemma dht_encode_bytes_eq: "dht_encode_bytes s = bencoding_bytes s"
  by (simp add: dht_encode_bytes_def bencoding_bytes_def)

lemma dht_encode_eq: "dht_encode b = bencoding b"
proof (induction b)
  case (MList l)
  have "fold (\<lambda>i bytes. bytes @ dht_encode i) l [LIST_START] = [LIST_START] @ concat (map bencoding l)"
    by (rule fold_append_map) (simp add: MList)
  then show ?case by simp
next
  case (MDict d)
  have "fold (\<lambda>(k, v) bytes. (bytes @ dht_encode_bytes k) @ dht_encode v) (sort_key fst d) [DICT_START] =
      [DICT_START] @ concat (map (\<lambda>(k, v). bencoding_bytes k @ bencoding v) (sort_key fst d))"
    by (rule fold_append_map) (auto simp: dht_encode_bytes_eq MDict)
  then show ?case by (simp add: dict_to_list_def)
qed (simp_all add: dht_encode_int_def dht_encode_bytes_eq)

section \<open>The stack decoder and the recursive decoder\<close>

text \<open>
  \<open>entry_of\<close> builds a stack entry, with or without a key. \<open>enter\<close> is the loop from the start of a
  value, \<open>resume\<close> the loop after a value is complete. A run agrees with a result of the recursive
  decoder when it resumes with the decoded value, or fails where the other does.
\<close>

fun entry_of :: "bytes option \<Rightarrow> dht_bencode \<Rightarrow> ibencode_type" where
  "entry_of None b = IBencode b"
| "entry_of (Some k) b = IBencodeMapping k b"

definition enter :: "bytes \<Rightarrow> nat \<Rightarrow> bytes option \<Rightarrow> ibencode_type list \<Rightarrow> (dht_bencode \<times> nat) parse_result" where
  "enter bytes pos w st =
     and_then (decode_shallow bytes pos) (\<lambda>(sh, np). decode_loop bytes np (entry_of w sh # st))"

definition resume :: "bytes \<Rightarrow> nat \<Rightarrow> ibencode_type list \<Rightarrow> ibencode_type \<Rightarrow> (dht_bencode \<times> nat) parse_result" where
  "resume bytes pos st ib =
     and_then (collapse_bencode st ib pos) (\<lambda>(opt_last_type, st').
       case opt_last_type of
         Some last_type \<Rightarrow> Ok (last_type, pos)
       | None \<Rightarrow> decode_loop bytes pos st')"

definition agrees ::
  "bytes \<Rightarrow> ('a \<times> nat) parse_result \<Rightarrow> (dht_bencode \<times> nat) parse_result \<Rightarrow> ibencode_type list \<Rightarrow> ('a \<Rightarrow> ibencode_type) \<Rightarrow> bool"
where
  "agrees bytes res run st f \<longleftrightarrow>
     (case res of Ok (x, np) \<Rightarrow> run = resume bytes np st (f x) | _ \<Rightarrow> (\<exists>e. run = Err e))"

definition mut_dict_of :: "(bytes \<times> bencode_ref) list \<Rightarrow> (bytes \<times> dht_bencode) list" where
  "mut_dict_of d = map (\<lambda>(k, v). (k, mut_of v)) d"

lemma entry_of_value [simp]: "ibencode_value (entry_of w b) = b"
  by (cases w) simp_all

lemma decode_key_eq: "decode_key = decode_bytes"
proof (intro ext)
  fix bytes pos
  show "decode_key bytes pos = decode_bytes bytes pos"
    by (cases "decode_bytes bytes pos") (auto simp: decode_key_def)
qed

lemma loop_int [simp]: "decode_loop bytes pos (entry_of w (MInt n) # st) = resume bytes pos st (entry_of w (MInt n))"
  by (subst decode_loop.simps) (simp add: resume_def)

lemma loop_bytes [simp]:
  "decode_loop bytes pos (entry_of w (MBytes s) # st) = resume bytes pos st (entry_of w (MBytes s))"
  by (subst decode_loop.simps) (simp add: resume_def)

lemma loop_list:
  "decode_loop bytes pos (entry_of w (MList l) # st) =
     and_then (peek_byte bytes pos) (\<lambda>c.
       if c = BEN_END then resume bytes (pos + 1) st (entry_of w (MList l))
       else enter bytes pos None (entry_of w (MList l) # st))"
  by (subst decode_loop.simps) (simp only: resume_def enter_def entry_of_value entry_of.simps bencode_mut.case)

lemma loop_dict:
  "decode_loop bytes pos (entry_of w (MDict d) # st) =
     and_then (peek_byte bytes pos) (\<lambda>c.
       if c = BEN_END then resume bytes (pos + 1) st (entry_of w (MDict d))
       else and_then (decode_bytes bytes pos) (\<lambda>(k, p). enter bytes p (Some k) (entry_of w (MDict d) # st)))"
  by (subst decode_loop.simps)
     (simp only: resume_def enter_def decode_key_eq entry_of_value entry_of.simps bencode_mut.case)

lemma resume_list:
  "resume bytes pos (entry_of w (MList l) # st) (IBencode b) = decode_loop bytes pos (entry_of w (MList (l @ [b])) # st)"
  by (cases w) (simp_all add: resume_def collapse_bencode_def)


lemma resume_dict:
  "resume bytes pos (entry_of w (MDict d) # st) (IBencodeMapping k b) =
     and_then (collapse_entry pos (case w of None \<Rightarrow> k | Some k' \<Rightarrow> k') k b d)
       (\<lambda>d'. decode_loop bytes pos (entry_of w (MDict d') # st))"
proof (cases w)
  case None
  then show ?thesis
    by (cases "collapse_entry pos k k b d") (simp_all add: resume_def collapse_bencode_def)
next
  case (Some k')
  then show ?thesis
    by (cases "collapse_entry pos k' k b d") (simp_all add: resume_def collapse_bencode_def)
qed

lemma mut_dict_of_lookup: "dict_lookup (mut_dict_of d) k = map_option mut_of (dict_lookup d k)"
  by (induction d) (auto simp: mut_dict_of_def dict_lookup_def)

lemma mut_dict_of_insert: "snd (dict_insert (mut_dict_of d) k (mut_of v)) = mut_dict_of (snd (dict_insert d k v))"
  by (induction d) (auto simp: mut_dict_of_def dict_insert_def)

lemma mut_dict_of_last_key: "btree_last_key (mut_dict_of d) = btree_last_key d"
  by (auto simp: mut_dict_of_def btree_last_key_def last_map split: prod.splits)

lemma collapse_entry_mut_dict_of:
  assumes "check_key_sort opts"
  shows "collapse_entry pos ek k (mut_of v) (mut_dict_of d) =
    (if key_out_of_order opts d k then Err (InvalidKeyOrdering pos ek)
     else if dict_lookup d k \<noteq> None then Err (InvalidKeyDuplicates pos ek)
     else Ok (mut_dict_of (snd (dict_insert d k v))))"
  using assms
  by (simp add: collapse_entry_def key_out_of_order_def mut_dict_of_last_key mut_dict_of_lookup
      mut_dict_of_insert split: option.splits)

lemma peek_byte_at: "pos < length bytes \<Longrightarrow> peek_byte bytes pos = Ok (bytes ! pos)"
  by (simp add: peek_byte_def get_slice_def)

definition sim_value :: "bytes \<Rightarrow> bdecode_opt \<Rightarrow> nat \<Rightarrow> bool" where
  "sim_value bytes opts pos \<longleftrightarrow> (\<forall>depth w st. depth \<le> pos \<longrightarrow>
     agrees bytes (decode bytes pos opts depth) (enter bytes pos w st) st (\<lambda>r. entry_of w (mut_of r)))"

definition sim_list :: "bytes \<Rightarrow> bdecode_opt \<Rightarrow> nat \<Rightarrow> bool" where
  "sim_list bytes opts pos \<longleftrightarrow> (\<forall>depth w st l. depth < pos \<longrightarrow>
     agrees bytes (decode_list bytes pos opts depth l)
       (decode_loop bytes pos (entry_of w (MList (map mut_of l)) # st)) st
       (\<lambda>l. entry_of w (MList (map mut_of l))))"

definition sim_dict :: "bytes \<Rightarrow> bdecode_opt \<Rightarrow> nat \<Rightarrow> bool" where
  "sim_dict bytes opts pos \<longleftrightarrow> (\<forall>depth w st d. depth < pos \<longrightarrow>
     agrees bytes (decode_dict bytes pos opts depth d)
       (decode_loop bytes pos (entry_of w (MDict (mut_dict_of d)) # st)) st
       (\<lambda>d. entry_of w (MDict (mut_dict_of d))))"

lemma sim_valueD:
  "sim_value bytes opts pos \<Longrightarrow> depth \<le> pos \<Longrightarrow>
     agrees bytes (decode bytes pos opts depth) (enter bytes pos w st) st (\<lambda>r. entry_of w (mut_of r))"
  unfolding sim_value_def by blast

lemma sim_listD:
  "sim_list bytes opts pos \<Longrightarrow> depth < pos \<Longrightarrow>
     agrees bytes (decode_list bytes pos opts depth l)
       (decode_loop bytes pos (entry_of w (MList (map mut_of l)) # st)) st
       (\<lambda>l. entry_of w (MList (map mut_of l)))"
  unfolding sim_list_def by blast

lemma sim_dictD:
  "sim_dict bytes opts pos \<Longrightarrow> depth < pos \<Longrightarrow>
     agrees bytes (decode_dict bytes pos opts depth d)
       (decode_loop bytes pos (entry_of w (MDict (mut_dict_of d)) # st)) st
       (\<lambda>d. entry_of w (MDict (mut_dict_of d)))"
  unfolding sim_dict_def by blast

lemma agrees_Ok [simp]: "agrees bytes (Ok (x, np)) run st f \<longleftrightarrow> run = resume bytes np st (f x)"
  by (simp add: agrees_def)

lemma agrees_Err [simp]: "agrees bytes (Err e) run st f \<longleftrightarrow> (\<exists>e. run = Err e)"
  by (simp add: agrees_def)

lemma agrees_Panic [simp]: "agrees bytes Panic run st f \<longleftrightarrow> (\<exists>e. run = Err e)"
  by (simp add: agrees_def)

lemma sim_value_step:
  assumes len: "length bytes < max_recursion opts" and pos: "pos \<le> length bytes"
    and l: "pos < length bytes \<Longrightarrow> sim_list bytes opts (Suc pos)"
    and d: "pos < length bytes \<Longrightarrow> sim_dict bytes opts (Suc pos)"
  shows "sim_value bytes opts pos"
  unfolding sim_value_def
proof (intro allI impI)
  fix depth w st
  assume depth: "depth \<le> pos"
  let ?G = "agrees bytes (decode bytes pos opts depth) (enter bytes pos w st) st (\<lambda>r. entry_of w (mut_of r))"
  have rec: "\<not> max_recursion opts \<le> depth" using depth pos len by simp
  show ?G
  proof (cases "pos < length bytes")
    case False
    with rec show ?thesis
      by (simp add: decode.simps enter_def decode_shallow_def peek_byte_def get_slice_def)
  next
    case True
    note peek = peek_byte_at [OF True]
    consider (i) "bytes ! pos = INT_START" | (l) "bytes ! pos = LIST_START" | (d) "bytes ! pos = DICT_START"
      | (b) "bytes ! pos \<noteq> INT_START" "bytes ! pos \<noteq> LIST_START" "bytes ! pos \<noteq> DICT_START"
      by blast
    then show ?thesis
    proof cases
      case i
      have "decode_int bytes (Suc pos) BEN_END \<noteq> Panic" using True by (simp add: decode_int_panic_iff)
      with i rec show ?thesis
        by (cases "decode_int bytes (Suc pos) BEN_END")
           (auto simp: decode.simps [of bytes pos] peek enter_def decode_shallow_def slice_range_def
            dest!: decode_int_progress)
    next
      case l
      have c: "LIST_START \<noteq> INT_START" by (simp add: ben_consts)
      have e: "enter bytes pos w st = decode_loop bytes (Suc pos) (entry_of w (MList (map mut_of [])) # st)"
        using l c by (simp add: peek enter_def decode_shallow_def)
      have "agrees bytes (decode_list bytes (Suc pos) opts depth []) (enter bytes pos w st) st
          (\<lambda>l. entry_of w (MList (map mut_of l)))"
        unfolding e using assms(3) [OF True] depth by (intro sim_listD) simp_all
      moreover have "decode bytes pos opts depth = and_then (decode_list bytes (Suc pos) opts depth []) (\<lambda>(l, next_pos).
            and_then (slice_range bytes pos next_pos) (\<lambda>buf. Ok (RList l buf, next_pos)))"
        using rec l c by (simp add: peek decode.simps [of bytes pos])
      ultimately show ?thesis
        using decode_progress(2) [of bytes "Suc pos" opts depth "[]"]
        by (cases "decode_list bytes (Suc pos) opts depth []") (auto simp: slice_range_def)
    next
      case d
      have c: "DICT_START \<noteq> INT_START" "DICT_START \<noteq> LIST_START" by (simp_all add: ben_consts)
      have e: "enter bytes pos w st = decode_loop bytes (Suc pos) (entry_of w (MDict (mut_dict_of [])) # st)"
        using d c by (simp add: peek enter_def decode_shallow_def mut_dict_of_def dict_new_def)
      have "agrees bytes (decode_dict bytes (Suc pos) opts depth []) (enter bytes pos w st) st
          (\<lambda>d. entry_of w (MDict (mut_dict_of d)))"
        unfolding e using assms(4) [OF True] depth by (intro sim_dictD) simp_all
      moreover have "decode bytes pos opts depth = and_then (decode_dict bytes (Suc pos) opts depth []) (\<lambda>(d, next_pos).
            and_then (slice_range bytes pos next_pos) (\<lambda>buf. Ok (RDict d buf, next_pos)))"
        using rec d c by (simp add: peek decode.simps [of bytes pos])
      ultimately show ?thesis
        using decode_progress(3) [of bytes "Suc pos" opts depth "[]"]
        by (cases "decode_dict bytes (Suc pos) opts depth []") (auto simp: slice_range_def mut_dict_of_def)
    next
      case b
      have "decode_bytes bytes pos \<noteq> Panic" using True by (simp add: decode_bytes_no_panic)
      with b rec show ?thesis
        by (cases "decode_bytes bytes pos")
           (auto simp: decode.simps [of bytes pos] peek enter_def decode_shallow_def slice_range_def
            dest!: decode_bytes_progress)
    qed
  qed
qed

lemma sim_list_step:
  assumes pos: "pos \<le> length bytes" and v: "sim_value bytes opts pos"
    and l: "\<And>np. pos < np \<Longrightarrow> np \<le> length bytes \<Longrightarrow> sim_list bytes opts np"
  shows "sim_list bytes opts pos"
  unfolding sim_list_def
proof (intro allI impI)
  fix depth w st l
  assume depth: "depth < pos"
  let ?run = "decode_loop bytes pos (entry_of w (MList (map mut_of l)) # st)"
  show "agrees bytes (decode_list bytes pos opts depth l) ?run st (\<lambda>l. entry_of w (MList (map mut_of l)))"
  proof (cases "pos < length bytes \<and> bytes ! pos \<noteq> BEN_END")
    case False
    with pos show ?thesis
      by (auto simp: decode_list.simps [of bytes pos] loop_list peek_byte_def get_slice_def)
  next
    case True
    then have run: "?run = enter bytes pos None (entry_of w (MList (map mut_of l)) # st)"
      by (simp add: loop_list peek_byte_def get_slice_def)
    have a: "agrees bytes (decode bytes pos opts (Suc depth)) ?run (entry_of w (MList (map mut_of l)) # st)
        (\<lambda>r. entry_of None (mut_of r))"
      unfolding run using v depth by (intro sim_valueD) simp_all
    have dl: "decode_list bytes pos opts depth l =
        and_then (decode bytes pos opts (Suc depth)) (\<lambda>(b, np). decode_list bytes np opts depth (l @ [b]))"
      using True by (subst decode_list.simps) (simp add: peek_byte_def get_slice_def)
    show ?thesis
    proof (cases "decode bytes pos opts (Suc depth)")
      case (Ok r)
      obtain b np where r: "r = (b, np)" by (cases r)
      from Ok r have np: "pos < np" "np \<le> length bytes" using decode_progress(1) by blast+
      from l [OF this] depth np(1) have
        "agrees bytes (decode_list bytes np opts depth (l @ [b]))
           (decode_loop bytes np (entry_of w (MList (map mut_of (l @ [b]))) # st)) st
           (\<lambda>l. entry_of w (MList (map mut_of l)))"
        by (intro sim_listD) simp_all
      with a show ?thesis by (simp add: dl Ok r resume_list)
    qed (use a in \<open>simp_all add: dl\<close>)
  qed
qed

lemma sim_dict_step:
  assumes sort: "check_key_sort opts" and pos: "pos \<le> length bytes"
    and v: "\<And>p. pos < p \<Longrightarrow> p \<le> length bytes \<Longrightarrow> sim_value bytes opts p"
    and d: "\<And>np. pos < np \<Longrightarrow> np \<le> length bytes \<Longrightarrow> sim_dict bytes opts np"
  shows "sim_dict bytes opts pos"
  unfolding sim_dict_def
proof (intro allI impI)
  fix depth w st d
  assume depth: "depth < pos"
  let ?run = "decode_loop bytes pos (entry_of w (MDict (mut_dict_of d)) # st)"
  let ?st = "entry_of w (MDict (mut_dict_of d)) # st"
  show "agrees bytes (decode_dict bytes pos opts depth d) ?run st (\<lambda>d. entry_of w (MDict (mut_dict_of d)))"
  proof (cases "pos < length bytes \<and> bytes ! pos \<noteq> BEN_END")
    case False
    with pos show ?thesis
      by (auto simp: decode_dict.simps [of bytes pos] loop_dict peek_byte_def get_slice_def)
  next
    case True
    then have run: "?run = and_then (decode_bytes bytes pos) (\<lambda>(k, p). enter bytes p (Some k) ?st)"
      by (simp add: loop_dict peek_byte_def get_slice_def)
    have dd: "decode_dict bytes pos opts depth d = and_then (decode_bytes bytes pos) (\<lambda>(k, p).
         if key_out_of_order opts d k then Err (InvalidKeyOrdering pos k)
         else and_then (unwrap (decode bytes p opts (depth + 1))) (\<lambda>(vl, np).
           if dict_lookup d k \<noteq> None then Err (InvalidKeyDuplicates p k)
           else decode_dict bytes np opts depth (snd (dict_insert d k vl))))"
      using True by (subst decode_dict.simps) (simp add: peek_byte_def get_slice_def)
    have np: "decode_bytes bytes pos \<noteq> Panic" using pos by (rule decode_bytes_no_panic)
    show ?thesis
    proof (cases "decode_bytes bytes pos")
      case (Ok r)
      obtain k p where r: "r = (k, p)" by (cases r)
      from Ok r have p: "pos < p" "p \<le> length bytes" using decode_bytes_progress by blast+
      have run': "?run = enter bytes p (Some k) ?st" by (simp add: run Ok r)
      have a: "agrees bytes (decode bytes p opts (Suc depth)) ?run ?st (\<lambda>r. entry_of (Some k) (mut_of r))"
        unfolding run' using v [OF p] depth p(1) by (intro sim_valueD) simp_all
      show ?thesis
      proof (cases "decode bytes p opts (Suc depth)")
        case Ok2: (Ok r2)
        obtain vl np where r2: "r2 = (vl, np)" by (cases r2)
        from Ok2 r2 have np: "p < np" "np \<le> length bytes" using decode_progress(1) by blast+
        have run2: "?run = resume bytes np ?st (IBencodeMapping k (mut_of vl))" using a by (simp add: Ok2 r2)
        show ?thesis
        proof (cases "key_out_of_order opts d k \<or> dict_lookup d k \<noteq> None")
          case True
          then show ?thesis
            by (auto simp: dd Ok r Ok2 r2 run2 resume_dict collapse_entry_mut_dict_of [OF sort])
        next
          case False
          have "sim_dict bytes opts np" using d np p by simp
          moreover have "depth < np" using depth p np by simp
          ultimately have "agrees bytes (decode_dict bytes np opts depth (snd (dict_insert d k vl)))
              (decode_loop bytes np (entry_of w (MDict (mut_dict_of (snd (dict_insert d k vl)))) # st)) st
              (\<lambda>d. entry_of w (MDict (mut_dict_of d)))"
            by (rule sim_dictD)
          with False show ?thesis
            by (simp add: dd Ok r Ok2 r2 run2 resume_dict collapse_entry_mut_dict_of [OF sort])
        qed
      qed (use a in \<open>simp_all add: dd Ok r\<close>)
    qed (use np in \<open>simp_all add: dd run\<close>)
  qed
qed

lemma decode_sim:
  assumes "check_key_sort opts" and "length bytes < max_recursion opts" and "pos \<le> length bytes"
  shows "sim_value bytes opts pos \<and> sim_list bytes opts pos \<and> sim_dict bytes opts pos"
  using assms(3)
proof (induction "length bytes - pos" arbitrary: pos rule: less_induct)
  case less
  have IH: "sim_value bytes opts p \<and> sim_list bytes opts p \<and> sim_dict bytes opts p"
    if "pos < p" "p \<le> length bytes" for p
    using less that by simp
  have v: "sim_value bytes opts pos"
    by (rule sim_value_step [OF assms(2) less.prems]) (simp_all add: IH)
  moreover have "sim_list bytes opts pos"
    by (rule sim_list_step [OF less.prems v]) (simp add: IH)
  moreover have "sim_dict bytes opts pos"
    by (rule sim_dict_step [OF assms(1) less.prems]) (simp_all add: IH)
  ultimately show ?case by simp
qed


text \<open>The options under which the recursive decoder never gives up on depth.\<close>

definition dht_opts :: "bytes \<Rightarrow> bdecode_opt" where
  "dht_opts bytes = \<lparr>max_recursion = Suc (length bytes), check_key_sort = True, enforce_full_decode = True\<rparr>"

lemma dht_bencode_decode_cases:
  "case bencode_decode bytes (dht_opts bytes) of
     Ok r \<Rightarrow> dht_bencode_decode bytes = Ok (mut_of r)
   | _ \<Rightarrow> (\<exists>e. dht_bencode_decode bytes = Err e)"
proof -
  have "sim_value bytes (dht_opts bytes) 0"
    using decode_sim [of "dht_opts bytes" bytes 0] by (simp add: dht_opts_def)
  from sim_valueD [OF this, of 0 None "[]"]
  have "agrees bytes (decode bytes 0 (dht_opts bytes) 0) (dht_decode bytes 0) [] (\<lambda>r. IBencode (mut_of r))"
    by (simp add: dht_decode_def enter_def)
  then show ?thesis
    by (cases "decode bytes 0 (dht_opts bytes) 0")
       (auto simp: dht_bencode_decode_def bencode_decode_def resume_def collapse_bencode_def dht_opts_def)
qed

lemma length_concat_ge: "x \<in> set xs \<Longrightarrow> length (f x) \<le> length (concat (map f xs))"
  by (induction xs) auto

lemma ben_height_length: "ben_height b \<le> length (bencoding b)"
proof (induction b)
  case (MInt n)
  then show ?case by simp
next
  case (MBytes s)
  then show ?case by (simp add: bencoding_bytes_def)
next
  case (MList l)
  have "h \<le> length (concat (map bencoding l))" if "h \<in> set (0 # map ben_height l)" for h
    using that MList length_concat_ge [of _ l bencoding] by (auto intro: order_trans)
  then have "Max (set (0 # map ben_height l)) \<le> length (concat (map bencoding l))"
    by (subst Max_le_iff) auto
  then show ?case by (auto intro: le_SucI)
next
  case (MDict d)
  let ?f = "\<lambda>(k, v). bencoding_bytes k @ bencoding v"
  have "h \<le> length (concat (map ?f (sort_key fst d)))" if h: "h \<in> set (0 # map (\<lambda>(k, v). ben_height v) d)" for h
  proof (cases "h = 0")
    case False
    with h obtain k v where kv: "(k, v) \<in> set d" "h = ben_height v" by auto
    then have "h \<le> length (bencoding v)" using MDict [of "(k, v)" v] by simp
    also have "\<dots> \<le> length (?f (k, v))" by simp
    also have "\<dots> \<le> length (concat (map ?f (sort_key fst d)))" using kv by (intro length_concat_ge) simp
    finally show ?thesis .
  qed simp
  then have "Max (set (0 # map (\<lambda>(k, v). ben_height v) d)) \<le> length (concat (map ?f (sort_key fst d)))"
    by (subst Max_le_iff) auto
  then show ?case by (auto intro: le_SucI)
qed

lemma dht_decode_bencoding: "ben_wf b \<Longrightarrow> dht_bencode_decode (bencoding b) = Ok b"
  using dht_bencode_decode_cases [of "bencoding b"]
    bencode_decode_encoded [of b "dht_opts (bencoding b)"] ben_height_length [of b]
  by (simp add: dht_opts_def mut_of_ref_of)

section \<open>Properties\<close>

text \<open>C22: The decoder of the distributed hash table, a loop over an explicit stack, accepts exactly
  the input that the recursive decoder accepts with sorted keys required, all input read and no
  limit on depth, with the same value, and it never panics.\<close>

theorem dht_decode_agrees:
  "(dht_bencode_decode bytes = Ok v \<longleftrightarrow>
     (\<exists>r. bencode_decode bytes \<lparr>max_recursion = Suc (length bytes), check_key_sort = True,
            enforce_full_decode = True\<rparr> = Ok r \<and> mut_of r = v)) \<and>
   dht_bencode_decode bytes \<noteq> Panic"
  using dht_bencode_decode_cases [of bytes] unfolding dht_opts_def
  by (cases "bencode_decode bytes \<lparr>max_recursion = Suc (length bytes), check_key_sort = True,
            enforce_full_decode = True\<rparr>") auto

text \<open>The second encoder and decoder are inverse to each other on every value a program can
  hold, with no limit on depth.\<close>

theorem dht_bencode_roundtrip:
  assumes "ben_wf b"
  shows "dht_bencode_decode (dht_encode b) = Ok b"
  using dht_decode_bencoding [OF assms] by (simp add: dht_encode_eq)

theorem dht_bencode_roundtrip_witness:
  "dht_bencode_decode (dht_encode (MDict [([97], MList [MInt 3]), ([98], MDict [])])) =
     Ok (MDict [([97], MList [MInt 3]), ([98], MDict [])])"
  using dht_bencode_roundtrip [of "MDict [([97], MList [MInt 3]), ([98], MDict [])]"]
  by (simp add: i64_range_def btree_wf_def)

text \<open>An entry out of order inside a nested dictionary is reported under the key of the dictionary
  that contains it, not under its own.\<close>

lemma nested_key_error_names_parent:
  "dht_bencode_decode (ascii ''d1:xd1:bi1e1:ai2eee'') = Err (InvalidKeyOrdering 17 (ascii ''x''))"
  by code_simp

end
