(* ===== verification/Dht_Compact.thy ===== *)
theory Dht_Compact
  imports Dht_Bencode Util_Hash Util_Convert
begin

text \<open>
  \<open>src/dht/message/compact_info.rs\<close>: the compact forms in which nodes (26 bytes each) and peers (a
  list of 6-byte strings) travel, their validation and the iterators over them.
\<close>

section \<open>Definitions\<close>

definition BYTES_PER_COMPACT_IP :: nat where "BYTES_PER_COMPACT_IP = 6"
definition BYTES_PER_COMPACT_NODE_INFO :: nat where "BYTES_PER_COMPACT_NODE_INFO = 26"

lemmas compact_consts = BYTES_PER_COMPACT_IP_def BYTES_PER_COMPACT_NODE_INFO_def SHA_HASH_LEN_def

text \<open>\<open>socket_v4_from_bytes_be\<close>: the port is assembled from its two bytes by shifting.\<close>

definition socket_v4_from_bytes_be :: "bytes \<Rightarrow> (socket_addr_v4, length_error) outcome" where
  "socket_v4_from_bytes_be bytes =
     (if length bytes \<noteq> BYTES_PER_COMPACT_IP then Err (length_error_new LengthExpected BYTES_PER_COMPACT_IP)
      else
        let port = (0 :: u16);
            port = port OR ucast (bytes ! 4);
            port = push_bit 8 port;
            port = port OR ucast (bytes ! 5)
        in Ok \<lparr>v4_ip = Ipv4Addr (bytes ! 0) (bytes ! 1) (bytes ! 2) (bytes ! 3), v4_port = port\<rparr>)"

definition parts_from_compact_info :: "bytes \<Rightarrow> (sha_hash \<times> socket_addr_v4, 'e) outcome" where
  "parts_from_compact_info compact_info =
     and_then (slice_range compact_info 0 SHA_HASH_LEN) (\<lambda>id_bytes.
     and_then (unwrap (from_hash id_bytes)) (\<lambda>node_id.
     and_then (slice_range compact_info SHA_HASH_LEN (SHA_HASH_LEN + BYTES_PER_COMPACT_IP)) (\<lambda>sock_bytes.
     and_then (unwrap (socket_v4_from_bytes_be sock_bytes)) (\<lambda>socket.
       Ok (node_id, socket)))))"

record compact_node_info =
  compact_nodes :: bytes

definition compact_node_info_new :: "bytes \<Rightarrow> (compact_node_info, length_error) outcome" where
  "compact_node_info_new nodes =
     (if length nodes mod BYTES_PER_COMPACT_NODE_INFO \<noteq> 0
      then Err (length_error_new LengthMultipleExpected BYTES_PER_COMPACT_NODE_INFO)
      else Ok \<lparr>compact_nodes = nodes\<rparr>)"

record compact_node_info_iter =
  cni_nodes :: bytes
  cni_pos :: nat

definition compact_node_into_iter :: "compact_node_info \<Rightarrow> compact_node_info_iter" where
  "compact_node_into_iter self = \<lparr>cni_nodes = compact_nodes self, cni_pos = 0\<rparr>"

definition compact_node_next ::
  "compact_node_info_iter \<Rightarrow> ((sha_hash \<times> socket_addr_v4) option \<times> compact_node_info_iter, 'e) outcome" where
  "compact_node_next self =
     (if cni_pos self = length (cni_nodes self) then Ok (None, self)
      else
        let compact_info_offset = cni_pos self + BYTES_PER_COMPACT_NODE_INFO in
        and_then (slice_range (cni_nodes self) (cni_pos self) compact_info_offset) (\<lambda>compact_info.
        and_then (parts_from_compact_info compact_info) (\<lambda>parts.
          Ok (Some parts, self\<lparr>cni_pos := cni_pos self + BYTES_PER_COMPACT_NODE_INFO\<rparr>))))"

text \<open>A \<open>for\<close> loop over the nodes: a call either ends the loop or moves the position forward.\<close>

function compact_node_collect ::
  "compact_node_info_iter \<Rightarrow> ((sha_hash \<times> socket_addr_v4) list, 'e) outcome" where
  "compact_node_collect it =
     and_then (compact_node_next it) (\<lambda>(item, it').
       case item of
         None \<Rightarrow> Ok []
       | Some parts \<Rightarrow> and_then (compact_node_collect it') (\<lambda>rest. Ok (parts # rest)))"
  by pat_completeness auto
termination
  by (relation "measure (\<lambda>it. length (cni_nodes it) - cni_pos it)")
     (auto simp: compact_node_next_def Let_def slice_range_eq_Ok compact_consts split: if_splits)

declare compact_node_collect.simps [simp del]

record compact_value_info =
  compact_values :: "dht_bencode list"

text \<open>The validation loop of \<open>CompactValueInfo::new\<close>; a value that is no byte string panics.\<close>

fun check_values :: "nat \<Rightarrow> dht_bencode list \<Rightarrow> (unit, length_error) outcome" where
  "check_values index [] = Ok ()"
| "check_values index (node # nodes) =
     (case dht_bytes node of
        None \<Rightarrow> Panic
      | Some compact_value \<Rightarrow>
          if length compact_value \<noteq> BYTES_PER_COMPACT_IP
          then Err (length_error_with_index LengthExpected BYTES_PER_COMPACT_IP index)
          else check_values (index + 1) nodes)"

definition compact_value_info_new :: "dht_bencode list \<Rightarrow> (compact_value_info, length_error) outcome" where
  "compact_value_info_new values =
     and_then (check_values 0 values) (\<lambda>_. Ok \<lparr>compact_values = values\<rparr>)"

record compact_value_info_iter =
  cvi_values :: "dht_bencode list"
  cvi_pos :: nat

definition compact_value_into_iter :: "compact_value_info \<Rightarrow> compact_value_info_iter" where
  "compact_value_into_iter self = \<lparr>cvi_values = compact_values self, cvi_pos = 0\<rparr>"

definition compact_value_next ::
  "compact_value_info_iter \<Rightarrow> (socket_addr_v4 option \<times> compact_value_info_iter, 'e) outcome" where
  "compact_value_next self =
     (if cvi_pos self = length (cvi_values self) then Ok (None, self)
      else
        and_then (index_slice (cvi_values self) (cvi_pos self)) (\<lambda>compact_info.
        and_then (case dht_bytes compact_info of Some bs \<Rightarrow> Ok bs | None \<Rightarrow> Panic) (\<lambda>bs.
        and_then (unwrap (socket_v4_from_bytes_be bs)) (\<lambda>sock.
          Ok (Some sock, self\<lparr>cvi_pos := cvi_pos self + 1\<rparr>)))))"

function compact_value_collect :: "compact_value_info_iter \<Rightarrow> (socket_addr_v4 list, 'e) outcome" where
  "compact_value_collect it =
     and_then (compact_value_next it) (\<lambda>(item, it').
       case item of
         None \<Rightarrow> Ok []
       | Some sock \<Rightarrow> and_then (compact_value_collect it') (\<lambda>rest. Ok (sock # rest)))"
  by pat_completeness auto
termination
  by (relation "measure (\<lambda>it. length (cvi_values it) - cvi_pos it)")
     (auto simp: compact_value_next_def index_slice_def split: if_splits option.splits)

declare compact_value_collect.simps [simp del]

section \<open>Lemmas\<close>

text \<open>The parser of addresses agrees with the shared conversion of \<open>src/util/convert.rs\<close>.\<close>

lemma socket_v4_from_bytes_be_eq:
  assumes "length bs = 6"
  shows "socket_v4_from_bytes_be bs = Ok (bytes_be_to_sock_v4 bs)"
  using assms
  by (simp add: socket_v4_from_bytes_be_def bytes_be_to_sock_v4_def bytes_be_to_ipv4_def bytes_be_to_port_def
      compact_consts)

text \<open>The bytes of one node.\<close>

definition compact_node_bytes :: "sha_hash \<times> socket_addr_v4 \<Rightarrow> bytes" where
  "compact_node_bytes = (\<lambda>(ident, sock). sha_bytes ident @ sock_v4_to_bytes_be sock)"

lemma parts_from_compact_info_spec:
  assumes "length bs = 26"
  shows "\<exists>parts. (parts_from_compact_info bs :: (_, 'e) outcome) = Ok parts \<and> compact_node_bytes parts = bs \<and>
    length (sha_bytes (fst parts)) = 20"
proof -
  let ?parts = "(ShaHash (take 20 bs), bytes_be_to_sock_v4 (drop 20 bs))"
  have "unwrap (from_hash (take 20 bs)) = Ok (ShaHash (take 20 bs))"
    using assms by (simp add: compact_consts)
  then have "(parts_from_compact_info bs :: (_, 'e) outcome) = Ok ?parts"
    using assms by (simp add: parts_from_compact_info_def slice_range_def compact_consts socket_v4_from_bytes_be_eq)
  moreover have "compact_node_bytes ?parts = bs"
    using assms by (simp add: compact_node_bytes_def sock_v4_bytes_roundtrip)
  moreover have "length (sha_bytes (fst ?parts)) = 20" using assms by simp
  ultimately show ?thesis by blast
qed

lemma compact_node_collect_spec:
  assumes "cni_pos it \<le> length (cni_nodes it)" and "(length (cni_nodes it) - cni_pos it) mod 26 = 0"
  shows "\<exists>ns. (compact_node_collect it :: ((sha_hash \<times> socket_addr_v4) list, 'e) outcome) = Ok ns \<and>
    concat (map compact_node_bytes ns) = drop (cni_pos it) (cni_nodes it) \<and>
    (\<forall>(ident, sock) \<in> set ns. length (sha_bytes ident) = 20)"
  using assms
proof (induction "length (cni_nodes it) - cni_pos it" arbitrary: it rule: less_induct)
  case less
  show ?case
  proof (cases "cni_pos it = length (cni_nodes it)")
    case True
    then show ?thesis by (subst compact_node_collect.simps) (simp add: compact_node_next_def)
  next
    case False
    let ?it = "it\<lparr>cni_pos := cni_pos it + 26\<rparr>"
    let ?bs = "take 26 (drop (cni_pos it) (cni_nodes it))"
    have room: "cni_pos it + 26 \<le> length (cni_nodes it)"
    proof (rule ccontr)
      assume "\<not> cni_pos it + 26 \<le> length (cni_nodes it)"
      then have "length (cni_nodes it) - cni_pos it < 26" by simp
      with less.prems False show False by simp
    qed
    then obtain parts where parts: "(parts_from_compact_info ?bs :: (_, 'e) outcome) = Ok parts"
      "compact_node_bytes parts = ?bs" "length (sha_bytes (fst parts)) = 20"
      using parts_from_compact_info_spec [of ?bs, where ?'e = 'e] by auto
    have "(length (cni_nodes ?it) - cni_pos ?it) mod 26 = 0"
      using less.prems(2) room by (simp flip: diff_diff_left add: le_mod_geq [of 26 "length (cni_nodes it) - cni_pos it"])
    moreover have "length (cni_nodes it) - (cni_pos it + 26) < length (cni_nodes it) - cni_pos it"
      using room by simp
    ultimately obtain ns where ns:
      "(compact_node_collect ?it :: (_, 'e) outcome) = Ok ns"
      "concat (map compact_node_bytes ns) = drop (cni_pos it + 26) (cni_nodes it)"
      "\<forall>(ident, sock) \<in> set ns. length (sha_bytes ident) = 20"
      using less.hyps [of ?it] room by auto
    have "(compact_node_next it :: (_, 'e) outcome) = Ok (Some parts, ?it)"
      using False room parts(1) by (simp add: compact_node_next_def Let_def slice_range_def compact_consts)
    then have "(compact_node_collect it :: (_, 'e) outcome) = Ok (parts # ns)"
      by (subst compact_node_collect.simps) (simp add: ns(1))
    moreover have "concat (map compact_node_bytes (parts # ns)) = drop (cni_pos it) (cni_nodes it)"
      using append_take_drop_id [of 26 "drop (cni_pos it) (cni_nodes it)"]
      by (simp add: parts(2) ns(2) add.commute)
    ultimately show ?thesis using ns(3) parts(3) by auto
  qed
qed

lemma check_values_Ok:
  "check_values index vs = Ok () \<longleftrightarrow> (\<forall>v \<in> set vs. \<exists>bs. v = MBytes bs \<and> length bs = 6)"
proof (induction vs arbitrary: index)
  case (Cons v vs)
  then show ?case by (cases v) (auto simp: dht_bytes_def compact_consts)
qed simp

lemma check_values_no_panic:
  "\<forall>v \<in> set vs. dht_bytes v \<noteq> None \<Longrightarrow> check_values index vs \<noteq> Panic"
  by (induction vs arbitrary: index) (auto split: if_splits)

lemma compact_value_collect_spec:
  assumes "cvi_pos it \<le> length (cvi_values it)" and "\<forall>v \<in> set (cvi_values it). \<exists>bs. v = MBytes bs \<and> length bs = 6"
  shows "\<exists>ss. (compact_value_collect it :: (socket_addr_v4 list, 'e) outcome) = Ok ss \<and>
    map (\<lambda>s. MBytes (sock_v4_to_bytes_be s)) ss = drop (cvi_pos it) (cvi_values it)"
  using assms
proof (induction "length (cvi_values it) - cvi_pos it" arbitrary: it rule: less_induct)
  case less
  show ?case
  proof (cases "cvi_pos it = length (cvi_values it)")
    case True
    then show ?thesis by (subst compact_value_collect.simps) (simp add: compact_value_next_def)
  next
    case False
    let ?it = "it\<lparr>cvi_pos := cvi_pos it + 1\<rparr>"
    have lt: "cvi_pos it < length (cvi_values it)" using less.prems(1) False by simp
    then obtain bs where bs: "cvi_values it ! cvi_pos it = MBytes bs" "length bs = 6"
      using less.prems(2) nth_mem by blast
    have "length (cvi_values it) - Suc (cvi_pos it) < length (cvi_values it) - cvi_pos it" using lt by simp
    with less.hyps [of ?it] less.prems(2) lt obtain ss where ss:
      "(compact_value_collect ?it :: (_, 'e) outcome) = Ok ss"
      "map (\<lambda>s. MBytes (sock_v4_to_bytes_be s)) ss = drop (cvi_pos it + 1) (cvi_values it)" by auto
    have "(compact_value_next it :: (_, 'e) outcome) = Ok (Some (bytes_be_to_sock_v4 bs), ?it)"
      using False lt bs
      by (simp add: compact_value_next_def index_slice_def dht_bytes_def socket_v4_from_bytes_be_eq)
    then have "(compact_value_collect it :: (_, 'e) outcome) = Ok (bytes_be_to_sock_v4 bs # ss)"
      using ss(1) by (subst compact_value_collect.simps) simp
    moreover have "map (\<lambda>s. MBytes (sock_v4_to_bytes_be s)) (bytes_be_to_sock_v4 bs # ss) =
        drop (cvi_pos it) (cvi_values it)"
      using lt bs ss(2) by (simp add: sock_v4_bytes_roundtrip Cons_nth_drop_Suc [symmetric])
    ultimately show ?thesis by blast
  qed
qed

section \<open>Properties\<close>

text \<open>A compact node list or value list that passes validation can be read to its end without
  panic, and writing the nodes and peers read gives back the bytes received.\<close>

theorem compact_info_roundtrip:
  "(compact_node_info_new bytes = Ok info \<longrightarrow>
      (\<exists>ns. (compact_node_collect (compact_node_into_iter info) :: (_, 'e) outcome) = Ok ns \<and>
        concat (map (\<lambda>(ident, sock). sha_bytes ident @ sock_v4_to_bytes_be sock) ns) = bytes \<and>
        length ns = length bytes div 26)) \<and>
   (compact_value_info_new values = Ok vinfo \<longrightarrow>
      (\<exists>ss. (compact_value_collect (compact_value_into_iter vinfo) :: (_, 'e) outcome) = Ok ss \<and>
        map (\<lambda>s. MBytes (sock_v4_to_bytes_be s)) ss = values))"
proof (intro conjI impI)
  assume "compact_node_info_new bytes = Ok info"
  then have "info = \<lparr>compact_nodes = bytes\<rparr>" "length bytes mod 26 = 0"
    by (auto simp: compact_node_info_new_def compact_consts split: if_splits)
  with compact_node_collect_spec [of "compact_node_into_iter info", where ?'e = 'e] obtain ns where ns:
    "(compact_node_collect (compact_node_into_iter info) :: (_, 'e) outcome) = Ok ns"
    "concat (map compact_node_bytes ns) = bytes" "\<forall>(ident, sock) \<in> set ns. length (sha_bytes ident) = 20"
    by (auto simp: compact_node_into_iter_def)
  have "length (concat (map compact_node_bytes ns)) = 26 * length ns"
    using ns(3) by (induction ns) (auto simp: compact_node_bytes_def)
  with ns show "\<exists>ns. (compact_node_collect (compact_node_into_iter info) :: (_, 'e) outcome) = Ok ns \<and>
        concat (map (\<lambda>(ident, sock). sha_bytes ident @ sock_v4_to_bytes_be sock) ns) = bytes \<and>
        length ns = length bytes div 26"
    unfolding compact_node_bytes_def by auto
next
  assume "compact_value_info_new values = Ok vinfo"
  then have "vinfo = \<lparr>compact_values = values\<rparr>" "check_values 0 values = Ok ()"
    by (auto simp: compact_value_info_new_def)
  with compact_value_collect_spec [of "compact_value_into_iter vinfo", where ?'e = 'e]
  show "\<exists>ss. (compact_value_collect (compact_value_into_iter vinfo) :: (_, 'e) outcome) = Ok ss \<and>
        map (\<lambda>s. MBytes (sock_v4_to_bytes_be s)) ss = values"
    by (auto simp: compact_value_into_iter_def check_values_Ok)
qed

theorem compact_info_roundtrip_witness:
  "(\<exists>ns. (compact_node_collect (compact_node_into_iter \<lparr>compact_nodes = replicate 52 7\<rparr>) :: (_, unit) outcome) = Ok ns \<and>
     concat (map (\<lambda>(ident, sock). sha_bytes ident @ sock_v4_to_bytes_be sock) ns) = replicate 52 7 \<and> length ns = 2) \<and>
   (\<exists>ss. (compact_value_collect (compact_value_into_iter \<lparr>compact_values = [MBytes [10, 0, 0, 1, 26, 225]]\<rparr>)
      :: (_, unit) outcome) = Ok ss \<and>
     map (\<lambda>s. MBytes (sock_v4_to_bytes_be s)) ss = [MBytes [10, 0, 0, 1, 26, 225]])"
proof
  have "compact_node_info_new (replicate 52 7) = Ok \<lparr>compact_nodes = replicate 52 7\<rparr>"
    by (simp add: compact_node_info_new_def compact_consts)
  from compact_info_roundtrip [where ?'e = unit, THEN conjunct1, THEN mp, OF this] show
    "\<exists>ns. (compact_node_collect (compact_node_into_iter \<lparr>compact_nodes = replicate 52 7\<rparr>) :: (_, unit) outcome) = Ok ns \<and>
     concat (map (\<lambda>(ident, sock). sha_bytes ident @ sock_v4_to_bytes_be sock) ns) = replicate 52 7 \<and> length ns = 2"
    by simp
next
  have "compact_value_info_new [MBytes [10, 0, 0, 1, 26, 225]] = Ok \<lparr>compact_values = [MBytes [10, 0, 0, 1, 26, 225]]\<rparr>"
    by (simp add: compact_value_info_new_def compact_consts dht_bytes_def)
  from compact_info_roundtrip [where ?'e = unit, THEN conjunct2, THEN mp, OF this] show
    "\<exists>ss. (compact_value_collect (compact_value_into_iter \<lparr>compact_values = [MBytes [10, 0, 0, 1, 26, 225]]\<rparr>)
      :: (_, unit) outcome) = Ok ss \<and>
     map (\<lambda>s. MBytes (sock_v4_to_bytes_be s)) ss = [MBytes [10, 0, 0, 1, 26, 225]]"
    by simp
qed

end
