(* ===== verification/Dht_Message.thy ===== *)
theory Dht_Message
  imports Dht_Compact
begin

text \<open>
  \<open>src/dht/message\<close> and \<open>src/dht/error.rs\<close>: the messages of the distributed hash table. A message is
  built with the macros of \<open>src/bencode\<close> (or, for two of them, of \<open>src/dht/bencode\<close>), arrives as a
  value of the decoder of \<open>src/dht/bencode\<close>, and is validated field by field. Texts of errors are
  UTF-8 byte strings.
\<close>

section \<open>Keys\<close>

definition TRANSACTION_ID_KEY :: bytes where "TRANSACTION_ID_KEY = ascii ''t''"
definition MESSAGE_TYPE_KEY :: bytes where "MESSAGE_TYPE_KEY = ascii ''y''"
definition REQUEST_TYPE_KEY :: bytes where "REQUEST_TYPE_KEY = ascii ''q''"
definition RESPONSE_TYPE_KEY :: bytes where "RESPONSE_TYPE_KEY = ascii ''r''"
definition ERROR_TYPE_KEY :: bytes where "ERROR_TYPE_KEY = ascii ''e''"
definition ROOT_ID_KEY :: bytes where "ROOT_ID_KEY = ascii ''root''"
definition NODE_ID_KEY :: bytes where "NODE_ID_KEY = ascii ''id''"
definition NODES_KEY :: bytes where "NODES_KEY = ascii ''nodes''"
definition VALUES_KEY :: bytes where "VALUES_KEY = ascii ''values''"
definition TARGET_ID_KEY :: bytes where "TARGET_ID_KEY = ascii ''target''"
definition INFO_HASH_KEY :: bytes where "INFO_HASH_KEY = ascii ''info_hash''"
definition TOKEN_KEY :: bytes where "TOKEN_KEY = ascii ''token''"
definition REQUEST_ARGS_KEY :: bytes where "REQUEST_ARGS_KEY = ascii ''a''"
definition RESPONSE_ARGS_KEY :: bytes where "RESPONSE_ARGS_KEY = ascii ''r''"
definition PING_TYPE_KEY :: bytes where "PING_TYPE_KEY = ascii ''ping''"
definition FIND_NODE_TYPE_KEY :: bytes where "FIND_NODE_TYPE_KEY = ascii ''find_node''"
definition GET_PEERS_TYPE_KEY :: bytes where "GET_PEERS_TYPE_KEY = ascii ''get_peers''"
definition ANNOUNCE_PEER_TYPE_KEY :: bytes where "ANNOUNCE_PEER_TYPE_KEY = ascii ''announce_peer''"
definition PORT_KEY :: bytes where "PORT_KEY = ascii ''port''"
definition IMPLIED_PORT_KEY :: bytes where "IMPLIED_PORT_KEY = ascii ''implied_port''"
definition ERROR_ARGS_KEY :: bytes where "ERROR_ARGS_KEY = ascii ''e''"
definition NUM_ERROR_ARGS :: nat where "NUM_ERROR_ARGS = 2"

lemmas dht_keys =
  TRANSACTION_ID_KEY_def MESSAGE_TYPE_KEY_def REQUEST_TYPE_KEY_def RESPONSE_TYPE_KEY_def ERROR_TYPE_KEY_def
  ROOT_ID_KEY_def NODE_ID_KEY_def NODES_KEY_def VALUES_KEY_def TARGET_ID_KEY_def INFO_HASH_KEY_def
  TOKEN_KEY_def REQUEST_ARGS_KEY_def RESPONSE_ARGS_KEY_def PING_TYPE_KEY_def FIND_NODE_TYPE_KEY_def
  GET_PEERS_TYPE_KEY_def ANNOUNCE_PEER_TYPE_KEY_def PORT_KEY_def IMPLIED_PORT_KEY_def ERROR_ARGS_KEY_def

text \<open>The macro \<open>bt_ben_map!\<close>: \<open>dict_mut\<close> of a fresh dictionary is never \<open>None\<close>.\<close>

definition bt_ben_map :: "(bytes \<times> bencode_mut) list \<Rightarrow> bencode_mut" where
  "bt_ben_map kvs = (case ben_map kvs of Some b \<Rightarrow> b | None \<Rightarrow> new_dict)"

section \<open>Error messages and errors\<close>

datatype error_code = GenericError | ServerError | ProtocolError | MethodUnknown

definition GENERIC_ERROR_CODE :: u8 where "GENERIC_ERROR_CODE = 201"
definition SERVER_ERROR_CODE :: u8 where "SERVER_ERROR_CODE = 202"
definition PROTOCOL_ERROR_CODE :: u8 where "PROTOCOL_ERROR_CODE = 203"
definition METHOD_UNKNOWN_CODE :: u8 where "METHOD_UNKNOWN_CODE = 204"

lemmas error_codes = GENERIC_ERROR_CODE_def SERVER_ERROR_CODE_def PROTOCOL_ERROR_CODE_def METHOD_UNKNOWN_CODE_def

fun u8_of_error_code :: "error_code \<Rightarrow> u8" where
  "u8_of_error_code GenericError = GENERIC_ERROR_CODE"
| "u8_of_error_code ServerError = SERVER_ERROR_CODE"
| "u8_of_error_code ProtocolError = PROTOCOL_ERROR_CODE"
| "u8_of_error_code MethodUnknown = METHOD_UNKNOWN_CODE"

record error_message =
  em_trans_id :: bytes
  em_code :: error_code
  em_message :: bytes

datatype dht_error =
    BencodeError bencode_convert_error
  | InvalidMessage bytes
  | InvalidResponse bytes
  | UnsolicitedResponse
  | InvalidRequest error_message

type_synonym 'a dht_result = "('a, dht_error) outcome"

text \<open>\<open>handle_error\<close> of every validator is \<open>error.into()\<close>.\<close>

definition dht_handle_error :: "bencode_convert_error \<Rightarrow> dht_error" where
  "dht_handle_error error = BencodeError error"

definition error_message_new :: "bytes \<Rightarrow> error_code \<Rightarrow> bytes \<Rightarrow> error_message" where
  "error_message_new trans_id code message = \<lparr>em_trans_id = trans_id, em_code = code, em_message = message\<rparr>"

text \<open>\<open>{:?}\<close> of a byte slice.\<close>

fun debug_elems :: "bytes \<Rightarrow> bytes" where
  "debug_elems [] = []"
| "debug_elems [b] = decimal_nat (unat b)"
| "debug_elems (b # bs) = decimal_nat (unat b) @ ascii '', '' @ debug_elems bs"

definition debug_bytes :: "bytes \<Rightarrow> bytes" where
  "debug_bytes bs = ascii ''['' @ debug_elems bs @ ascii '']''"

definition error_code_new :: "u8 \<Rightarrow> error_code dht_result" where
  "error_code_new code =
     (if code = GENERIC_ERROR_CODE then Ok GenericError
      else if code = SERVER_ERROR_CODE then Ok ServerError
      else if code = PROTOCOL_ERROR_CODE then Ok ProtocolError
      else if code = METHOD_UNKNOWN_CODE then Ok MethodUnknown
      else Err (InvalidResponse (ascii ''Error Message Invalid Error Code '' @ decimal_nat (unat code))))"

text \<open>The code is an \<open>i64\<close> cut to eight bits.\<close>

definition extract_error_args :: "dht_bencode list \<Rightarrow> (u8 \<times> bytes) dht_result" where
  "extract_error_args args =
     (if length args \<noteq> NUM_ERROR_ARGS
      then Err (InvalidResponse (ascii ''Error Message Invalid Number Of Error Args: '' @ decimal_nat (length args)))
      else
        and_then (dht_convert_int dht_handle_error (args ! 0) (ERROR_ARGS_KEY @ ascii ''[0]'')) (\<lambda>code.
        and_then (dht_convert_str dht_handle_error (args ! 1) (ERROR_ARGS_KEY @ ascii ''[1]'')) (\<lambda>message.
          Ok (word_of_int code, message))))"

definition error_message_from_parts :: "(bytes \<times> dht_bencode) list \<Rightarrow> bytes \<Rightarrow> error_message dht_result" where
  "error_message_from_parts root trans_id =
     and_then (dht_lookup_and_convert_list dht_handle_error root ERROR_ARGS_KEY) (\<lambda>error_args.
     and_then (extract_error_args error_args) (\<lambda>(code, message).
     and_then (error_code_new code) (\<lambda>error_code.
       Ok \<lparr>em_trans_id = trans_id, em_code = error_code, em_message = message\<rparr>)))"

definition error_message_encode :: "error_message \<Rightarrow> bytes" where
  "error_message_encode self =
     dht_encode (dht_ben_map [
       (TRANSACTION_ID_KEY, MBytes (em_trans_id self)),
       (MESSAGE_TYPE_KEY, MBytes ERROR_TYPE_KEY),
       (ERROR_TYPE_KEY, dht_ben_list [MInt (uint (u8_of_error_code (em_code self))), MBytes (em_message self)])])"

section \<open>Validation\<close>

definition rqst_validate_node_id :: "bytes \<Rightarrow> bytes \<Rightarrow> sha_hash dht_result" where
  "rqst_validate_node_id trans_id node_id =
     map_err (from_hash node_id) (\<lambda>_.
       InvalidRequest (error_message_new trans_id ProtocolError
         (ascii ''Node ID With Length '' @ decimal_nat (length node_id) @ ascii '' Is Not Valid'')))"

definition rqst_validate_info_hash :: "bytes \<Rightarrow> bytes \<Rightarrow> sha_hash dht_result" where
  "rqst_validate_info_hash trans_id info_hash =
     map_err (from_hash info_hash) (\<lambda>_.
       InvalidRequest (error_message_new trans_id ProtocolError
         (ascii ''InfoHash With Length '' @ decimal_nat (length info_hash) @ ascii '' Is Not Valid'')))"

definition rsp_validate_node_id :: "bytes \<Rightarrow> bytes \<Rightarrow> sha_hash dht_result" where
  "rsp_validate_node_id trans_id node_id =
     map_err (from_hash node_id) (\<lambda>_.
       InvalidResponse (ascii ''TID '' @ debug_bytes trans_id @ ascii '' Found Node ID With Invalid Length ''
         @ decimal_nat (length node_id)))"

definition validate_nodes :: "bytes \<Rightarrow> bytes \<Rightarrow> compact_node_info dht_result" where
  "validate_nodes trans_id nodes =
     map_err (compact_node_info_new nodes) (\<lambda>_.
       InvalidResponse (ascii ''TID '' @ debug_bytes trans_id @ ascii '' Found Nodes Structure With ''
         @ decimal_nat (length nodes) @ ascii '' Number Of Bytes Instead Of Correct Multiple''))"

definition validate_values :: "bytes \<Rightarrow> dht_bencode list \<Rightarrow> compact_value_info dht_result" where
  "validate_values trans_id values =
     (if list_ex (\<lambda>bencode. dht_bytes bencode = None) values
      then Err (InvalidResponse (ascii ''TID '' @ debug_bytes trans_id @ ascii '' Found Values Structure As Non Bytes Type''))
      else map_err (compact_value_info_new values) (\<lambda>_.
        InvalidResponse (ascii ''TID '' @ debug_bytes trans_id @ ascii '' Found Values Structrue With Wrong Number Of Bytes'')))"

section \<open>Ping\<close>

record ping_request =
  prq_trans_id :: bytes
  prq_node_id :: sha_hash

record ping_response =
  prs_trans_id :: bytes
  prs_node_id :: sha_hash

definition ping_request_from_parts :: "(bytes \<times> dht_bencode) list \<Rightarrow> bytes \<Rightarrow> ping_request dht_result" where
  "ping_request_from_parts rqst_root trans_id =
     and_then (dht_lookup_and_convert_bytes dht_handle_error rqst_root NODE_ID_KEY) (\<lambda>node_id_bytes.
     and_then (rqst_validate_node_id trans_id node_id_bytes) (\<lambda>node_id.
       Ok \<lparr>prq_trans_id = trans_id, prq_node_id = node_id\<rparr>))"

definition ping_request_encode :: "ping_request \<Rightarrow> bytes" where
  "ping_request_encode self =
     bencode_encode (bt_ben_map [
       (TRANSACTION_ID_KEY, new_bytes (prq_trans_id self)),
       (MESSAGE_TYPE_KEY, new_bytes REQUEST_TYPE_KEY),
       (REQUEST_TYPE_KEY, new_bytes PING_TYPE_KEY),
       (REQUEST_ARGS_KEY, bt_ben_map [
         (NODE_ID_KEY, new_bytes (sha_bytes (prq_node_id self)))])])"

definition ping_response_from_parts :: "(bytes \<times> dht_bencode) list \<Rightarrow> bytes \<Rightarrow> ping_response dht_result" where
  "ping_response_from_parts rsp_root trans_id =
     and_then (ping_request_from_parts rsp_root trans_id) (\<lambda>request.
       Ok \<lparr>prs_trans_id = prq_trans_id request, prs_node_id = prq_node_id request\<rparr>)"

definition ping_response_encode :: "ping_response \<Rightarrow> bytes" where
  "ping_response_encode self =
     bencode_encode (bt_ben_map [
       (TRANSACTION_ID_KEY, new_bytes (prs_trans_id self)),
       (MESSAGE_TYPE_KEY, new_bytes RESPONSE_TYPE_KEY),
       (RESPONSE_TYPE_KEY, bt_ben_map [
         (NODE_ID_KEY, new_bytes (sha_bytes (prs_node_id self)))])])"

section \<open>Find node\<close>

record find_node_request =
  fnq_trans_id :: bytes
  fnq_node_id :: sha_hash
  fnq_target_id :: sha_hash

record find_node_response =
  fns_trans_id :: bytes
  fns_node_id :: sha_hash
  fns_nodes :: compact_node_info

definition find_node_request_from_parts ::
  "(bytes \<times> dht_bencode) list \<Rightarrow> bytes \<Rightarrow> bytes \<Rightarrow> find_node_request dht_result" where
  "find_node_request_from_parts rqst_root trans_id target_key =
     and_then (dht_lookup_and_convert_bytes dht_handle_error rqst_root NODE_ID_KEY) (\<lambda>node_id_bytes.
     and_then (rqst_validate_node_id trans_id node_id_bytes) (\<lambda>node_id.
     and_then (dht_lookup_and_convert_bytes dht_handle_error rqst_root target_key) (\<lambda>target_id_bytes.
     and_then (rqst_validate_node_id trans_id target_id_bytes) (\<lambda>target_id.
       Ok \<lparr>fnq_trans_id = trans_id, fnq_node_id = node_id, fnq_target_id = target_id\<rparr>))))"

definition find_node_request_encode :: "find_node_request \<Rightarrow> bytes" where
  "find_node_request_encode self =
     bencode_encode (bt_ben_map [
       (TRANSACTION_ID_KEY, new_bytes (fnq_trans_id self)),
       (MESSAGE_TYPE_KEY, new_bytes REQUEST_TYPE_KEY),
       (REQUEST_TYPE_KEY, new_bytes FIND_NODE_TYPE_KEY),
       (REQUEST_ARGS_KEY, bt_ben_map [
         (NODE_ID_KEY, new_bytes (sha_bytes (fnq_node_id self))),
         (TARGET_ID_KEY, new_bytes (sha_bytes (fnq_target_id self)))])])"

definition find_node_response_new :: "bytes \<Rightarrow> sha_hash \<Rightarrow> bytes \<Rightarrow> find_node_response dht_result" where
  "find_node_response_new trans_id node_id nodes =
     and_then (validate_nodes trans_id nodes) (\<lambda>compact_nodes.
       Ok \<lparr>fns_trans_id = trans_id, fns_node_id = node_id, fns_nodes = compact_nodes\<rparr>)"

definition find_node_response_from_parts :: "(bytes \<times> dht_bencode) list \<Rightarrow> bytes \<Rightarrow> find_node_response dht_result" where
  "find_node_response_from_parts rsp_root trans_id =
     and_then (dht_lookup_and_convert_bytes dht_handle_error rsp_root NODE_ID_KEY) (\<lambda>node_id_bytes.
     and_then (rsp_validate_node_id trans_id node_id_bytes) (\<lambda>node_id.
     and_then (dht_lookup_and_convert_bytes dht_handle_error rsp_root NODES_KEY) (\<lambda>nodes.
       find_node_response_new trans_id node_id nodes)))"

definition find_node_response_encode :: "find_node_response \<Rightarrow> bytes" where
  "find_node_response_encode self =
     bencode_encode (bt_ben_map [
       (TRANSACTION_ID_KEY, new_bytes (fns_trans_id self)),
       (MESSAGE_TYPE_KEY, new_bytes RESPONSE_TYPE_KEY),
       (RESPONSE_TYPE_KEY, bt_ben_map [
         (NODE_ID_KEY, new_bytes (sha_bytes (fns_node_id self))),
         (NODES_KEY, new_bytes (compact_nodes (fns_nodes self)))])])"

section \<open>Get peers\<close>

record get_peers_request =
  gpq_trans_id :: bytes
  gpq_node_id :: sha_hash
  gpq_info_hash :: sha_hash

datatype compact_info_type =
    InfoNodes compact_node_info
  | InfoValues compact_value_info
  | InfoBoth compact_node_info compact_value_info

record get_peers_response =
  gps_trans_id :: bytes
  gps_node_id :: sha_hash
  gps_token :: "bytes option"
  gps_info_type :: compact_info_type

definition get_peers_request_from_parts :: "(bytes \<times> dht_bencode) list \<Rightarrow> bytes \<Rightarrow> get_peers_request dht_result" where
  "get_peers_request_from_parts rqst_root trans_id =
     and_then (dht_lookup_and_convert_bytes dht_handle_error rqst_root NODE_ID_KEY) (\<lambda>node_id_bytes.
     and_then (rqst_validate_node_id trans_id node_id_bytes) (\<lambda>node_id.
     and_then (dht_lookup_and_convert_bytes dht_handle_error rqst_root INFO_HASH_KEY) (\<lambda>info_hash_bytes.
     and_then (rqst_validate_info_hash trans_id info_hash_bytes) (\<lambda>info_hash.
       Ok \<lparr>gpq_trans_id = trans_id, gpq_node_id = node_id, gpq_info_hash = info_hash\<rparr>))))"

definition get_peers_request_encode :: "get_peers_request \<Rightarrow> bytes" where
  "get_peers_request_encode self =
     bencode_encode (bt_ben_map [
       (TRANSACTION_ID_KEY, new_bytes (gpq_trans_id self)),
       (MESSAGE_TYPE_KEY, new_bytes REQUEST_TYPE_KEY),
       (REQUEST_TYPE_KEY, new_bytes GET_PEERS_TYPE_KEY),
       (REQUEST_ARGS_KEY, bt_ben_map [
         (NODE_ID_KEY, new_bytes (sha_bytes (gpq_node_id self))),
         (INFO_HASH_KEY, new_bytes (sha_bytes (gpq_info_hash self)))])])"

definition get_peers_response_from_parts :: "(bytes \<times> dht_bencode) list \<Rightarrow> bytes \<Rightarrow> get_peers_response dht_result" where
  "get_peers_response_from_parts rsp_root trans_id =
     and_then (dht_lookup_and_convert_bytes dht_handle_error rsp_root NODE_ID_KEY) (\<lambda>node_id_bytes.
     and_then (rsp_validate_node_id trans_id node_id_bytes) (\<lambda>node_id.
     and_then (result_ok (dht_lookup_and_convert_bytes dht_handle_error rsp_root TOKEN_KEY)) (\<lambda>tok.
     let maybe_nodes = dht_lookup_and_convert_bytes dht_handle_error rsp_root NODES_KEY;
         maybe_values = dht_lookup_and_convert_list dht_handle_error rsp_root VALUES_KEY
     in and_then
          (case (maybe_nodes, maybe_values) of
             (Ok nodes, Ok values) \<Rightarrow>
               and_then (validate_nodes trans_id nodes) (\<lambda>nodes_info.
               and_then (validate_values trans_id values) (\<lambda>values_info.
                 Ok (InfoBoth nodes_info values_info)))
           | (Ok nodes, Err _) \<Rightarrow>
               and_then (validate_nodes trans_id nodes) (\<lambda>nodes_info. Ok (InfoNodes nodes_info))
           | (Err _, Ok values) \<Rightarrow>
               and_then (validate_values trans_id values) (\<lambda>values_info. Ok (InfoValues values_info))
           | (Err _, Err _) \<Rightarrow>
               Err (InvalidResponse (ascii ''Failed To Find nodes Or values In Node Response''))
           | _ \<Rightarrow> Panic) (\<lambda>info_type.
        Ok \<lparr>gps_trans_id = trans_id, gps_node_id = node_id, gps_token = tok, gps_info_type = info_type\<rparr>))))"

definition get_peers_response_args :: "get_peers_response \<Rightarrow> (bytes \<times> dht_bencode) list" where
  "get_peers_response_args self =
     (let insert = (\<lambda>k v m. snd (dict_insert m k v));
          args = insert NODE_ID_KEY (MBytes (sha_bytes (gps_node_id self))) dict_new;
          args = (case gps_token self of Some tok \<Rightarrow> insert TOKEN_KEY (MBytes tok) args | None \<Rightarrow> args)
      in case gps_info_type self of
           InfoNodes nodes \<Rightarrow> insert NODES_KEY (MBytes (compact_nodes nodes)) args
         | InfoValues values \<Rightarrow> insert VALUES_KEY (MList (compact_values values)) args
         | InfoBoth nodes values \<Rightarrow>
             insert VALUES_KEY (MList (compact_values values))
               (insert NODES_KEY (MBytes (compact_nodes nodes)) args))"

definition get_peers_response_encode :: "get_peers_response \<Rightarrow> bytes" where
  "get_peers_response_encode self =
     dht_encode (dht_ben_map [
       (TRANSACTION_ID_KEY, MBytes (gps_trans_id self)),
       (MESSAGE_TYPE_KEY, MBytes RESPONSE_TYPE_KEY),
       (REQUEST_TYPE_KEY, MBytes GET_PEERS_TYPE_KEY),
       (RESPONSE_ARGS_KEY, MDict (get_peers_response_args self))])"

section \<open>Announce peer\<close>

datatype connect_port = Implied | Explicit u16

record announce_peer_request =
  apq_trans_id :: bytes
  apq_node_id :: sha_hash
  apq_info_hash :: sha_hash
  apq_token :: bytes
  apq_port :: connect_port

record announce_peer_response =
  aps_trans_id :: bytes
  aps_node_id :: sha_hash

text \<open>The port is an \<open>i64\<close> cut to sixteen bits.\<close>

definition announce_peer_request_from_parts ::
  "(bytes \<times> dht_bencode) list \<Rightarrow> bytes \<Rightarrow> announce_peer_request dht_result" where
  "announce_peer_request_from_parts rqst_root trans_id =
     and_then (dht_lookup_and_convert_bytes dht_handle_error rqst_root NODE_ID_KEY) (\<lambda>node_id_bytes.
     and_then (rqst_validate_node_id trans_id node_id_bytes) (\<lambda>node_id.
     and_then (dht_lookup_and_convert_bytes dht_handle_error rqst_root INFO_HASH_KEY) (\<lambda>info_hash_bytes.
     and_then (rqst_validate_info_hash trans_id info_hash_bytes) (\<lambda>info_hash.
     and_then (dht_lookup_and_convert_bytes dht_handle_error rqst_root TOKEN_KEY) (\<lambda>tok.
     let port = dht_lookup_and_convert_int dht_handle_error rqst_root PORT_KEY
     in and_then
          (case map_option dht_int (dht_dictionary_lookup rqst_root IMPLIED_PORT_KEY) of
             Some (Some n) \<Rightarrow>
               if n \<noteq> 0 then Ok Implied else and_then port (\<lambda>n. Ok (Explicit (word_of_int n)))
           | _ \<Rightarrow> and_then port (\<lambda>n. Ok (Explicit (word_of_int n)))) (\<lambda>response_port.
        Ok \<lparr>apq_trans_id = trans_id, apq_node_id = node_id, apq_info_hash = info_hash, apq_token = tok,
            apq_port = response_port\<rparr>))))))"

definition announce_peer_request_encode :: "announce_peer_request \<Rightarrow> bytes" where
  "announce_peer_request_encode self =
     (let (displayed_port, implied_value) =
        (case apq_port self of Implied \<Rightarrow> (0, 1) | Explicit n \<Rightarrow> (n, 0))
      in bencode_encode (bt_ben_map [
           (TRANSACTION_ID_KEY, new_bytes (apq_trans_id self)),
           (MESSAGE_TYPE_KEY, new_bytes REQUEST_TYPE_KEY),
           (REQUEST_TYPE_KEY, new_bytes ANNOUNCE_PEER_TYPE_KEY),
           (REQUEST_ARGS_KEY, bt_ben_map [
             (NODE_ID_KEY, new_bytes (sha_bytes (apq_node_id self))),
             (IMPLIED_PORT_KEY, new_int implied_value),
             (INFO_HASH_KEY, new_bytes (sha_bytes (apq_info_hash self))),
             (PORT_KEY, new_int (uint displayed_port)),
             (TOKEN_KEY, new_bytes (apq_token self))])]))"

definition announce_peer_response_from_parts ::
  "(bytes \<times> dht_bencode) list \<Rightarrow> bytes \<Rightarrow> announce_peer_response dht_result" where
  "announce_peer_response_from_parts rqst_root trans_id =
     and_then (dht_lookup_and_convert_bytes dht_handle_error rqst_root NODE_ID_KEY) (\<lambda>node_id_bytes.
     and_then (rqst_validate_node_id trans_id node_id_bytes) (\<lambda>node_id.
       Ok \<lparr>aps_trans_id = trans_id, aps_node_id = node_id\<rparr>))"

definition announce_peer_response_encode :: "announce_peer_response \<Rightarrow> bytes" where
  "announce_peer_response_encode self =
     bencode_encode (bt_ben_map [
       (TRANSACTION_ID_KEY, new_bytes (aps_trans_id self)),
       (MESSAGE_TYPE_KEY, new_bytes RESPONSE_TYPE_KEY),
       (RESPONSE_TYPE_KEY, bt_ben_map [
         (NODE_ID_KEY, new_bytes (sha_bytes (aps_node_id self)))])])"

section \<open>Requests, responses, messages\<close>

datatype request_type =
    PingRequest ping_request
  | FindNodeRequest find_node_request
  | GetPeersRequest get_peers_request
  | AnnouncePeerRequest announce_peer_request

definition forward_compatible_find_node :: "(bytes \<times> dht_bencode) list \<Rightarrow> bytes option" where
  "forward_compatible_find_node rqst_root =
     (case (dht_dictionary_lookup rqst_root TARGET_ID_KEY, dht_dictionary_lookup rqst_root INFO_HASH_KEY) of
        (Some _, _) \<Rightarrow> Some TARGET_ID_KEY
      | (_, Some _) \<Rightarrow> Some INFO_HASH_KEY
      | (None, None) \<Rightarrow> None)"

definition request_from_parts ::
  "(bytes \<times> dht_bencode) list \<Rightarrow> bytes \<Rightarrow> bytes \<Rightarrow> request_type dht_result" where
  "request_from_parts root trans_id rqst_type =
     and_then (dht_lookup_and_convert_dict dht_handle_error root REQUEST_ARGS_KEY) (\<lambda>rqst_root.
       if rqst_type = PING_TYPE_KEY then
         and_then (ping_request_from_parts rqst_root trans_id) (\<lambda>r. Ok (PingRequest r))
       else if rqst_type = FIND_NODE_TYPE_KEY then
         and_then (find_node_request_from_parts rqst_root trans_id TARGET_ID_KEY) (\<lambda>r. Ok (FindNodeRequest r))
       else if rqst_type = GET_PEERS_TYPE_KEY then
         and_then (get_peers_request_from_parts rqst_root trans_id) (\<lambda>r. Ok (GetPeersRequest r))
       else if rqst_type = ANNOUNCE_PEER_TYPE_KEY then
         and_then (announce_peer_request_from_parts rqst_root trans_id) (\<lambda>r. Ok (AnnouncePeerRequest r))
       else
         case forward_compatible_find_node rqst_root of
           Some target_key \<Rightarrow>
             and_then (find_node_request_from_parts rqst_root trans_id target_key) (\<lambda>r. Ok (FindNodeRequest r))
         | None \<Rightarrow>
             Err (InvalidRequest (error_message_new trans_id MethodUnknown
               (ascii ''Received Unknown Request Method: '' @ rqst_type))))"

datatype expected_response =
  ExpectPing | ExpectFindNode | ExpectGetPeers | ExpectAnnouncePeer | ExpectGetData | ExpectPutData | ExpectNone

datatype response_type =
    PingResponse ping_response
  | FindNodeResponse find_node_response
  | GetPeersResponse get_peers_response
  | AnnouncePeerResponse announce_peer_response

text \<open>\<open>unimplemented!()\<close> is a panic.\<close>

definition response_from_parts ::
  "(bytes \<times> dht_bencode) list \<Rightarrow> bytes \<Rightarrow> expected_response \<Rightarrow> response_type dht_result" where
  "response_from_parts root trans_id rsp_type =
     and_then (dht_lookup_and_convert_dict dht_handle_error root RESPONSE_ARGS_KEY) (\<lambda>rqst_root.
       case rsp_type of
         ExpectPing \<Rightarrow> and_then (ping_response_from_parts rqst_root trans_id) (\<lambda>r. Ok (PingResponse r))
       | ExpectFindNode \<Rightarrow>
           and_then (find_node_response_from_parts rqst_root trans_id) (\<lambda>r. Ok (FindNodeResponse r))
       | ExpectGetPeers \<Rightarrow>
           and_then (get_peers_response_from_parts rqst_root trans_id) (\<lambda>r. Ok (GetPeersResponse r))
       | ExpectAnnouncePeer \<Rightarrow>
           and_then (announce_peer_response_from_parts rqst_root trans_id) (\<lambda>r. Ok (AnnouncePeerResponse r))
       | ExpectGetData \<Rightarrow> Panic
       | ExpectPutData \<Rightarrow> Panic
       | ExpectNone \<Rightarrow> Err UnsolicitedResponse)"

datatype message_type =
    RequestMessage request_type
  | ResponseMessage response_type
  | ErrorMessage error_message

text \<open>\<open>MessageType::new\<close>.\<close>

definition message_type_new :: "dht_bencode \<Rightarrow> (bytes \<Rightarrow> expected_response) \<Rightarrow> message_type dht_result" where
  "message_type_new message trans_mapper =
     and_then (dht_convert_dict dht_handle_error message ROOT_ID_KEY) (\<lambda>msg_root.
     and_then (dht_lookup_and_convert_bytes dht_handle_error msg_root TRANSACTION_ID_KEY) (\<lambda>trans_id.
     and_then (dht_lookup_and_convert_str dht_handle_error msg_root MESSAGE_TYPE_KEY) (\<lambda>msg_type.
       if msg_type = REQUEST_TYPE_KEY then
         and_then (dht_lookup_and_convert_str dht_handle_error msg_root REQUEST_TYPE_KEY) (\<lambda>rqst_type.
         and_then (request_from_parts msg_root trans_id rqst_type) (\<lambda>rqst_msg. Ok (RequestMessage rqst_msg)))
       else if msg_type = RESPONSE_TYPE_KEY then
         and_then (response_from_parts msg_root trans_id (trans_mapper trans_id)) (\<lambda>rsp. Ok (ResponseMessage rsp))
       else if msg_type = ERROR_TYPE_KEY then
         and_then (error_message_from_parts msg_root trans_id) (\<lambda>err. Ok (ErrorMessage err))
       else Err (InvalidMessage msg_type))))"

end
