(* ===== verification/Dht_Message_Props.thy ===== *)
theory Dht_Message_Props
  imports Dht_Message
begin

text \<open>
  Properties of the messages: what the two dictionary macros build, validity of what the parser
  accepts, absence of panics, and the round trip of every message through encoder, decoder and
  parser.
\<close>

section \<open>Dictionaries built by the macros\<close>

definition inserts :: "(bytes \<times> dht_bencode) list \<Rightarrow> (bytes \<times> dht_bencode) list" where
  "inserts kvs = fold (\<lambda>(k, v) m. snd (dict_insert m k v)) kvs dict_new"

lemma bt_ben_map_eq: "bt_ben_map kvs = MDict (inserts kvs)"
  by (simp add: bt_ben_map_def ben_map_def new_dict_def inserts_def)

lemma dht_ben_map_eq: "dht_ben_map kvs = MDict (inserts kvs)"
  by (simp add: dht_ben_map_def inserts_def)

lemma dht_ben_list_eq: "dht_ben_list vs = MList vs"
proof -
  have "fold (\<lambda>v l. l @ [v]) vs acc = acc @ vs" for acc :: "dht_bencode list"
    by (induction vs arbitrary: acc) simp_all
  then show ?thesis by (simp add: dht_ben_list_def)
qed

lemma dict_lookup_inserts [simp]: "dict_lookup (inserts kvs) k = map_of (rev kvs) k"
  by (simp add: inserts_def btree.lookup_inserts_new)

lemma ben_wf_inserts:
  "\<forall>(k, v) \<in> set kvs. length k < 2 ^ 63 \<and> ben_wf v \<Longrightarrow> ben_wf (MDict (inserts kvs))"
  by (rule ben_wf_ben_map) (simp_all add: ben_map_def new_dict_def inserts_def)

text \<open>The keys as numbers, so that comparisons of keys compute.\<close>

lemma dht_keys_eval:
  "TRANSACTION_ID_KEY = [116]" "MESSAGE_TYPE_KEY = [121]" "REQUEST_TYPE_KEY = [113]"
  "RESPONSE_TYPE_KEY = [114]" "ERROR_TYPE_KEY = [101]" "NODE_ID_KEY = [105, 100]"
  "NODES_KEY = [110, 111, 100, 101, 115]" "VALUES_KEY = [118, 97, 108, 117, 101, 115]"
  "TARGET_ID_KEY = [116, 97, 114, 103, 101, 116]"
  "INFO_HASH_KEY = [105, 110, 102, 111, 95, 104, 97, 115, 104]"
  "TOKEN_KEY = [116, 111, 107, 101, 110]" "REQUEST_ARGS_KEY = [97]" "RESPONSE_ARGS_KEY = [114]"
  "PING_TYPE_KEY = [112, 105, 110, 103]"
  "FIND_NODE_TYPE_KEY = [102, 105, 110, 100, 95, 110, 111, 100, 101]"
  "GET_PEERS_TYPE_KEY = [103, 101, 116, 95, 112, 101, 101, 114, 115]"
  "ANNOUNCE_PEER_TYPE_KEY = [97, 110, 110, 111, 117, 110, 99, 101, 95, 112, 101, 101, 114]"
  "PORT_KEY = [112, 111, 114, 116]"
  "IMPLIED_PORT_KEY = [105, 109, 112, 108, 105, 101, 100, 95, 112, 111, 114, 116]"
  "ERROR_ARGS_KEY = [101]"
  by (simp_all add: dht_keys ascii_def byte_of_char_def)

section \<open>Messages as a whole\<close>

fun request_encode :: "request_type \<Rightarrow> bytes" where
  "request_encode (PingRequest r) = ping_request_encode r"
| "request_encode (FindNodeRequest r) = find_node_request_encode r"
| "request_encode (GetPeersRequest r) = get_peers_request_encode r"
| "request_encode (AnnouncePeerRequest r) = announce_peer_request_encode r"

fun response_encode :: "response_type \<Rightarrow> bytes" where
  "response_encode (PingResponse r) = ping_response_encode r"
| "response_encode (FindNodeResponse r) = find_node_response_encode r"
| "response_encode (GetPeersResponse r) = get_peers_response_encode r"
| "response_encode (AnnouncePeerResponse r) = announce_peer_response_encode r"

fun message_encode :: "message_type \<Rightarrow> bytes" where
  "message_encode (RequestMessage r) = request_encode r"
| "message_encode (ResponseMessage r) = response_encode r"
| "message_encode (ErrorMessage e) = error_message_encode e"

text \<open>What the types of the Rust program guarantee of a message.\<close>

definition hash_valid :: "sha_hash \<Rightarrow> bool" where
  "hash_valid h \<longleftrightarrow> length (sha_bytes h) = SHA_HASH_LEN"

definition nodes_valid :: "compact_node_info \<Rightarrow> bool" where
  "nodes_valid info \<longleftrightarrow> length (compact_nodes info) mod BYTES_PER_COMPACT_NODE_INFO = 0"

definition values_valid :: "compact_value_info \<Rightarrow> bool" where
  "values_valid info \<longleftrightarrow> (\<forall>v \<in> set (compact_values info). \<exists>bs. v = MBytes bs \<and> length bs = BYTES_PER_COMPACT_IP)"

fun info_valid :: "compact_info_type \<Rightarrow> bool" where
  "info_valid (InfoNodes ns) = nodes_valid ns"
| "info_valid (InfoValues vs) = values_valid vs"
| "info_valid (InfoBoth ns vs) = (nodes_valid ns \<and> values_valid vs)"

fun request_valid :: "request_type \<Rightarrow> bool" where
  "request_valid (PingRequest r) = hash_valid (prq_node_id r)"
| "request_valid (FindNodeRequest r) = (hash_valid (fnq_node_id r) \<and> hash_valid (fnq_target_id r))"
| "request_valid (GetPeersRequest r) = (hash_valid (gpq_node_id r) \<and> hash_valid (gpq_info_hash r))"
| "request_valid (AnnouncePeerRequest r) = (hash_valid (apq_node_id r) \<and> hash_valid (apq_info_hash r))"

fun response_valid :: "response_type \<Rightarrow> bool" where
  "response_valid (PingResponse r) = hash_valid (prs_node_id r)"
| "response_valid (FindNodeResponse r) = (hash_valid (fns_node_id r) \<and> nodes_valid (fns_nodes r))"
| "response_valid (GetPeersResponse r) = (hash_valid (gps_node_id r) \<and> info_valid (gps_info_type r))"
| "response_valid (AnnouncePeerResponse r) = hash_valid (aps_node_id r)"

fun message_valid :: "message_type \<Rightarrow> bool" where
  "message_valid (RequestMessage r) = request_valid r"
| "message_valid (ResponseMessage r) = response_valid r"
| "message_valid (ErrorMessage e) = utf8_valid (em_message e)"

text \<open>A byte string of a Rust program is shorter than \<open>isize::MAX\<close>.\<close>

fun request_fits :: "request_type \<Rightarrow> bool" where
  "request_fits (PingRequest r) = (length (prq_trans_id r) < 2 ^ 63)"
| "request_fits (FindNodeRequest r) = (length (fnq_trans_id r) < 2 ^ 63)"
| "request_fits (GetPeersRequest r) = (length (gpq_trans_id r) < 2 ^ 63)"
| "request_fits (AnnouncePeerRequest r) = (length (apq_trans_id r) < 2 ^ 63 \<and> length (apq_token r) < 2 ^ 63)"

fun info_fits :: "compact_info_type \<Rightarrow> bool" where
  "info_fits (InfoNodes ns) = (length (compact_nodes ns) < 2 ^ 63)"
| "info_fits (InfoValues vs) = True"
| "info_fits (InfoBoth ns vs) = (length (compact_nodes ns) < 2 ^ 63)"

fun response_fits :: "response_type \<Rightarrow> bool" where
  "response_fits (PingResponse r) = (length (prs_trans_id r) < 2 ^ 63)"
| "response_fits (FindNodeResponse r) =
     (length (fns_trans_id r) < 2 ^ 63 \<and> length (compact_nodes (fns_nodes r)) < 2 ^ 63)"
| "response_fits (GetPeersResponse r) =
     (length (gps_trans_id r) < 2 ^ 63 \<and> pred_option (\<lambda>t. length t < 2 ^ 63) (gps_token r) \<and>
      info_fits (gps_info_type r))"
| "response_fits (AnnouncePeerResponse r) = (length (aps_trans_id r) < 2 ^ 63)"

fun message_fits :: "message_type \<Rightarrow> bool" where
  "message_fits (RequestMessage r) = request_fits r"
| "message_fits (ResponseMessage r) = response_fits r"
| "message_fits (ErrorMessage e) = (length (em_trans_id e) < 2 ^ 63 \<and> length (em_message e) < 2 ^ 63)"

text \<open>The kind of response the sender of the matching request expects.\<close>

fun expected_of :: "response_type \<Rightarrow> expected_response" where
  "expected_of (PingResponse _) = ExpectPing"
| "expected_of (FindNodeResponse _) = ExpectFindNode"
| "expected_of (GetPeersResponse _) = ExpectGetPeers"
| "expected_of (AnnouncePeerResponse _) = ExpectAnnouncePeer"

fun response_trans_id :: "response_type \<Rightarrow> bytes" where
  "response_trans_id (PingResponse r) = prs_trans_id r"
| "response_trans_id (FindNodeResponse r) = fns_trans_id r"
| "response_trans_id (GetPeersResponse r) = gps_trans_id r"
| "response_trans_id (AnnouncePeerResponse r) = aps_trans_id r"

fun awaited :: "(bytes \<Rightarrow> expected_response) \<Rightarrow> message_type \<Rightarrow> bool" where
  "awaited trans_mapper (ResponseMessage r) = (trans_mapper (response_trans_id r) = expected_of r)"
| "awaited trans_mapper _ = True"

section \<open>What the validators accept\<close>

lemma validators_Ok [simp]:
  "rqst_validate_node_id t bs = Ok h \<longleftrightarrow> length bs = 20 \<and> h = ShaHash bs"
  "rqst_validate_info_hash t bs = Ok h \<longleftrightarrow> length bs = 20 \<and> h = ShaHash bs"
  "rsp_validate_node_id t bs = Ok h \<longleftrightarrow> length bs = 20 \<and> h = ShaHash bs"
  "validate_nodes t bs = Ok ns \<longleftrightarrow> length bs mod 26 = 0 \<and> ns = \<lparr>compact_nodes = bs\<rparr>"
  by (auto simp: rqst_validate_node_id_def rqst_validate_info_hash_def rsp_validate_node_id_def
      validate_nodes_def compact_node_info_new_def compact_consts)

lemma from_hash_no_panic [simp]: "from_hash bs \<noteq> Panic"
  by (simp add: from_hash_def)

lemma validators_no_panic [simp]:
  "rqst_validate_node_id t bs \<noteq> Panic" "rqst_validate_info_hash t bs \<noteq> Panic"
  "rsp_validate_node_id t bs \<noteq> Panic" "validate_nodes t bs \<noteq> Panic"
  by (simp_all add: rqst_validate_node_id_def rqst_validate_info_hash_def rsp_validate_node_id_def
      validate_nodes_def compact_node_info_new_def)

lemma validate_values_Ok [simp]:
  "validate_values t vs = Ok info \<longleftrightarrow>
     (\<forall>v \<in> set vs. \<exists>bs. v = MBytes bs \<and> length bs = 6) \<and> info = \<lparr>compact_values = vs\<rparr>"
  by (auto simp: validate_values_def compact_value_info_new_def check_values_Ok list_ex_iff dht_bytes_def) fastforce

lemma validate_values_no_panic [simp]: "validate_values t vs \<noteq> Panic"
  using check_values_no_panic [of vs 0]
  by (auto simp: validate_values_def compact_value_info_new_def and_then_eq_Panic list_ex_iff)

lemmas from_parts_defs =
  ping_request_from_parts_def ping_response_from_parts_def find_node_request_from_parts_def
  find_node_response_from_parts_def find_node_response_new_def get_peers_request_from_parts_def
  announce_peer_request_from_parts_def announce_peer_response_from_parts_def


section \<open>Validity and panics\<close>

lemma get_peers_response_from_parts_Ok:
  assumes "get_peers_response_from_parts root t = Ok r"
  shows "hash_valid (gps_node_id r) \<and> info_valid (gps_info_type r) \<and> gps_trans_id r = t"
  using assms
  by (auto simp: get_peers_response_from_parts_def Let_def hash_valid_def nodes_valid_def values_valid_def compact_consts
      split: outcome.splits)

lemma get_peers_response_from_parts_no_panic: "get_peers_response_from_parts root t \<noteq> Panic"
  by (auto simp: get_peers_response_from_parts_def Let_def and_then_eq_Panic result_ok_eq_Ok
      split: outcome.splits)

lemma request_from_parts_valid: "request_from_parts root t ty = Ok r \<Longrightarrow> request_valid r"
  by (auto simp: request_from_parts_def from_parts_defs Let_def hash_valid_def compact_consts
      split: if_splits option.splits)

lemma response_from_parts_valid: "response_from_parts root t ex = Ok r \<Longrightarrow> response_valid r"
  using get_peers_response_from_parts_Ok
  by (cases ex)
     (auto simp: response_from_parts_def from_parts_defs Let_def hash_valid_def nodes_valid_def compact_consts)

lemma error_code_new_no_panic [simp]: "error_code_new c \<noteq> Panic"
  by (simp add: error_code_new_def)

lemma error_from_parts_Ok:
  "error_message_from_parts root t = Ok e \<Longrightarrow> utf8_valid (em_message e) \<and> em_trans_id e = t"
  by (auto simp: error_message_from_parts_def extract_error_args_def dht_convert_defs dht_str_def
      split: if_splits option.splits)

lemma error_from_parts_no_panic: "error_message_from_parts root t \<noteq> Panic"
  by (auto simp: error_message_from_parts_def extract_error_args_def and_then_eq_Panic
      dht_convert_int_def dht_convert_str_def)

lemma request_from_parts_no_panic: "request_from_parts root t ty \<noteq> Panic"
  by (auto simp: request_from_parts_def from_parts_defs Let_def and_then_eq_Panic
      split: if_splits option.splits)

lemma response_from_parts_no_panic:
  "ex \<noteq> ExpectGetData \<Longrightarrow> ex \<noteq> ExpectPutData \<Longrightarrow> response_from_parts root t ex \<noteq> Panic"
  using get_peers_response_from_parts_no_panic
  by (cases ex) (auto simp: response_from_parts_def from_parts_defs Let_def and_then_eq_Panic)

lemma dht_convert_dict_Ok [simp]: "dht_convert_dict h b k = Ok d \<longleftrightarrow> b = MDict d"
  by (simp add: dht_convert_dict_def dht_dict_def mut_accessors_iff)

lemma message_type_new_valid: "message_type_new b trans_mapper = Ok m \<Longrightarrow> message_valid m"
  using request_from_parts_valid response_from_parts_valid error_from_parts_Ok
  by (auto simp: message_type_new_def split: if_splits)

lemma message_type_new_no_panic:
  "\<forall>t. trans_mapper t \<noteq> ExpectGetData \<and> trans_mapper t \<noteq> ExpectPutData \<Longrightarrow> message_type_new b trans_mapper \<noteq> Panic"
  using request_from_parts_no_panic response_from_parts_no_panic error_from_parts_no_panic
  by (auto simp: message_type_new_def and_then_eq_Panic dht_convert_dict_def split: if_splits)

lemma response_from_parts_awaited: "response_from_parts root t ex = Ok r \<Longrightarrow> expected_of r = ex \<and> response_trans_id r = t"
  using get_peers_response_from_parts_Ok [of _ t]
  by (cases ex) (auto simp: response_from_parts_def from_parts_defs Let_def)

text \<open>A response is accepted only as the kind its transaction id awaits.\<close>

lemma message_type_new_awaited: "message_type_new b trans_mapper = Ok m \<Longrightarrow> awaited trans_mapper m"
  using response_from_parts_awaited by (cases m) (auto simp: message_type_new_def split: if_splits)

section \<open>Round trip\<close>

lemma hash_valid_iff: "hash_valid h \<longleftrightarrow> length (sha_bytes h) = 20"
  by (simp add: hash_valid_def compact_consts)

lemma utf8_keys [simp]:
  "utf8_valid [113]" "utf8_valid [114]" "utf8_valid [101]" "utf8_valid PING_TYPE_KEY"
  "utf8_valid FIND_NODE_TYPE_KEY" "utf8_valid GET_PEERS_TYPE_KEY" "utf8_valid ANNOUNCE_PEER_TYPE_KEY"
  by (simp_all add: dht_keys_eval)

text \<open>Sending a dictionary and parsing what arrives.\<close>

lemma decode_inserts:
  assumes "\<forall>(k, v) \<in> set kvs. length k < 2 ^ 63 \<and> ben_wf v"
  shows "dht_bencode_decode (bencode_encode (bt_ben_map kvs)) = Ok (MDict (inserts kvs))"
    and "dht_bencode_decode (dht_encode (dht_ben_map kvs)) = Ok (MDict (inserts kvs))"
  using dht_decode_bencoding [OF ben_wf_inserts [OF assms]]
  by (simp_all add: bencode_encode_eq bt_ben_map_eq dht_ben_map_eq dht_encode_eq)

lemma parse_request:
  assumes "dict_lookup root TRANSACTION_ID_KEY = Some (MBytes t)" and "dict_lookup root MESSAGE_TYPE_KEY = Some (MBytes REQUEST_TYPE_KEY)"
    and "dict_lookup root REQUEST_TYPE_KEY = Some (MBytes ty)" and "utf8_valid ty"
  shows "message_type_new (MDict root) mapper = Ok (RequestMessage r) \<longleftrightarrow> request_from_parts root t ty = Ok r"
  using assms by (auto simp: message_type_new_def) (auto simp: dht_keys_eval)

lemma parse_response:
  assumes "dict_lookup root TRANSACTION_ID_KEY = Some (MBytes t)" and "dict_lookup root MESSAGE_TYPE_KEY = Some (MBytes RESPONSE_TYPE_KEY)"
  shows "message_type_new (MDict root) mapper = Ok (ResponseMessage r) \<longleftrightarrow> response_from_parts root t (mapper t) = Ok r"
  using assms by (auto simp: message_type_new_def dht_keys_eval)

lemma parse_error_msg:
  assumes "dict_lookup root TRANSACTION_ID_KEY = Some (MBytes t)" and "dict_lookup root MESSAGE_TYPE_KEY = Some (MBytes ERROR_TYPE_KEY)"
  shows "message_type_new (MDict root) mapper = Ok (ErrorMessage e) \<longleftrightarrow> error_message_from_parts root t = Ok e"
  using assms by (auto simp: message_type_new_def dht_keys_eval)


text \<open>The arguments of a request or response are themselves a dictionary built by a macro.\<close>

lemma ben_wf_args:
  "\<forall>(k, v) \<in> set kvs. length k < 2 ^ 63 \<and> ben_wf v \<Longrightarrow> ben_wf (bt_ben_map kvs)"
  by (simp only: bt_ben_map_eq ben_wf_inserts)

lemma sha_hash_eta: "ShaHash (sha_bytes h) = h"
  by (cases h) simp

lemma i64_range_word:
  assumes "LENGTH('w) < 63"
  shows "i64_range (uint (w :: 'w::len word))"
proof -
  have "uint w < 2 ^ LENGTH('w)" by (rule unsigned_less)
  also have "\<dots> < (2 :: int) ^ 63" using assms by (intro power_strict_increasing) simp_all
  finally have "uint w < 2 ^ 63" .
  moreover have "- (2 ^ 63) \<le> uint w" by (rule order_trans [of _ 0]) simp_all
  ultimately show ?thesis unfolding i64_range_def by blast
qed

lemma i64_range_small [simp]: "i64_range 0" "i64_range 1"
  by (simp_all add: i64_range_def)

lemma length_key [simp]: "length (ascii s) = length s"
  by (simp add: ascii_def)

lemma request_sent:
  assumes enc: "request_encode r = bencode_encode (bt_ben_map [(TRANSACTION_ID_KEY, new_bytes t),
      (MESSAGE_TYPE_KEY, new_bytes REQUEST_TYPE_KEY), (REQUEST_TYPE_KEY, new_bytes ty),
      (REQUEST_ARGS_KEY, bt_ben_map args)])"
    and "length t < 2 ^ 63" and "length ty < 2 ^ 63" and "utf8_valid ty"
    and "\<forall>(k, v) \<in> set args. length k < 2 ^ 63 \<and> ben_wf v"
    and parts: "\<And>root. dict_lookup root REQUEST_ARGS_KEY = Some (MDict (inserts args)) \<Longrightarrow> request_from_parts root t ty = Ok r"
  shows "\<exists>b. dht_bencode_decode (request_encode r) = Ok b \<and> message_type_new b mapper = Ok (RequestMessage r)"
proof -
  let ?kvs = "[(TRANSACTION_ID_KEY, new_bytes t), (MESSAGE_TYPE_KEY, new_bytes REQUEST_TYPE_KEY),
      (REQUEST_TYPE_KEY, new_bytes ty), (REQUEST_ARGS_KEY, bt_ben_map args)]"
  have "ben_wf (bt_ben_map args)" using assms(5) by (rule ben_wf_args)
  then have "dht_bencode_decode (request_encode r) = Ok (MDict (inserts ?kvs))"
    unfolding enc using assms(2,3) by (intro decode_inserts) (simp add: new_bytes_def dht_keys)
  moreover have "request_from_parts (inserts ?kvs) t ty = Ok r"
    by (rule parts) (simp add: bt_ben_map_eq dht_keys_eval)
  with assms(4) have "message_type_new (MDict (inserts ?kvs)) mapper = Ok (RequestMessage r)"
    by (subst parse_request [of _ t ty]) (simp_all add: new_bytes_def dht_keys_eval)
  ultimately show ?thesis by blast
qed

lemma response_sent:
  assumes dec: "dht_bencode_decode (response_encode r) = Ok (MDict root)"
    and "dict_lookup root TRANSACTION_ID_KEY = Some (MBytes t)"
    and "dict_lookup root MESSAGE_TYPE_KEY = Some (MBytes RESPONSE_TYPE_KEY)"
    and "response_from_parts root t (mapper t) = Ok r"
  shows "\<exists>b. dht_bencode_decode (response_encode r) = Ok b \<and> message_type_new b mapper = Ok (ResponseMessage r)"
  using assms parse_response [OF assms(2,3), of mapper r] by blast

lemmas sent_simps = new_bytes_def new_int_def hash_valid_iff sha_hash_eta dht_keys_eval Let_def
  dht_dictionary_lookup_def dht_int_def

lemma request_roundtrip:
  assumes "request_valid r" and "request_fits r"
  shows "\<exists>b. dht_bencode_decode (request_encode r) = Ok b \<and> message_type_new b mapper = Ok (RequestMessage r)"
proof (cases r)
  case (PingRequest q)
  show ?thesis
    by (rule request_sent [where t = "prq_trans_id q" and ty = PING_TYPE_KEY
          and args = "[(NODE_ID_KEY, new_bytes (sha_bytes (prq_node_id q)))]"])
       (use assms PingRequest in \<open>simp_all add: ping_request_encode_def request_from_parts_def
          ping_request_from_parts_def sent_simps\<close>)
next
  case (FindNodeRequest q)
  show ?thesis
    by (rule request_sent [where t = "fnq_trans_id q" and ty = FIND_NODE_TYPE_KEY
          and args = "[(NODE_ID_KEY, new_bytes (sha_bytes (fnq_node_id q))),
            (TARGET_ID_KEY, new_bytes (sha_bytes (fnq_target_id q)))]"])
       (use assms FindNodeRequest in \<open>simp_all add: find_node_request_encode_def request_from_parts_def
          find_node_request_from_parts_def sent_simps\<close>)
next
  case (GetPeersRequest q)
  show ?thesis
    by (rule request_sent [where t = "gpq_trans_id q" and ty = GET_PEERS_TYPE_KEY
          and args = "[(NODE_ID_KEY, new_bytes (sha_bytes (gpq_node_id q))),
            (INFO_HASH_KEY, new_bytes (sha_bytes (gpq_info_hash q)))]"])
       (use assms GetPeersRequest in \<open>simp_all add: get_peers_request_encode_def request_from_parts_def
          get_peers_request_from_parts_def sent_simps\<close>)
next
  case (AnnouncePeerRequest q)
  define port where "port = (case apq_port q of Implied \<Rightarrow> 0 | Explicit n \<Rightarrow> n)"
  define implied :: int where "implied = (case apq_port q of Implied \<Rightarrow> 1 | Explicit n \<Rightarrow> 0)"
  have i: "i64_range implied" by (cases "apq_port q") (simp_all add: implied_def)
  have p: "i64_range (uint port)" by (rule i64_range_word) simp
  show ?thesis
    by (rule request_sent [where t = "apq_trans_id q" and ty = ANNOUNCE_PEER_TYPE_KEY
          and args = "[(NODE_ID_KEY, new_bytes (sha_bytes (apq_node_id q))), (IMPLIED_PORT_KEY, new_int implied),
            (INFO_HASH_KEY, new_bytes (sha_bytes (apq_info_hash q))), (PORT_KEY, new_int (uint port)),
            (TOKEN_KEY, new_bytes (apq_token q))]"]; cases "apq_port q")
       (use assms AnnouncePeerRequest i p in \<open>simp_all add: announce_peer_request_encode_def request_from_parts_def
          announce_peer_request_from_parts_def sent_simps port_def implied_def\<close>)
qed


lemma get_peers_args_eq:
  "get_peers_response_args r = inserts (
     (NODE_ID_KEY, MBytes (sha_bytes (gps_node_id r))) #
     (case gps_token r of Some tok \<Rightarrow> [(TOKEN_KEY, MBytes tok)] | None \<Rightarrow> []) @
     (case gps_info_type r of
        InfoNodes ns \<Rightarrow> [(NODES_KEY, MBytes (compact_nodes ns))]
      | InfoValues vs \<Rightarrow> [(VALUES_KEY, MList (compact_values vs))]
      | InfoBoth ns vs \<Rightarrow> [(NODES_KEY, MBytes (compact_nodes ns)), (VALUES_KEY, MList (compact_values vs))]))"
  by (simp add: get_peers_response_args_def inserts_def Let_def split: option.splits compact_info_type.splits)

lemma values_valid_wf:
  "values_valid vs \<Longrightarrow> list_all ben_wf (compact_values vs)"
  by (auto simp: values_valid_def list_all_iff compact_consts)

lemma get_peers_args_wf:
  assumes "response_valid (GetPeersResponse r)" and "response_fits (GetPeersResponse r)"
  shows "ben_wf (MDict (get_peers_response_args r))"
  unfolding get_peers_args_eq using assms
  by (intro ben_wf_inserts; cases "gps_token r"; cases "gps_info_type r")
     (simp_all add: dht_keys hash_valid_iff values_valid_wf)

lemma dht_lookup_bytes_eval:
  "dht_lookup_and_convert_bytes h d k =
     (case dict_lookup d k of
        Some (MBytes s) \<Rightarrow> Ok s
      | Some _ \<Rightarrow> Err (h (WrongType k ''Bytes''))
      | None \<Rightarrow> Err (h (MissingKey k)))"
  by (auto simp: dht_convert_defs dht_bytes_def split: option.splits bencode_mut.splits)

lemma dht_lookup_list_eval:
  "dht_lookup_and_convert_list h d k =
     (case dict_lookup d k of
        Some (MList l) \<Rightarrow> Ok l
      | Some _ \<Rightarrow> Err (h (WrongType k ''List''))
      | None \<Rightarrow> Err (h (MissingKey k)))"
  by (auto simp: dht_convert_defs dht_list_def split: option.splits bencode_mut.splits)

lemma get_peers_response_parts:
  assumes "response_valid (GetPeersResponse r)"
  shows "get_peers_response_from_parts (get_peers_response_args r) (gps_trans_id r) = Ok r"
proof -
  let ?d = "get_peers_response_args r"
  have id: "dict_lookup ?d NODE_ID_KEY = Some (MBytes (sha_bytes (gps_node_id r)))"
    and tok: "dict_lookup ?d TOKEN_KEY = map_option MBytes (gps_token r)"
    and ns: "dict_lookup ?d NODES_KEY =
      (case gps_info_type r of InfoNodes ns \<Rightarrow> Some (MBytes (compact_nodes ns)) | InfoValues _ \<Rightarrow> None
       | InfoBoth ns _ \<Rightarrow> Some (MBytes (compact_nodes ns)))"
    and vs: "dict_lookup ?d VALUES_KEY =
      (case gps_info_type r of InfoNodes _ \<Rightarrow> None | InfoValues vs \<Rightarrow> Some (MList (compact_values vs))
       | InfoBoth _ vs \<Rightarrow> Some (MList (compact_values vs)))"
    by (simp_all add: get_peers_args_eq dht_keys_eval split: option.splits compact_info_type.splits)
  have "result_ok (dht_lookup_and_convert_bytes dht_handle_error ?d TOKEN_KEY) = Ok (gps_token r)"
    by (cases "gps_token r") (simp_all add: tok dht_lookup_bytes_eval)
  then show ?thesis
    using assms
    by (cases "gps_info_type r")
       (auto simp: get_peers_response_from_parts_def id ns vs dht_lookup_bytes_eval [of _ _ NODES_KEY]
        dht_lookup_list_eval hash_valid_iff nodes_valid_def values_valid_def compact_consts sha_hash_eta Let_def
        intro!: get_peers_response.equality)
qed

lemma response_roundtrip:
  assumes "response_valid r" and "response_fits r" and "mapper (response_trans_id r) = expected_of r"
  shows "\<exists>b. dht_bencode_decode (response_encode r) = Ok b \<and> message_type_new b mapper = Ok (ResponseMessage r)"
proof (cases r)
  case (PingResponse q)
  let ?args = "[(NODE_ID_KEY, new_bytes (sha_bytes (prs_node_id q)))]"
  have "ben_wf (bt_ben_map ?args)"
    using assms PingResponse by (intro ben_wf_args) (simp add: sent_simps)
  then have "dht_bencode_decode (response_encode r) = Ok (MDict (inserts [(TRANSACTION_ID_KEY, new_bytes (prs_trans_id q)),
      (MESSAGE_TYPE_KEY, new_bytes RESPONSE_TYPE_KEY), (RESPONSE_TYPE_KEY, bt_ben_map ?args)]))"
    unfolding PingResponse response_encode.simps ping_response_encode_def
    using assms PingResponse by (intro decode_inserts) (simp add: sent_simps)
  then show ?thesis
    by (rule response_sent [where t = "prs_trans_id q"])
       (use assms PingResponse in \<open>simp_all add: response_from_parts_def from_parts_defs bt_ben_map_eq sent_simps\<close>)
next
  case (FindNodeResponse q)
  let ?args = "[(NODE_ID_KEY, new_bytes (sha_bytes (fns_node_id q))), (NODES_KEY, new_bytes (compact_nodes (fns_nodes q)))]"
  have "ben_wf (bt_ben_map ?args)"
    using assms FindNodeResponse by (intro ben_wf_args) (simp add: sent_simps)
  then have "dht_bencode_decode (response_encode r) = Ok (MDict (inserts [(TRANSACTION_ID_KEY, new_bytes (fns_trans_id q)),
      (MESSAGE_TYPE_KEY, new_bytes RESPONSE_TYPE_KEY), (RESPONSE_TYPE_KEY, bt_ben_map ?args)]))"
    unfolding FindNodeResponse response_encode.simps find_node_response_encode_def
    using assms FindNodeResponse by (intro decode_inserts) (simp add: sent_simps)
  then show ?thesis
    by (rule response_sent [where t = "fns_trans_id q"])
       (use assms FindNodeResponse in \<open>simp_all add: response_from_parts_def from_parts_defs bt_ben_map_eq sent_simps
          nodes_valid_def compact_consts\<close>)
next
  case (GetPeersResponse q)
  have "ben_wf (MDict (get_peers_response_args q))"
    using assms GetPeersResponse by (intro get_peers_args_wf) simp_all
  then have dec: "dht_bencode_decode (response_encode r) = Ok (MDict (inserts [(TRANSACTION_ID_KEY, MBytes (gps_trans_id q)),
      (MESSAGE_TYPE_KEY, MBytes RESPONSE_TYPE_KEY), (REQUEST_TYPE_KEY, MBytes GET_PEERS_TYPE_KEY),
      (RESPONSE_ARGS_KEY, MDict (get_peers_response_args q))]))"
    unfolding GetPeersResponse response_encode.simps get_peers_response_encode_def
    using assms GetPeersResponse by (intro decode_inserts) (simp add: sent_simps)
  have "get_peers_response_from_parts (get_peers_response_args q) (gps_trans_id q) = Ok q"
    using assms GetPeersResponse by (intro get_peers_response_parts) simp
  then show ?thesis
    using assms GetPeersResponse
    by (intro response_sent [OF dec, where t = "gps_trans_id q"]) (simp_all add: response_from_parts_def sent_simps)
next
  case (AnnouncePeerResponse q)
  let ?args = "[(NODE_ID_KEY, new_bytes (sha_bytes (aps_node_id q)))]"
  have "ben_wf (bt_ben_map ?args)"
    using assms AnnouncePeerResponse by (intro ben_wf_args) (simp add: sent_simps)
  then have "dht_bencode_decode (response_encode r) = Ok (MDict (inserts [(TRANSACTION_ID_KEY, new_bytes (aps_trans_id q)),
      (MESSAGE_TYPE_KEY, new_bytes RESPONSE_TYPE_KEY), (RESPONSE_TYPE_KEY, bt_ben_map ?args)]))"
    unfolding AnnouncePeerResponse response_encode.simps announce_peer_response_encode_def
    using assms AnnouncePeerResponse by (intro decode_inserts) (simp add: sent_simps)
  then show ?thesis
    by (rule response_sent [where t = "aps_trans_id q"])
       (use assms AnnouncePeerResponse in \<open>simp_all add: response_from_parts_def from_parts_defs bt_ben_map_eq sent_simps\<close>)
qed

lemma error_code_roundtrip: "error_code_new (u8_of_error_code c) = Ok c"
  by (cases c) (simp_all add: error_code_new_def error_codes)

lemma error_roundtrip:
  assumes "utf8_valid (em_message e)" and "length (em_trans_id e) < 2 ^ 63" and "length (em_message e) < 2 ^ 63"
  shows "\<exists>b. dht_bencode_decode (error_message_encode e) = Ok b \<and> message_type_new b mapper = Ok (ErrorMessage e)"
proof -
  let ?root = "inserts [(TRANSACTION_ID_KEY, MBytes (em_trans_id e)), (MESSAGE_TYPE_KEY, MBytes ERROR_TYPE_KEY),
    (ERROR_TYPE_KEY, MList [MInt (uint (u8_of_error_code (em_code e))), MBytes (em_message e)])]"
  have "i64_range (uint (u8_of_error_code (em_code e)))" by (rule i64_range_word) simp
  then have "dht_bencode_decode (error_message_encode e) = Ok (MDict ?root)"
    unfolding error_message_encode_def dht_ben_list_eq
    using assms by (intro decode_inserts) (simp add: dht_keys)
  moreover have "error_message_from_parts ?root (em_trans_id e) = Ok e"
    using assms(1) error_code_roundtrip [of "em_code e"]
    by (simp add: error_message_from_parts_def extract_error_args_def NUM_ERROR_ARGS_def dht_keys_eval
        dht_convert_int_def dht_convert_str_def dht_access_defs)
  then have "message_type_new (MDict ?root) mapper = Ok (ErrorMessage e)"
    by (subst parse_error_msg [of _ "em_trans_id e"]) (simp_all add: dht_keys_eval)
  ultimately show ?thesis by blast
qed

section \<open>Properties\<close>

text \<open>C21: Every message survives the trip over the network: encoded by its own \<open>encode\<close> method, decoded
  and parsed by a receiver that awaits it, it comes back unchanged, whatever its kind.\<close>

theorem dht_message_roundtrip:
  assumes "message_valid m" and "message_fits m" and "awaited trans_mapper m"
  shows "\<exists>b. dht_bencode_decode (message_encode m) = Ok b \<and> message_type_new b trans_mapper = Ok m"
  using assms by (cases m) (simp_all add: request_roundtrip response_roundtrip error_roundtrip)

theorem dht_message_roundtrip_witness:
  "\<exists>b. dht_bencode_decode (message_encode (ResponseMessage (GetPeersResponse
        \<lparr>gps_trans_id = [97, 97], gps_node_id = ShaHash (replicate 20 1), gps_token = Some [9],
         gps_info_type = InfoValues \<lparr>compact_values = [MBytes [127, 0, 0, 1, 26, 225]]\<rparr>\<rparr>))) = Ok b \<and>
     message_type_new b (\<lambda>_. ExpectGetPeers) = Ok (ResponseMessage (GetPeersResponse
        \<lparr>gps_trans_id = [97, 97], gps_node_id = ShaHash (replicate 20 1), gps_token = Some [9],
         gps_info_type = InfoValues \<lparr>compact_values = [MBytes [127, 0, 0, 1, 26, 225]]\<rparr>\<rparr>))"
  by (rule dht_message_roundtrip) (simp_all add: hash_valid_def values_valid_def compact_consts)

text \<open>C23: Parsing any decoded value never panics unless a data request is pending, which the program
  never sends, and whatever is accepted has the shape its type promises: hashes of twenty bytes,
  node lists in whole entries, values that are compact addresses, texts in UTF-8.\<close>

theorem dht_message_parse_valid:
  "(message_type_new b trans_mapper = Ok m \<longrightarrow> message_valid m) \<and>
   ((\<forall>t. trans_mapper t \<noteq> ExpectGetData \<and> trans_mapper t \<noteq> ExpectPutData) \<longrightarrow>
     message_type_new b trans_mapper \<noteq> Panic)"
  using message_type_new_valid message_type_new_no_panic by blast

theorem dht_message_parse_valid_witness:
  "\<exists>m. message_type_new (MDict [(REQUEST_ARGS_KEY, MDict [(NODE_ID_KEY, MBytes (replicate 20 1))]),
      (REQUEST_TYPE_KEY, MBytes PING_TYPE_KEY), (TRANSACTION_ID_KEY, MBytes [97]), (MESSAGE_TYPE_KEY, MBytes REQUEST_TYPE_KEY)])
      (\<lambda>_. ExpectPing) = Ok m \<and> message_valid m \<and> message_type_new (MInt 5) (\<lambda>_. ExpectPing) \<noteq> Panic"
proof -
  let ?b = "MDict [(REQUEST_ARGS_KEY, MDict [(NODE_ID_KEY, MBytes (replicate 20 1))]),
      (REQUEST_TYPE_KEY, MBytes PING_TYPE_KEY), (TRANSACTION_ID_KEY, MBytes [97]), (MESSAGE_TYPE_KEY, MBytes REQUEST_TYPE_KEY)]"
  have "message_type_new ?b (\<lambda>_. ExpectPing) =
      Ok (RequestMessage (PingRequest \<lparr>prq_trans_id = [97], prq_node_id = ShaHash (replicate 20 1)\<rparr>))"
    by code_simp
  then show ?thesis
    using dht_message_parse_valid [of ?b "\<lambda>_. ExpectPing"] dht_message_parse_valid [of "MInt 5" "\<lambda>_. ExpectPing"]
    by blast
qed

text \<open>A request with an unknown method that names a target, or failing that an info hash, is
  treated as a search for that node; without either the sender gets an error that names the method.\<close>

theorem unknown_request_is_find_node:
  assumes "ty \<notin> {PING_TYPE_KEY, FIND_NODE_TYPE_KEY, GET_PEERS_TYPE_KEY, ANNOUNCE_PEER_TYPE_KEY}"
    and "dict_lookup root REQUEST_ARGS_KEY = Some (MDict args)"
    and "dict_lookup args NODE_ID_KEY = Some (MBytes ident)" and "length ident = 20"
  shows "(dict_lookup args TARGET_ID_KEY = Some (MBytes target) \<and> length target = 20 \<longrightarrow>
      request_from_parts root t ty = Ok (FindNodeRequest
        \<lparr>fnq_trans_id = t, fnq_node_id = ShaHash ident, fnq_target_id = ShaHash target\<rparr>)) \<and>
    (dict_lookup args TARGET_ID_KEY = None \<and> dict_lookup args INFO_HASH_KEY = Some (MBytes target) \<and> length target = 20 \<longrightarrow>
      request_from_parts root t ty = Ok (FindNodeRequest
        \<lparr>fnq_trans_id = t, fnq_node_id = ShaHash ident, fnq_target_id = ShaHash target\<rparr>)) \<and>
    (dict_lookup args TARGET_ID_KEY = None \<and> dict_lookup args INFO_HASH_KEY = None \<longrightarrow>
      request_from_parts root t ty = Err (InvalidRequest
        \<lparr>em_trans_id = t, em_code = MethodUnknown, em_message = ascii ''Received Unknown Request Method: '' @ ty\<rparr>))"
  using assms
  by (auto simp: request_from_parts_def forward_compatible_find_node_def find_node_request_from_parts_def
      dht_dictionary_lookup_def dht_lookup_and_convert_dict_def dht_lookup_def dht_convert_dict_def dht_dict_def
      error_message_new_def)

theorem unknown_request_is_find_node_witness:
  "request_from_parts [(REQUEST_ARGS_KEY, MDict [(NODE_ID_KEY, MBytes (replicate 20 1)), (TARGET_ID_KEY, MBytes (replicate 20 2))])]
      [97] [118, 111, 116, 101] = Ok (FindNodeRequest
        \<lparr>fnq_trans_id = [97], fnq_node_id = ShaHash (replicate 20 1), fnq_target_id = ShaHash (replicate 20 2)\<rparr>)"
  using unknown_request_is_find_node [of "[118, 111, 116, 101]"
      "[(REQUEST_ARGS_KEY, MDict [(NODE_ID_KEY, MBytes (replicate 20 1)), (TARGET_ID_KEY, MBytes (replicate 20 2))])]"
      "[(NODE_ID_KEY, MBytes (replicate 20 1)), (TARGET_ID_KEY, MBytes (replicate 20 2))]" "replicate 20 1" "replicate 20 2" "[97]"]
  by (simp add: dict_lookup_def dht_keys_eval)

text \<open>Numbers from the network are cut to their width without a check: a port of 65616 is taken for
  port 80, an error code of 457 for code 201.\<close>

lemma announce_port_truncated:
  assumes "dict_lookup args NODE_ID_KEY = Some (MBytes ident)" and "length ident = 20"
    and "dict_lookup args INFO_HASH_KEY = Some (MBytes h)" and "length h = 20"
    and "dict_lookup args TOKEN_KEY = Some (MBytes tok)"
    and "dict_lookup args IMPLIED_PORT_KEY = None" and "dict_lookup args PORT_KEY = Some (MInt 65616)"
  shows "announce_peer_request_from_parts args t = Ok \<lparr>apq_trans_id = t, apq_node_id = ShaHash ident,
    apq_info_hash = ShaHash h, apq_token = tok, apq_port = Explicit 80\<rparr>"
  using assms by (simp add: announce_peer_request_from_parts_def dht_dictionary_lookup_def Let_def)

lemma error_code_truncated:
  "error_message_from_parts [(ERROR_ARGS_KEY, MList [MInt 457, MBytes []])] t =
     Ok \<lparr>em_trans_id = t, em_code = GenericError, em_message = []\<rparr>"
  by (simp add: error_message_from_parts_def extract_error_args_def NUM_ERROR_ARGS_def dht_keys_eval dict_lookup_def
        dht_convert_int_def dht_convert_str_def dht_access_defs error_code_new_def error_codes)

end
