(* ===== verification/Hash_Map.thy ===== *)
theory Hash_Map
  imports BTree_Map
begin

text \<open>
  \<open>HashMap\<close> and \<open>HashSet\<close> as the code uses them: a list of pairs with pairwise different keys. The
  operations do not depend on the order of the list. The laws of a dictionary that the ordered map
  satisfies hold for it as well.
\<close>

type_synonym ('k, 'v) hash_map = "('k \<times> 'v) list"

definition hash_insert :: "('k, 'v) hash_map \<Rightarrow> 'k \<Rightarrow> 'v \<Rightarrow> 'v option \<times> ('k, 'v) hash_map" where
  "hash_insert m k v = (map_of m k, (k, v) # filter (\<lambda>e. fst e \<noteq> k) m)"

definition hash_remove :: "('k, 'v) hash_map \<Rightarrow> 'k \<Rightarrow> 'v option \<times> ('k, 'v) hash_map" where
  "hash_remove m k = (map_of m k, filter (\<lambda>e. fst e \<noteq> k) m)"

definition hash_wf :: "('k, 'v) hash_map \<Rightarrow> bool" where
  "hash_wf m \<longleftrightarrow> distinct (map fst m)"

lemma map_of_filter_key: "map_of (filter (\<lambda>e. fst e \<noteq> k) m) = (map_of m)(k := None)"
  by (induction m) (auto simp: fun_eq_iff)

lemma hash_wf_filter: "hash_wf m \<Longrightarrow> hash_wf (filter P m)"
  by (simp add: hash_wf_def distinct_map_filter)

interpretation hash_map: bdict_access "[]" id map_of hash_insert hash_remove hash_wf
  by unfold_locales
     (auto simp: hash_insert_def hash_remove_def map_of_filter_key hash_wf_filter fun_eq_iff,
      auto simp: hash_wf_def distinct_map_filter)

lemmas hash_map_laws [simp] =
  hash_map.lookup_insert hash_map.insert_old hash_map.invar_insert hash_map.lookup_remove hash_map.remove_old
  hash_map.invar_remove hash_map.invar_new

lemma hash_remove_keys [simp]: "fst ` set (snd (hash_remove m k)) = fst ` set m - {k}"
  by (auto simp: hash_remove_def)

lemma hash_remove_subset: "set (snd (hash_remove m k)) \<subseteq> set m"
  by (auto simp: hash_remove_def)

lemma hash_insert_keys [simp]: "fst ` set (snd (hash_insert m k v)) = insert k (fst ` set m)"
  by (auto simp: hash_insert_def)

lemma hash_insert_nonempty [simp]: "snd (hash_insert m k v) \<noteq> []"
  by (simp add: hash_insert_def)

text \<open>\<open>HashSet::insert\<close>.\<close>

definition set_insert :: "'a list \<Rightarrow> 'a \<Rightarrow> 'a list" where
  "set_insert xs x = (if x \<in> set xs then xs else x # xs)"

lemma set_set_insert [simp]: "set (set_insert xs x) = insert x (set xs)"
  by (auto simp: set_insert_def)

end
