(* ===== verification/Dht_Worker.thy ===== *)
theory Dht_Worker
  imports Dht_Table_Props Dht_Storage Dht_Token Dht_Transaction Dht_Message Hash_Map "HOL-Library.Sublist"
begin

text \<open>
  \<open>src/dht/worker/mod.rs\<close> and \<open>src/dht/router.rs\<close>, and what the actions of the worker use: the event
  loop, the channels and the handshaker, the random numbers, and the nodes of the routing table that
  are marked through their cells.

  The event loop, the socket threads and the client are not part of the program. Their answers are
  given in advance (whether the event loop accepts the next timer, whether a channel still has its
  receiver), and what the program asks of them is recorded in order. The clock is read once in a
  callback, as \<open>now\<close>.
\<close>

section \<open>Tasks and events\<close>

datatype shutdown_cause = BootstrapFailed | ClientInitiated | Unspecified

datatype dht_event = BootstrapCompleted | LookupCompleted info_hash | ShuttingDown shutdown_cause

datatype scheduled_task =
    CheckTableRefresh transaction_id
  | CheckBootstrapTimeout transaction_id
  | CheckLookupTimeout transaction_id
  | CheckLookupEndGame transaction_id

datatype router = uTorrent | BitTorrent | BitComet | Transmission | Custom socket_addr

text \<open>A registered sender is known by a number.\<close>

datatype oneshot_task =
    Incoming bytes socket_addr
  | RegisterSender nat
  | StartBootstrap "router list" "socket_addr list"
  | StartLookup info_hash bool
  | Shutdown shutdown_cause

section \<open>Routers\<close>

definition UTORRENT_DHT :: "string \<times> u16" where "UTORRENT_DHT = (''router.utorrent.com'', 6881)"
definition BITTORRENT_DHT :: "string \<times> u16" where "BITTORRENT_DHT = (''router.bittorrent.com'', 6881)"
definition BITCOMET_DHT :: "string \<times> u16" where "BITCOMET_DHT = (''router.bitcomet.com'', 6881)"
definition TRANSMISSION_DHT :: "string \<times> u16" where "TRANSMISSION_DHT = (''dht.transmissionbt.com'', 6881)"

text \<open>Names are resolved by the system: \<open>to_socket_addrs\<close> is an argument, with \<open>None\<close> for an error.\<close>

type_synonym resolver = "string \<times> u16 \<Rightarrow> socket_addr list option"

fun router_socket_addrs :: "resolver \<Rightarrow> router \<Rightarrow> socket_addr list option" where
  "router_socket_addrs to_socket_addrs uTorrent = to_socket_addrs UTORRENT_DHT"
| "router_socket_addrs to_socket_addrs BitTorrent = to_socket_addrs BITTORRENT_DHT"
| "router_socket_addrs to_socket_addrs BitComet = to_socket_addrs BITCOMET_DHT"
| "router_socket_addrs to_socket_addrs Transmission = to_socket_addrs TRANSMISSION_DHT"
| "router_socket_addrs to_socket_addrs (Custom addr) = Some [addr]"

fun map_ipv4 :: "socket_addr \<Rightarrow> socket_addr_v4 option" where
  "map_ipv4 (V4 n) = Some n"
| "map_ipv4 (V6 n) = None"

fun map_ipv6 :: "socket_addr \<Rightarrow> socket_addr_v6 option" where
  "map_ipv6 (V4 n) = None"
| "map_ipv6 (V6 n) = Some n"

definition first_of :: "'a list \<Rightarrow> 'a option" where
  "first_of xs = (case xs of [] \<Rightarrow> None | x # _ \<Rightarrow> Some x)"

definition router_ipv4_addr :: "resolver \<Rightarrow> router \<Rightarrow> socket_addr_v4 option" where
  "router_ipv4_addr to_socket_addrs self =
     Option.bind (router_socket_addrs to_socket_addrs self) (\<lambda>addrs. first_of (List.map_filter map_ipv4 addrs))"

definition router_ipv6_addr :: "resolver \<Rightarrow> router \<Rightarrow> socket_addr_v6 option" where
  "router_ipv6_addr to_socket_addrs self =
     Option.bind (router_socket_addrs to_socket_addrs self) (\<lambda>addrs. first_of (List.map_filter map_ipv6 addrs))"

definition router_socket_addr :: "resolver \<Rightarrow> router \<Rightarrow> socket_addr option" where
  "router_socket_addr to_socket_addrs self = Option.bind (router_socket_addrs to_socket_addrs self) first_of"

section \<open>The surroundings of the worker\<close>

datatype event_call =
    TimeoutMs nat scheduled_task nat
  | ClearTimeout nat
  | ChannelShutdown shutdown_cause
  | LoopShutdown

text \<open>
  \<open>io_timers k\<close> is the answer of the event loop to a timer that is its \<open>k\<close>-th request; \<open>io_out_ok k\<close>
  says whether the outgoing channel takes the \<open>k\<close>-th message, and once it refuses it keeps refusing;
  \<open>io_listening\<close> says which clients still hold their receiver; \<open>io_rnds k\<close> are the random numbers of
  the \<open>k\<close>-th request for an id.
\<close>

record worker_io =
  io_timers :: "nat \<Rightarrow> nat option"
  io_calls :: "event_call list"
  io_out_ok :: "nat \<Rightarrow> bool"
  io_sent :: "(bytes \<times> socket_addr) list"
  io_listening :: "nat \<Rightarrow> bool"
  io_events :: "(nat \<times> dht_event) list"
  io_connects :: "(info_hash \<times> socket_addr) list"
  io_rnds :: "nat \<Rightarrow> nat \<Rightarrow> nat"
  io_drawn :: nat

definition event_call :: "event_call \<Rightarrow> worker_io \<Rightarrow> worker_io" where
  "event_call c io = io\<lparr>io_calls := io_calls io @ [c]\<rparr>"

text \<open>\<open>event_loop.timeout_ms\<close>, \<open>clear_timeout\<close>, \<open>out.send\<close> and \<open>handshaker.connect\<close>.\<close>

definition timeout_ms :: "nat \<times> scheduled_task \<Rightarrow> nat \<Rightarrow> worker_io \<Rightarrow> nat option \<times> worker_io" where
  "timeout_ms data delay io =
     (io_timers io (length (io_calls io)), event_call (TimeoutMs (fst data) (snd data) delay) io)"

definition clear_timeout :: "nat \<Rightarrow> worker_io \<Rightarrow> worker_io" where
  "clear_timeout timeout io = event_call (ClearTimeout timeout) io"

definition out_send :: "bytes \<times> socket_addr \<Rightarrow> worker_io \<Rightarrow> bool \<times> worker_io" where
  "out_send msg io =
     (if io_out_ok io (length (io_sent io)) then (True, io\<lparr>io_sent := io_sent io @ [msg]\<rparr>) else (False, io))"

definition connect :: "info_hash \<Rightarrow> socket_addr \<Rightarrow> worker_io \<Rightarrow> worker_io" where
  "connect info_hash addr io = io\<lparr>io_connects := io_connects io @ [(info_hash, addr)]\<rparr>"

text \<open>\<open>id_generator.generate()\<close>: two rounds are enough, the second after a refill.\<close>

definition next_trans_id :: "mid_generator \<Rightarrow> worker_io \<Rightarrow> transaction_id \<times> mid_generator \<times> worker_io" where
  "next_trans_id g io =
     (case the (mid_generate 2 (io_rnds io (io_drawn io)) g) of
        (t, g') \<Rightarrow> (t, g', io\<lparr>io_drawn := Suc (io_drawn io)\<rparr>))"

definition next_action :: "aid_generator \<Rightarrow> worker_io \<Rightarrow> mid_generator \<times> aid_generator \<times> worker_io" where
  "next_action g io =
     (case the (aid_generate 2 (io_rnds io (io_drawn io)) g) of
        (m, g') \<Rightarrow> (m, g', io\<lparr>io_drawn := Suc (io_drawn io)\<rparr>))"

section \<open>Nodes of the table\<close>

text \<open>The items of the iterator over the closest nodes, at most so many. A table has at most 160 buckets
  of eight nodes.\<close>

fun closest_take :: "datetime \<Rightarrow> nat \<Rightarrow> closest_nodes \<Rightarrow> node list" where
  "closest_take now 0 it = []"
| "closest_take now (Suc k) it =
     (case closest_next now it of
        (None, _) \<Rightarrow> []
      | (Some n, it') \<Rightarrow> n # closest_take now k it')"

definition MAX_NODES :: nat where "MAX_NODES = MAX_BUCKETS * MAX_BUCKET_SIZE"

definition closest_first :: "datetime \<Rightarrow> nat \<Rightarrow> routing_table \<Rightarrow> node_id \<Rightarrow> (node list, unit) outcome" where
  "closest_first now k table target =
     and_then (table_closest_nodes table target) (\<lambda>it. Ok (closest_take now k it))"

definition closest_with_status ::
  "datetime \<Rightarrow> node_status \<Rightarrow> routing_table \<Rightarrow> node_id \<Rightarrow> (node list, unit) outcome" where
  "closest_with_status now st table target =
     and_then (closest_first now MAX_NODES table target) (\<lambda>ns. Ok (filter (\<lambda>n. status now n = st) ns))"

text \<open>Setting the cells of a node the table handed out, found by its value.\<close>

definition place :: "node \<Rightarrow> routing_table \<Rightarrow> (nat \<times> nat) option" where
  "place n table =
     (case position (\<lambda>b. n \<in> set (nodes b)) (buckets table) of
        None \<Rightarrow> None
      | Some i \<Rightarrow> map_option (Pair i) (position (\<lambda>m. m = n) (nodes (buckets table ! i))))"

definition mark :: "(node \<Rightarrow> node) \<Rightarrow> node \<Rightarrow> routing_table \<Rightarrow> routing_table" where
  "mark f n table = (case place n table of Some (i, j) \<Rightarrow> touch i j f table | None \<Rightarrow> table)"

text \<open>\<open>table.find_node(node).map(|n| f(n))\<close>.\<close>

definition mark_found :: "datetime \<Rightarrow> (node \<Rightarrow> node) \<Rightarrow> node \<Rightarrow> routing_table \<Rightarrow> routing_table" where
  "mark_found now f n table =
     (case find_node now n table of Some m \<Rightarrow> mark f m table | None \<Rightarrow> table)"

section \<open>Lemmas\<close>

lemma io_simps [simp]:
  "io_sent (event_call c io) = io_sent io" "io_events (event_call c io) = io_events io"
  "io_connects (event_call c io) = io_connects io" "io_calls (event_call c io) = io_calls io @ [c]"
  "io_out_ok (event_call c io) = io_out_ok io" "io_timers (event_call c io) = io_timers io"
  "io_listening (event_call c io) = io_listening io"
  by (simp_all add: event_call_def)

text \<open>A generator always has an id after at most one refill.\<close>

lemma length_fold_update: "length (fold (\<lambda>(index, ident) ids. ids[index := ident]) es xs) = length xs"
  by (induction es arbitrary: xs) auto

lemma length_generate_mids: "length (snd (generate_mids alloc)) = 2048"
  by (simp add: generate_mids_def enumerate_ids_def length_fold_update MESSAGE_ID_PREALLOC_LEN_def)

lemma length_generate_aids: "length (snd (generate_aids alloc)) = 2048"
  by (simp add: generate_aids_def enumerate_ids_def length_fold_update ACTION_ID_PREALLOC_LEN_def)

lemma mid_generate_two: "\<exists>r. mid_generate 2 rnd g = Some r"
  using length_generate_mids [of "mid_next_alloc g"]
  by (cases "generate_mids (mid_next_alloc g)") (auto simp: numeral_2_eq_2 get_slice_def)

lemma aid_generate_two: "\<exists>r. aid_generate 2 rnd g = Some r"
  using length_generate_aids [of "aid_next_alloc g"]
  by (cases "generate_aids (aid_next_alloc g)") (auto simp: numeral_2_eq_2 get_slice_def)

subsection \<open>Tables whose nodes can be sent\<close>

definition table_contacts :: "routing_table \<Rightarrow> (node_id \<times> socket_addr) set" where
  "table_contacts t = (\<Union>b \<in> set (buckets t). contact ` set (nodes b))"

text \<open>An id of twenty bytes and an IPv4 address.\<close>

definition wire_contact :: "node_id \<times> socket_addr \<Rightarrow> bool" where
  "wire_contact c \<longleftrightarrow> length (sha_bytes (fst c)) = SHA_HASH_LEN \<and> (\<exists>a. snd c = V4 a)"

definition table_ok :: "routing_table \<Rightarrow> bool" where
  "table_ok t \<longleftrightarrow> table_wf t \<and> Ball (table_contacts t) wire_contact \<and> length (sha_bytes (table_node_id t)) = SHA_HASH_LEN"

lemma wire_placeholder [simp]: "wire_contact (contact placeholder)"
  by (simp add: wire_contact_def contact_def placeholder_def as_bad_def SHA_HASH_LEN_def)

lemma bucket_add_contacts:
  "contact ` set (nodes (snd (bucket_add_node now n b))) \<subseteq> insert (contact n) (contact ` set (nodes b))"
proof -
  have "contact ` set ((nodes b)[i := n]) \<subseteq> insert (contact n) (contact ` set (nodes b))" for i
    by (auto dest: set_update_subset_insert [THEN subsetD])
  then show ?thesis unfolding bucket_add_node_def Let_def by (simp split: option.split) blast
qed

lemma table_contacts_update:
  "contact ` set (nodes b) \<subseteq> C \<Longrightarrow> table_contacts t \<subseteq> C \<Longrightarrow> table_contacts (t\<lparr>buckets := (buckets t)[i := b]\<rparr>) \<subseteq> C"
  using set_update_subset_insert [of "buckets t" i b] unfolding table_contacts_def by simp blast

lemma add_contacts:
  "add_node now n t = Ok t' \<Longrightarrow> table_contacts t' \<subseteq> {contact n, contact placeholder} \<union> table_contacts t"
  "bucket_node now n k t = Ok t' \<Longrightarrow> table_contacts t' \<subseteq> {contact n, contact placeholder} \<union> table_contacts t"
  "split_bucket now i t = Ok (ok, t') \<Longrightarrow> table_contacts t' \<subseteq> {contact placeholder} \<union> table_contacts t"
  "add_nodes now ns t = Ok t' \<Longrightarrow> table_contacts t' \<subseteq> contact ` set ns \<union> {contact placeholder} \<union> table_contacts t"
proof (induction now n t and now n k t and now i t and now ns t arbitrary: t' and t' and ok t' and t'
    rule: add_node_bucket_node_split_bucket_add_nodes.induct)
  case (1 now n self)
  then show ?case by (auto simp: add_node.simps [of now n self] Let_def split: if_splits)
next
  case (2 now n k self)
  let ?i = "bucket_placement k (table_size self)"
  let ?added = "bucket_add_node now n (buckets self ! ?i)"
  let ?self = "self\<lparr>buckets := (buckets self)[?i := snd ?added]\<rparr>"
  from 2(3) have ne: "buckets self \<noteq> []" by (auto simp: bucket_node.simps [of now n k self])
  then have "buckets self ! ?i \<in> set (buckets self)" using bucket_placement_less [of "table_size self" k] by simp
  then have "contact ` set (nodes (buckets self ! ?i)) \<subseteq> table_contacts self" unfolding table_contacts_def by blast
  then have self: "table_contacts ?self \<subseteq> insert (contact n) (table_contacts self)"
    using bucket_add_contacts [of now n "buckets self ! ?i"] by (intro table_contacts_update) blast+
  show ?case
  proof (cases "fst ?added")
    case True
    with 2(3) ne self show ?thesis by (auto simp: bucket_node.simps [of now n k self] Let_def)
  next
    case False
    with 2(3) ne obtain split where s: "split_bucket now ?i ?self = Ok split"
      and t': "(if fst split then bucket_node now n k (snd split) else Ok (snd split)) = Ok t'"
      by (auto simp: bucket_node.simps [of now n k self] Let_def)
    have "table_contacts (snd split) \<subseteq> {contact placeholder} \<union> table_contacts ?self"
      using 2(1) [OF ne refl refl refl, of "fst split"] False s by simp
    moreover have "table_contacts t' \<subseteq> {contact n, contact placeholder} \<union> table_contacts (snd split)" if "fst split"
      using 2(2) [OF ne refl refl refl, of split] False s t' that by simp
    ultimately show ?thesis using t' self by (cases "fst split") auto
  qed
next
  case (3 now i self)
  from 3(2) consider "t' = self"
    | "\<not> (\<not> can_split_bucket (table_size self) i)" "buckets self \<noteq> []"
      "add_nodes now (nodes (last (buckets self)))
         (self\<lparr>buckets := butlast (buckets self) @ [bucket_new] @ [bucket_new]\<rparr>) = Ok t'"
    by (auto simp: split_bucket.simps [of now i self] split: if_splits)
  then show ?case
  proof cases
    case 2
    have "contact ` set (nodes bucket_new) \<subseteq> {contact placeholder}" by (auto simp: bucket_new_def)
    moreover have "set (butlast (buckets self)) \<subseteq> set (buckets self)" by (auto dest: in_set_butlastD)
    ultimately have "table_contacts (self\<lparr>buckets := butlast (buckets self) @ [bucket_new] @ [bucket_new]\<rparr>)
        \<subseteq> {contact placeholder} \<union> table_contacts self"
      unfolding table_contacts_def by simp blast
    moreover have "contact ` set (nodes (last (buckets self))) \<subseteq> table_contacts self"
      using last_in_set [OF 2(2)] unfolding table_contacts_def by blast
    ultimately show ?thesis using 3(1) [OF 2(1,2,3)] by blast
  qed auto
next
  case (5 now n ns self)
  then obtain t1 where "add_node now n self = Ok t1" "add_nodes now ns t1 = Ok t'" by auto
  with 5(1) [of t1] 5(2) [of t1 t'] show ?case by auto
qed auto

lemma add_nodes_result:
  "table_wf t \<Longrightarrow> \<exists>t'. add_nodes now ns t = Ok t' \<and> table_wf t' \<and> table_node_id t' = table_node_id t"
proof (induction ns arbitrary: t)
  case (Cons n ns)
  from add_node_result [OF Cons.prems, of now n] obtain t1 where
    "add_node now n t = Ok t1" "table_wf t1" "table_node_id t1 = table_node_id t" by blast
  with Cons.IH [of t1] show ?case by simp
qed simp

lemma add_nodes_ok:
  assumes "table_ok t" and "\<forall>n \<in> set ns. wire_contact (contact n)"
  shows "\<exists>t'. add_nodes now ns t = Ok t' \<and> table_ok t' \<and> table_node_id t' = table_node_id t"
proof -
  from add_nodes_result [of t now ns] assms(1) obtain t' where
    t': "add_nodes now ns t = Ok t'" "table_wf t'" "table_node_id t' = table_node_id t" by (auto simp: table_ok_def)
  have "Ball (contact ` set ns \<union> {contact placeholder} \<union> table_contacts t) wire_contact"
    using assms by (simp add: table_ok_def ball_Un)
  with assms(1) t' add_contacts(4) [OF t'(1)] show ?thesis unfolding table_ok_def by (metis subsetD)
qed

lemma add_node_ok:
  "table_ok t \<Longrightarrow> wire_contact (contact n) \<Longrightarrow>
   \<exists>t'. add_node now n t = Ok t' \<and> table_ok t' \<and> table_node_id t' = table_node_id t"
  using add_nodes_ok [of t "[n]" now] by (auto simp: and_then_eq_Ok)

subsection \<open>The closest nodes as a list\<close>

lemma closest_take_iterates: "iterates (closest_next now) it found \<Longrightarrow> closest_take now k it = take k found"
proof (induction k arbitrary: it found)
  case (Suc k)
  then show ?case by (cases found; cases "closest_next now it") auto
qed simp

definition usable_nodes :: "datetime \<Rightarrow> routing_table \<Rightarrow> node list" where
  "usable_nodes now t = concat (map (pingable_nodes now) (buckets t))"

lemma length_concat_le: "\<forall>x \<in> set xs. length (f x) \<le> k \<Longrightarrow> length (concat (map f xs)) \<le> length xs * k"
  by (induction xs) auto

lemma length_usable:
  assumes "table_wf t"
  shows "length (usable_nodes now t) \<le> MAX_NODES"
proof -
  from assms have "\<forall>b \<in> set (buckets t). length (pingable_nodes now b) \<le> MAX_BUCKET_SIZE"
    by (auto simp: table_wf_def bucket_wf_def pingable_nodes_def intro: le_trans [OF length_filter_le])
  then have "length (usable_nodes now t) \<le> table_size t * MAX_BUCKET_SIZE"
    unfolding usable_nodes_def by (rule length_concat_le)
  with assms show ?thesis by (simp add: MAX_NODES_def table_wf_def) (metis le_trans mult_le_mono1)
qed

text \<open>The iterator gives every usable node once.\<close>

lemma closest_first_eq:
  assumes "table_wf t"
  obtains found where "mset found = mset (usable_nodes now t)"
    and "\<And>k. closest_first now k t target = Ok (take k found)"
    and "sorted_wrt (\<lambda>m n. visit_rank (leading_bit_count (table_node_id t) target) (shared t m)
      \<le> visit_rank (leading_bit_count (table_node_id t) target) (shared t n)) found"
proof -
  from assms obtain it where it: "table_closest_nodes t target = Ok it"
    by (auto simp: table_wf_def table_closest_nodes_def closest_nodes_new_def Let_def)
  note start = at_index_new(3) [OF assms it]
  have "iterates (closest_next now) it (remaining now it)"
    by (rule closest_next_iterates) (simp_all add: start leading_bit_count_le)
  with it remaining_new [OF assms it, of now] that [of "remaining now it"] show ?thesis
    by (simp add: start closest_first_def usable_nodes_def closest_take_iterates)
qed

lemma closest_with_status_eq:
  assumes "table_wf t"
  obtains found where "mset found = mset (filter (\<lambda>n. status now n = st) (usable_nodes now t))"
    and "closest_with_status now st t target = Ok found"
proof -
  from closest_first_eq [OF assms, of now target] obtain found where
    f: "mset found = mset (usable_nodes now t)" "\<And>k. closest_first now k t target = Ok (take k found)" by blast
  have "length found \<le> MAX_NODES" using length_usable [OF assms, of now] mset_eq_length [OF f(1)] by simp
  then show ?thesis using f that [of "filter (\<lambda>n. status now n = st) found"]
    by (simp add: closest_with_status_def)
qed

lemma usable_nodes_set: "set (usable_nodes now t) = {n. \<exists>b \<in> set (buckets t). n \<in> set (nodes b) \<and> status now n \<noteq> Bad}"
  by (auto simp: usable_nodes_def pingable_nodes_def pingable_iff)

subsection \<open>Marking nodes\<close>

lemma position_lt: "position p xs = Some i \<Longrightarrow> i < length xs \<and> p (xs ! i)"
  by (simp add: position_Some_iff)

lemma place_Some:
  "place n t = Some (i, j) \<Longrightarrow> i < table_size t \<and> j < length (nodes (buckets t ! i)) \<and> nodes (buckets t ! i) ! j = n"
  by (auto simp: place_def dest: position_lt split: option.splits)

text \<open>What a mark leaves alone: the contacts, the id of the table, its size and its invariant.\<close>

lemma map_update_same: "g y = g (xs ! i) \<Longrightarrow> map g (xs[i := y]) = map g xs"
  by (metis list_update_id map_update)

lemma touch_frame:
  assumes "f \<in> {local_request now, remote_request now, remote_response now}"
  shows "table_contacts (touch i j f t) = table_contacts t" "table_node_id (touch i j f t) = table_node_id t"
proof -
  have c: "contact (f n) = contact n" for n
    using assms by (auto simp: local_request_def remote_request_def remote_response_def contact_def)
  have "map (\<lambda>b. contact ` set (nodes b)) (buckets (touch i j f t)) = map (\<lambda>b. contact ` set (nodes b)) (buckets t)"
    unfolding touch_def by (simp add: map_update_same c flip: set_map)
  from arg_cong [OF this, of "\<lambda>xs. \<Union> (set xs)"] show "table_contacts (touch i j f t) = table_contacts t"
    by (simp add: table_contacts_def)
qed (simp add: touch_def)

lemma mark_ok:
  assumes "f \<in> {local_request now, remote_request now, remote_response now}" and "status now n \<noteq> Bad" and "table_ok t"
  shows "table_ok (mark f n t)"
  using assms touch_wf [of t _ _ now f]
  by (auto simp: mark_def table_ok_def touch_frame dest!: place_Some split: option.split)

lemma mark_id [simp]: "table_node_id (mark f n t) = table_node_id t"
  by (simp add: mark_def touch_def split: option.split)

lemma find_Some_in: "List.find P xs = Some m \<Longrightarrow> m \<in> set xs \<and> P m"
  by (auto simp: find_Some_iff)

lemma find_node_usable: "find_node now n t = Some m \<Longrightarrow> status now m \<noteq> Bad \<and> contact m = contact n"
  by (auto simp: find_node_def Let_def pingable_nodes_def pingable_iff node_eq_def contact_def
      dest!: find_Some_in split: option.splits bucket_contents.splits)

lemma mark_found_ok:
  assumes "f \<in> {local_request now, remote_request now, remote_response now}" and "table_ok t"
  shows "table_ok (mark_found now f n t)"
  using assms mark_ok [of f now _ t] find_node_usable [of now n t] by (auto simp: mark_found_def split: option.split)

lemma mark_found_id [simp]: "table_node_id (mark_found now f n t) = table_node_id t"
  by (simp add: mark_found_def split: option.split)

subsection \<open>The log of the surroundings grows\<close>

definition shutdown_requested :: "worker_io \<Rightarrow> bool" where
  "shutdown_requested io \<longleftrightarrow> (\<exists>c. ChannelShutdown c \<in> set (io_calls io))"

text \<open>What every step of an action keeps: the table stays a table with the same id, and nothing asked of
  the surroundings is taken back.\<close>

definition evolves :: "routing_table \<times> worker_io \<Rightarrow> routing_table \<times> worker_io \<Rightarrow> bool" where
  "evolves s s' \<longleftrightarrow> (table_ok (fst s) \<longrightarrow> table_ok (fst s')) \<and> table_node_id (fst s') = table_node_id (fst s) \<and>
     prefix (io_calls (snd s)) (io_calls (snd s')) \<and> prefix (io_sent (snd s)) (io_sent (snd s'))"

lemma evolves_refl [simp, intro]: "evolves s s"
  by (simp add: evolves_def)

lemma evolves_trans [trans]: "evolves s s' \<Longrightarrow> evolves s' s'' \<Longrightarrow> evolves s s''"
  by (auto simp: evolves_def)

lemma evolves_shutdown: "evolves (t, io) (t', io') \<Longrightarrow> shutdown_requested io \<Longrightarrow> shutdown_requested io'"
  by (auto simp: evolves_def shutdown_requested_def dest: set_mono_prefix)

lemma evolves_io:
  "next_trans_id g io = (tid, g', io') \<Longrightarrow> evolves (t, io) (t, io')"
  "next_action a io = (g, a', io') \<Longrightarrow> evolves (t, io) (t, io')"
  "timeout_ms data delay io = (r, io') \<Longrightarrow> evolves (t, io) (t, io')"
  "out_send msg io = (sent, io') \<Longrightarrow> evolves (t, io) (t, io')"
  "evolves (t, io) (t, event_call c io)"
  "evolves (t, io) (t, clear_timeout timer io)"
  "evolves (t, io) (t, connect info_hash addr io)"
  by (auto simp: evolves_def next_trans_id_def next_action_def timeout_ms_def out_send_def clear_timeout_def
      connect_def event_call_def split: prod.splits if_splits)

lemma evolves_mark:
  "f \<in> {local_request now, remote_request now, remote_response now} \<Longrightarrow> evolves (t, io) (mark_found now f n t, io)"
  "f \<in> {local_request now, remote_request now, remote_response now} \<Longrightarrow> status now n \<noteq> Bad \<Longrightarrow>
     evolves (t, io) (mark f n t, io)"
  by (simp_all only: evolves_def fst_conv snd_conv mark_found_id mark_id prefix_order.refl simp_thms)
     (blast intro: mark_found_ok mark_ok)+

subsection \<open>The ids of an action\<close>

text \<open>All ids of a generator carry the number of its action, also when the blocks start over.\<close>

lemma mid_generate_action:
  assumes g: "mid_inv a g"
  shows "\<exists>x g'. mid_generate 2 rnd g = Some (x, g') \<and> id_of_action a x \<and> mid_inv a g'"
proof (cases "mid_remaining g")
  case (Cons r rs)
  from mids.from_block [OF g Cons, of rnd] show ?thesis by blast
next
  case Nil
  show ?thesis
  proof (cases "mid_allocated g < 2 ^ 24")
    case True
    from mids.new_block [OF g Nil True, of rnd] show ?thesis by blast
  next
    case False
    have "mid_next_alloc g = MAX_MESSAGE_ID"
      using False g by (simp add: mid_inv_def mid_allocated_def word_unat_eq_iff transaction_consts)
    then have "generate_mids (mid_next_alloc g) = generate_mids 0"
      by (simp add: generate_mids_def)
    moreover have "get_slice (message_ids g) (mid_curr_index g) = None"
      using Nil by (auto simp: mid_remaining_def get_slice_def)
    ultimately have "mid_generate 2 rnd g = mid_generate 2 rnd (g\<lparr>mid_next_alloc := 0\<rparr>)"
      by (simp add: numeral_2_eq_2)
    moreover have "mid_inv a (g\<lparr>mid_next_alloc := 0\<rparr>)" "mid_remaining (g\<lparr>mid_next_alloc := 0\<rparr>) = []"
      "mid_allocated (g\<lparr>mid_next_alloc := 0\<rparr>) < 2 ^ 24"
      using g Nil by (simp_all add: mid_inv_def mid_remaining_def mid_allocated_def)
    ultimately show ?thesis using mids.new_block [of a "g\<lparr>mid_next_alloc := 0\<rparr>" rnd] by fastforce
  qed
qed

lemma next_trans_id_action:
  assumes "mid_inv a g" and "next_trans_id g io = (tid, g', io')"
  shows "id_of_action a tid" "mid_inv a g'"
  using mid_generate_action [OF assms(1), of "io_rnds io (io_drawn io)"] assms(2)
  by (auto simp: next_trans_id_def)

lemma id_of_action_id: "id_of_action a tid \<Longrightarrow> transaction_action_id tid = ActionID a"
  by (simp add: id_of_action_def)

end
