(* ===== verification/Dht_Lookup.thy ===== *)
theory Dht_Lookup
  imports Dht_Worker
begin

text \<open>
  \<open>src/dht/worker/lookup.rs\<close>: the iterative search for the peers of an info hash. A lookup asks the
  closest nodes it knows, goes on with closer ones it hears of, and when no request is left enters an
  endgame in which every node not asked yet is asked once.
\<close>

section \<open>Distances\<close>

text \<open>The derived order of \<open>ShaHash\<close>: the bytes from left to right.\<close>

instantiation sha_hash :: linorder
begin

definition less_eq_sha_hash :: "sha_hash \<Rightarrow> sha_hash \<Rightarrow> bool" where
  "a \<le> b \<longleftrightarrow> sha_bytes a \<le> sha_bytes b"

definition less_sha_hash :: "sha_hash \<Rightarrow> sha_hash \<Rightarrow> bool" where
  "a < b \<longleftrightarrow> sha_bytes a < sha_bytes b"

instance
proof
  fix a b c :: sha_hash
  show "a < b \<longleftrightarrow> a \<le> b \<and> \<not> b \<le> a" by (auto simp: less_eq_sha_hash_def less_sha_hash_def)
  show "a \<le> a" by (simp add: less_eq_sha_hash_def)
  show "a \<le> b \<Longrightarrow> b \<le> c \<Longrightarrow> a \<le> c" by (auto simp: less_eq_sha_hash_def)
  show "a \<le> b \<Longrightarrow> b \<le> a \<Longrightarrow> a = b" by (cases a; cases b) (simp add: less_eq_sha_hash_def)
  show "a \<le> b \<or> b \<le> a" by (auto simp: less_eq_sha_hash_def)
qed

end

type_synonym distance = sha_hash

section \<open>State\<close>

definition LOOKUP_TIMEOUT_MS :: nat where "LOOKUP_TIMEOUT_MS = 1500"
definition ENDGAME_TIMEOUT_MS :: nat where "ENDGAME_TIMEOUT_MS = 1500"
definition INITIAL_PICK_NUM :: nat where "INITIAL_PICK_NUM = 4"
definition ITERATIVE_PICK_NUM :: nat where "ITERATIVE_PICK_NUM = 3"
definition ANNOUNCE_PICK_NUM :: nat where "ANNOUNCE_PICK_NUM = 8"

datatype lookup_status = Searching | FoundValues "socket_addr_v4 list" | SearchCompleted | SearchFailed

text \<open>Two nodes with the same id and address are equal, so a node is a key by its contact.\<close>

record table_lookup =
  lk_table_id :: node_id
  lk_target_id :: info_hash
  in_endgame :: bool
  recv_values :: bool
  lk_id_generator :: mid_generator
  will_announce :: bool
  active_lookups :: "(transaction_id, distance \<times> nat) hash_map"
  announce_tokens :: "(node_id \<times> socket_addr, bytes) hash_map"
  requested_nodes :: "(node_id \<times> socket_addr) list"
  all_sorted_nodes :: "(distance \<times> node \<times> bool) list"

text \<open>A lookup works on the cells of the nodes of the table and on its surroundings.\<close>

type_synonym lookup_state = "table_lookup \<times> routing_table \<times> worker_io"

section \<open>Picking and sorting nodes\<close>

definition default_route_v4 :: socket_addr where
  "default_route_v4 = V4 \<lparr>v4_ip = Ipv4Addr 0 0 0 0, v4_port = 0\<rparr>"

definition default_pick :: "node \<times> bool" where
  "default_pick = (as_bad (ShaHash (replicate SHA_HASH_LEN 0)) default_route_v4, False)"

text \<open>The array of picked nodes, and the list with the picked nodes marked.\<close>

definition pick_initial_nodes ::
  "(distance \<times> node \<times> bool) list \<Rightarrow> (node \<times> bool) list \<times> (distance \<times> node \<times> bool) list" where
  "pick_initial_nodes sorted_nodes =
     (map (\<lambda>(_, n, _). (n, True)) (take INITIAL_PICK_NUM sorted_nodes) @
        drop (length sorted_nodes) (replicate INITIAL_PICK_NUM default_pick),
      map (\<lambda>(d, n, _). (d, n, True)) (take INITIAL_PICK_NUM sorted_nodes) @ drop INITIAL_PICK_NUM sorted_nodes)"

fun insert_closest_nodes :: "(node \<times> bool) list \<Rightarrow> info_hash \<Rightarrow> node \<Rightarrow> (node \<times> bool) list" where
  "insert_closest_nodes [] target_id new_node = []"
| "insert_closest_nodes ((old_node, used) # rest) target_id new_node =
     (if \<not> used then (new_node, True) # rest
      else if bitxor target_id (node_ident new_node) < bitxor target_id (node_ident old_node)
      then (new_node, used) # rest
      else (old_node, used) # insert_closest_nodes rest target_id new_node)"

definition pick_iterate_nodes ::
  "datetime \<Rightarrow> (node_id \<times> socket_addr_v4) list \<Rightarrow> info_hash \<Rightarrow> (node \<times> bool) list" where
  "pick_iterate_nodes now unsorted_nodes target_id =
     fold (\<lambda>(ident, v4_addr) pick_nodes.
         insert_closest_nodes pick_nodes target_id (as_questionable now ident (V4 v4_addr)))
       unsorted_nodes (replicate ITERATIVE_PICK_NUM default_pick)"

text \<open>\<open>binary_search_by\<close> on a sorted list: the place of an equal entry, any of them if there are several,
  or the place where to insert. Which one it meets is an argument.\<close>

type_synonym searcher = "distance list \<Rightarrow> distance \<Rightarrow> nat"

definition binary_search :: "searcher \<Rightarrow> distance list \<Rightarrow> distance \<Rightarrow> nat + nat" where
  "binary_search pick ds d =
     (case filter (\<lambda>i. ds ! i = d) [0..<length ds] of
        [] \<Rightarrow> Inr (length (filter (\<lambda>x. x < d) ds))
      | m # ms \<Rightarrow> Inl ((m # ms) ! (pick ds d mod length (m # ms))))"

definition vec_insert :: "'a list \<Rightarrow> nat \<Rightarrow> 'a \<Rightarrow> 'a list" where
  "vec_insert xs i x = take i xs @ x # drop i xs"

definition insert_sorted_node ::
  "searcher \<Rightarrow> (distance \<times> node \<times> bool) list \<Rightarrow> info_hash \<Rightarrow> node \<Rightarrow> bool \<Rightarrow> (distance \<times> node \<times> bool) list" where
  "insert_sorted_node pick nds target n pinged =
     (let node_dist = bitxor target (node_ident n)
      in case binary_search pick (map fst nds) node_dist of
           Inl dup_index \<Rightarrow>
             if \<not> node_eq (fst (snd (nds ! dup_index))) n then vec_insert nds dup_index (node_dist, n, pinged) else nds
         | Inr ins_index \<Rightarrow> vec_insert nds ins_index (node_dist, n, pinged))"

section \<open>Rounds of requests\<close>

definition current_lookup_status :: "table_lookup \<Rightarrow> lookup_status" where
  "current_lookup_status self =
     (if in_endgame self \<or> active_lookups self \<noteq> [] then Searching else SearchCompleted)"

definition lookup_message :: "transaction_id \<Rightarrow> table_lookup \<Rightarrow> bytes" where
  "lookup_message tid self =
     get_peers_request_encode \<lparr>gpq_trans_id = trans_id_bytes tid, gpq_node_id = lk_table_id self,
       gpq_info_hash = lk_target_id self\<rparr>"

text \<open>The loop of \<open>start_request_round\<close>, with the number of messages sent so far.\<close>

fun request_round ::
  "datetime \<Rightarrow> (node \<times> distance) list \<Rightarrow> nat \<Rightarrow> lookup_state \<Rightarrow> lookup_status \<times> lookup_state" where
  "request_round now [] messages_sent (self, table, io) =
     (if messages_sent = 0 then (SearchCompleted, self\<lparr>active_lookups := []\<rparr>, table, io)
      else (Searching, self, table, io))"
| "request_round now ((n, dist_to_beat) # rest) messages_sent (self, table, io) =
     (case next_trans_id (lk_id_generator self) io of
        (tid, g, io1) \<Rightarrow>
          let self1 = self\<lparr>lk_id_generator := g\<rparr>
          in case timeout_ms (0, CheckLookupTimeout tid) LOOKUP_TIMEOUT_MS io1 of
               (None, io2) \<Rightarrow> (SearchFailed, self1, table, io2)
             | (Some timeout, io2) \<Rightarrow>
                 let self2 = self1\<lparr>active_lookups := snd (hash_insert (active_lookups self1) tid (dist_to_beat, timeout))\<rparr>
                 in case out_send (lookup_message tid self2, node_addr n) io2 of
                      (False, io3) \<Rightarrow> (SearchFailed, self2, table, io3)
                    | (True, io3) \<Rightarrow>
                        request_round now rest (Suc messages_sent)
                          (self2\<lparr>requested_nodes := set_insert (requested_nodes self2) (contact n)\<rparr>,
                           mark_found now (local_request now) n table, io3))"

definition start_request_round ::
  "datetime \<Rightarrow> (node \<times> distance) list \<Rightarrow> lookup_state \<Rightarrow> lookup_status \<times> lookup_state" where
  "start_request_round now nds st = request_round now nds 0 st"

text \<open>The loop of \<open>start_endgame_round\<close> over the sorted nodes: \<open>finished\<close> are the entries behind it, and the
  flag of an entry is set when its request is out.\<close>

fun endgame_loop ::
  "datetime \<Rightarrow> nat \<Rightarrow> (distance \<times> node \<times> bool) list \<Rightarrow> (distance \<times> node \<times> bool) list \<Rightarrow> lookup_state \<Rightarrow>
   lookup_status \<times> lookup_state" where
  "endgame_loop now timeout finished [] (self, table, io) =
     (Searching, self\<lparr>all_sorted_nodes := finished\<rparr>, table, io)"
| "endgame_loop now timeout finished ((node_dist, n, req) # rest) (self, table, io) =
     (if req then endgame_loop now timeout (finished @ [(node_dist, n, req)]) rest (self, table, io)
      else case next_trans_id (lk_id_generator self) io of
        (tid, g, io1) \<Rightarrow>
          let self1 = self\<lparr>lk_id_generator := g,
                           active_lookups := snd (hash_insert (active_lookups self) tid (node_dist, timeout))\<rparr>
          in case out_send (lookup_message tid self1, node_addr n) io1 of
               (False, io2) \<Rightarrow>
                 (SearchFailed, self1\<lparr>all_sorted_nodes := finished @ (node_dist, n, req) # rest\<rparr>, table, io2)
             | (True, io2) \<Rightarrow>
                 endgame_loop now timeout (finished @ [(node_dist, n, True)]) rest
                   (self1, mark_found now (local_request now) n table, io2))"

definition start_endgame_round :: "datetime \<Rightarrow> lookup_state \<Rightarrow> lookup_status \<times> lookup_state" where
  "start_endgame_round now st =
     (case st of (self, table, io) \<Rightarrow>
        let self1 = self\<lparr>in_endgame := True\<rparr>
        in case next_trans_id (lk_id_generator self1) io of
             (tid, g, io1) \<Rightarrow>
               let self2 = self1\<lparr>lk_id_generator := g\<rparr>
               in case timeout_ms (0, CheckLookupEndGame tid) ENDGAME_TIMEOUT_MS io1 of
                    (None, io2) \<Rightarrow> (SearchFailed, self2, table, io2)
                  | (Some timeout, io2) \<Rightarrow>
                      if \<not> recv_values self2
                      then endgame_loop now timeout [] (all_sorted_nodes self2) (self2, table, io2)
                      else (Searching, self2, table, io2))"

section \<open>Operations\<close>

definition lookup_new ::
  "searcher \<Rightarrow> datetime \<Rightarrow> node_id \<Rightarrow> info_hash \<Rightarrow> mid_generator \<Rightarrow> bool \<Rightarrow> routing_table \<Rightarrow> worker_io \<Rightarrow>
   (table_lookup option \<times> routing_table \<times> worker_io, unit) outcome" where
  "lookup_new pick now table_id target_id id_generator announce table io =
     and_then (closest_with_status now Good table target_id) (\<lambda>closest.
       let all_sorted = fold (\<lambda>n nds. insert_sorted_node pick nds target_id n False) (take MAX_BUCKET_SIZE closest) [];
           (initial_pick_nodes, all_sorted') = pick_initial_nodes all_sorted;
           initial_pick_nodes_filtered =
             map (\<lambda>(n, _). (n, bitxor (node_ident n) target_id)) (filter snd initial_pick_nodes);
           table_lookup =
             \<lparr>lk_table_id = table_id, lk_target_id = target_id, in_endgame = False, recv_values = False,
              lk_id_generator = id_generator, will_announce = announce, active_lookups = [], announce_tokens = [],
              requested_nodes = [], all_sorted_nodes = all_sorted'\<rparr>
       in case start_request_round now initial_pick_nodes_filtered (table_lookup, table, io) of
            (st, self, table', io') \<Rightarrow>
              Ok (if st \<noteq> SearchFailed then Some self else None, table', io'))"

text \<open>The nodes of a response: the closest distance among those not asked yet, the nodes to ask next, and
  the list of all nodes with the new ones.\<close>

definition not_requested :: "table_lookup \<Rightarrow> node_id \<times> socket_addr_v4 \<Rightarrow> bool" where
  "not_requested self info = ((fst info, V4 (snd info)) \<notin> set (requested_nodes self))"

definition closest_distance :: "info_hash \<Rightarrow> (node_id \<times> socket_addr_v4) list \<Rightarrow> distance \<Rightarrow> distance" where
  "closest_distance target_id infos dist_to_beat =
     fold (\<lambda>(ident, _) closest.
         let dist = bitxor target_id ident in if dist < closest then dist else closest) infos dist_to_beat"

definition push_nodes ::
  "searcher \<Rightarrow> datetime \<Rightarrow> (node \<times> bool) list \<Rightarrow> (node_id \<times> socket_addr_v4) list \<Rightarrow> table_lookup \<Rightarrow> table_lookup" where
  "push_nodes pick now iterate_nodes infos self =
     self\<lparr>all_sorted_nodes :=
       fold (\<lambda>(ident, v4_addr) nds.
           let n = as_questionable now ident (V4 v4_addr);
               will_ping = list_ex (\<lambda>(m, _). node_eq m n) iterate_nodes
           in insert_sorted_node pick nds (lk_target_id self) n will_ping)
         infos (all_sorted_nodes self)\<rparr>"

definition recv_nodes ::
  "searcher \<Rightarrow> datetime \<Rightarrow> (node_id \<times> socket_addr_v4) list \<Rightarrow> distance \<Rightarrow> table_lookup \<Rightarrow>
   (node \<times> bool) list option \<times> distance \<times> table_lookup" where
  "recv_nodes pick now infos dist_to_beat self =
     (let fresh = filter (not_requested self) infos;
          next_dist_to_beat = closest_distance (lk_target_id self) fresh dist_to_beat
      in if next_dist_to_beat < dist_to_beat
         then let iterate_nodes = pick_iterate_nodes now fresh (lk_target_id self)
              in (Some iterate_nodes, next_dist_to_beat, push_nodes pick now iterate_nodes infos self)
         else (None, next_dist_to_beat, push_nodes pick now [] infos self))"

definition recv_opt_nodes ::
  "searcher \<Rightarrow> datetime \<Rightarrow> (node_id \<times> socket_addr_v4) list option \<Rightarrow> distance \<Rightarrow> table_lookup \<Rightarrow>
   (node \<times> bool) list option \<times> distance \<times> table_lookup" where
  "recv_opt_nodes pick now opt_nodes dist_to_beat self =
     (case opt_nodes of
        Some infos \<Rightarrow> recv_nodes pick now infos dist_to_beat self
      | None \<Rightarrow> (None, dist_to_beat, self))"

text \<open>The token of a response is kept for the announcement.\<close>

definition keep_token :: "node \<Rightarrow> bytes option \<Rightarrow> table_lookup \<Rightarrow> table_lookup" where
  "keep_token n opt_token self =
     (case opt_token of
        Some tok \<Rightarrow> self\<lparr>announce_tokens := snd (hash_insert (announce_tokens self) (contact n) tok)\<rparr>
      | None \<Rightarrow> self)"

text \<open>\<open>match msg.info_type()\<close>: the values and the nodes of the response. Only a response with values and
  without nodes sets \<open>recv_values\<close>.\<close>

definition recv_contacts ::
  "compact_info_type \<Rightarrow> (socket_addr_v4 list option \<times> (node_id \<times> socket_addr_v4) list option \<times> bool, unit) outcome" where
  "recv_contacts info =
     (case info of
        InfoNodes n \<Rightarrow>
          and_then (compact_node_collect (compact_node_into_iter n)) (\<lambda>infos. Ok (None, Some infos, False))
      | InfoValues v \<Rightarrow>
          and_then (compact_value_collect (compact_value_into_iter v)) (\<lambda>values. Ok (Some values, None, True))
      | InfoBoth n v \<Rightarrow>
          and_then (compact_value_collect (compact_value_into_iter v)) (\<lambda>values.
          and_then (compact_node_collect (compact_node_into_iter n)) (\<lambda>infos. Ok (Some values, Some infos, False))))"

text \<open>\<open>if self.active_lookups.is_empty()\<close>: enter the endgame, and then give the result.\<close>

definition endgame_if_idle ::
  "datetime \<Rightarrow> (table_lookup \<Rightarrow> lookup_status) \<Rightarrow> lookup_state \<Rightarrow> lookup_status \<times> lookup_state" where
  "endgame_if_idle now result st =
     (if \<not> in_endgame (fst st) \<and> active_lookups (fst st) = [] then
        case start_endgame_round now st of
          (end_status, st') \<Rightarrow> (if end_status = SearchFailed then SearchFailed else result (fst st'), st')
      else (result (fst st), st))"

text \<open>From the comment \<open>Check if we need to iterate\<close> to the end.\<close>

definition continue_search ::
  "datetime \<Rightarrow> (node \<times> bool) list option \<Rightarrow> distance \<Rightarrow> socket_addr_v4 list option \<Rightarrow> lookup_state \<Rightarrow>
   lookup_status \<times> lookup_state" where
  "continue_search now iterate_nodes next_dist_to_beat opt_values st =
     (let result = (\<lambda>self. case opt_values of Some values \<Rightarrow> FoundValues values | None \<Rightarrow> current_lookup_status self)
      in case (in_endgame (fst st), iterate_nodes) of
           (False, Some nds) \<Rightarrow>
             (case start_request_round now (map (\<lambda>(n, _). (n, next_dist_to_beat)) (filter snd nds)) st of
                (round_status, st') \<Rightarrow>
                  if round_status = SearchFailed then (SearchFailed, st') else endgame_if_idle now result st')
         | _ \<Rightarrow> endgame_if_idle now result st)"

definition lookup_recv_response ::
  "searcher \<Rightarrow> datetime \<Rightarrow> node \<Rightarrow> transaction_id \<Rightarrow> get_peers_response \<Rightarrow> lookup_state \<Rightarrow>
   (lookup_status \<times> lookup_state, unit) outcome" where
  "lookup_recv_response pick now n tid msg st =
     (case st of (self, table, io) \<Rightarrow>
        case hash_remove (active_lookups self) tid of
          (None, _) \<Rightarrow> Ok (current_lookup_status self, st)
        | (Some (dist_to_beat, timeout), active) \<Rightarrow>
            let self1 = self\<lparr>active_lookups := active\<rparr>;
                io1 = (if \<not> in_endgame self1 then clear_timeout timeout io else io);
                self2 = keep_token n (gps_token msg) self1
            in and_then (recv_contacts (gps_info_type msg)) (\<lambda>(opt_values, opt_nodes, only_values).
                 let self3 = (if only_values then self2\<lparr>recv_values := True\<rparr> else self2);
                     (iterate_nodes, next_dist_to_beat, self4) = recv_opt_nodes pick now opt_nodes dist_to_beat self3
                 in Ok (continue_search now iterate_nodes next_dist_to_beat opt_values (self4, table, io1))))"

definition lookup_recv_timeout ::
  "datetime \<Rightarrow> transaction_id \<Rightarrow> lookup_state \<Rightarrow> lookup_status \<times> lookup_state" where
  "lookup_recv_timeout now tid st =
     (case st of (self, table, io) \<Rightarrow>
        case hash_remove (active_lookups self) tid of
          (None, active) \<Rightarrow> (current_lookup_status self, self\<lparr>active_lookups := active\<rparr>, table, io)
        | (Some _, active) \<Rightarrow> endgame_if_idle now current_lookup_status (self\<lparr>active_lookups := active\<rparr>, table, io))"

text \<open>The announcements of \<open>recv_finished\<close>: after a failed send the loop goes on, but nodes are no longer
  marked.\<close>

fun announce_loop ::
  "datetime \<Rightarrow> u16 \<Rightarrow> node list \<Rightarrow> bool \<Rightarrow> lookup_state \<Rightarrow> (bool \<times> lookup_state, unit) outcome" where
  "announce_loop now handshake_port [] fatal_error st = Ok (fatal_error, st)"
| "announce_loop now handshake_port (n # rest) fatal_error (self, table, io) =
     (case next_trans_id (lk_id_generator self) io of
        (tid, g, io1) \<Rightarrow>
          let self1 = self\<lparr>lk_id_generator := g\<rparr>
          in case map_of (announce_tokens self) (contact n) of
               None \<Rightarrow> Panic
             | Some tok \<Rightarrow>
                 let msg = announce_peer_request_encode
                       \<lparr>apq_trans_id = trans_id_bytes tid, apq_node_id = lk_table_id self, apq_info_hash = lk_target_id self,
                        apq_token = tok, apq_port = Explicit handshake_port\<rparr>;
                     (sent, io2) = out_send (msg, node_addr n) io1;
                     fatal_error' = (fatal_error \<or> \<not> sent);
                     table' = (if \<not> fatal_error' then mark_found now (local_request now) n table else table)
                 in announce_loop now handshake_port rest fatal_error' (self1, table', io2))"

definition announce_nodes :: "table_lookup \<Rightarrow> node list" where
  "announce_nodes self =
     take ANNOUNCE_PICK_NUM (filter (\<lambda>n. map_of (announce_tokens self) (contact n) \<noteq> None)
       (map (\<lambda>(_, n, _). n) (all_sorted_nodes self)))"

definition lookup_recv_finished ::
  "datetime \<Rightarrow> u16 \<Rightarrow> lookup_state \<Rightarrow> (lookup_status \<times> lookup_state, unit) outcome" where
  "lookup_recv_finished now handshake_port st =
     and_then
       (if will_announce (fst st) then announce_loop now handshake_port (announce_nodes (fst st)) False st
        else Ok (False, st))
       (\<lambda>(fatal_error, self, table, io).
          let self' = self\<lparr>active_lookups := [], in_endgame := False\<rparr>
          in Ok (if fatal_error then SearchFailed else current_lookup_status self', self', table, io))"

end
