(* ===== verification/Dht_Bootstrap.thy ===== *)
theory Dht_Bootstrap
  imports Dht_Worker
begin

text \<open>
  \<open>src/dht/worker/bootstrap.rs\<close> and \<open>src/dht/worker/refresh.rs\<close>: filling the routing table bucket by
  bucket at the start, and asking one questionable node after the other from then on.
\<close>

section \<open>Bootstrap\<close>

definition BOOTSTRAP_INITIAL_TIMEOUT :: nat where "BOOTSTRAP_INITIAL_TIMEOUT = 2500"
definition BOOTSTRAP_NODE_TIMEOUT :: nat where "BOOTSTRAP_NODE_TIMEOUT = 500"
definition BOOTSTRAP_PINGS_PER_BUCKET :: nat where "BOOTSTRAP_PINGS_PER_BUCKET = 8"

datatype bootstrap_status = BootstrapIdle | Bootstrapping | BootstrapDone | BootstrapFailure

record table_bootstrap =
  bs_table_id :: node_id
  bs_id_generator :: mid_generator
  starting_nodes :: "socket_addr list"
  active_messages :: "(transaction_id, nat) hash_map"
  starting_routers :: "socket_addr list"
  curr_bootstrap_bucket :: nat

type_synonym bootstrap_state = "table_bootstrap \<times> routing_table \<times> worker_io"

definition bootstrap_new :: "node_id \<Rightarrow> mid_generator \<Rightarrow> socket_addr list \<Rightarrow> socket_addr list \<Rightarrow> table_bootstrap" where
  "bootstrap_new table_id id_generator nds routers =
     \<lparr>bs_table_id = table_id, bs_id_generator = id_generator, starting_nodes = nds, active_messages = [],
      starting_routers = remdups routers, curr_bootstrap_bucket = 0\<rparr>"

definition current_bootstrap_status :: "table_bootstrap \<Rightarrow> bootstrap_status" where
  "current_bootstrap_status self =
     (if curr_bootstrap_bucket self = MAX_BUCKETS \<or> active_messages self = [] then BootstrapIdle else Bootstrapping)"

definition find_node_message :: "transaction_id \<Rightarrow> node_id \<Rightarrow> node_id \<Rightarrow> bytes" where
  "find_node_message tid node_id target_id =
     find_node_request_encode \<lparr>fnq_trans_id = trans_id_bytes tid, fnq_node_id = node_id, fnq_target_id = target_id\<rparr>"

fun send_to_all :: "bytes \<Rightarrow> socket_addr list \<Rightarrow> worker_io \<Rightarrow> bool \<times> worker_io" where
  "send_to_all msg [] io = (True, io)"
| "send_to_all msg (addr # addrs) io =
     (case out_send (msg, addr) io of
        (False, io') \<Rightarrow> (False, io')
      | (True, io') \<Rightarrow> send_to_all msg addrs io')"

definition start_bootstrap :: "table_bootstrap \<times> worker_io \<Rightarrow> bootstrap_status \<times> table_bootstrap \<times> worker_io" where
  "start_bootstrap st =
     (case st of (self, io) \<Rightarrow>
        let self1 = self\<lparr>active_messages := [], curr_bootstrap_bucket := 0\<rparr>
        in case next_trans_id (bs_id_generator self1) io of
             (tid, g, io1) \<Rightarrow>
               let self2 = self1\<lparr>bs_id_generator := g\<rparr>
               in case timeout_ms (BOOTSTRAP_INITIAL_TIMEOUT, CheckBootstrapTimeout tid) BOOTSTRAP_INITIAL_TIMEOUT io1 of
                    (None, io2) \<Rightarrow> (BootstrapFailure, self2, io2)
                  | (Some timeout, io2) \<Rightarrow>
                      let self3 = self2\<lparr>active_messages := snd (hash_insert (active_messages self2) tid timeout)\<rparr>;
                          msg = find_node_message tid (bs_table_id self3) (bs_table_id self3)
                      in case send_to_all msg (starting_routers self3 @ starting_nodes self3) io2 of
                           (False, io3) \<Rightarrow> (BootstrapFailure, self3, io3)
                         | (True, io3) \<Rightarrow> (current_bootstrap_status self3, self3, io3))"

definition is_router :: "socket_addr \<Rightarrow> table_bootstrap \<Rightarrow> bool" where
  "is_router addr self \<longleftrightarrow> addr \<in> set (starting_routers self)"

text \<open>\<open>id_bytes[byte_index] ^= 1 << (7 - bit_index)\<close>.\<close>

definition flip_id_bit_at_index :: "node_id \<Rightarrow> nat \<Rightarrow> (node_id, unit) outcome" where
  "flip_id_bit_at_index node_id index =
     (let id_bytes = sha_bytes node_id; byte_index = index div 8; actual_bit_index = 7 - index mod 8
      in and_then (index_slice id_bytes byte_index) (\<lambda>b.
           Ok (ShaHash (id_bytes[byte_index := b XOR push_bit actual_bit_index 1]))))"

text \<open>The nodes to ask for a bucket: the closest ones, or those of three buckets in a row.\<close>

definition contents_nodes :: "bucket_contents option \<Rightarrow> node list" where
  "contents_nodes c =
     (case c of
        Some (Sorted b) \<Rightarrow> nodes b
      | Some (Assorted b) \<Rightarrow> nodes b
      | Some Empty \<Rightarrow> nodes bucket_new
      | None \<Rightarrow> nodes bucket_new)"

definition bootstrap_nodes :: "datetime \<Rightarrow> nat \<Rightarrow> node_id \<Rightarrow> routing_table \<Rightarrow> (node list, unit) outcome" where
  "bootstrap_nodes now index target_id table =
     (if index = 0 \<or> index = 1 then closest_with_status now Questionable table target_id
      else
        let percent_25_bucket = contents_nodes (skip_next (index - 2) (buckets_new (buckets table)));
            percent_50_bucket = contents_nodes (skip_next (index - 1) (buckets_new (buckets table)));
            percent_100_bucket = contents_nodes (skip_next index (buckets_new (buckets table)))
        in Ok (filter (\<lambda>n. status now n = Questionable) (percent_25_bucket @ percent_50_bucket @ percent_100_bucket)))"

text \<open>The loop of \<open>send_bootstrap_requests\<close>: the number of messages sent, or \<open>None\<close> for a failure.\<close>

fun bootstrap_send :: "datetime \<Rightarrow> node_id \<Rightarrow> node list \<Rightarrow> nat \<Rightarrow> bootstrap_state \<Rightarrow> nat option \<times> bootstrap_state" where
  "bootstrap_send now target_id [] messages_sent st = (Some messages_sent, st)"
| "bootstrap_send now target_id (n # rest) messages_sent (self, table, io) =
     (case next_trans_id (bs_id_generator self) io of
        (tid, g, io1) \<Rightarrow>
          let self1 = self\<lparr>bs_id_generator := g\<rparr>
          in case timeout_ms (BOOTSTRAP_NODE_TIMEOUT, CheckBootstrapTimeout tid) BOOTSTRAP_NODE_TIMEOUT io1 of
               (None, io2) \<Rightarrow> (None, self1, table, io2)
             | (Some timeout, io2) \<Rightarrow>
                 (case out_send (find_node_message tid (bs_table_id self1) target_id, node_addr n) io2 of
                    (False, io3) \<Rightarrow> (None, self1, table, io3)
                  | (True, io3) \<Rightarrow>
                      bootstrap_send now target_id rest (Suc messages_sent)
                        (self1\<lparr>active_messages := snd (hash_insert (active_messages self1) tid timeout)\<rparr>,
                         mark (local_request now) n table, io3)))"

lemma bootstrap_send_frame:
  "bootstrap_send now target nds k (self, table, io) = (r, self', table', io') \<Longrightarrow>
   bs_table_id self' = bs_table_id self \<and> curr_bootstrap_bucket self' = curr_bootstrap_bucket self \<and>
   starting_routers self' = starting_routers self"
proof (induction nds arbitrary: k self table io)
  case (Cons n nds)
  then show ?case
    by (fastforce simp: Let_def split: prod.splits option.splits bool.splits)
qed simp

text \<open>\<open>bootstrap_next_bucket\<close> and the end of \<open>send_bootstrap_requests\<close>, which call each other until a bucket
  has a node to ask.\<close>

function bootstrap_next_bucket :: "datetime \<Rightarrow> bootstrap_state \<Rightarrow> (bootstrap_status \<times> bootstrap_state, unit) outcome" where
  "bootstrap_next_bucket now (self, table, io) =
     and_then (flip_id_bit_at_index (bs_table_id self) (curr_bootstrap_bucket self)) (\<lambda>target_id.
     and_then (bootstrap_nodes now (curr_bootstrap_bucket self) target_id table) (\<lambda>nds.
       case bootstrap_send now target_id (take BOOTSTRAP_PINGS_PER_BUCKET nds) 0 (self, table, io) of
         (None, st) \<Rightarrow> Ok (BootstrapFailure, st)
       | (Some messages_sent, self1, table1, io1) \<Rightarrow>
           let self2 = self1\<lparr>curr_bootstrap_bucket := curr_bootstrap_bucket self1 + 1\<rparr>
           in if curr_bootstrap_bucket self2 = MAX_BUCKETS then Ok (BootstrapDone, self2, table1, io1)
              else if messages_sent = 0 then bootstrap_next_bucket now (self2, table1, io1)
              else Ok (Bootstrapping, self2, table1, io1)))"
  by pat_completeness auto
termination
proof (relation "measure (\<lambda>(now, self, table, io). 8 * length (sha_bytes (bs_table_id self)) - curr_bootstrap_bucket self)", goal_cases)
  case (2 now self table io target nds x y sent a p table1 io1 self2)
  then have "bs_table_id a = bs_table_id self" "curr_bootstrap_bucket a = curr_bootstrap_bucket self"
    using bootstrap_send_frame by metis+
  moreover have "curr_bootstrap_bucket self div 8 < length (sha_bytes (bs_table_id self))"
    using 2(1) by (auto simp: flip_id_bit_at_index_def Let_def index_slice_def split: if_splits)
  ultimately show ?case using 2 by auto
qed simp

declare bootstrap_next_bucket.simps [simp del]

definition bootstrap_recv_response ::
  "datetime \<Rightarrow> transaction_id \<Rightarrow> bootstrap_state \<Rightarrow> (bootstrap_status \<times> bootstrap_state, unit) outcome" where
  "bootstrap_recv_response now tid st =
     (case st of (self, table, io) \<Rightarrow>
        case map_of (active_messages self) tid of
          None \<Rightarrow> Ok (current_bootstrap_status self, st)
        | Some timeout \<Rightarrow>
            let (self1, io1) =
              (if curr_bootstrap_bucket self \<noteq> 0
               then (self\<lparr>active_messages := snd (hash_remove (active_messages self) tid)\<rparr>, clear_timeout timeout io)
               else (self, io))
            in if active_messages self1 = [] then bootstrap_next_bucket now (self1, table, io1)
               else Ok (current_bootstrap_status self1, self1, table, io1))"

definition bootstrap_recv_timeout ::
  "datetime \<Rightarrow> transaction_id \<Rightarrow> bootstrap_state \<Rightarrow> (bootstrap_status \<times> bootstrap_state, unit) outcome" where
  "bootstrap_recv_timeout now tid st =
     (case st of (self, table, io) \<Rightarrow>
        case hash_remove (active_messages self) tid of
          (None, _) \<Rightarrow> Ok (current_bootstrap_status self, st)
        | (Some _, active) \<Rightarrow>
            let self1 = self\<lparr>active_messages := active\<rparr>
            in if active_messages self1 = [] then bootstrap_next_bucket now (self1, table, io)
               else Ok (current_bootstrap_status self1, self1, table, io))"

section \<open>Refresh\<close>

definition REFRESH_INTERVAL_TIMEOUT :: nat where "REFRESH_INTERVAL_TIMEOUT = 6000"

datatype refresh_status = Refreshing | RefreshFailed

record table_refresh =
  rf_id_generator :: mid_generator
  curr_refresh_bucket :: nat

definition refresh_new :: "mid_generator \<Rightarrow> table_refresh" where
  "refresh_new id_generator = \<lparr>rf_id_generator = id_generator, curr_refresh_bucket = 0\<rparr>"

type_synonym refresh_state = "table_refresh \<times> routing_table \<times> worker_io"

text \<open>The loop of \<open>continue_refresh\<close>, over one node at most.\<close>

fun refresh_send :: "datetime \<Rightarrow> node_id \<Rightarrow> node list \<Rightarrow> refresh_state \<Rightarrow> bool \<times> refresh_state" where
  "refresh_send now target_id [] st = (True, st)"
| "refresh_send now target_id (n # rest) (self, table, io) =
     (case next_trans_id (rf_id_generator self) io of
        (tid, g, io1) \<Rightarrow>
          let self1 = self\<lparr>rf_id_generator := g\<rparr>
          in case out_send (find_node_message tid (table_node_id table) target_id, node_addr n) io1 of
               (False, io2) \<Rightarrow> (False, self1, table, io2)
             | (True, io2) \<Rightarrow> refresh_send now target_id rest (self1, mark (local_request now) n table, io2))"

definition continue_refresh :: "datetime \<Rightarrow> refresh_state \<Rightarrow> (refresh_status \<times> refresh_state, unit) outcome" where
  "continue_refresh now st =
     (case st of (self, table, io) \<Rightarrow>
        let self1 = (if curr_refresh_bucket self = MAX_BUCKETS then self\<lparr>curr_refresh_bucket := 0\<rparr> else self)
        in and_then (flip_id_bit_at_index (table_node_id table) (curr_refresh_bucket self1)) (\<lambda>target_id.
           and_then (closest_with_status now Questionable table target_id) (\<lambda>nds.
             case refresh_send now target_id (take 1 nds) (self1, table, io) of
               (False, st') \<Rightarrow> Ok (RefreshFailed, st')
             | (True, self2, table2, io2) \<Rightarrow>
                 (case next_trans_id (rf_id_generator self2) io2 of
                    (tid, g, io3) \<Rightarrow>
                      let self3 = self2\<lparr>rf_id_generator := g\<rparr>
                      in case timeout_ms (0, CheckTableRefresh tid) REFRESH_INTERVAL_TIMEOUT io3 of
                           (None, io4) \<Rightarrow> Ok (RefreshFailed, self3, table2, io4)
                         | (Some _, io4) \<Rightarrow>
                             Ok (Refreshing, self3\<lparr>curr_refresh_bucket := curr_refresh_bucket self3 + 1\<rparr>, table2, io4)))))"

end
