(* ===== verification/Dht_Handler.thy ===== *)
theory Dht_Handler
  imports Dht_Lookup Dht_Bootstrap
begin

text \<open>
  \<open>src/dht/worker/handler.rs\<close>: the state behind the event loop, its callbacks \<open>notify\<close> and \<open>timeout\<close>, and
  one handler for each kind of task. Callbacks run one after the other.
\<close>

section \<open>State\<close>

definition MAX_BOOTSTRAP_ATTEMPTS :: nat where "MAX_BOOTSTRAP_ATTEMPTS = 3"
definition BOOTSTRAP_GOOD_NODE_THRESHOLD :: nat where "BOOTSTRAP_GOOD_NODE_THRESHOLD = 10"

datatype table_action =
    LookupAction table_lookup
  | RefreshAction table_refresh
  | BootstrapAction table_bootstrap nat

datatype post_bootstrap_action =
    PostLookup info_hash bool
  | PostRefresh table_refresh transaction_id

text \<open>The handshaker is known by its port; connecting is an effect on the surroundings, as is sending.\<close>

record detached_dht_handler =
  read_only :: bool
  handshaker_port :: u16
  dh_token_store :: token_store
  dh_aid_generator :: aid_generator
  bootstrapping :: bool
  dh_routing_table :: routing_table
  active_stores :: announce_storage
  future_actions :: "post_bootstrap_action list"
  event_notifiers :: "nat list"

record dht_handler =
  detached :: detached_dht_handler
  table_actions :: "(action_id, table_action) hash_map"

text \<open>What a callback takes from outside: the time, the hash function, the choice of the binary search,
  the resolver of names.\<close>

record dht_env =
  env_now :: datetime
  env_sha :: "bytes \<Rightarrow> sha_hash"
  env_pick :: searcher
  env_resolve :: resolver

type_synonym handler_state = "dht_handler \<times> worker_io"

definition draw_secrets :: "worker_io \<Rightarrow> u32 \<times> u32 \<times> worker_io" where
  "draw_secrets io =
     (of_nat (io_rnds io (io_drawn io) 0), of_nat (io_rnds io (io_drawn io) 1), io\<lparr>io_drawn := Suc (io_drawn io)\<rparr>)"

definition handler_new :: "datetime \<Rightarrow> routing_table \<Rightarrow> bool \<Rightarrow> u16 \<Rightarrow> worker_io \<Rightarrow> handler_state" where
  "handler_new now table rdonly port io =
     (let aid_gen = aid_generator_new (io_rnds io (io_drawn io));
          (mid_gen, aid_gen', io1) = next_action aid_gen (io\<lparr>io_drawn := Suc (io_drawn io)\<rparr>);
          (refresh_trans_id, mid_gen', io2) = next_trans_id mid_gen io1;
          (r1, r2, io3) = draw_secrets io2
      in (\<lparr>detached = \<lparr>read_only = rdonly, handshaker_port = port, dh_token_store = token_store_new now r1 r2,
              dh_aid_generator = aid_gen', bootstrapping = False, dh_routing_table = table,
              active_stores = announce_storage_new, future_actions = [PostRefresh (refresh_new mid_gen') refresh_trans_id],
              event_notifiers = []\<rparr>, table_actions = []\<rparr>, io3))"

section \<open>Shared steps\<close>

definition shutdown_event_loop :: "shutdown_cause \<Rightarrow> worker_io \<Rightarrow> worker_io" where
  "shutdown_event_loop cause io = event_call (ChannelShutdown cause) io"

definition broadcast_dht_event :: "dht_event \<Rightarrow> detached_dht_handler \<times> worker_io \<Rightarrow> detached_dht_handler \<times> worker_io" where
  "broadcast_dht_event event st =
     (case st of (work_storage, io) \<Rightarrow>
        let listening = filter (io_listening io) (event_notifiers work_storage)
        in (work_storage\<lparr>event_notifiers := listening\<rparr>,
            io\<lparr>io_events := io_events io @ map (\<lambda>k. (k, event)) listening\<rparr>))"

definition num_good_nodes :: "datetime \<Rightarrow> routing_table \<Rightarrow> (nat, unit) outcome" where
  "num_good_nodes now table =
     and_then (closest_with_status now Good table (table_node_id table)) (\<lambda>ns. Ok (length ns))"

definition should_rebootstrap :: "datetime \<Rightarrow> routing_table \<Rightarrow> (bool, unit) outcome" where
  "should_rebootstrap now table =
     and_then (num_good_nodes now table) (\<lambda>k. Ok (k \<le> BOOTSTRAP_GOOD_NODE_THRESHOLD))"

text \<open>\<open>None\<close> when the worker shuts down, \<open>Some True\<close> when a bootstrap was started again, \<open>Some False\<close> when none
  is needed; with the bootstrap, the number of attempts and the surroundings.\<close>

function attempt_rebootstrap ::
  "datetime \<Rightarrow> routing_table \<Rightarrow> table_bootstrap \<times> nat \<times> worker_io \<Rightarrow>
   (bool option \<times> table_bootstrap \<times> nat \<times> worker_io, unit) outcome" where
  "attempt_rebootstrap now table (bootstrap, attempts, io) =
     (let attempts' = attempts + 1
      in if attempts' \<ge> MAX_BOOTSTRAP_ATTEMPTS then
           and_then (num_good_nodes now table) (\<lambda>k.
             if k = 0 then Ok (None, bootstrap, attempts', shutdown_event_loop BootstrapFailed io)
             else Ok (Some False, bootstrap, attempts', io))
         else case start_bootstrap (bootstrap, io) of
           (st, bootstrap', io') \<Rightarrow>
             (case st of
                BootstrapIdle \<Rightarrow> Ok (Some False, bootstrap', attempts', io')
              | Bootstrapping \<Rightarrow> Ok (Some True, bootstrap', attempts', io')
              | BootstrapFailure \<Rightarrow> Ok (None, bootstrap', attempts', shutdown_event_loop Unspecified io')
              | BootstrapDone \<Rightarrow>
                  and_then (should_rebootstrap now table) (\<lambda>again.
                    if again then attempt_rebootstrap now table (bootstrap', attempts', io')
                    else Ok (Some False, bootstrap', attempts', io'))))"
  by pat_completeness auto
termination
  by (relation "measure (\<lambda>(now, table, bootstrap, attempts, io). MAX_BOOTSTRAP_ATTEMPTS - attempts)") auto

declare attempt_rebootstrap.simps [simp del]

text \<open>How the callers go on from a status of the bootstrap: whether it is complete.\<close>

definition bootstrap_outcome ::
  "datetime \<Rightarrow> routing_table \<Rightarrow> bootstrap_status \<Rightarrow> table_bootstrap \<times> nat \<times> worker_io \<Rightarrow>
   (bool \<times> table_bootstrap \<times> nat \<times> worker_io, unit) outcome" where
  "bootstrap_outcome now table st bs =
     (case st of
        BootstrapIdle \<Rightarrow> Ok (True, bs)
      | Bootstrapping \<Rightarrow> Ok (False, bs)
      | BootstrapFailure \<Rightarrow>
          (case bs of (bootstrap, attempts, io) \<Rightarrow> Ok (False, bootstrap, attempts, shutdown_event_loop Unspecified io))
      | BootstrapDone \<Rightarrow>
          and_then (should_rebootstrap now table) (\<lambda>again.
            if again then and_then (attempt_rebootstrap now table bs) (\<lambda>(r, bs'). Ok (r = Some False, bs'))
            else Ok (True, bs)))"

definition set_action :: "action_id \<Rightarrow> table_action \<Rightarrow> dht_handler \<Rightarrow> dht_handler" where
  "set_action aid a h = h\<lparr>table_actions := snd (hash_insert (table_actions h) aid a)\<rparr>"

definition set_table :: "routing_table \<Rightarrow> dht_handler \<Rightarrow> dht_handler" where
  "set_table table h = h\<lparr>detached := (detached h)\<lparr>dh_routing_table := table\<rparr>\<rparr>"

abbreviation the_table :: "dht_handler \<Rightarrow> routing_table" where
  "the_table h \<equiv> dh_routing_table (detached h)"

definition broadcast :: "dht_event \<Rightarrow> handler_state \<Rightarrow> handler_state" where
  "broadcast event st =
     (case st of (h, io) \<Rightarrow>
        case broadcast_dht_event event (detached h, io) of (d, io') \<Rightarrow> (h\<lparr>detached := d\<rparr>, io'))"

section \<open>Lookups, refresh, bootstrap\<close>

definition handle_start_lookup ::
  "dht_env \<Rightarrow> info_hash \<Rightarrow> bool \<Rightarrow> handler_state \<Rightarrow> (handler_state, unit) outcome" where
  "handle_start_lookup env info_hash should_announce st =
     (case st of (h, io) \<Rightarrow>
        case next_action (dh_aid_generator (detached h)) io of
          (mid_gen, aid_gen, io1) \<Rightarrow>
            let aid = mid_generator_action_id mid_gen;
                h1 = h\<lparr>detached := (detached h)\<lparr>dh_aid_generator := aid_gen\<rparr>\<rparr>
            in if bootstrapping (detached h1) then
                 Ok (h1\<lparr>detached := (detached h1)\<lparr>future_actions :=
                        future_actions (detached h1) @ [PostLookup info_hash should_announce]\<rparr>\<rparr>, io1)
               else
                 and_then (lookup_new (env_pick env) (env_now env) (table_node_id (the_table h1)) info_hash mid_gen
                     should_announce (the_table h1) io1) (\<lambda>(opt_lookup, table, io2).
                   case opt_lookup of
                     Some lookup \<Rightarrow> Ok (set_action aid (LookupAction lookup) (set_table table h1), io2)
                   | None \<Rightarrow> Ok (set_table table h1, shutdown_event_loop Unspecified io2)))"

definition handle_check_table_refresh ::
  "dht_env \<Rightarrow> transaction_id \<Rightarrow> handler_state \<Rightarrow> (handler_state, unit) outcome" where
  "handle_check_table_refresh env tid st =
     (case st of (h, io) \<Rightarrow>
        case map_of (table_actions h) (transaction_action_id tid) of
          Some (RefreshAction refresh) \<Rightarrow>
            and_then (continue_refresh (env_now env) (refresh, the_table h, io)) (\<lambda>(res, refresh', table, io1).
              let h1 = set_action (transaction_action_id tid) (RefreshAction refresh') (set_table table h)
              in Ok (h1, if res = RefreshFailed then shutdown_event_loop Unspecified io1 else io1))
        | _ \<Rightarrow> Ok st)"

definition post_bootstrap :: "dht_env \<Rightarrow> post_bootstrap_action \<Rightarrow> handler_state \<Rightarrow> (handler_state, unit) outcome" where
  "post_bootstrap env a st =
     (case a of
        PostLookup info_hash should_announce \<Rightarrow> handle_start_lookup env info_hash should_announce st
      | PostRefresh refresh tid \<Rightarrow>
          handle_check_table_refresh env tid
            (set_action (transaction_action_id tid) (RefreshAction refresh) (fst st), snd st))"

fun post_bootstrap_all ::
  "dht_env \<Rightarrow> post_bootstrap_action list \<Rightarrow> handler_state \<Rightarrow> (handler_state, unit) outcome" where
  "post_bootstrap_all env [] st = Ok st"
| "post_bootstrap_all env (a # as) st = and_then (post_bootstrap env a st) (post_bootstrap_all env as)"

definition broadcast_bootstrap_completed ::
  "dht_env \<Rightarrow> action_id \<Rightarrow> handler_state \<Rightarrow> (handler_state, unit) outcome" where
  "broadcast_bootstrap_completed env aid st =
     (case broadcast BootstrapCompleted st of
        (h, io) \<Rightarrow>
          let actions = future_actions (detached h);
              h1 = h\<lparr>detached := (detached h)\<lparr>bootstrapping := False, future_actions := []\<rparr>,
                     table_actions := snd (hash_remove (table_actions h) aid)\<rparr>
          in post_bootstrap_all env actions (h1, io))"

text \<open>The action after a step of the bootstrap: stored again, and finished when it is complete.\<close>

definition finish_bootstrap_step ::
  "dht_env \<Rightarrow> action_id \<Rightarrow> bootstrap_status \<Rightarrow> table_bootstrap \<times> nat \<times> worker_io \<Rightarrow> dht_handler \<Rightarrow>
   (handler_state, unit) outcome" where
  "finish_bootstrap_step env aid res bs h =
     and_then (bootstrap_outcome (env_now env) (the_table h) res bs) (\<lambda>(complete, bootstrap, attempts, io).
       let h1 = set_action aid (BootstrapAction bootstrap attempts) h
       in if complete then broadcast_bootstrap_completed env aid (h1, io) else Ok (h1, io))"

definition handle_start_bootstrap ::
  "dht_env \<Rightarrow> router list \<Rightarrow> socket_addr list \<Rightarrow> handler_state \<Rightarrow> (handler_state, unit) outcome" where
  "handle_start_bootstrap env routers nds st =
     (case st of (h, io) \<Rightarrow>
        let router_addrs = List.map_filter (\<lambda>r. map_option V4 (router_ipv4_addr (env_resolve env) r)) routers
        in case next_action (dh_aid_generator (detached h)) io of
             (mid_gen, aid_gen, io1) \<Rightarrow>
               let aid = mid_generator_action_id mid_gen;
                   table_bootstrap = bootstrap_new (table_node_id (the_table h)) mid_gen nds router_addrs
               in case start_bootstrap (table_bootstrap, io1) of
                    (res, table_bootstrap', io2) \<Rightarrow>
                      let h1 = h\<lparr>detached := (detached h)\<lparr>dh_aid_generator := aid_gen, bootstrapping := True\<rparr>\<rparr>
                      in finish_bootstrap_step env aid res (table_bootstrap', 0, io2) h1)"

definition handle_check_bootstrap_timeout ::
  "dht_env \<Rightarrow> transaction_id \<Rightarrow> handler_state \<Rightarrow> (handler_state, unit) outcome" where
  "handle_check_bootstrap_timeout env tid st =
     (case st of (h, io) \<Rightarrow>
        let aid = transaction_action_id tid
        in case map_of (table_actions h) aid of
             Some (BootstrapAction bootstrap attempts) \<Rightarrow>
               and_then (bootstrap_recv_timeout (env_now env) tid (bootstrap, the_table h, io))
                 (\<lambda>(res, bootstrap', table, io1).
                   finish_bootstrap_step env aid res (bootstrap', attempts, io1) (set_table table h))
           | _ \<Rightarrow> Ok st)"

text \<open>The end of the handlers of a lookup: \<open>match\<close> on its status.\<close>

definition lookup_outcome :: "info_hash \<Rightarrow> lookup_status \<Rightarrow> handler_state \<Rightarrow> handler_state" where
  "lookup_outcome info_hash res st =
     (case res of
        Searching \<Rightarrow> st
      | SearchCompleted \<Rightarrow> broadcast (LookupCompleted info_hash) st
      | SearchFailed \<Rightarrow> (fst st, shutdown_event_loop Unspecified (snd st))
      | FoundValues values \<Rightarrow> (fst st, fold (\<lambda>v4_addr. connect info_hash (V4 v4_addr)) values (snd st)))"

definition handle_check_lookup_timeout ::
  "dht_env \<Rightarrow> transaction_id \<Rightarrow> handler_state \<Rightarrow> (handler_state, unit) outcome" where
  "handle_check_lookup_timeout env tid st =
     (case st of (h, io) \<Rightarrow>
        let aid = transaction_action_id tid
        in case map_of (table_actions h) aid of
             Some (LookupAction lookup) \<Rightarrow>
               (case lookup_recv_timeout (env_now env) tid (lookup, the_table h, io) of
                  (res, lookup', table, io1) \<Rightarrow>
                    Ok (lookup_outcome (lk_target_id lookup') res
                          (set_action aid (LookupAction lookup') (set_table table h), io1)))
           | _ \<Rightarrow> Ok st)"

definition handle_check_lookup_endgame ::
  "dht_env \<Rightarrow> transaction_id \<Rightarrow> handler_state \<Rightarrow> (handler_state, unit) outcome" where
  "handle_check_lookup_endgame env tid st =
     (case st of (h, io) \<Rightarrow>
        case hash_remove (table_actions h) (transaction_action_id tid) of
          (action, actions) \<Rightarrow>
            let h1 = h\<lparr>table_actions := actions\<rparr>
            in case action of
                 Some (LookupAction lookup) \<Rightarrow>
                   and_then (lookup_recv_finished (env_now env) (handshaker_port (detached h1)) (lookup, the_table h1, io))
                     (\<lambda>(res, lookup', table, io1).
                       Ok (lookup_outcome (lk_target_id lookup') res (set_table table h1, io1)))
               | _ \<Rightarrow> Ok (h1, io))"

section \<open>Incoming messages\<close>

text \<open>Send a reply, and shut down when the channel is closed.\<close>

definition reply :: "bytes \<Rightarrow> socket_addr \<Rightarrow> handler_state \<Rightarrow> handler_state" where
  "reply msg addr st =
     (case out_send (msg, addr) (snd st) of
        (sent, io) \<Rightarrow> (fst st, if sent then io else shutdown_event_loop Unspecified io))"

text \<open>The requesting node is marked if the table holds it.\<close>

definition note_request :: "dht_env \<Rightarrow> node_id \<Rightarrow> socket_addr \<Rightarrow> dht_handler \<Rightarrow> dht_handler" where
  "note_request env node_id addr h =
     set_table (mark_found (env_now env) (remote_request (env_now env)) (as_good (env_now env) node_id addr) (the_table h)) h"

fun encode_nodes :: "node list \<Rightarrow> (bytes, unit) outcome" where
  "encode_nodes [] = Ok []"
| "encode_nodes (n # ns) =
     and_then (node_encode n) (\<lambda>bs. and_then (encode_nodes ns) (\<lambda>rest. Ok (bs @ rest)))"

definition closest_nodes_bytes :: "dht_env \<Rightarrow> node_id \<Rightarrow> routing_table \<Rightarrow> (bytes, unit) outcome" where
  "closest_nodes_bytes env target table = and_then (closest_first (env_now env) 8 table target) encode_nodes"

definition handle_ping :: "dht_env \<Rightarrow> ping_request \<Rightarrow> socket_addr \<Rightarrow> handler_state \<Rightarrow> (handler_state, unit) outcome" where
  "handle_ping env p addr st =
     (case st of (h, io) \<Rightarrow>
        let h1 = note_request env (prq_node_id p) addr h;
            ping_msg = ping_response_encode
              \<lparr>prs_trans_id = prq_trans_id p, prs_node_id = table_node_id (the_table h1)\<rparr>
        in Ok (reply ping_msg addr (h1, io)))"

definition handle_find_node ::
  "dht_env \<Rightarrow> find_node_request \<Rightarrow> socket_addr \<Rightarrow> handler_state \<Rightarrow> (handler_state, unit) outcome" where
  "handle_find_node env f addr st =
     (case st of (h, io) \<Rightarrow>
        let h1 = note_request env (fnq_node_id f) addr h
        in and_then (closest_nodes_bytes env (fnq_target_id f) (the_table h1)) (\<lambda>closest_bytes.
           and_then (unwrap (find_node_response_new (fnq_trans_id f) (table_node_id (the_table h1)) closest_bytes)) (\<lambda>rsp.
             Ok (reply (find_node_response_encode rsp) addr (h1, io)))))"

text \<open>The closure passed to \<open>find_items\<close>: six bytes for an IPv4 contact, nothing for an IPv6 contact.\<close>

fun contact_bytes :: "socket_addr \<Rightarrow> bytes" where
  "contact_bytes (V4 v4_addr) =
     (let src = ipv4_to_bytes_be (v4_ip v4_addr);
          bs = take 6 src @ drop (length src) (replicate 6 0);
          port = v4_port v4_addr
      in bs[4 := ucast (drop_bit 8 port), 5 := ucast (port AND 0x00FF)])"
| "contact_bytes (V6 _) = []"

definition contact_chunks :: "bytes \<Rightarrow> dht_bencode list" where
  "contact_chunks bs = map (\<lambda>i. MBytes (take 6 (drop (i * 6) bs))) [0..<length bs div 6]"

definition handle_get_peers ::
  "dht_env \<Rightarrow> get_peers_request \<Rightarrow> socket_addr \<Rightarrow> handler_state \<Rightarrow> (handler_state, unit) outcome" where
  "handle_get_peers env g addr st =
     (case st of (h, io) \<Rightarrow>
        let h1 = note_request env (gpq_node_id g) addr h;
            (contacts, stores) = storage_find (env_now env) (gpq_info_hash g) (active_stores (detached h1));
            contact_info_bencode = contact_chunks (concat (map contact_bytes contacts));
            h2 = h1\<lparr>detached := (detached h1)\<lparr>active_stores := stores\<rparr>\<rparr>
        in and_then (closest_nodes_bytes env (gpq_info_hash g) (the_table h2)) (\<lambda>closest_bytes.
             let (r1, r2, io1) = draw_secrets io;
                 (tok, tokens) = checkout (env_sha env) (env_now env) r1 r2 (from_socket_addr addr) (dh_token_store (detached h2));
                 h3 = h2\<lparr>detached := (detached h2)\<lparr>dh_token_store := tokens\<rparr>\<rparr>
             in and_then (unwrap (compact_node_info_new closest_bytes)) (\<lambda>nodes_info.
                and_then
                  (if contact_info_bencode \<noteq> []
                   then and_then (unwrap (compact_value_info_new contact_info_bencode)) (\<lambda>values_info.
                          Ok (InfoBoth nodes_info values_info))
                   else Ok (InfoNodes nodes_info)) (\<lambda>info.
                  let get_peers_msg = get_peers_response_encode
                        \<lparr>gps_trans_id = gpq_trans_id g, gps_node_id = table_node_id (the_table h3),
                         gps_token = Some (token_bytes tok), gps_info_type = info\<rparr>
                  in Ok (reply get_peers_msg addr (h3, io1))))))"

text \<open>The address to announce: that of the sender, with the port it names.\<close>

fun connect_addr :: "connect_port \<Rightarrow> socket_addr \<Rightarrow> socket_addr" where
  "connect_addr Implied addr = addr"
| "connect_addr (Explicit port) (V4 v4_addr) = V4 \<lparr>v4_ip = v4_ip v4_addr, v4_port = port\<rparr>"
| "connect_addr (Explicit port) (V6 v6_addr) = V6 (v6_addr\<lparr>v6_port := port\<rparr>)"

definition handle_announce_peer ::
  "dht_env \<Rightarrow> announce_peer_request \<Rightarrow> socket_addr \<Rightarrow> handler_state \<Rightarrow> (handler_state, unit) outcome" where
  "handle_announce_peer env a addr st =
     (case st of (h, io) \<Rightarrow>
        let h1 = note_request env (apq_node_id a) addr h;
            (is_valid, tokens, io1) =
              (case token_new (apq_token a) of
                 Ok t \<Rightarrow>
                   let (r1, r2, io1) = draw_secrets io;
                       (valid, tokens) = checkin (env_sha env) (env_now env) r1 r2 (from_socket_addr addr) t
                         (dh_token_store (detached h1))
                   in (valid, tokens, io1)
               | _ \<Rightarrow> (False, dh_token_store (detached h1), io));
            h2 = h1\<lparr>detached := (detached h1)\<lparr>dh_token_store := tokens\<rparr>\<rparr>;
            (response_msg, h3) =
              (if \<not> is_valid then
                 (error_message_encode (error_message_new (apq_trans_id a) ProtocolError
                    (ascii ''Received An Invalid Token'')), h2)
               else
                 case storage_add (env_now env) (env_now env) (apq_info_hash a) (connect_addr (apq_port a) addr)
                        (active_stores (detached h2)) of
                   (added, stores) \<Rightarrow>
                     (if added then announce_peer_response_encode
                          \<lparr>aps_trans_id = apq_trans_id a, aps_node_id = table_node_id (the_table h2)\<rparr>
                      else error_message_encode (error_message_new (apq_trans_id a) ServerError
                             (ascii ''Announce Storage Is Full'')),
                      h2\<lparr>detached := (detached h2)\<lparr>active_stores := stores\<rparr>\<rparr>))
        in Ok (reply response_msg addr (h3, io1)))"

text \<open>A response with nodes, for a refresh or for the bootstrap.\<close>

definition handle_find_node_response ::
  "dht_env \<Rightarrow> find_node_response \<Rightarrow> socket_addr \<Rightarrow> handler_state \<Rightarrow> (handler_state, unit) outcome" where
  "handle_find_node_response env f addr st =
     (case st of (h, io) \<Rightarrow>
        case transaction_id_from_bytes (fns_trans_id f) of
          None \<Rightarrow> Panic
        | Some tid \<Rightarrow>
            let now = env_now env; n = as_good now (fns_node_id f) addr; aid = transaction_action_id tid
            in and_then (compact_node_collect (compact_node_into_iter (fns_nodes f))) (\<lambda>infos.
               and_then (add_nodes now (map (\<lambda>(ident, v4_addr). as_questionable now ident (V4 v4_addr)) infos) (the_table h))
                 (\<lambda>table.
                   case map_of (table_actions h) aid of
                     Some (RefreshAction _) \<Rightarrow>
                       and_then (add_node now n table) (\<lambda>table'. Ok (set_table table' h, io))
                   | Some (BootstrapAction bootstrap attempts) \<Rightarrow>
                       and_then (if is_router (node_addr n) bootstrap then Ok table else add_node now n table) (\<lambda>table'.
                       and_then (bootstrap_recv_response now tid (bootstrap, table', io))
                         (\<lambda>(res, bootstrap', table'', io1).
                           finish_bootstrap_step env aid res (bootstrap', attempts, io1) (set_table table'' h)))
                   | _ \<Rightarrow> Ok (set_table table h, io))))"

definition handle_get_peers_response ::
  "dht_env \<Rightarrow> get_peers_response \<Rightarrow> socket_addr \<Rightarrow> handler_state \<Rightarrow> (handler_state, unit) outcome" where
  "handle_get_peers_response env g addr st =
     (case st of (h, io) \<Rightarrow>
        case transaction_id_from_bytes (gps_trans_id g) of
          None \<Rightarrow> Panic
        | Some tid \<Rightarrow>
            let now = env_now env; n = as_good now (gps_node_id g) addr; aid = transaction_action_id tid
            in and_then (add_node now n (the_table h)) (\<lambda>table.
                 let h1 = set_table table h
                 in case map_of (table_actions h1) aid of
                      Some (LookupAction lookup) \<Rightarrow>
                        and_then (lookup_recv_response (env_pick env) now n tid g (lookup, table, io))
                          (\<lambda>(res, lookup', table', io1).
                            Ok (lookup_outcome (lk_target_id lookup') res
                                  (set_action aid (LookupAction lookup') (set_table table' h1), io1)))
                    | _ \<Rightarrow> Ok (h1, io)))"

text \<open>Which response a transaction id awaits.\<close>

definition awaited_response :: "dht_handler \<Rightarrow> bytes \<Rightarrow> expected_response" where
  "awaited_response h tbytes =
     (case transaction_id_from_bytes tbytes of
        None \<Rightarrow> ExpectNone
      | Some tid \<Rightarrow>
          (case map_of (table_actions h) (transaction_action_id tid) of
             Some (LookupAction _) \<Rightarrow> ExpectGetPeers
           | Some (RefreshAction _) \<Rightarrow> ExpectFindNode
           | Some (BootstrapAction _ _) \<Rightarrow> ExpectFindNode
           | None \<Rightarrow> ExpectNone))"

definition handle_message :: "dht_env \<Rightarrow> message_type \<Rightarrow> socket_addr \<Rightarrow> handler_state \<Rightarrow> (handler_state, unit) outcome" where
  "handle_message env message addr st =
     (case message of
        RequestMessage (PingRequest p) \<Rightarrow> handle_ping env p addr st
      | RequestMessage (FindNodeRequest f) \<Rightarrow> handle_find_node env f addr st
      | RequestMessage (GetPeersRequest g) \<Rightarrow> handle_get_peers env g addr st
      | RequestMessage (AnnouncePeerRequest a) \<Rightarrow> handle_announce_peer env a addr st
      | ResponseMessage (FindNodeResponse f) \<Rightarrow> handle_find_node_response env f addr st
      | ResponseMessage (GetPeersResponse g) \<Rightarrow> handle_get_peers_response env g addr st
      | ResponseMessage (PingResponse _) \<Rightarrow> Ok st
      | ResponseMessage (AnnouncePeerResponse _) \<Rightarrow> Ok st
      | ErrorMessage _ \<Rightarrow> Ok st)"

definition handle_incoming :: "dht_env \<Rightarrow> bytes \<Rightarrow> socket_addr \<Rightarrow> handler_state \<Rightarrow> (handler_state, unit) outcome" where
  "handle_incoming env buf addr st =
     (case dht_bencode_decode buf of
        Panic \<Rightarrow> Panic
      | Err _ \<Rightarrow> Ok st
      | Ok bencode \<Rightarrow>
          (case message_type_new bencode (awaited_response (fst st)) of
             Panic \<Rightarrow> Panic
           | Err _ \<Rightarrow> Ok st
           | Ok message \<Rightarrow>
               if read_only (detached (fst st)) \<and> (case message of RequestMessage _ \<Rightarrow> True | _ \<Rightarrow> False) then Ok st
               else handle_message env message addr st))"

section \<open>Callbacks\<close>

definition handle_register_sender :: "nat \<Rightarrow> handler_state \<Rightarrow> handler_state" where
  "handle_register_sender sender st =
     (case st of (h, io) \<Rightarrow>
        (h\<lparr>detached := (detached h)\<lparr>event_notifiers := event_notifiers (detached h) @ [sender]\<rparr>\<rparr>, io))"

definition handle_shutdown :: "shutdown_cause \<Rightarrow> handler_state \<Rightarrow> handler_state" where
  "handle_shutdown cause st =
     (case broadcast (ShuttingDown cause) st of (h, io) \<Rightarrow> (h, event_call LoopShutdown io))"

fun notify :: "dht_env \<Rightarrow> oneshot_task \<Rightarrow> handler_state \<Rightarrow> (handler_state, unit) outcome" where
  "notify env (Incoming buf addr) st = handle_incoming env buf addr st"
| "notify env (RegisterSender send) st = Ok (handle_register_sender send st)"
| "notify env (StartBootstrap routers nds) st = handle_start_bootstrap env routers nds st"
| "notify env (StartLookup info_hash should_announce) st = handle_start_lookup env info_hash should_announce st"
| "notify env (Shutdown cause) st = Ok (handle_shutdown cause st)"

fun timeout :: "dht_env \<Rightarrow> nat \<times> scheduled_task \<Rightarrow> handler_state \<Rightarrow> (handler_state, unit) outcome" where
  "timeout env (_, CheckTableRefresh tid) st = handle_check_table_refresh env tid st"
| "timeout env (_, CheckBootstrapTimeout tid) st = handle_check_bootstrap_timeout env tid st"
| "timeout env (_, CheckLookupTimeout tid) st = handle_check_lookup_timeout env tid st"
| "timeout env (_, CheckLookupEndGame tid) st = handle_check_lookup_endgame env tid st"

end
