(* ===== verification/Dht_Lookup_Props.thy ===== *)
theory Dht_Lookup_Props
  imports Dht_Lookup Dht_Message_Props
begin

text \<open>
  Properties of the search for peers: the list of known nodes stays sorted, every request and the
  endgame have their timer, so a search that is not over is always going to be woken up, and it ends.
\<close>

section \<open>The sorted list of nodes\<close>

definition sorted_nodes_ok :: "info_hash \<Rightarrow> (distance \<times> node \<times> bool) list \<Rightarrow> bool" where
  "sorted_nodes_ok target nds \<longleftrightarrow> sorted (map fst nds) \<and> (\<forall>e \<in> set nds. fst e = bitxor target (node_ident (fst (snd e))))"

lemma filter_less_sorted: "sorted xs \<Longrightarrow> filter (\<lambda>x. x < d) xs = takeWhile (\<lambda>x. x < (d :: 'a :: linorder)) xs"
proof (induction xs)
  case (Cons x xs)
  show ?case
  proof (cases "x < d")
    case False
    then have "\<not> y < d" if "y \<in> set xs" for y using Cons.prems that by (meson le_less_trans list.set_intros sorted_simps(2))
    then show ?thesis using False by (simp add: filter_empty_conv)
  qed (use Cons in simp)
qed simp

lemma sorted_take_less:
  assumes "sorted xs"
  shows "\<forall>x \<in> set (take (length (filter (\<lambda>x. x < d) xs)) xs). x \<le> d"
    and "\<forall>x \<in> set (drop (length (filter (\<lambda>x. x < d) xs)) xs). (d :: 'a :: linorder) \<le> x"
proof -
  have "takeWhile (\<lambda>x. x < d) xs @ dropWhile (\<lambda>x. x < d) xs = xs" by simp
  then have eq: "take (length (filter (\<lambda>x. x < d) xs)) xs = takeWhile (\<lambda>x. x < d) xs"
    "drop (length (filter (\<lambda>x. x < d) xs)) xs = dropWhile (\<lambda>x. x < d) xs"
    unfolding filter_less_sorted [OF assms] by (metis append_eq_conv_conj)+
  show "\<forall>x \<in> set (take (length (filter (\<lambda>x. x < d) xs)) xs). x \<le> d"
    unfolding eq by (auto dest: set_takeWhileD)
  show "\<forall>x \<in> set (drop (length (filter (\<lambda>x. x < d) xs)) xs). d \<le> x"
  proof (cases "dropWhile (\<lambda>x. x < d) xs")
    case (Cons y ys)
    then have "d \<le> y" by (metis dropWhile_eq_Cons_conv not_less)
    moreover have "sorted (y # ys)" using assms Cons by (metis sorted_dropWhile)
    ultimately show ?thesis unfolding eq Cons by auto
  qed (simp add: eq)
qed

lemma sorted_vec_insert:
  assumes "sorted xs" and "\<forall>x \<in> set (take i xs). x \<le> d" and "\<forall>x \<in> set (drop i xs). d \<le> x"
  shows "sorted (vec_insert xs i d)"
proof -
  have "sorted (take i xs @ drop i xs)" using assms(1) by simp
  with assms(2,3) show ?thesis by (auto simp: vec_insert_def sorted_append simp del: append_take_drop_id intro: order_trans)
qed

lemma map_vec_insert: "map f (vec_insert xs i x) = vec_insert (map f xs) i (f x)"
  by (simp add: vec_insert_def take_map drop_map)

lemma set_vec_insert [simp]: "set (vec_insert xs i x) = insert x (set xs)"
proof -
  have "set xs = set (take i xs) \<union> set (drop i xs)" by (metis append_take_drop_id set_append)
  then show ?thesis by (simp add: vec_insert_def)
qed

lemma sorted_around:
  assumes "sorted xs" and "m < length xs"
  shows "\<forall>x \<in> set (take m xs). x \<le> xs ! m" and "\<forall>x \<in> set (drop m xs). xs ! m \<le> x"
  using sorted_nth_mono [OF assms(1)] assms(2) by (auto simp: in_set_conv_nth)

lemma binary_search_cases:
  obtains m where "binary_search pick ds d = Inl m" "m < length ds" "ds ! m = d"
  | "binary_search pick ds d = Inr (length (filter (\<lambda>x. x < d) ds))" "d \<notin> set ds"
proof (cases "filter (\<lambda>i. ds ! i = d) [0..<length ds]")
  case Nil
  then have "binary_search pick ds d = Inr (length (filter (\<lambda>x. x < d) ds))" by (simp add: binary_search_def)
  moreover have "d \<notin> set ds" using Nil by (auto simp: filter_empty_conv in_set_conv_nth)
  ultimately show ?thesis using that(2) by blast
next
  case (Cons m ms)
  let ?k = "(m # ms) ! (pick ds d mod length (m # ms))"
  have "?k \<in> set (m # ms)" by (rule nth_mem) simp
  then have "?k < length ds \<and> ds ! ?k = d" by (simp only: Cons [symmetric]) simp
  moreover have "binary_search pick ds d = Inl ?k" using Cons by (simp add: binary_search_def)
  ultimately show ?thesis using that(1) by blast
qed

lemma insert_sorted_node_ok:
  assumes "sorted_nodes_ok target nds"
  shows "sorted_nodes_ok target (insert_sorted_node pick nds target n p)"
    and "\<exists>e \<in> set (insert_sorted_node pick nds target n p). contact (fst (snd e)) = contact n"
    and "set nds \<subseteq> set (insert_sorted_node pick nds target n p)"
proof -
  let ?d = "bitxor target (node_ident n)" and ?ds = "map fst nds"
  from assms have s: "sorted ?ds" by (simp add: sorted_nodes_ok_def)
  have ins: "sorted_nodes_ok target (vec_insert nds i (?d, n, p))"
    if "\<forall>x \<in> set (take i ?ds). x \<le> ?d" "\<forall>x \<in> set (drop i ?ds). ?d \<le> x" for i
    using sorted_vec_insert [OF s that] assms by (simp add: sorted_nodes_ok_def map_vec_insert)
  show "sorted_nodes_ok target (insert_sorted_node pick nds target n p)"
  proof (rule binary_search_cases [of pick ?ds ?d])
    fix m assume m: "binary_search pick ?ds ?d = Inl m" "m < length ?ds" "?ds ! m = ?d"
    from ins [OF sorted_around [OF s m(2), unfolded m(3)]] assms m show ?thesis by (simp add: insert_sorted_node_def Let_def)
  next
    assume m: "binary_search pick ?ds ?d = Inr (length (filter (\<lambda>x. x < ?d) ?ds))"
    from ins [OF sorted_take_less [OF s]] m show ?thesis by (simp add: insert_sorted_node_def Let_def)
  qed
  show "\<exists>e \<in> set (insert_sorted_node pick nds target n p). contact (fst (snd e)) = contact n"
  proof (rule binary_search_cases [of pick ?ds ?d])
    fix m assume m: "binary_search pick ?ds ?d = Inl m" "m < length ?ds" "?ds ! m = ?d"
    then have "nds ! m \<in> set nds" by simp
    with m show ?thesis by (auto simp: insert_sorted_node_def Let_def node_eq_def contact_def)
  qed (simp add: insert_sorted_node_def Let_def)
  show "set nds \<subseteq> set (insert_sorted_node pick nds target n p)"
    by (auto simp: insert_sorted_node_def Let_def split: sum.split)
qed

section \<open>The invariant of a lookup\<close>

text \<open>
  The action number of the lookup is \<open>a\<close>: its ids carry it, so the event loop brings their timers back to
  this lookup. Outside the endgame every awaited response has a timer; in the endgame there is one
  timer for all.
\<close>

definition lookup_inv :: "u64 \<Rightarrow> table_lookup \<Rightarrow> worker_io \<Rightarrow> bool" where
  "lookup_inv a self io \<longleftrightarrow>
     sorted_nodes_ok (lk_target_id self) (all_sorted_nodes self) \<and>
     hash_wf (active_lookups self) \<and> hash_wf (announce_tokens self) \<and> mid_inv a (lk_id_generator self) \<and>
     (\<forall>tid \<in> fst ` set (active_lookups self). id_of_action a tid \<and>
        (in_endgame self \<or> TimeoutMs 0 (CheckLookupTimeout tid) LOOKUP_TIMEOUT_MS \<in> set (io_calls io))) \<and>
     (in_endgame self \<longrightarrow>
        (\<exists>tid. id_of_action a tid \<and> TimeoutMs 0 (CheckLookupEndGame tid) ENDGAME_TIMEOUT_MS \<in> set (io_calls io)))"

text \<open>A search that goes on: a timer of it is going to fire.\<close>

definition lookup_live :: "u64 \<Rightarrow> table_lookup \<Rightarrow> worker_io \<Rightarrow> bool" where
  "lookup_live a self io \<longleftrightarrow> lookup_inv a self io \<and> (in_endgame self \<or> active_lookups self \<noteq> [])"

lemma lookup_inv_mono: "lookup_inv a self io \<Longrightarrow> set (io_calls io) \<subseteq> set (io_calls io') \<Longrightarrow> lookup_inv a self io'"
  unfolding lookup_inv_def by blast

lemma evolves_calls: "evolves (t, io) (t', io') \<Longrightarrow> set (io_calls io) \<subseteq> set (io_calls io')"
  by (simp add: evolves_def set_mono_prefix)

lemma timeout_ms_calls: "timeout_ms (k, task) delay io = (r, io') \<Longrightarrow> TimeoutMs k task delay \<in> set (io_calls io')"
  by (auto simp: timeout_ms_def)

text \<open>What a round of requests leaves alone.\<close>

definition same_search :: "table_lookup \<Rightarrow> table_lookup \<Rightarrow> bool" where
  "same_search self self' \<longleftrightarrow> lk_target_id self' = lk_target_id self \<and> lk_table_id self' = lk_table_id self \<and>
     will_announce self' = will_announce self \<and> announce_tokens self' = announce_tokens self"

lemma same_search_refl [simp]: "same_search self self"
  by (simp add: same_search_def)

lemma same_search_trans: "same_search s1 s2 \<Longrightarrow> same_search s2 s3 \<Longrightarrow> same_search s1 s3"
  by (simp add: same_search_def)

lemma request_round_step:
  assumes "request_round now ((n, d) # nds) k (self, t, io) = (r, self', t', io')"
  obtains tid g io1 tmo io2 where
    "next_trans_id (lk_id_generator self) io = (tid, g, io1)" "timeout_ms (0, CheckLookupTimeout tid) LOOKUP_TIMEOUT_MS io1 = (tmo, io2)"
    "tmo = None" "r = SearchFailed" "self' = self\<lparr>lk_id_generator := g\<rparr>" "t' = t" "io' = io2"
  | tid g io1 tmo io2 self2 where
    "next_trans_id (lk_id_generator self) io = (tid, g, io1)" "timeout_ms (0, CheckLookupTimeout tid) LOOKUP_TIMEOUT_MS io1 = (Some tmo, io2)"
    "self2 = self\<lparr>lk_id_generator := g, active_lookups := snd (hash_insert (active_lookups self) tid (d, tmo))\<rparr>"
    "out_send (lookup_message tid self2, node_addr n) io2 = (False, io')" "r = SearchFailed" "self' = self2" "t' = t"
  | tid g io1 tmo io2 self2 io3 where
    "next_trans_id (lk_id_generator self) io = (tid, g, io1)" "timeout_ms (0, CheckLookupTimeout tid) LOOKUP_TIMEOUT_MS io1 = (Some tmo, io2)"
    "self2 = self\<lparr>lk_id_generator := g, active_lookups := snd (hash_insert (active_lookups self) tid (d, tmo))\<rparr>"
    "out_send (lookup_message tid self2, node_addr n) io2 = (True, io3)"
    "request_round now nds (Suc k) (self2\<lparr>requested_nodes := set_insert (requested_nodes self2) (contact n)\<rparr>,
       mark_found now (local_request now) n t, io3) = (r, self', t', io')"
proof -
  obtain tid g io1 where e1: "next_trans_id (lk_id_generator self) io = (tid, g, io1)" by (rule prod_cases3)
  obtain tmo io2 where e2: "timeout_ms (0, CheckLookupTimeout tid) LOOKUP_TIMEOUT_MS io1 = (tmo, io2)" by (rule prod.exhaust)
  show ?thesis
  proof (cases tmo)
    case None
    with assms e1 e2 that(1) [OF e1 e2] show ?thesis by simp
  next
    case (Some tm)
    let ?self = "self\<lparr>lk_id_generator := g, active_lookups := snd (hash_insert (active_lookups self) tid (d, tm))\<rparr>"
    obtain sent io3 where e3: "out_send (lookup_message tid ?self, node_addr n) io2 = (sent, io3)" by (rule prod.exhaust)
    show ?thesis
    proof (cases sent)
      case True
      then have "request_round now nds (Suc k) (?self\<lparr>requested_nodes := set_insert (requested_nodes ?self) (contact n)\<rparr>,
          mark_found now (local_request now) n t, io3) = (r, self', t', io')"
        using assms e1 e2 e3 Some by simp
      then show ?thesis using True e3 by (intro that(3) [OF e1 e2 [unfolded Some] refl]) simp_all
    next
      case False
      then have "r = SearchFailed" "self' = ?self" "t' = t" "io' = io3" using assms e1 e2 e3 Some by simp_all
      then show ?thesis using False e3 by (intro that(2) [OF e1 e2 [unfolded Some] refl]) simp_all
    qed
  qed
qed

lemma request_round_evolves:
  "request_round now nds k (self, t, io) = (r, self', t', io') \<Longrightarrow>
   evolves (t, io) (t', io') \<and> same_search self self' \<and> in_endgame self' = in_endgame self \<and>
   recv_values self' = recv_values self \<and> all_sorted_nodes self' = all_sorted_nodes self"
proof (induction nds arbitrary: k self t io)
  case (Cons e nds)
  obtain n d where e: "e = (n, d)" by (rule prod.exhaust)
  from Cons.prems [unfolded e] show ?case
  proof (cases rule: request_round_step)
    case (1 tid g io1 tmo io2)
    then show ?thesis using evolves_trans [OF evolves_io(1) [OF 1(1)] evolves_io(3) [OF 1(2)]] by (simp add: same_search_def)
  next
    case (2 tid g io1 tmo io2 self2)
    then show ?thesis
      using evolves_trans [OF evolves_trans [OF evolves_io(1) [OF 2(1)] evolves_io(3) [OF 2(2)]] evolves_io(4) [OF 2(4)]]
      by (simp add: same_search_def)
  next
    case (3 tid g io1 tmo io2 self2 io3)
    have "evolves (t, io) (mark_found now (local_request now) n t, io3)"
      using evolves_trans [OF evolves_trans [OF evolves_trans [OF evolves_io(1) [OF 3(1)] evolves_io(3) [OF 3(2)]]
          evolves_io(4) [OF 3(4)]] evolves_mark(1)] by blast
    with Cons.IH [OF 3(5)] 3(3) show ?thesis by (auto simp: same_search_def intro: evolves_trans)
  qed
qed (auto simp: same_search_def split: if_splits)

text \<open>A request that is out, or whose sending failed, is awaited with its timer.\<close>

lemma lookup_inv_request:
  assumes inv: "lookup_inv a self io" and e: "\<not> in_endgame self"
    and tid: "next_trans_id (lk_id_generator self) io = (tid, g, io1)"
    and tmo: "timeout_ms (0, CheckLookupTimeout tid) LOOKUP_TIMEOUT_MS io1 = (tmo, io2)"
  shows "lookup_inv a (self\<lparr>lk_id_generator := g\<rparr>) io2"
    and "lookup_inv a (self\<lparr>lk_id_generator := g, active_lookups := snd (hash_insert (active_lookups self) tid x)\<rparr>) io2"
proof -
  have sub: "set (io_calls io) \<subseteq> set (io_calls io2)"
    using evolves_calls [OF evolves_trans [OF evolves_io(1) [OF tid] evolves_io(3) [OF tmo]]] .
  note g = next_trans_id_action [OF _ tid]
  show "lookup_inv a (self\<lparr>lk_id_generator := g\<rparr>) io2"
    using inv e sub g [of a] by (auto simp: lookup_inv_def)
  show "lookup_inv a (self\<lparr>lk_id_generator := g, active_lookups := snd (hash_insert (active_lookups self) tid x)\<rparr>) io2"
    using inv e sub g [of a] timeout_ms_calls [OF tmo] by (auto simp: lookup_inv_def simp flip: image_image)
qed

lemma lookup_inv_requested [simp]: "lookup_inv a (self\<lparr>requested_nodes := rs\<rparr>) io = lookup_inv a self io"
  by (simp add: lookup_inv_def)

lemma lookup_inv_remove:
  "lookup_inv a self io \<Longrightarrow> lookup_inv a (self\<lparr>active_lookups := snd (hash_remove (active_lookups self) tid)\<rparr>) io"
  unfolding lookup_inv_def by (auto dest: hash_remove_subset [THEN subsetD])

lemma lookup_inv_tokens:
  "lookup_inv a self io \<Longrightarrow> lookup_inv a (self\<lparr>announce_tokens := snd (hash_insert (announce_tokens self) c tok)\<rparr>) io"
  by (simp add: lookup_inv_def)

lemma lookup_inv_values [simp]: "lookup_inv a (self\<lparr>recv_values := b\<rparr>) io = lookup_inv a self io"
  by (simp add: lookup_inv_def)

lemma request_round_inv:
  "request_round now nds k (self, t, io) = (r, self', t', io') \<Longrightarrow> lookup_inv a self io \<Longrightarrow> \<not> in_endgame self \<Longrightarrow>
   lookup_inv a self' io' \<and> (r \<noteq> SearchFailed \<longrightarrow> (if k = 0 \<and> nds = [] then active_lookups self' = [] \<and> r = SearchCompleted
     else r = Searching \<and> (active_lookups self \<noteq> [] \<or> nds \<noteq> [] \<longrightarrow> active_lookups self' \<noteq> [])))"
proof (induction nds arbitrary: k self t io)
  case Nil
  then show ?case by (auto simp: lookup_inv_def split: if_splits)
next
  case (Cons e nds)
  obtain n d where e: "e = (n, d)" by (rule prod.exhaust)
  from Cons.prems(1) [unfolded e] show ?case
  proof (cases rule: request_round_step)
    case (1 tid g io1 tmo io2)
    with lookup_inv_request(1) [OF Cons.prems(2,3) 1(1,2)] show ?thesis by simp
  next
    case (2 tid g io1 tmo io2 self2)
    have "set (io_calls io2) \<subseteq> set (io_calls io')" by (rule evolves_calls [OF evolves_io(4) [where t = t, OF 2(4)]])
    with lookup_inv_mono [OF lookup_inv_request(2) [OF Cons.prems(2,3) 2(1,2)]] 2 show ?thesis by simp
  next
    case (3 tid g io1 tmo io2 self2 io3)
    have "set (io_calls io2) \<subseteq> set (io_calls io3)" by (rule evolves_calls [OF evolves_io(4) [where t = t, OF 3(4)]])
    with lookup_inv_mono [OF lookup_inv_request(2) [OF Cons.prems(2,3) 3(1,2), of "(d, tmo)"]] 3(3)
    have "lookup_inv a (self2\<lparr>requested_nodes := set_insert (requested_nodes self2) (contact n)\<rparr>) io3" by simp
    from Cons.IH [OF 3(5) this] Cons.prems(3) 3(3) show ?thesis by (simp split: if_splits)
  qed
qed

section \<open>The endgame\<close>

lemma endgame_loop_result:
  "endgame_loop now tmo done nds (self, t, io) = (r, self', t', io') \<Longrightarrow>
   lookup_inv a self io \<Longrightarrow> in_endgame self \<Longrightarrow> sorted_nodes_ok (lk_target_id self) (done @ nds) \<Longrightarrow>
   lookup_inv a self' io' \<and> in_endgame self' \<and> recv_values self' = recv_values self \<and> same_search self self' \<and>
   evolves (t, io) (t', io') \<and> (r \<noteq> SearchFailed \<longrightarrow> r = Searching)"
proof (induction nds arbitrary: "done" self t io)
  case Nil
  then show ?case by (auto simp: lookup_inv_def same_search_def)
next
  case (Cons e nds)
  obtain d n req where e: "e = (d, n, req)" by (rule prod_cases3)
  have app: "sorted_nodes_ok (lk_target_id self) ((done @ [(d, n, b)]) @ nds)" for b
    using Cons.prems(4) e by (auto simp: sorted_nodes_ok_def)
  show ?case
  proof (cases req)
    case True
    with Cons.IH [OF _ Cons.prems(2,3) app [of True], of t] Cons.prems(1) e show ?thesis by simp
  next
    case False
    obtain tid g io1 where e1: "next_trans_id (lk_id_generator self) io = (tid, g, io1)" by (rule prod_cases3)
    let ?self = "self\<lparr>lk_id_generator := g, active_lookups := snd (hash_insert (active_lookups self) tid (d, tmo))\<rparr>"
    obtain sent io2 where e2: "out_send (lookup_message tid ?self, node_addr n) io1 = (sent, io2)" by (rule prod.exhaust)
    have ev: "evolves (t, io) (t, io2)" by (rule evolves_trans [OF evolves_io(1) [OF e1] evolves_io(4) [OF e2]])
    have inv: "lookup_inv a ?self io2"
      using Cons.prems(2,3) evolves_calls [OF ev] next_trans_id_action [OF _ e1, of a] by (auto simp: lookup_inv_def simp flip: image_image)
    show ?thesis
    proof (cases sent)
      case True
      have "endgame_loop now tmo (done @ [(d, n, True)]) nds (?self, mark_found now (local_request now) n t, io2) = (r, self', t', io')"
        using Cons.prems(1) e e1 e2 False True by simp
      from Cons.IH [OF this inv _ ] Cons.prems(3) app [of True]
        evolves_trans [OF ev evolves_mark(1) [of "local_request now" now t io2 n]]
      show ?thesis by (auto simp: same_search_def intro: evolves_trans)
    next
      case nsent: False
      have "r = SearchFailed" "self' = ?self\<lparr>all_sorted_nodes := done @ (d, n, req) # nds\<rparr>" "t' = t" "io' = io2"
        using Cons.prems(1) e e1 e2 False nsent by simp_all
      with inv ev Cons.prems(3,4) e show ?thesis by (simp add: lookup_inv_def same_search_def)
    qed
  qed
qed

lemma start_endgame_result:
  assumes "start_endgame_round now (self, t, io) = (r, self', t', io')" and "lookup_inv a self io"
  shows "(r \<noteq> SearchFailed \<longrightarrow> r = Searching \<and> lookup_live a self' io') \<and> recv_values self' = recv_values self \<and>
    same_search self self' \<and> evolves (t, io) (t', io')"
proof -
  obtain tid g io1 where e1: "next_trans_id (lk_id_generator self) io = (tid, g, io1)" by (rule prod_cases3)
  let ?self = "self\<lparr>in_endgame := True, lk_id_generator := g\<rparr>"
  obtain tmo io2 where e2: "timeout_ms (0, CheckLookupEndGame tid) ENDGAME_TIMEOUT_MS io1 = (tmo, io2)" by (rule prod.exhaust)
  have ev: "evolves (t, io) (t, io2)" by (rule evolves_trans [OF evolves_io(1) [OF e1] evolves_io(3) [OF e2]])
  have inv: "lookup_inv a ?self io2"
    using assms(2) next_trans_id_action [OF _ e1, of a] timeout_ms_calls [OF e2] by (auto simp: lookup_inv_def)
  show ?thesis
  proof (cases tmo)
    case None
    with assms(1) e1 e2 ev show ?thesis by (auto simp: start_endgame_round_def same_search_def)
  next
    case (Some tm)
    show ?thesis
    proof (cases "recv_values self")
      case True
      with assms(1) e1 e2 ev inv Some show ?thesis by (auto simp: start_endgame_round_def lookup_live_def same_search_def)
    next
      case False
      then have l: "endgame_loop now tm [] (all_sorted_nodes ?self) (?self, t, io2) = (r, self', t', io')"
        using assms(1) e1 e2 Some by (simp add: start_endgame_round_def)
      from endgame_loop_result [OF l inv] inv ev show ?thesis
        by (auto simp: lookup_inv_def [of a ?self] lookup_live_def same_search_def intro: evolves_trans)
    qed
  qed
qed

section \<open>Responses and timeouts\<close>

lemma endgame_if_idle_result:
  assumes "endgame_if_idle now res (self, t, io) = (r, self', t', io')" and "lookup_inv a self io"
    and "\<And>self. lookup_live a self io' \<Longrightarrow> res self \<noteq> SearchFailed"
  shows "evolves (t, io) (t', io') \<and> same_search self self' \<and>
    (r \<noteq> SearchFailed \<longrightarrow> lookup_live a self' io' \<and> r = res self')"
proof (cases "\<not> in_endgame self \<and> active_lookups self = []")
  case True
  obtain e self1 t1 io1 where e: "start_endgame_round now (self, t, io) = (e, self1, t1, io1)" by (rule prod_cases4)
  from start_endgame_result [OF e assms(2)] assms(1,3) True e show ?thesis
    by (auto simp: endgame_if_idle_def split: if_splits)
next
  case False
  with assms(1,2) show ?thesis by (auto simp: endgame_if_idle_def lookup_live_def)
qed

lemma continue_search_result:
  assumes "continue_search now nds d vals (self, t, io) = (r, self', t', io')" and "lookup_inv a self io"
  shows "evolves (t, io) (t', io') \<and> same_search self self' \<and>
    (r \<noteq> SearchFailed \<longrightarrow> lookup_live a self' io' \<and> r = (case vals of Some vs \<Rightarrow> FoundValues vs | None \<Rightarrow> Searching))"
proof -
  let ?res = "\<lambda>self. case vals of Some values \<Rightarrow> FoundValues values | None \<Rightarrow> current_lookup_status self"
  have live: "lookup_live a self io \<Longrightarrow> ?res self = (case vals of Some vs \<Rightarrow> FoundValues vs | None \<Rightarrow> Searching)" for self io
    by (auto simp: lookup_live_def current_lookup_status_def split: option.split)
  show ?thesis
  proof (cases "in_endgame self \<or> nds = None")
    case True
    then have "endgame_if_idle now ?res (self, t, io) = (r, self', t', io')"
      using assms(1) by (cases "in_endgame self") (simp_all add: continue_search_def Let_def)
    from endgame_if_idle_result [OF this assms(2)] live [of self' io'] live show ?thesis
      by (auto split: option.splits)
  next
    case False
    then obtain ns where ns: "nds = Some ns" "\<not> in_endgame self" by auto
    obtain r1 self1 t1 io1 where e: "start_request_round now (map (\<lambda>(n, _). (n, d)) (filter snd ns)) (self, t, io) = (r1, self1, t1, io1)"
      by (rule prod_cases4)
    note inv1 = request_round_inv [OF e [unfolded start_request_round_def] assms(2) ns(2)]
      and ev1 = request_round_evolves [OF e [unfolded start_request_round_def]]
    show ?thesis
    proof (cases "r1 = SearchFailed")
      case True
      with assms(1) ns e ev1 show ?thesis by (simp add: continue_search_def)
    next
      case False
      then have "endgame_if_idle now ?res (self1, t1, io1) = (r, self', t', io')"
        using assms(1) ns e by (simp add: continue_search_def)
      from endgame_if_idle_result [OF this, of a] inv1 ev1 live [of self' io'] live show ?thesis
        by (auto intro: evolves_trans same_search_trans split: option.splits)
    qed
  qed
qed

lemma hash_remove_none: "map_of m k = None \<Longrightarrow> snd (hash_remove m k) = m"
  by (auto simp: hash_remove_def map_of_eq_None_iff intro!: filter_True)

lemma lookup_recv_timeout_result:
  assumes "lookup_recv_timeout now tid (self, t, io) = (r, self', t', io')" and "lookup_live a self io"
  shows "evolves (t, io) (t', io') \<and> same_search self self' \<and> (r \<noteq> SearchFailed \<longrightarrow> lookup_live a self' io' \<and> r = Searching)"
proof (cases "map_of (active_lookups self) tid")
  case None
  then have "(r, self', t', io') = (current_lookup_status self, self, t, io)"
    using assms(1) hash_remove_none [OF None] by (auto simp: lookup_recv_timeout_def hash_remove_def)
  then show ?thesis using assms(2) by (auto simp: lookup_live_def current_lookup_status_def)
next
  case (Some x)
  let ?self = "self\<lparr>active_lookups := snd (hash_remove (active_lookups self) tid)\<rparr>"
  have "endgame_if_idle now current_lookup_status (?self, t, io) = (r, self', t', io')"
    using assms(1) Some by (simp add: lookup_recv_timeout_def hash_remove_def)
  moreover have "lookup_inv a ?self io" using assms(2) by (simp add: lookup_live_def lookup_inv_remove)
  ultimately show ?thesis using endgame_if_idle_result [of now current_lookup_status ?self t io r self' t' io' a]
    by (auto simp: same_search_def) (auto simp: lookup_live_def current_lookup_status_def)
qed

lemma fold_insert_sorted_ok:
  "sorted_nodes_ok target nds \<Longrightarrow>
   sorted_nodes_ok target (fold (\<lambda>x nds. insert_sorted_node pick nds target (f x) (p x)) xs nds)"
  by (induction xs arbitrary: nds) (simp_all add: insert_sorted_node_ok(1))

lemma push_nodes_ok:
  "sorted_nodes_ok (lk_target_id self) (all_sorted_nodes self) \<Longrightarrow>
   sorted_nodes_ok (lk_target_id self) (all_sorted_nodes (push_nodes pick now its infos self))"
  using fold_insert_sorted_ok [of "lk_target_id self" "all_sorted_nodes self" pick
      "\<lambda>x. as_questionable now (fst x) (V4 (snd x))"
      "\<lambda>x. list_ex (\<lambda>(m, _). node_eq m (as_questionable now (fst x) (V4 (snd x)))) its" infos]
  unfolding push_nodes_def Let_def by (simp add: case_prod_unfold)

lemma recv_nodes_result:
  assumes "recv_nodes pick now infos d self = (its, d', self')" and "lookup_inv a self io"
  shows "lookup_inv a self' io \<and> same_search self self' \<and> in_endgame self' = in_endgame self \<and> recv_values self' = recv_values self"
proof -
  obtain ps where "self' = push_nodes pick now ps infos self"
    using assms(1) by (auto simp: recv_nodes_def Let_def split: if_splits)
  with assms(2) push_nodes_ok [of self pick now ps infos] show ?thesis
    by (simp add: lookup_inv_def same_search_def push_nodes_def)
qed

lemma recv_opt_nodes_result:
  assumes "recv_opt_nodes pick now infos d self = (its, d', self')" and "lookup_inv a self io"
  shows "lookup_inv a self' io \<and> lk_target_id self' = lk_target_id self"
  using assms recv_nodes_result [of pick now _ d self its d' self' a io]
  by (auto simp: recv_opt_nodes_def same_search_def split: option.splits)

lemma keep_token_inv:
  "lookup_inv a self io \<Longrightarrow> lookup_inv a (keep_token n tok self) io"
  "lk_target_id (keep_token n tok self) = lk_target_id self"
  using lookup_inv_tokens by (auto simp: keep_token_def split: option.split)

lemma recv_contacts_total:
  assumes "info_valid info"
  shows "\<exists>vals infos only. recv_contacts info = Ok (vals, infos, only) \<and>
    (\<forall>ns. infos = Some ns \<longrightarrow> (\<forall>c \<in> set ns. length (sha_bytes (fst c)) = SHA_HASH_LEN))"
proof -
  have n: "nodes_valid n \<Longrightarrow> \<exists>ns. (compact_node_collect (compact_node_into_iter n) :: (_, unit) outcome) = Ok ns \<and>
      (\<forall>c \<in> set ns. length (sha_bytes (fst c)) = SHA_HASH_LEN)" for n
    using compact_node_collect_spec [of "compact_node_into_iter n", where ?'e = unit]
    by (fastforce simp: nodes_valid_def compact_node_into_iter_def compact_consts SHA_HASH_LEN_def)
  have v: "values_valid v \<Longrightarrow> \<exists>ss. (compact_value_collect (compact_value_into_iter v) :: (_, unit) outcome) = Ok ss" for v
    using compact_value_collect_spec [of "compact_value_into_iter v", where ?'e = unit]
    by (auto simp: values_valid_def compact_value_into_iter_def compact_consts)
  show ?thesis
  proof (cases info)
    case (InfoNodes x)
    with assms n [of x] show ?thesis by (auto simp: recv_contacts_def)
  next
    case (InfoValues x)
    with assms v [of x] show ?thesis by (auto simp: recv_contacts_def)
  next
    case (InfoBoth x y)
    with assms n [of x] v [of y] show ?thesis by (auto simp: recv_contacts_def)
  qed
qed

text \<open>A response to a pending request brings the lookup to a state that is alive again, whatever it
  contains; it never panics.\<close>

lemma lookup_recv_response_result:
  assumes "lookup_live a self io" and "info_valid (gps_info_type msg)"
  shows "\<exists>r self' t' io'. lookup_recv_response pick now n tid msg (self, t, io) = Ok (r, self', t', io') \<and>
    evolves (t, io) (t', io') \<and> lk_target_id self' = lk_target_id self \<and>
    (r \<noteq> SearchFailed \<longrightarrow> lookup_live a self' io' \<and> r \<noteq> SearchCompleted)"
proof (cases "map_of (active_lookups self) tid")
  case None
  then show ?thesis using assms(1)
    by (auto simp: lookup_recv_response_def hash_remove_def lookup_live_def current_lookup_status_def)
next
  case (Some x)
  obtain d tmo where x: "x = (d, tmo)" by (rule prod.exhaust)
  obtain act where hr: "hash_remove (active_lookups self) tid = (Some (d, tmo), act)"
    using Some x by (simp add: hash_remove_def)
  define self1 where "self1 = self\<lparr>active_lookups := act\<rparr>"
  define io1 where "io1 = (if \<not> in_endgame self1 then clear_timeout tmo io else io)"
  from recv_contacts_total [OF assms(2)] obtain vals infos only where
    rc: "recv_contacts (gps_info_type msg) = Ok (vals, infos, only)" by blast
  define self3 where "self3 = (if only then (keep_token n (gps_token msg) self1)\<lparr>recv_values := True\<rparr> else keep_token n (gps_token msg) self1)"
  obtain its d' self4 where s4: "recv_opt_nodes pick now infos d self3 = (its, d', self4)" by (rule prod_cases3)
  obtain r self' t' io' where c: "continue_search now its d' vals (self4, t, io1) = (r, self', t', io')" by (rule prod_cases4)
  have ev: "evolves (t, io) (t, io1)" using evolves_io(6) by (simp add: io1_def)
  have "lookup_inv a self1 io1" unfolding self1_def
    using lookup_inv_mono [OF lookup_inv_remove [of a self io tid] evolves_calls [OF ev]] assms(1) hr
    by (simp add: lookup_live_def)
  then have "lookup_inv a self3 io1" by (simp add: self3_def keep_token_inv)
  note inv4 = recv_opt_nodes_result [OF s4 this]
  have "lk_target_id self3 = lk_target_id self" by (simp add: self3_def keep_token_inv self1_def)
  moreover have "lookup_recv_response pick now n tid msg (self, t, io) = Ok (r, self', t', io')"
  proof -
    have "in_endgame self1 = in_endgame self" by (simp add: self1_def)
    with s4 c show ?thesis unfolding lookup_recv_response_def
      by (cases only; cases "in_endgame self") (simp_all add: hr rc Let_def self3_def io1_def flip: self1_def)
  qed
  ultimately show ?thesis using inv4 continue_search_result [OF c, of a] evolves_trans [OF ev, of "(t', io')"]
    unfolding same_search_def by (cases vals) auto
qed

section \<open>The end of a lookup\<close>

lemma announce_loop_total:
  "\<forall>n \<in> set nds. map_of (announce_tokens self) (contact n) \<noteq> None \<Longrightarrow>
   \<exists>b self' t' io'. announce_loop now port nds fatal (self, t, io) = Ok (b, self', t', io') \<and>
     evolves (t, io) (t', io') \<and> lk_target_id self' = lk_target_id self"
proof (induction nds arbitrary: fatal self t io)
  case (Cons n nds)
  obtain tid g io1 where e1: "next_trans_id (lk_id_generator self) io = (tid, g, io1)" by (rule prod_cases3)
  from Cons.prems obtain tok where tok: "map_of (announce_tokens self) (contact n) = Some tok" by auto
  let ?msg = "announce_peer_request_encode
      \<lparr>apq_trans_id = trans_id_bytes tid, apq_node_id = lk_table_id self, apq_info_hash = lk_target_id self,
       apq_token = tok, apq_port = Explicit port\<rparr>"
  obtain sent io2 where e2: "out_send (?msg, node_addr n) io1 = (sent, io2)" by (rule prod.exhaust)
  let ?t = "if \<not> (fatal \<or> \<not> sent) then mark_found now (local_request now) n t else t"
  have "evolves (t, io) (?t, io2)"
    using evolves_trans [OF evolves_trans [OF evolves_io(1) [OF e1] evolves_io(4) [OF e2]] evolves_mark(1) [of "local_request now" now t io2 n]]
      evolves_trans [OF evolves_io(1) [OF e1] evolves_io(4) [OF e2]] by simp
  moreover have "announce_loop now port (n # nds) fatal (self, t, io) =
      announce_loop now port nds (fatal \<or> \<not> sent) (self\<lparr>lk_id_generator := g\<rparr>, ?t, io2)"
    using e1 e2 tok by (simp add: Let_def)
  moreover note Cons.IH [of "self\<lparr>lk_id_generator := g\<rparr>" "fatal \<or> \<not> sent" ?t io2]
  ultimately show ?case using Cons.prems by (fastforce intro: evolves_trans)
qed auto

lemma lookup_recv_finished_result:
  "\<exists>r self' t' io'. lookup_recv_finished now port (self, t, io) = Ok (r, self', t', io') \<and>
     evolves (t, io) (t', io') \<and> lk_target_id self' = lk_target_id self \<and> r \<in> {SearchCompleted, SearchFailed}"
proof -
  have "\<forall>n \<in> set (announce_nodes self). map_of (announce_tokens self) (contact n) \<noteq> None"
    by (auto simp: announce_nodes_def dest: in_set_takeD)
  from announce_loop_total [OF this, of now port False t io] obtain b self' t' io' where
    "announce_loop now port (announce_nodes self) False (self, t, io) = Ok (b, self', t', io')"
    "evolves (t, io) (t', io')" "lk_target_id self' = lk_target_id self" by blast
  then show ?thesis
    by (cases "will_announce self"; cases b) (simp_all add: lookup_recv_finished_def current_lookup_status_def Let_def)
qed

text \<open>An event loop that takes every timer and a channel that takes every message.\<close>

definition willing :: "worker_io \<Rightarrow> bool" where
  "willing io \<longleftrightarrow> (\<forall>k. io_timers io k \<noteq> None) \<and> (\<forall>k. io_out_ok io k)"

lemma willing_io:
  "next_trans_id g io = (tid, g', io') \<Longrightarrow> willing io' = willing io"
  "timeout_ms data delay io = (r, io') \<Longrightarrow> willing io \<Longrightarrow> willing io' \<and> r \<noteq> None"
  "out_send msg io = (sent, io') \<Longrightarrow> willing io \<Longrightarrow> willing io' \<and> sent"
  by (auto simp: willing_def next_trans_id_def timeout_ms_def out_send_def event_call_def split: prod.splits if_splits)

lemma endgame_loop_willing:
  "endgame_loop now tmo fin nds (self, t, io) = (r, self', t', io') \<Longrightarrow> willing io \<Longrightarrow> r = Searching \<and> willing io'"
proof (induction nds arbitrary: fin self t io)
  case (Cons e nds)
  obtain d n req where e: "e = (d, n, req)" by (rule prod_cases3)
  show ?case
  proof (cases req)
    case True
    with Cons e show ?thesis by simp
  next
    case False
    obtain tid g io1 where e1: "next_trans_id (lk_id_generator self) io = (tid, g, io1)" by (rule prod_cases3)
    let ?self = "self\<lparr>lk_id_generator := g, active_lookups := snd (hash_insert (active_lookups self) tid (d, tmo))\<rparr>"
    obtain sent io2 where e2: "out_send (lookup_message tid ?self, node_addr n) io1 = (sent, io2)" by (rule prod.exhaust)
    have w: "willing io2" "sent" using willing_io(1) [OF e1] willing_io(3) [OF e2] Cons.prems(2) by simp_all
    have "endgame_loop now tmo (fin @ [(d, n, True)]) nds (?self, mark_found now (local_request now) n t, io2) = (r, self', t', io')"
      using Cons.prems(1) e e1 e2 False w(2) by simp
    from Cons.IH [OF this w(1)] show ?thesis .
  qed
qed simp

lemma endgame_if_idle_willing:
  assumes "endgame_if_idle now current_lookup_status (self, t, io) = (r, self', t', io')" and "willing io"
  shows "r \<noteq> SearchFailed \<and> willing io'"
proof (cases "\<not> in_endgame self \<and> active_lookups self = []")
  case True
  obtain tid g io1 where e1: "next_trans_id (lk_id_generator self) io = (tid, g, io1)" by (rule prod_cases3)
  let ?self = "self\<lparr>in_endgame := True, lk_id_generator := g\<rparr>"
  obtain tmo io2 where e2: "timeout_ms (0, CheckLookupEndGame tid) ENDGAME_TIMEOUT_MS io1 = (tmo, io2)" by (rule prod.exhaust)
  obtain tm where w: "willing io2" "tmo = Some tm" using willing_io(1) [OF e1] willing_io(2) [OF e2] assms(2) by auto
  obtain r1 st1 where l: "endgame_loop now tm [] (all_sorted_nodes ?self) (?self, t, io2) = (r1, st1)" by (rule prod.exhaust)
  obtain self1 t1 io1' where st1: "st1 = (self1, t1, io1')" by (rule prod_cases3)
  from endgame_loop_willing [OF l [unfolded st1] w(1)] assms True e1 e2 w l st1 show ?thesis
    by (cases "recv_values self") (auto simp: endgame_if_idle_def start_endgame_round_def current_lookup_status_def Let_def split: if_splits)
next
  case False
  with assms show ?thesis by (auto simp: endgame_if_idle_def current_lookup_status_def)
qed

text \<open>The pending timers fire one after the other.\<close>

fun fire_timeouts :: "datetime \<Rightarrow> transaction_id list \<Rightarrow> lookup_state \<Rightarrow> lookup_state" where
  "fire_timeouts now [] st = st"
| "fire_timeouts now (tid # tids) st = fire_timeouts now tids (snd (lookup_recv_timeout now tid st))"

lemma recv_timeout_keys:
  assumes "lookup_recv_timeout now tid (self, t, io) = (r, self', t', io')" and "\<not> in_endgame self'" and "r \<noteq> SearchFailed"
    and "lookup_live a self io"
  shows "fst ` set (active_lookups self') = fst ` set (active_lookups self) - {tid} \<and> \<not> in_endgame self"
proof (cases "map_of (active_lookups self) tid")
  case None
  then have "self' = self" using assms(1) hash_remove_none [OF None] by (auto simp: lookup_recv_timeout_def hash_remove_def)
  then show ?thesis using None assms(2) by (auto simp: map_of_eq_None_iff)
next
  case (Some x)
  let ?self = "self\<lparr>active_lookups := snd (hash_remove (active_lookups self) tid)\<rparr>"
  have e: "endgame_if_idle now current_lookup_status (?self, t, io) = (r, self', t', io')"
    using assms(1) Some by (simp add: lookup_recv_timeout_def hash_remove_def)
  have inv: "lookup_inv a ?self io" using assms(4) by (simp add: lookup_live_def lookup_inv_remove)
  show ?thesis
  proof (cases "\<not> in_endgame ?self \<and> active_lookups ?self = []")
    case True
    obtain r1 self1 t1 io1 where s: "start_endgame_round now (?self, t, io) = (r1, self1, t1, io1)" by (rule prod_cases4)
    with e True have "self' = self1" by (auto simp: endgame_if_idle_def)
    moreover have "in_endgame self1"
    proof -
      obtain tid' g io1' where e1: "next_trans_id (lk_id_generator ?self) io = (tid', g, io1')" by (rule prod_cases3)
      have "in_endgame self2" if "endgame_loop now tm fin nds (self3, t3, io3) = (r2, self2, t2, io2)" "in_endgame self3"
        for tm fin nds self3 t3 io3 r2 self2 t2 io2
        using that
        by (induction nds arbitrary: fin self3 t3 io3) (auto simp: Let_def split: if_splits prod.splits bool.splits)
      then show ?thesis using s e1 by (fastforce simp: start_endgame_round_def Let_def split: prod.splits option.splits if_splits)
    qed
    ultimately show ?thesis using assms(2) by simp
  next
    case False
    then have "self' = ?self" using e by (auto simp: endgame_if_idle_def)
    then show ?thesis using assms(2) by (simp flip: image_image)
  qed
qed

lemma fire_timeouts_endgame:
  "lookup_live a self io \<Longrightarrow> willing io \<Longrightarrow> in_endgame self \<or> fst ` set (active_lookups self) \<subseteq> set tids \<Longrightarrow>
   fire_timeouts now tids (self, t, io) = (self', t', io') \<Longrightarrow> lookup_live a self' io' \<and> in_endgame self' \<and> willing io'"
proof (induction tids arbitrary: self t io)
  case Nil
  then show ?case by (auto simp: lookup_live_def)
next
  case (Cons tid tids)
  obtain r self1 t1 io1 where e: "lookup_recv_timeout now tid (self, t, io) = (r, self1, t1, io1)" by (rule prod_cases4)
  have w: "r \<noteq> SearchFailed \<and> willing io1"
  proof (cases "map_of (active_lookups self) tid")
    case None
    then show ?thesis using e Cons.prems(2)
      by (auto simp: lookup_recv_timeout_def hash_remove_def current_lookup_status_def split: if_splits)
  next
    case (Some x)
    then have "endgame_if_idle now current_lookup_status
        (self\<lparr>active_lookups := snd (hash_remove (active_lookups self) tid)\<rparr>, t, io) = (r, self1, t1, io1)"
      using e by (simp add: lookup_recv_timeout_def hash_remove_def)
    from endgame_if_idle_willing [OF this Cons.prems(2)] show ?thesis .
  qed
  have "in_endgame self1 \<or> fst ` set (active_lookups self1) \<subseteq> set tids"
  proof (rule disjCI)
    assume "\<not> fst ` set (active_lookups self1) \<subseteq> set tids"
    with recv_timeout_keys [OF e _ _ Cons.prems(1)] w Cons.prems(3) show "in_endgame self1"
      by (metis Diff_subset_conv Un_insert_left insert_is_Un list.simps(15) sup_bot_left)
  qed
  with Cons.IH [of self1 io1 t1] lookup_recv_timeout_result [OF e Cons.prems(1)] w Cons.prems(4) e show ?case by simp
qed

lemma announce_loop_willing:
  "announce_loop now port nds fatal (self, t, io) = Ok (b, self', t', io') \<Longrightarrow> willing io \<Longrightarrow> b = fatal"
proof (induction nds arbitrary: fatal self t io)
  case (Cons n nds)
  obtain tid g io1 where e1: "next_trans_id (lk_id_generator self) io = (tid, g, io1)" by (rule prod_cases3)
  from Cons.prems e1 obtain tok where tok: "map_of (announce_tokens self) (contact n) = Some tok"
    by (auto split: option.splits)
  let ?msg = "announce_peer_request_encode
      \<lparr>apq_trans_id = trans_id_bytes tid, apq_node_id = lk_table_id self, apq_info_hash = lk_target_id self,
       apq_token = tok, apq_port = Explicit port\<rparr>"
  obtain sent io2 where e2: "out_send (?msg, node_addr n) io1 = (sent, io2)" by (rule prod.exhaust)
  have w: "willing io2" sent using willing_io(1) [OF e1] willing_io(3) [OF e2] Cons.prems(2) by simp_all
  let ?t = "if \<not> (fatal \<or> \<not> sent) then mark_found now (local_request now) n t else t"
  have "announce_loop now port nds (fatal \<or> \<not> sent) (self\<lparr>lk_id_generator := g\<rparr>, ?t, io2) = Ok (b, self', t', io')"
    using Cons.prems(1) e1 e2 tok by (simp add: Let_def)
  from Cons.IH [OF this w(1)] w(2) show ?case by simp
qed simp

lemma recv_finished_willing:
  assumes "willing io"
  shows "\<exists>self' t' io'. lookup_recv_finished now port (self, t, io) = Ok (SearchCompleted, self', t', io')"
proof -
  from lookup_recv_finished_result [of now port self t io] obtain r self' t' io' where
    f: "lookup_recv_finished now port (self, t, io) = Ok (r, self', t', io')" by blast
  moreover have "r = SearchCompleted"
    using f announce_loop_willing [of now port "announce_nodes self" False self t io] assms
    by (auto simp: lookup_recv_finished_def current_lookup_status_def Let_def split: if_splits)
  ultimately show ?thesis by blast
qed

section \<open>Starting a lookup\<close>

lemma pick_initial_ok:
  "sorted_nodes_ok target nds \<Longrightarrow> sorted_nodes_ok target (snd (pick_initial_nodes nds))"
proof -
  have m: "map fst (snd (pick_initial_nodes nds)) = map fst nds" for nds :: "(distance \<times> node \<times> bool) list"
  proof -
    have "map fst (take INITIAL_PICK_NUM nds) @ map fst (drop INITIAL_PICK_NUM nds) = map fst nds"
      by (metis append_take_drop_id map_append)
    then show ?thesis by (simp add: pick_initial_nodes_def o_def case_prod_unfold)
  qed
  have "e \<in> set (snd (pick_initial_nodes nds)) \<Longrightarrow> \<exists>b. (fst e, fst (snd e), b) \<in> set nds" for e
    by (cases e) (auto simp: pick_initial_nodes_def dest!: in_set_takeD in_set_dropD)
  with m show "sorted_nodes_ok target nds \<Longrightarrow> sorted_nodes_ok target (snd (pick_initial_nodes nds))"
    by (fastforce simp: sorted_nodes_ok_def)
qed

lemma lookup_new_eq:
  assumes "table_wf t"
  obtains found where "mset found = mset (filter (\<lambda>n. status now n = Good) (usable_nodes now t))"
    "lookup_new pick now ident target g announce t io =
       (let nds = fold (\<lambda>n nds. insert_sorted_node pick nds target n False) (take MAX_BUCKET_SIZE found) [];
            picks = map (\<lambda>(n, _). (n, bitxor (node_ident n) target)) (filter snd (fst (pick_initial_nodes nds)));
            self = \<lparr>lk_table_id = ident, lk_target_id = target, in_endgame = False, recv_values = False,
                    lk_id_generator = g, will_announce = announce, active_lookups = [], announce_tokens = [],
                    requested_nodes = [], all_sorted_nodes = snd (pick_initial_nodes nds)\<rparr>
        in case request_round now picks 0 (self, t, io) of
             (st, self, t', io') \<Rightarrow> Ok (if st \<noteq> SearchFailed then Some self else None, t', io'))"
proof -
  from closest_with_status_eq [OF assms, of now Good target] obtain found where
    f: "mset found = mset (filter (\<lambda>n. status now n = Good) (usable_nodes now t))"
    "closest_with_status now Good t target = Ok found" by blast
  show ?thesis by (rule that [OF f(1)]) (simp add: lookup_new_def f(2) start_request_round_def Let_def case_prod_unfold)
qed

lemma lookup_new_result:
  assumes wf: "table_wf t" and g: "mid_inv a g"
  shows "\<exists>l t' io'. lookup_new pick now ident target g announce t io = Ok (l, t', io') \<and> evolves (t, io) (t', io') \<and>
    (\<forall>self. l = Some self \<longrightarrow> lookup_inv a self io' \<and> lk_target_id self = target \<and> \<not> in_endgame self \<and>
      ((\<exists>n \<in> set (usable_nodes now t). status now n = Good) \<longrightarrow> lookup_live a self io'))"
proof -
  obtain found where f: "mset found = mset (filter (\<lambda>n. status now n = Good) (usable_nodes now t))"
    "lookup_new pick now ident target g announce t io =
       (let nds = fold (\<lambda>n nds. insert_sorted_node pick nds target n False) (take MAX_BUCKET_SIZE found) [];
            picks = map (\<lambda>(n, _). (n, bitxor (node_ident n) target)) (filter snd (fst (pick_initial_nodes nds)));
            self = \<lparr>lk_table_id = ident, lk_target_id = target, in_endgame = False, recv_values = False,
                    lk_id_generator = g, will_announce = announce, active_lookups = [], announce_tokens = [],
                    requested_nodes = [], all_sorted_nodes = snd (pick_initial_nodes nds)\<rparr>
        in case request_round now picks 0 (self, t, io) of
             (st, self, t', io') \<Rightarrow> Ok (if st \<noteq> SearchFailed then Some self else None, t', io'))"
    by (rule lookup_new_eq [OF wf])
  let ?nds = "fold (\<lambda>n nds. insert_sorted_node pick nds target n False) (take MAX_BUCKET_SIZE found) []"
  let ?picks = "map (\<lambda>(n, _). (n, bitxor (node_ident n) target)) (filter snd (fst (pick_initial_nodes ?nds)))"
  let ?self = "\<lparr>lk_table_id = ident, lk_target_id = target, in_endgame = False, recv_values = False,
      lk_id_generator = g, will_announce = announce, active_lookups = [], announce_tokens = [],
      requested_nodes = [], all_sorted_nodes = snd (pick_initial_nodes ?nds)\<rparr>"
  have nds: "sorted_nodes_ok target ?nds"
    using fold_insert_sorted_ok [of target "[]" pick "\<lambda>n. n" "\<lambda>n. False" "take MAX_BUCKET_SIZE found"]
    by (simp add: sorted_nodes_ok_def)
  then have inv: "lookup_inv a ?self io" using pick_initial_ok [OF nds] g by (simp add: lookup_inv_def hash_wf_def)
  obtain r self t' io' where r: "request_round now ?picks 0 (?self, t, io) = (r, self, t', io')" by (rule prod_cases4)
  have picks: "?picks \<noteq> []" if "found \<noteq> []"
  proof -
    obtain n ns where "take MAX_BUCKET_SIZE found = n # ns"
      using \<open>found \<noteq> []\<close> by (cases found) (auto simp: MAX_BUCKET_SIZE_def)
    then have "?nds = fold (\<lambda>n nds. insert_sorted_node pick nds target n False) ns (insert_sorted_node pick [] target n False)" by simp
    moreover have "set xs \<subseteq> set (fold (\<lambda>n nds. insert_sorted_node pick nds target n False) ns xs)" for xs
    proof (induction ns arbitrary: xs)
      case (Cons m ns)
      have "set xs \<subseteq> set (insert_sorted_node pick xs target m False)"
        by (auto simp: insert_sorted_node_def Let_def split: sum.split)
      with Cons show ?case by fastforce
    qed simp
    moreover have "insert_sorted_node pick [] target n False \<noteq> []"
      by (simp add: insert_sorted_node_def binary_search_def vec_insert_def Let_def)
    ultimately have "?nds \<noteq> []" by (metis all_not_in_conv set_empty subset_empty)
    then show ?thesis by (cases ?nds) (auto simp: pick_initial_nodes_def INITIAL_PICK_NUM_def)
  qed
  have "found \<noteq> []" if "\<exists>n \<in> set (usable_nodes now t). status now n = Good"
    using that mset_eq_setD [OF f(1)] by auto
  then show ?thesis
    using f(2) r request_round_evolves [OF r] request_round_inv [OF r inv] picks
    by (auto simp: same_search_def lookup_live_def Let_def)
qed

section \<open>The endgame asks every node\<close>

definition unasked :: "(distance \<times> node \<times> bool) list \<Rightarrow> node list" where
  "unasked nds = map (\<lambda>(d, n, req). n) (filter (\<lambda>(d, n, req). \<not> req) nds)"

lemma io_sent_step:
  "next_trans_id g io = (tid, g', io') \<Longrightarrow> io_sent io' = io_sent io"
  "timeout_ms data delay io = (r, io') \<Longrightarrow> io_sent io' = io_sent io"
  "out_send msg io = (True, io') \<Longrightarrow> io_sent io' = io_sent io @ [msg]"
  by (auto simp: next_trans_id_def timeout_ms_def out_send_def split: prod.splits if_splits)

lemma endgame_loop_sends:
  "endgame_loop now tmo fin nds (self, t, io) = (r, self', t', io') \<Longrightarrow> willing io \<Longrightarrow>
   map snd (io_sent io') = map snd (io_sent io) @ map node_addr (unasked nds) \<and>
   all_sorted_nodes self' = fin @ map (\<lambda>(d, n, req). (d, n, True)) nds"
proof (induction nds arbitrary: fin self t io)
  case (Cons e nds)
  obtain d n req where e: "e = (d, n, req)" by (rule prod_cases3)
  show ?case
  proof (cases req)
    case True
    with Cons.IH [of "fin @ [(d, n, True)]" self t io] Cons.prems e show ?thesis by (simp add: unasked_def)
  next
    case False
    obtain tid g io1 where e1: "next_trans_id (lk_id_generator self) io = (tid, g, io1)" by (rule prod_cases3)
    let ?self = "self\<lparr>lk_id_generator := g, active_lookups := snd (hash_insert (active_lookups self) tid (d, tmo))\<rparr>"
    obtain sent io2 where e2: "out_send (lookup_message tid ?self, node_addr n) io1 = (sent, io2)" by (rule prod.exhaust)
    have w: "willing io2" "sent" using willing_io(1) [OF e1] willing_io(3) [OF e2] Cons.prems(2) by simp_all
    have "endgame_loop now tmo (fin @ [(d, n, True)]) nds (?self, mark_found now (local_request now) n t, io2) = (r, self', t', io')"
      using Cons.prems(1) e e1 e2 False w(2) by simp
    from Cons.IH [OF this w(1)] io_sent_step(1) [OF e1] io_sent_step(3) [of "(lookup_message tid ?self, node_addr n)" io1 io2] e2 w(2) e False
    show ?thesis by (simp add: unasked_def)
  qed
qed (auto simp: unasked_def)

section \<open>Nodes to ask next\<close>

lemma insert_closest_hd:
  assumes "nds = (m, True) # rest"
  shows "\<exists>m' rest'. insert_closest_nodes nds target n = (m', True) # rest' \<and>
    bitxor target (node_ident m') = min (bitxor target (node_ident m)) (bitxor target (node_ident n))"
  using assms by (auto simp: min_def not_less)

lemma fold_insert_closest_hd:
  "\<exists>m' rest'. fold (\<lambda>(ident, v4_addr) nds. insert_closest_nodes nds target (as_questionable now ident (V4 v4_addr))) infos ((m, True) # rest)
      = (m', True) # rest' \<and>
    bitxor target (node_ident m') \<le> bitxor target (node_ident m) \<and> (\<forall>c \<in> set infos. bitxor target (node_ident m') \<le> bitxor target (fst c))"
proof (induction infos arbitrary: m rest)
  case (Cons c infos)
  obtain ident v4 where c: "c = (ident, v4)" by (rule prod.exhaust)
  obtain m1 rest1 where m1: "insert_closest_nodes ((m, True) # rest) target (as_questionable now ident (V4 v4)) = (m1, True) # rest1"
    "bitxor target (node_ident m1) = min (bitxor target (node_ident m)) (bitxor target ident)"
    using insert_closest_hd [OF refl, of m rest target "as_questionable now ident (V4 v4)"] by (auto simp: as_questionable_def)
  from Cons.IH [of m1 rest1] m1 c show ?case by (fastforce simp: simp del: insert_closest_nodes.simps)
qed simp

lemma length_insert_closest [simp]: "length (insert_closest_nodes nds target n) = length nds"
  by (induction nds target n rule: insert_closest_nodes.induct) auto

lemma length_pick_iterate: "length (pick_iterate_nodes now infos target) = 3"
proof -
  have "length (fold (\<lambda>(ident, v4_addr) nds. insert_closest_nodes nds target (as_questionable now ident (V4 v4_addr))) infos nds) = length nds" for nds
    by (induction infos arbitrary: nds) auto
  then show ?thesis by (simp add: pick_iterate_nodes_def ITERATIVE_PICK_NUM_def)
qed

section \<open>Properties\<close>

text \<open>Sample states: a lookup of action 0 that awaits one response.\<close>

definition sample_io :: worker_io where
  "sample_io = \<lparr>io_timers = \<lambda>k. Some k, io_calls = [TimeoutMs 0 (CheckLookupTimeout (transaction_id_new 0)) LOOKUP_TIMEOUT_MS],
     io_out_ok = \<lambda>k. True, io_sent = [], io_listening = \<lambda>k. True, io_events = [], io_connects = [],
     io_rnds = \<lambda>k j. 0, io_drawn = 0\<rparr>"

definition sample_lookup :: table_lookup where
  "sample_lookup = \<lparr>lk_table_id = ShaHash (replicate 20 0), lk_target_id = ShaHash (replicate 20 1), in_endgame = False,
     recv_values = False, lk_id_generator = mid_generator_new 0, will_announce = True,
     active_lookups = [(transaction_id_new 0, ShaHash (replicate 20 2), 0)], announce_tokens = [], requested_nodes = [],
     all_sorted_nodes = []\<rparr>"

lemma sample_live: "lookup_live 0 sample_lookup sample_io"
proof -
  have "mid_inv 0 (mid_generator_new 0)" by (simp add: mid_inv_def mid_generator_new_def)
  moreover have "id_of_action 0 (transaction_id_new 0)" using transaction_id_new_parts(2) [of 0 0] by simp
  ultimately show ?thesis
    by (simp add: lookup_live_def lookup_inv_def sample_lookup_def sample_io_def sorted_nodes_ok_def hash_wf_def)
qed

lemma sample_willing: "willing sample_io"
  by (simp add: willing_def sample_io_def)

text \<open>C24: A search never gets stuck: as long as the event loop and the channel take what they are given, every
  response, whatever it contains, and every timeout leaves the lookup with the endgame timer set or with
  requests that all have their own timer, under ids of this lookup; its list of nodes stays sorted by
  distance. No response makes it panic.\<close>

theorem lookup_keeps_going:
  assumes "lookup_live a self io" and "info_valid (gps_info_type msg)"
  shows "(\<exists>r self' t' io'. lookup_recv_response pick now n tid msg (self, t, io) = Ok (r, self', t', io') \<and>
      (r = SearchFailed \<or> lookup_live a self' io' \<and> r \<noteq> SearchCompleted)) \<and>
    (case lookup_recv_timeout now tid (self, t, io) of
       (r, self', t', io') \<Rightarrow> r = SearchFailed \<or> lookup_live a self' io' \<and> r = Searching)"
proof
  show "\<exists>r self' t' io'. lookup_recv_response pick now n tid msg (self, t, io) = Ok (r, self', t', io') \<and>
      (r = SearchFailed \<or> lookup_live a self' io' \<and> r \<noteq> SearchCompleted)"
    using lookup_recv_response_result [OF assms, of pick now n tid t] by blast
  show "case lookup_recv_timeout now tid (self, t, io) of
       (r, self', t', io') \<Rightarrow> r = SearchFailed \<or> lookup_live a self' io' \<and> r = Searching"
    using lookup_recv_timeout_result [OF _ assms(1)] by (auto split: prod.split)
qed

theorem lookup_keeps_going_witness:
  "\<exists>r self' t' io'. lookup_recv_response (\<lambda>_ _. 0) 5 (as_good 5 (ShaHash (replicate 20 3)) default_route_v4) (transaction_id_new 0)
      \<lparr>gps_trans_id = trans_id_bytes (transaction_id_new 0), gps_node_id = ShaHash (replicate 20 3), gps_token = None,
       gps_info_type = InfoNodes \<lparr>compact_nodes = replicate 26 7\<rparr>\<rparr> (sample_lookup, sample_table, sample_io) = Ok (r, self', t', io') \<and>
    (r = SearchFailed \<or> lookup_live 0 self' io' \<and> r \<noteq> SearchCompleted)"
  using lookup_keeps_going [OF sample_live, of
      "\<lparr>gps_trans_id = trans_id_bytes (transaction_id_new 0), gps_node_id = ShaHash (replicate 20 3), gps_token = None,
        gps_info_type = InfoNodes \<lparr>compact_nodes = replicate 26 7\<rparr>\<rparr>"]
  by (simp add: nodes_valid_def compact_consts)

text \<open>C25: A search ends: when no response comes and its pending timers fire, it is in the endgame, and when the
  endgame timer fires it is complete.\<close>

theorem lookup_completes:
  assumes "lookup_live a self io" and "willing io" and "fst ` set (active_lookups self) \<subseteq> set tids"
  shows "\<exists>self' t' io'. fire_timeouts now tids (self, t, io) = (self', t', io') \<and> in_endgame self' \<and>
    (\<exists>tid. TimeoutMs 0 (CheckLookupEndGame tid) ENDGAME_TIMEOUT_MS \<in> set (io_calls io') \<and> transaction_action_id tid = ActionID a) \<and>
    (\<exists>self'' t'' io''. lookup_recv_finished now' port (self', t', io') = Ok (SearchCompleted, self'', t'', io''))"
proof -
  obtain self' t' io' where f: "fire_timeouts now tids (self, t, io) = (self', t', io')" by (rule prod_cases3)
  from fire_timeouts_endgame [OF assms(1,2) disjI2 [OF assms(3)] f]
  have "lookup_live a self' io'" "in_endgame self'" "willing io'" by simp_all
  then show ?thesis using f recv_finished_willing [of io' now' port self' t'] id_of_action_id
    by (fastforce simp: lookup_live_def lookup_inv_def)
qed

theorem lookup_completes_witness:
  "\<exists>self' t' io'. fire_timeouts 9 [transaction_id_new 0] (sample_lookup, sample_table, sample_io) = (self', t', io') \<and> in_endgame self' \<and>
    (\<exists>tid. TimeoutMs 0 (CheckLookupEndGame tid) ENDGAME_TIMEOUT_MS \<in> set (io_calls io') \<and> transaction_action_id tid = ActionID 0) \<and>
    (\<exists>self'' t'' io''. lookup_recv_finished 10 6881 (self', t', io') = Ok (SearchCompleted, self'', t'', io''))"
  by (rule lookup_completes [OF sample_live sample_willing]) (simp add: sample_lookup_def)

text \<open>When no values came without nodes, the endgame sends one request to every known node that was not asked
  before, the closest first, and marks them all as asked.\<close>

theorem endgame_asks_everyone:
  assumes "willing io" and "\<not> recv_values self"
  shows "case start_endgame_round now (self, t, io) of
    (r, self', t', io') \<Rightarrow> r = Searching \<and>
      map snd (io_sent io') = map snd (io_sent io) @ map node_addr (unasked (all_sorted_nodes self)) \<and>
      all_sorted_nodes self' = map (\<lambda>(d, n, req). (d, n, True)) (all_sorted_nodes self)"
proof -
  obtain tid g io1 where e1: "next_trans_id (lk_id_generator self) io = (tid, g, io1)" by (rule prod_cases3)
  let ?self = "self\<lparr>in_endgame := True, lk_id_generator := g\<rparr>"
  obtain tmo io2 where e2: "timeout_ms (0, CheckLookupEndGame tid) ENDGAME_TIMEOUT_MS io1 = (tmo, io2)" by (rule prod.exhaust)
  obtain tm where w: "willing io2" "tmo = Some tm" using willing_io(1) [OF e1] willing_io(2) [OF e2] assms(1) by auto
  obtain r self' t' io' where l: "endgame_loop now tm [] (all_sorted_nodes self) (?self, t, io2) = (r, self', t', io')"
    by (rule prod_cases4)
  have "start_endgame_round now (self, t, io) = (r, self', t', io')"
    using e1 e2 w l assms(2) by (simp add: start_endgame_round_def)
  with endgame_loop_willing [OF l w(1)] endgame_loop_sends [OF l w(1)] io_sent_step(1) [OF e1] io_sent_step(2) [OF e2]
  show ?thesis by simp
qed

theorem endgame_asks_everyone_witness:
  "case start_endgame_round 5 (sample_lookup\<lparr>all_sorted_nodes := [(ShaHash (replicate 20 6), sample_node 5, False)]\<rparr>, sample_table, sample_io) of
    (r, self', t', io') \<Rightarrow> r = Searching \<and> map snd (io_sent io') = [node_addr (sample_node 5)] \<and>
      all_sorted_nodes self' = [(ShaHash (replicate 20 6), sample_node 5, True)]"
  using endgame_asks_everyone [OF sample_willing,
      of "sample_lookup\<lparr>all_sorted_nodes := [(ShaHash (replicate 20 6), sample_node 5, False)]\<rparr>" 5 sample_table]
  by (simp add: sample_lookup_def sample_io_def unasked_def)

text \<open>Among the nodes of a response that were not asked yet, the first of the three picked for the next round is
  the closest one to the target.\<close>

theorem pick_iterate_closest:
  assumes "infos \<noteq> []"
  shows "length (pick_iterate_nodes now infos target) = 3 \<and> snd (hd (pick_iterate_nodes now infos target)) \<and>
    (\<forall>c \<in> set infos. bitxor target (node_ident (fst (hd (pick_iterate_nodes now infos target)))) \<le> bitxor target (fst c))"
proof -
  obtain ident v4 rest where i: "infos = (ident, v4) # rest" using assms by (cases infos) auto
  have "pick_iterate_nodes now infos target =
      fold (\<lambda>(ident, v4_addr) nds. insert_closest_nodes nds target (as_questionable now ident (V4 v4_addr))) rest
        ((as_questionable now ident (V4 v4), True) # [default_pick, default_pick])"
    unfolding pick_iterate_nodes_def i by (simp add: ITERATIVE_PICK_NUM_def numeral_3_eq_3 default_pick_def)
  with fold_insert_closest_hd [of target now rest "as_questionable now ident (V4 v4)" "[default_pick, default_pick]"]
  show ?thesis using length_pick_iterate [of now infos target] i by (auto simp: as_questionable_def)
qed

theorem pick_iterate_closest_witness:
  "snd (hd (pick_iterate_nodes 5 [(ShaHash [4], \<lparr>v4_ip = Ipv4Addr 10 0 0 1, v4_port = 1\<rparr>)] (ShaHash [0])))"
  using pick_iterate_closest [of "[(ShaHash [4], \<lparr>v4_ip = Ipv4Addr 10 0 0 1, v4_port = 1\<rparr>)]" 5 "ShaHash [0]"] by simp

text \<open>The other two are not the next closest ones: a node closer than the first replaces it instead of moving it down.
  Of nodes at distance 5, 6, 7 and 1 in this order, those at 1, 6 and 7 are picked, and the one at 5 is lost.\<close>

lemma pick_iterate_loses_closer:
  "map (sha_bytes \<circ> node_ident \<circ> fst) (pick_iterate_nodes now
     (map (\<lambda>d. (ShaHash [d], \<lparr>v4_ip = Ipv4Addr 10 0 0 1, v4_port = 1\<rparr>)) [5, 6, 7, 1]) (ShaHash [0])) = [[1], [6], [7]]"
  by (simp add: pick_iterate_nodes_def ITERATIVE_PICK_NUM_def numeral_3_eq_3 default_pick_def as_questionable_def
      bitxor_def less_sha_hash_def)

text \<open>C26: A lookup on a table without a good node is created although it sends nothing and schedules no timer,
  so nothing it did can wake it up. It never gets further: a response or a timeout that carries its
  action id, whenever and from whomever it comes, changes neither the lookup, the table nor the
  surroundings, and is answered with the status of a completed search that never asked a node.\<close>

theorem lookup_without_nodes_idle:
  assumes "table_wf t" and "\<forall>n \<in> set (usable_nodes now t). status now n \<noteq> Good"
  shows "\<exists>self. lookup_new pick now ident target g announce t io = Ok (Some self, t, io) \<and> \<not> in_endgame self \<and>
    (\<forall>pick' now' n tid msg t' io'.
       lookup_recv_response pick' now' n tid msg (self, t', io') = Ok (SearchCompleted, self, t', io') \<and>
       lookup_recv_timeout now' tid (self, t', io') = (SearchCompleted, self, t', io'))"
proof -
  obtain found where f: "mset found = mset (filter (\<lambda>n. status now n = Good) (usable_nodes now t))"
    "lookup_new pick now ident target g announce t io =
       (let nds = fold (\<lambda>n nds. insert_sorted_node pick nds target n False) (take MAX_BUCKET_SIZE found) [];
            picks = map (\<lambda>(n, _). (n, bitxor (node_ident n) target)) (filter snd (fst (pick_initial_nodes nds)));
            self = \<lparr>lk_table_id = ident, lk_target_id = target, in_endgame = False, recv_values = False,
                    lk_id_generator = g, will_announce = announce, active_lookups = [], announce_tokens = [],
                    requested_nodes = [], all_sorted_nodes = snd (pick_initial_nodes nds)\<rparr>
        in case request_round now picks 0 (self, t, io) of
             (st, self, t', io') \<Rightarrow> Ok (if st \<noteq> SearchFailed then Some self else None, t', io'))"
    by (rule lookup_new_eq [OF assms(1)])
  from f(1) assms(2) have "found = []" by (simp add: filter_False)
  with f(2) show ?thesis
    by (simp add: pick_initial_nodes_def default_pick_def INITIAL_PICK_NUM_def current_lookup_status_def
        lookup_recv_response_def lookup_recv_timeout_def hash_remove_def)
qed

theorem lookup_without_nodes_idle_witness:
  "\<exists>self. lookup_new (\<lambda>_ _. 0) 5 (ShaHash (replicate 20 0)) (ShaHash (replicate 20 1)) (mid_generator_new 0) True sample_table sample_io =
      Ok (Some self, sample_table, sample_io) \<and>
    lookup_recv_timeout 9 (transaction_id_new 0) (self, sample_table, sample_io) = (SearchCompleted, self, sample_table, sample_io)"
proof -
  have "\<forall>n \<in> set (usable_nodes 5 sample_table). status 5 n \<noteq> Good"
    by (auto simp: usable_nodes_set sample_table_def routing_table_new_def bucket_new_def)
  from lookup_without_nodes_idle [OF sample_wf this] show ?thesis by blast
qed

end
