(* ===== verification/Dht_Bootstrap_Props.thy ===== *)
theory Dht_Bootstrap_Props
  imports Dht_Bootstrap Dht_Lookup_Props
begin

text \<open>
  Properties of the bootstrap and of the refresh: the target of a bucket lies in that bucket, the
  bootstrap goes on until it has a request out or has come to the last bucket, and neither panics.
\<close>

section \<open>Targets\<close>

lemma bit_flip_nth:
  fixes x :: u8
  shows "bit (x XOR push_bit k 1) j = (bit x j \<noteq> (j = k \<and> j < 8))"
  by (auto simp: bit_simps)

lemma flip_Ok:
  assumes "length (sha_bytes ident) = 20" and "k < 160"
  shows "flip_id_bit_at_index ident k =
    Ok (ShaHash ((sha_bytes ident)[k div 8 := sha_bytes ident ! (k div 8) XOR push_bit (7 - k mod 8) 1]))"
  using assms by (simp add: flip_id_bit_at_index_def index_slice_def Let_def)

text \<open>The ids differ in exactly the bit of the bucket.\<close>

lemma flip_msb:
  assumes "length (sha_bytes ident) = 20" and "k < 160" and "flip_id_bit_at_index ident k = Ok target" and "p < 160"
  shows "msb_bit (sha_bytes (bitxor ident target)) p = (p = k)"
proof -
  let ?b = "sha_bytes ident ! (k div 8) XOR push_bit (7 - k mod 8) 1"
  have t: "sha_bytes target = (sha_bytes ident)[k div 8 := ?b]" using assms(3) flip_Ok [OF assms(1,2)] by auto
  have "sha_bytes (bitxor ident target) ! (p div 8) = sha_bytes ident ! (p div 8) XOR sha_bytes target ! (p div 8)"
    by (rule bitxor_nth) (use assms(1,4) t in auto)
  then have x: "sha_bytes (bitxor ident target) ! (p div 8) = (if p div 8 = k div 8 then push_bit (7 - k mod 8) 1 else 0)"
    using assms(1,4) t by (simp add: nth_list_update xor.assoc [symmetric])
  have "p = k" if "p div 8 = k div 8" "7 - p mod 8 = 7 - k mod 8"
  proof -
    have "p mod 8 \<le> 7" "k mod 8 \<le> 7" using mod_less_divisor [of 8 p] mod_less_divisor [of 8 k] by simp_all
    with that(2) have "p mod 8 = k mod 8" by simp
    with that(1) show "p = k" by (metis div_mult_mod_eq)
  qed
  then show ?thesis unfolding msb_bit_def x by (auto simp: bit_simps)
qed

lemma takeWhile_single:
  assumes "k < n"
  shows "length (takeWhile Not (map (\<lambda>p. p = k) [0..<n])) = k"
proof -
  have "takeWhile Not (map (\<lambda>p. p = k) [0..<n]) = map (\<lambda>p. p = k) [0..<k]"
  proof -
    have "[0..<n] = [0..<k] @ k # [Suc k..<n]" using assms by (metis le_add_diff_inverse less_imp_le_nat upt_add_eq_append upt_conv_Cons zero_le)
    then show ?thesis by (simp, subst takeWhile_append2) auto
  qed
  then show ?thesis by simp
qed

lemma flip_shares_bits:
  assumes "length (sha_bytes ident) = 20" and "k < 160" and "flip_id_bit_at_index ident k = Ok target"
  shows "leading_bit_count ident target = k"
proof -
  have len: "length (sha_bytes (bitxor ident target)) = 20"
    using assms flip_Ok [OF assms(1,2)] by (auto intro: length_bitxor [THEN trans])
  have "msb_bits (sha_bytes (bitxor ident target)) = map (\<lambda>p. p = k) [0..<160]"
    using flip_msb [OF assms] len by (simp add: msb_bits_def)
  then show ?thesis
    using count_unset_leading [of "sha_bytes (bitxor ident target)" 161] len takeWhile_single [OF assms(2)]
    by (simp add: leading_bit_count_def sha_bits_def MAX_BUCKETS_def SHA_HASH_LEN_def del: count_unset.simps)
qed

section \<open>Steps of the bootstrap\<close>

lemma bootstrap_nodes_result:
  assumes "table_wf t"
  shows "\<exists>nds. bootstrap_nodes now k target t = Ok nds \<and> (\<forall>n \<in> set nds. status now n = Questionable)"
proof (cases "k = 0 \<or> k = 1")
  case True
  obtain found where f: "mset found = mset (filter (\<lambda>n. status now n = Questionable) (usable_nodes now t))"
    "closest_with_status now Questionable t target = Ok found" by (rule closest_with_status_eq [OF assms])
  then show ?thesis using True mset_eq_setD [OF f(1)] by (auto simp: bootstrap_nodes_def)
qed (auto simp: bootstrap_nodes_def Let_def)

text \<open>The awaited responses of the bootstrap have their timers.\<close>

definition bootstrap_timed :: "table_bootstrap \<Rightarrow> worker_io \<Rightarrow> bool" where
  "bootstrap_timed self io \<longleftrightarrow> (\<forall>tid \<in> fst ` set (active_messages self). \<exists>d.
     TimeoutMs d (CheckBootstrapTimeout tid) d \<in> set (io_calls io))"

lemma bootstrap_timed_mono: "bootstrap_timed self io \<Longrightarrow> set (io_calls io) \<subseteq> set (io_calls io') \<Longrightarrow> bootstrap_timed self io'"
  unfolding bootstrap_timed_def by blast

lemma evolves_subset: "evolves (t, io) (t', io') \<Longrightarrow> set (io_calls io) \<subseteq> set (io_calls io')"
  by (simp add: evolves_def set_mono_prefix)

lemma bootstrap_send_result:
  "bootstrap_send now target nds k (self, t, io) = (r, self', t', io') \<Longrightarrow> \<forall>n \<in> set nds. status now n \<noteq> Bad \<Longrightarrow>
   bootstrap_timed self io \<Longrightarrow>
   evolves (t, io) (t', io') \<and>
   (\<forall>m. r = Some m \<longrightarrow> m = k + length nds \<and> bootstrap_timed self' io' \<and>
      (nds \<noteq> [] \<or> active_messages self \<noteq> [] \<longrightarrow> active_messages self' \<noteq> []))"
proof (induction nds arbitrary: k self t io)
  case (Cons n nds)
  obtain tid g io1 where e1: "next_trans_id (bs_id_generator self) io = (tid, g, io1)" by (rule prod_cases3)
  obtain tmo io2 where e2: "timeout_ms (BOOTSTRAP_NODE_TIMEOUT, CheckBootstrapTimeout tid) BOOTSTRAP_NODE_TIMEOUT io1 = (tmo, io2)"
    by (rule prod.exhaust)
  let ?self1 = "self\<lparr>bs_id_generator := g\<rparr>"
  obtain sent io3 where e3: "out_send (find_node_message tid (bs_table_id ?self1) target, node_addr n) io2 = (sent, io3)"
    by (rule prod.exhaust)
  have ev2: "evolves (t, io) (t, io2)" by (rule evolves_trans [OF evolves_io(1) [OF e1] evolves_io(3) [OF e2]])
  have ev3: "evolves (t, io) (t, io3)" by (rule evolves_trans [OF ev2 evolves_io(4) [OF e3]])
  show ?case
  proof (cases "tmo = None \<or> \<not> sent")
    case True
    then show ?thesis using Cons.prems(1) e1 e2 e3 ev2 ev3 by (cases tmo) (auto simp: Let_def)
  next
    case False
    then obtain tm where tm: "tmo = Some tm" sent by auto
    let ?self2 = "?self1\<lparr>active_messages := snd (hash_insert (active_messages ?self1) tid tm)\<rparr>"
    let ?t = "mark (local_request now) n t"
    have "bootstrap_send now target nds (Suc k) (?self2, ?t, io3) = (r, self', t', io')"
      using Cons.prems(1) e1 e2 e3 tm by simp
    moreover have "bootstrap_timed ?self2 io3"
    proof -
      have "TimeoutMs BOOTSTRAP_NODE_TIMEOUT (CheckBootstrapTimeout tid) BOOTSTRAP_NODE_TIMEOUT \<in> set (io_calls io2)"
        using e2 by (auto simp: timeout_ms_def)
      moreover have "set (io_calls io2) \<subseteq> set (io_calls io3)" "set (io_calls io) \<subseteq> set (io_calls io3)"
        using evolves_subset [OF evolves_io(4) [where t = t, OF e3]] evolves_subset [OF ev3] .
      ultimately show ?thesis using Cons.prems(3) unfolding bootstrap_timed_def by simp blast
    qed
    moreover have "evolves (t, io) (?t, io3)"
      using evolves_trans [OF ev3 evolves_mark(2) [of "local_request now" now n t io3]] Cons.prems(2) by simp
    ultimately show ?thesis using Cons.IH [of "Suc k" ?self2 ?t io3] Cons.prems(2) by (auto intro: evolves_trans)
  qed
qed auto

definition bootstrap_ok :: "table_bootstrap \<Rightarrow> worker_io \<Rightarrow> bool" where
  "bootstrap_ok self io \<longleftrightarrow> length (sha_bytes (bs_table_id self)) = SHA_HASH_LEN \<and>
     curr_bootstrap_bucket self < MAX_BUCKETS \<and> bootstrap_timed self io"

lemma bootstrap_next_bucket_result:
  "table_ok t \<Longrightarrow> bootstrap_ok self io \<Longrightarrow>
   \<exists>r self' t' io'. bootstrap_next_bucket now (self, t, io) = Ok (r, self', t', io') \<and> evolves (t, io) (t', io') \<and>
     starting_routers self' = starting_routers self \<and> bs_table_id self' = bs_table_id self \<and>
     (r = BootstrapFailure \<or> curr_bootstrap_bucket self < curr_bootstrap_bucket self' \<and>
       (r = BootstrapDone \<and> curr_bootstrap_bucket self' = MAX_BUCKETS \<or>
        r = Bootstrapping \<and> bootstrap_ok self' io' \<and> active_messages self' \<noteq> []))"
proof (induction now "(self, t, io)" arbitrary: self t io rule: bootstrap_next_bucket.induct)
  case (1 now self t io)
  from 1(3) have ok: "length (sha_bytes (bs_table_id self)) = 20" "curr_bootstrap_bucket self < 160" "bootstrap_timed self io"
    by (simp_all add: bootstrap_ok_def SHA_HASH_LEN_def MAX_BUCKETS_def)
  obtain target where target: "flip_id_bit_at_index (bs_table_id self) (curr_bootstrap_bucket self) = Ok target"
    using flip_Ok [OF ok(1,2)] by blast
  obtain nds where nds: "bootstrap_nodes now (curr_bootstrap_bucket self) target t = Ok nds"
    "\<forall>n \<in> set nds. status now n = Questionable"
    using bootstrap_nodes_result [of t now "curr_bootstrap_bucket self" target] 1(2) by (auto simp: table_ok_def)
  let ?nds = "take BOOTSTRAP_PINGS_PER_BUCKET nds"
  obtain r1 self1 t1 io1 where s: "bootstrap_send now target ?nds 0 (self, t, io) = (r1, self1, t1, io1)" by (rule prod_cases4)
  note frame = bootstrap_send_frame [OF s]
  have q: "\<forall>n \<in> set ?nds. status now n \<noteq> Bad" using nds(2) by (auto dest: in_set_takeD)
  note res = bootstrap_send_result [OF s q ok(3)]
  let ?self2 = "self1\<lparr>curr_bootstrap_bucket := curr_bootstrap_bucket self1 + 1\<rparr>"
  have ok2: "bootstrap_ok ?self2 io1" if "r1 = Some m" "curr_bootstrap_bucket ?self2 \<noteq> MAX_BUCKETS" for m
    using res frame 1(3) that by (auto simp: bootstrap_ok_def bootstrap_timed_def)
  show ?case
  proof (cases r1)
    case None
    with target nds s res frame show ?thesis by (simp add: bootstrap_next_bucket.simps)
  next
    case (Some m)
    show ?thesis
    proof (cases "curr_bootstrap_bucket ?self2 = MAX_BUCKETS")
      case True
      with Some target nds s res frame show ?thesis by (simp add: bootstrap_next_bucket.simps Let_def)
    next
      case notlast: False
      show ?thesis
      proof (cases "m = 0")
        case True
        have "table_ok t1" using res 1(2) by (auto simp: evolves_def)
        from 1(1) [OF target nds(1) s [symmetric] Some refl refl refl notlast True this ok2 [OF Some notlast]]
        obtain r self' t' io' where n: "bootstrap_next_bucket now (?self2, t1, io1) = Ok (r, self', t', io')" "evolves (t1, io1) (t', io')"
          "starting_routers self' = starting_routers ?self2" "bs_table_id self' = bs_table_id ?self2"
          "r = BootstrapFailure \<or> curr_bootstrap_bucket ?self2 < curr_bootstrap_bucket self' \<and>
            (r = BootstrapDone \<and> curr_bootstrap_bucket self' = MAX_BUCKETS \<or>
             r = Bootstrapping \<and> bootstrap_ok self' io' \<and> active_messages self' \<noteq> [])" by blast
        have "bootstrap_next_bucket now (self, t, io) = bootstrap_next_bucket now (?self2, t1, io1)"
          using Some target nds s notlast True by (simp add: bootstrap_next_bucket.simps [of now self t io] Let_def)
        then show ?thesis using n res frame by (auto intro: evolves_trans)
      next
        case False
        have "?nds \<noteq> []" using False res Some by auto
        moreover have "bootstrap_next_bucket now (self, t, io) = Ok (Bootstrapping, ?self2, t1, io1)"
          using Some target nds s notlast False by (simp add: bootstrap_next_bucket.simps [of now self t io] Let_def)
        ultimately show ?thesis using Some res frame ok2 [OF Some notlast] by simp
      qed
    qed
  qed
qed

text \<open>A response or a timeout: the bootstrap waits on, or goes to the next bucket.\<close>

definition bootstrap_after :: "bootstrap_status \<Rightarrow> table_bootstrap \<Rightarrow> table_bootstrap \<Rightarrow> worker_io \<Rightarrow> bool" where
  "bootstrap_after r self self' io' \<longleftrightarrow>
     starting_routers self' = starting_routers self \<and> bs_table_id self' = bs_table_id self \<and>
     (r = BootstrapFailure \<or> r = BootstrapDone \<and> curr_bootstrap_bucket self' = MAX_BUCKETS \<or> bootstrap_ok self' io' \<and>
       (r = Bootstrapping \<and> active_messages self' \<noteq> [] \<or> r = BootstrapIdle \<and> active_messages self' = []))"

lemma bootstrap_status_ok: "bootstrap_ok self io \<Longrightarrow>
   current_bootstrap_status self = (if active_messages self = [] then BootstrapIdle else Bootstrapping)"
  by (auto simp: current_bootstrap_status_def bootstrap_ok_def)

lemma bootstrap_ok_remove:
  "bootstrap_ok self io \<Longrightarrow> bootstrap_ok (self\<lparr>active_messages := snd (hash_remove (active_messages self) tid)\<rparr>) io"
  unfolding bootstrap_ok_def bootstrap_timed_def by (auto dest: hash_remove_subset [THEN subsetD])

lemma bootstrap_ok_mono: "bootstrap_ok self io \<Longrightarrow> set (io_calls io) \<subseteq> set (io_calls io') \<Longrightarrow> bootstrap_ok self io'"
  using bootstrap_timed_mono by (auto simp: bootstrap_ok_def)

lemma bootstrap_go_on:
  assumes "table_ok t" and ok: "bootstrap_ok self io"
  shows "\<exists>r self' t' io'. (if active_messages self = [] then bootstrap_next_bucket now (self, t, io)
      else Ok (current_bootstrap_status self, self, t, io)) = Ok (r, self', t', io') \<and>
    evolves (t, io) (t', io') \<and> bootstrap_after r self self' io'"
proof (cases "active_messages self = []")
  case True
  with bootstrap_next_bucket_result [OF assms, of now] show ?thesis by (auto simp: bootstrap_after_def)
next
  case False
  with ok bootstrap_status_ok [OF ok] show ?thesis by (auto simp: bootstrap_after_def)
qed

lemma bootstrap_recv_timeout_result:
  assumes "table_ok t" and ok: "bootstrap_ok self io"
  shows "\<exists>r self' t' io'. bootstrap_recv_timeout now tid (self, t, io) = Ok (r, self', t', io') \<and>
    evolves (t, io) (t', io') \<and> bootstrap_after r self self' io'"
proof (cases "map_of (active_messages self) tid")
  case None
  then show ?thesis using bootstrap_status_ok [OF ok] ok
    by (auto simp: bootstrap_recv_timeout_def hash_remove_def bootstrap_after_def)
next
  case (Some x)
  define self1 where "self1 = self\<lparr>active_messages := snd (hash_remove (active_messages self) tid)\<rparr>"
  have "bootstrap_recv_timeout now tid (self, t, io) = (if active_messages self1 = [] then bootstrap_next_bucket now (self1, t, io)
      else Ok (current_bootstrap_status self1, self1, t, io))"
    using Some by (simp add: bootstrap_recv_timeout_def hash_remove_def self1_def Let_def)
  moreover have "bootstrap_after r self self' io' = bootstrap_after r self1 self' io'" for r self' io'
    by (simp add: bootstrap_after_def self1_def)
  ultimately show ?thesis
    using bootstrap_go_on [OF assms(1) bootstrap_ok_remove [OF ok, of tid, folded self1_def], of now] by simp
qed

lemma bootstrap_recv_response_result:
  assumes "table_ok t" and ok: "bootstrap_ok self io"
  shows "\<exists>r self' t' io'. bootstrap_recv_response now tid (self, t, io) = Ok (r, self', t', io') \<and>
    evolves (t, io) (t', io') \<and> bootstrap_after r self self' io'"
proof (cases "map_of (active_messages self) tid")
  case None
  then show ?thesis using bootstrap_status_ok [OF ok] ok
    by (auto simp: bootstrap_recv_response_def bootstrap_after_def)
next
  case (Some tmo)
  define self1 where "self1 = (if curr_bootstrap_bucket self \<noteq> 0
    then self\<lparr>active_messages := snd (hash_remove (active_messages self) tid)\<rparr> else self)"
  define io1 where "io1 = (if curr_bootstrap_bucket self \<noteq> 0 then clear_timeout tmo io else io)"
  have ev: "evolves (t, io) (t, io1)" using evolves_io(6) by (simp add: io1_def)
  have "bootstrap_ok self1 io1"
    unfolding self1_def using bootstrap_ok_mono [OF _ evolves_subset [OF ev]] bootstrap_ok_remove [OF ok, of tid] ok by simp
  note go = bootstrap_go_on [OF assms(1) this, of now]
  have "bootstrap_recv_response now tid (self, t, io) = (if active_messages self1 = [] then bootstrap_next_bucket now (self1, t, io1)
      else Ok (current_bootstrap_status self1, self1, t, io1))"
    using Some by (simp add: bootstrap_recv_response_def self1_def io1_def)
  moreover have "bootstrap_after r self self' io' = bootstrap_after r self1 self' io'" for r self' io'
    by (simp add: bootstrap_after_def self1_def)
  ultimately show ?thesis using go evolves_trans [OF ev] by auto
qed

lemma start_bootstrap_result:
  assumes "start_bootstrap (self, io) = (r, self', io')" and "length (sha_bytes (bs_table_id self)) = SHA_HASH_LEN"
  shows "evolves (t, io) (t, io') \<and> starting_routers self' = starting_routers self \<and> bs_table_id self' = bs_table_id self \<and>
    (r = BootstrapFailure \<or> r = Bootstrapping \<and> bootstrap_ok self' io' \<and> active_messages self' \<noteq> [])"
proof -
  have send: "send_to_all msg addrs io = (b, io') \<Longrightarrow> evolves (t, io) (t, io')" for msg addrs io b io'
  proof (induction addrs arbitrary: io)
    case (Cons addr addrs)
    obtain sent io1 where e: "out_send (msg, addr) io = (sent, io1)" by (rule prod.exhaust)
    with Cons evolves_io(4) [OF e] show ?case by (cases sent) (auto intro: evolves_trans)
  qed simp
  define self1 where "self1 = self\<lparr>active_messages := [], curr_bootstrap_bucket := 0\<rparr>"
  obtain tid g io1 where e1: "next_trans_id (bs_id_generator self1) io = (tid, g, io1)" by (rule prod_cases3)
  obtain tmo io2 where e2: "timeout_ms (BOOTSTRAP_INITIAL_TIMEOUT, CheckBootstrapTimeout tid) BOOTSTRAP_INITIAL_TIMEOUT io1 = (tmo, io2)"
    by (rule prod.exhaust)
  have ev2: "evolves (t, io) (t, io2)" by (rule evolves_trans [OF evolves_io(1) [OF e1] evolves_io(3) [OF e2]])
  show ?thesis
  proof (cases tmo)
    case None
    with assms(1) e1 e2 ev2 show ?thesis by (auto simp: start_bootstrap_def Let_def self1_def)
  next
    case (Some tm)
    define self3 where "self3 = self1\<lparr>bs_id_generator := g, active_messages := snd (hash_insert [] tid tm)\<rparr>"
    obtain b io3 where e3: "send_to_all (find_node_message tid (bs_table_id self3) (bs_table_id self3))
        (starting_routers self3 @ starting_nodes self3) io2 = (b, io3)" by (rule prod.exhaust)
    have ev3: "evolves (t, io) (t, io3)" by (rule evolves_trans [OF ev2 send [OF e3]])
    have st: "r = (if b then current_bootstrap_status self3 else BootstrapFailure)" "self' = self3" "io' = io3"
      using assms(1) e1 e2 e3 Some by (cases b; auto simp: start_bootstrap_def Let_def self1_def self3_def)+
    have "TimeoutMs BOOTSTRAP_INITIAL_TIMEOUT (CheckBootstrapTimeout tid) BOOTSTRAP_INITIAL_TIMEOUT \<in> set (io_calls io3)"
      using e2 evolves_subset [OF send [OF e3]] by (auto simp: timeout_ms_def)
    then have ok: "bootstrap_ok self3 io3"
      using assms(2) by (auto simp: bootstrap_ok_def bootstrap_timed_def self3_def self1_def MAX_BUCKETS_def SHA_HASH_LEN_def hash_insert_def)
    show ?thesis using st ev3 ok bootstrap_status_ok [OF ok] by (auto simp: self3_def self1_def)
  qed
qed

section \<open>The refresh\<close>

lemma continue_refresh_result:
  assumes "table_ok t" and "curr_refresh_bucket self \<le> MAX_BUCKETS"
  shows "\<exists>r self' t' io'. continue_refresh now (self, t, io) = Ok (r, self', t', io') \<and> evolves (t, io) (t', io') \<and>
    (r = Refreshing \<longrightarrow> curr_refresh_bucket self' \<le> MAX_BUCKETS \<and>
       (\<exists>tid. TimeoutMs 0 (CheckTableRefresh tid) REFRESH_INTERVAL_TIMEOUT \<in> set (io_calls io')))"
proof -
  define self1 where "self1 = (if curr_refresh_bucket self = MAX_BUCKETS then self\<lparr>curr_refresh_bucket := 0\<rparr> else self)"
  have lt: "curr_refresh_bucket self1 < 160" using assms(2) by (auto simp: self1_def MAX_BUCKETS_def SHA_HASH_LEN_def)
  have len: "length (sha_bytes (table_node_id t)) = 20" using assms(1) by (simp add: table_ok_def SHA_HASH_LEN_def)
  obtain target where target: "flip_id_bit_at_index (table_node_id t) (curr_refresh_bucket self1) = Ok target"
    using flip_Ok [OF len lt] by blast
  obtain nds where nds: "closest_with_status now Questionable t target = Ok nds" "\<forall>n \<in> set nds. status now n = Questionable"
  proof -
    obtain found where f: "mset found = mset (filter (\<lambda>n. status now n = Questionable) (usable_nodes now t))"
      "closest_with_status now Questionable t target = Ok found"
      using assms(1) closest_with_status_eq [of t now Questionable target] by (auto simp: table_ok_def)
    show ?thesis by (rule that [OF f(2)]) (use mset_eq_setD [OF f(1)] in auto)
  qed
  have send: "refresh_send now target ns (self, t, io) = (b, self', t', io') \<Longrightarrow> \<forall>n \<in> set ns. status now n \<noteq> Bad \<Longrightarrow>
      evolves (t, io) (t', io') \<and> curr_refresh_bucket self' = curr_refresh_bucket self" for ns self t io b self' t' io'
  proof (induction ns arbitrary: self t io)
    case (Cons n ns)
    obtain tid g io1 where e1: "next_trans_id (rf_id_generator self) io = (tid, g, io1)" by (rule prod_cases3)
    obtain sent io2 where e2: "out_send (find_node_message tid (table_node_id t) target, node_addr n) io1 = (sent, io2)"
      by (rule prod.exhaust)
    have ev: "evolves (t, io) (t, io2)" by (rule evolves_trans [OF evolves_io(1) [OF e1] evolves_io(4) [OF e2]])
    show ?case
    proof (cases sent)
      case True
      then have "refresh_send now target ns (self\<lparr>rf_id_generator := g\<rparr>, mark (local_request now) n t, io2) = (b, self', t', io')"
        using Cons.prems(1) e1 e2 by simp
      from Cons.IH [OF this] Cons.prems(2) evolves_trans [OF ev evolves_mark(2) [of "local_request now" now n t io2]]
      show ?thesis by (auto intro: evolves_trans)
    next
      case False
      with Cons.prems(1) e1 e2 ev show ?thesis by auto
    qed
  qed simp
  obtain b self2 t2 io2 where s: "refresh_send now target (take 1 nds) (self1, t, io) = (b, self2, t2, io2)" by (rule prod_cases4)
  have "\<forall>n \<in> set (take 1 nds). status now n \<noteq> Bad" using nds(2) in_set_takeD [of _ 1 nds] by fastforce
  from send [OF s this] have ev2: "evolves (t, io) (t2, io2)" "curr_refresh_bucket self2 = curr_refresh_bucket self1"
    by simp_all
  obtain tid g io3 where e3: "next_trans_id (rf_id_generator self2) io2 = (tid, g, io3)" by (rule prod_cases3)
  obtain tmo io4 where e4: "timeout_ms (0, CheckTableRefresh tid) REFRESH_INTERVAL_TIMEOUT io3 = (tmo, io4)" by (rule prod.exhaust)
  have ev4: "evolves (t, io) (t2, io4)"
    by (rule evolves_trans [OF ev2(1) evolves_trans [OF evolves_io(1) [OF e3] evolves_io(3) [OF e4]]])
  have "TimeoutMs 0 (CheckTableRefresh tid) REFRESH_INTERVAL_TIMEOUT \<in> set (io_calls io4)" using e4 by (auto simp: timeout_ms_def)
  moreover have "continue_refresh now (self, t, io) =
      (if \<not> b then Ok (RefreshFailed, self2, t2, io2)
       else case tmo of None \<Rightarrow> Ok (RefreshFailed, self2\<lparr>rf_id_generator := g\<rparr>, t2, io4)
         | Some _ \<Rightarrow> Ok (Refreshing, self2\<lparr>rf_id_generator := g, curr_refresh_bucket := curr_refresh_bucket self2 + 1\<rparr>, t2, io4))"
    unfolding continue_refresh_def prod.case self1_def [symmetric]
    using target nds(1) s e3 e4 by (cases b; cases tmo) (simp_all add: Let_def)
  ultimately show ?thesis using ev2 ev4 lt by (cases tmo) (auto simp: MAX_BUCKETS_def SHA_HASH_LEN_def)
qed

section \<open>Properties\<close>

lemma sample_table_ok: "table_ok sample_table"
  using sample_wf
  by (auto simp: table_ok_def sample_table_def table_contacts_def routing_table_new_def bucket_new_def SHA_HASH_LEN_def)

text \<open>The node id looked for in bucket \<open>k\<close> exists for every bucket and shares exactly its first \<open>k\<close> bits
  with the id of the table, so that it belongs to this bucket.\<close>

theorem bootstrap_target_in_bucket:
  assumes "length (sha_bytes ident) = SHA_HASH_LEN" and "k < MAX_BUCKETS"
  shows "\<exists>target. flip_id_bit_at_index ident k = Ok target \<and> length (sha_bytes target) = SHA_HASH_LEN \<and>
    leading_bit_count ident target = k"
proof -
  have a: "length (sha_bytes ident) = 20" "k < 160" using assms by (simp_all add: SHA_HASH_LEN_def MAX_BUCKETS_def)
  with flip_Ok [OF a] flip_shares_bits [OF a] show ?thesis by (simp add: SHA_HASH_LEN_def)
qed

theorem bootstrap_target_in_bucket_witness:
  "\<exists>target. flip_id_bit_at_index (ShaHash (replicate 20 9)) 77 = Ok target \<and> length (sha_bytes target) = SHA_HASH_LEN \<and>
    leading_bit_count (ShaHash (replicate 20 9)) target = 77"
  by (rule bootstrap_target_in_bucket) (simp_all add: SHA_HASH_LEN_def MAX_BUCKETS_def)

text \<open>C27: Going to the next bucket always ends: the bootstrap has failed, or it has passed the last bucket, or it has
  come to a later bucket and waits for responses, each of which has a timer that brings it forward.\<close>

theorem bootstrap_advances:
  assumes "table_ok t" and "bootstrap_ok self io"
  shows "\<exists>r self' t' io'. bootstrap_next_bucket now (self, t, io) = Ok (r, self', t', io') \<and> table_ok t' \<and>
     (r = BootstrapFailure \<or> curr_bootstrap_bucket self < curr_bootstrap_bucket self' \<and>
       (r = BootstrapDone \<and> curr_bootstrap_bucket self' = MAX_BUCKETS \<or>
        r = Bootstrapping \<and> bootstrap_ok self' io' \<and> active_messages self' \<noteq> []))"
proof -
  obtain r self' t' io' where n: "bootstrap_next_bucket now (self, t, io) = Ok (r, self', t', io')" "evolves (t, io) (t', io')"
    "r = BootstrapFailure \<or> curr_bootstrap_bucket self < curr_bootstrap_bucket self' \<and>
       (r = BootstrapDone \<and> curr_bootstrap_bucket self' = MAX_BUCKETS \<or>
        r = Bootstrapping \<and> bootstrap_ok self' io' \<and> active_messages self' \<noteq> [])"
    using bootstrap_next_bucket_result [OF assms, of now] by blast
  then show ?thesis using assms(1) by (auto simp: evolves_def)
qed

theorem bootstrap_advances_witness:
  "let self = bootstrap_new (ShaHash (replicate 20 0)) (mid_generator_new 0) [] [] in
   \<exists>r self' t' io'. bootstrap_next_bucket 5 (self, sample_table, sample_io) = Ok (r, self', t', io') \<and> table_ok t' \<and>
     (r = BootstrapFailure \<or> curr_bootstrap_bucket self < curr_bootstrap_bucket self' \<and>
       (r = BootstrapDone \<and> curr_bootstrap_bucket self' = MAX_BUCKETS \<or>
        r = Bootstrapping \<and> bootstrap_ok self' io' \<and> active_messages self' \<noteq> []))"
  unfolding Let_def
  by (rule bootstrap_advances [OF sample_table_ok])
     (simp add: bootstrap_ok_def bootstrap_timed_def bootstrap_new_def SHA_HASH_LEN_def MAX_BUCKETS_def)

end
