(* ===== verification/Dht_Handler_Props.thy ===== *)
theory Dht_Handler_Props
  imports Dht_Handler Dht_Bootstrap_Props
begin

text \<open>
  Properties of the worker: whatever arrives and whichever timer fires, it keeps its invariant and does not
  panic; what it sends can be read by the receiver; an announced peer is handed out.
\<close>

section \<open>The invariant\<close>

text \<open>A new action gets a generator whose ids carry its number, also when the numbers start over.\<close>

lemma aid_generate_action:
  assumes g: "aid_inv g"
  shows "\<exists>m g'. aid_generate 2 rnd g = Some (m, g') \<and> new_action m \<and> aid_inv g'"
proof (cases "aid_remaining g")
  case (Cons r rs)
  from aids.from_block [OF g Cons, of rnd] show ?thesis by blast
next
  case Nil
  show ?thesis
  proof (cases "aid_allocated g < 2 ^ 40")
    case True
    from aids.new_block [OF g Nil True, of rnd] show ?thesis by blast
  next
    case False
    have "aid_next_alloc g = MAX_ACTION_ID"
      using False g by (simp add: aid_inv_def aid_allocated_def word_unat_eq_iff transaction_consts)
    then have "generate_aids (aid_next_alloc g) = generate_aids 0"
      by (simp add: generate_aids_def)
    moreover have "get_slice (action_ids g) (aid_curr_index g) = None"
      using Nil by (auto simp: aid_remaining_def get_slice_def)
    ultimately have "aid_generate 2 rnd g = aid_generate 2 rnd (g\<lparr>aid_next_alloc := 0\<rparr>)"
      by (simp add: numeral_2_eq_2)
    moreover have "aid_inv (g\<lparr>aid_next_alloc := 0\<rparr>)" "aid_remaining (g\<lparr>aid_next_alloc := 0\<rparr>) = []"
      "aid_allocated (g\<lparr>aid_next_alloc := 0\<rparr>) < 2 ^ 40"
      using g Nil by (simp_all add: aid_inv_def aid_remaining_def aid_allocated_def)
    ultimately show ?thesis using aids.new_block [of "g\<lparr>aid_next_alloc := 0\<rparr>" rnd] by fastforce
  qed
qed

lemma next_action_result:
  assumes "aid_inv g" and "next_action g io = (m, g', io')"
  shows "aid_inv g'" "\<exists>a. mid_inv a m \<and> mid_generator_action_id m = ActionID a"
proof -
  from aid_generate_action [OF assms(1), of "io_rnds io (io_drawn io)"] assms(2) have "new_action m" "aid_inv g'"
    by (auto simp: next_action_def)
  moreover from \<open>new_action m\<close> obtain a where a: "unat a < 2 ^ 40" "m = mid_generator_new (push_bit 24 a)"
    by (auto simp: new_action_def)
  moreover have "mid_generator_action_id m = ActionID a"
    using transaction_halves(1) [OF a(1), of 0] a(2)
    by (simp add: mid_generator_action_id_def action_id_from_transaction_id_def mid_generator_new_def transaction_consts)
  ultimately show "aid_inv g'" "\<exists>a. mid_inv a m \<and> mid_generator_action_id m = ActionID a"
    by (auto simp: mid_inv_def mid_generator_new_def)
qed

definition refresh_ok :: "table_refresh \<Rightarrow> bool" where
  "refresh_ok refresh \<longleftrightarrow> curr_refresh_bucket refresh \<le> MAX_BUCKETS"

definition action_ok :: "action_id \<Rightarrow> table_action \<Rightarrow> worker_io \<Rightarrow> bool" where
  "action_ok aid act io \<longleftrightarrow>
     (case act of
        LookupAction lookup \<Rightarrow> (\<exists>a. aid = ActionID a \<and> lookup_inv a lookup io)
      | RefreshAction refresh \<Rightarrow> refresh_ok refresh
      | BootstrapAction bootstrap _ \<Rightarrow> bootstrap_ok bootstrap io)"

definition future_ok :: "post_bootstrap_action \<Rightarrow> bool" where
  "future_ok a \<longleftrightarrow> (case a of PostRefresh refresh _ \<Rightarrow> refresh_ok refresh | PostLookup _ _ \<Rightarrow> True)"

text \<open>An action may be left in disorder by a failure only when the worker has been told to shut down.\<close>

definition actions_ok :: "handler_state \<Rightarrow> bool" where
  "actions_ok st \<longleftrightarrow> shutdown_requested (snd st) \<or> (\<forall>(aid, act) \<in> set (table_actions (fst st)). action_ok aid act (snd st))"

definition detached_ok :: "detached_dht_handler \<Rightarrow> bool" where
  "detached_ok d \<longleftrightarrow> table_ok (dh_routing_table d) \<and> aid_inv (dh_aid_generator d) \<and> list_all future_ok (future_actions d)"

definition handler_ok :: "handler_state \<Rightarrow> bool" where
  "handler_ok st \<longleftrightarrow> detached_ok (detached (fst st)) \<and> actions_ok st"

lemma action_ok_mono: "action_ok aid act io \<Longrightarrow> set (io_calls io) \<subseteq> set (io_calls io') \<Longrightarrow> action_ok aid act io'"
  by (auto simp: action_ok_def intro: lookup_inv_mono bootstrap_ok_mono split: table_action.splits)

lemma actions_ok_mono:
  assumes "actions_ok (h, io)" and "set (io_calls io) \<subseteq> set (io_calls io')" and "set (table_actions h') \<subseteq> set (table_actions h)"
  shows "actions_ok (h', io')"
  using assms action_ok_mono [OF _ assms(2)] unfolding actions_ok_def shutdown_requested_def by fastforce

lemma handler_ok_evolves:
  assumes "handler_ok (h, io)" and "evolves (the_table h, io) (t', io')"
  shows "handler_ok (set_table t' h, io')"
  using assms actions_ok_mono [of h io io' "set_table t' h"] evolves_subset [OF assms(2)]
  by (auto simp: handler_ok_def detached_ok_def set_table_def evolves_def)

lemma handler_ok_calls:
  assumes "handler_ok (h, io)" and "set (io_calls io) \<subseteq> set (io_calls io')"
  shows "handler_ok (h, io')"
  using assms actions_ok_mono [of h io io' h] by (auto simp: handler_ok_def)

lemma handler_ok_set_action:
  assumes "handler_ok (h, io)" and "shutdown_requested io \<or> action_ok aid act io"
  shows "handler_ok (set_action aid act h, io)"
  using assms by (auto simp: handler_ok_def actions_ok_def set_action_def hash_insert_def)

lemma shutdown_event_loop_requests [simp]: "shutdown_requested (shutdown_event_loop cause io)"
  by (auto simp: shutdown_requested_def shutdown_event_loop_def)

lemma shutdown_calls: "set (io_calls io) \<subseteq> set (io_calls (shutdown_event_loop cause io))"
  by (auto simp: shutdown_event_loop_def)

lemma evolves_shutdown_loop: "evolves (t, io) (t, shutdown_event_loop cause io)"
  unfolding shutdown_event_loop_def by (rule evolves_io(5))

lemma handler_ok_broadcast: "handler_ok st \<Longrightarrow> handler_ok (broadcast event st)"
  by (cases st) (auto simp: broadcast_def broadcast_dht_event_def Let_def handler_ok_def detached_ok_def actions_ok_def
      shutdown_requested_def action_ok_def lookup_inv_def bootstrap_ok_def bootstrap_timed_def split: table_action.splits)

lemma set_table_simps [simp]:
  "the_table (set_table t h) = t" "table_actions (set_table t h) = table_actions h"
  "table_actions (set_action aid act h) = snd (hash_insert (table_actions h) aid act)" "detached (set_action aid act h) = detached h"
  by (simp_all add: set_table_def set_action_def)

lemma lookup_outcome_ok: "handler_ok st \<Longrightarrow> handler_ok (lookup_outcome ih res st)"
proof -
  have f: "io_calls (fold (\<lambda>a. connect ih (V4 a)) vs io) = io_calls io" for vs io
    by (induction vs arbitrary: io) (simp_all add: connect_def)
  assume "handler_ok st"
  then show ?thesis using handler_ok_broadcast handler_ok_calls [of "fst st" "snd st"] shutdown_calls f
    by (auto simp: lookup_outcome_def split: lookup_status.split)
qed

section \<open>Lookups and refresh\<close>

lemma lookup_step_ok:
  assumes "handler_ok (h, io)" and "evolves (the_table h, io) (t', io')"
    and "r \<noteq> SearchFailed \<longrightarrow> action_ok aid (LookupAction lookup') io'"
  shows "handler_ok (lookup_outcome ih r (set_action aid (LookupAction lookup') (set_table t' h), io'))"
proof (cases "r = SearchFailed")
  case True
  have "handler_ok (set_table t' h, shutdown_event_loop Unspecified io')"
    using handler_ok_calls [OF handler_ok_evolves [OF assms(1,2)] shutdown_calls] .
  from handler_ok_set_action [OF this] True show ?thesis by (simp add: lookup_outcome_def)
next
  case False
  with assms show ?thesis by (intro lookup_outcome_ok handler_ok_set_action handler_ok_evolves) simp_all
qed

text \<open>A lookup without pending requests ignores what comes.\<close>

lemma lookup_recv_timeout_inv:
  assumes "lookup_recv_timeout now tid (self, t, io) = (r, self', t', io')" and "lookup_inv a self io"
  shows "evolves (t, io) (t', io') \<and> (r \<noteq> SearchFailed \<longrightarrow> lookup_inv a self' io')"
proof (cases "lookup_live a self io")
  case True
  from lookup_recv_timeout_result [OF assms(1) this] show ?thesis by (auto simp: lookup_live_def)
next
  case False
  with assms(2) have "active_lookups self = []" by (simp add: lookup_live_def)
  with assms show ?thesis by (auto simp: lookup_recv_timeout_def hash_remove_def lookup_inv_def)
qed

lemma lookup_recv_response_inv:
  assumes "lookup_inv a self io" and "info_valid (gps_info_type msg)"
  shows "\<exists>r self' t' io'. lookup_recv_response pick now n tid msg (self, t, io) = Ok (r, self', t', io') \<and>
    evolves (t, io) (t', io') \<and> (r \<noteq> SearchFailed \<longrightarrow> lookup_inv a self' io')"
proof (cases "lookup_live a self io")
  case True
  from lookup_recv_response_result [OF this assms(2), of pick now n tid t] show ?thesis unfolding lookup_live_def by blast
next
  case False
  with assms(1) have "active_lookups self = []" by (simp add: lookup_live_def)
  with assms show ?thesis by (auto simp: lookup_recv_response_def hash_remove_def)
qed

lemma next_action_ok:
  assumes "handler_ok (h, io)" and "next_action (dh_aid_generator (detached h)) io = (m, g, io1)"
  shows "handler_ok (h\<lparr>detached := (detached h)\<lparr>dh_aid_generator := g\<rparr>\<rparr>, io1)"
    "\<exists>a. mid_inv a m \<and> mid_generator_action_id m = ActionID a"
proof -
  have inv: "aid_inv (dh_aid_generator (detached h))" using assms(1) by (simp add: handler_ok_def detached_ok_def)
  have "set (io_calls io) \<subseteq> set (io_calls io1)" by (rule evolves_subset [OF evolves_io(2) [OF assms(2)]])
  from handler_ok_calls [OF assms(1) this] next_action_result(1) [OF inv assms(2)]
  show "handler_ok (h\<lparr>detached := (detached h)\<lparr>dh_aid_generator := g\<rparr>\<rparr>, io1)"
    by (auto simp: handler_ok_def detached_ok_def actions_ok_def)
  show "\<exists>a. mid_inv a m \<and> mid_generator_action_id m = ActionID a" by (rule next_action_result(2) [OF inv assms(2)])
qed

lemma handle_start_lookup_ok:
  assumes "handler_ok st"
  shows "\<exists>st'. handle_start_lookup env ih announce st = Ok st' \<and> handler_ok st'"
proof -
  obtain h io where st: "st = (h, io)" by (rule prod.exhaust)
  obtain m g io1 where e: "next_action (dh_aid_generator (detached h)) io = (m, g, io1)" by (rule prod_cases3)
  define h1 where "h1 = h\<lparr>detached := (detached h)\<lparr>dh_aid_generator := g\<rparr>\<rparr>"
  have ok: "handler_ok (h1, io1)" using next_action_ok(1) [OF assms [unfolded st] e] by (simp add: h1_def)
  obtain a where a: "mid_inv a m" "mid_generator_action_id m = ActionID a"
    using next_action_ok(2) [OF assms [unfolded st] e] by blast
  show ?thesis
  proof (cases "bootstrapping (detached h1)")
    case True
    have "handler_ok (h1\<lparr>detached := (detached h1)\<lparr>future_actions := future_actions (detached h1) @ [PostLookup ih announce]\<rparr>\<rparr>, io1)"
      using ok by (simp add: handler_ok_def detached_ok_def actions_ok_def future_ok_def)
    with True st e show ?thesis by (simp add: handle_start_lookup_def Let_def h1_def)
  next
    case False
    have "table_wf (the_table h1)" using ok by (simp add: handler_ok_def detached_ok_def table_ok_def)
    from lookup_new_result [OF this a(1), of "env_pick env" "env_now env" "table_node_id (the_table h1)" ih announce io1]
    obtain l t' io' where l: "lookup_new (env_pick env) (env_now env) (table_node_id (the_table h1)) ih m announce (the_table h1) io1 =
        Ok (l, t', io')" "evolves (the_table h1, io1) (t', io')" "\<forall>self. l = Some self \<longrightarrow> lookup_inv a self io'" by blast
    have ok': "handler_ok (set_table t' h1, io')" by (rule handler_ok_evolves [OF ok l(2)])
    show ?thesis
    proof (cases l)
      case None
      with False st e l handler_ok_calls [OF ok' shutdown_calls] show ?thesis
        by (simp add: handle_start_lookup_def Let_def h1_def)
    next
      case (Some lookup)
      with l(3) a(2) have "action_ok (mid_generator_action_id m) (LookupAction lookup) io'" by (simp add: action_ok_def)
      with False st e l Some handler_ok_set_action [OF ok'] show ?thesis
        by (simp add: handle_start_lookup_def Let_def h1_def)
    qed
  qed
qed

lemma map_of_action_ok:
  assumes "handler_ok (h, io)" and "\<not> shutdown_requested io" and "map_of (table_actions h) aid = Some act"
  shows "action_ok aid act io"
  using assms map_of_SomeD [OF assms(3)] by (auto simp: handler_ok_def actions_ok_def)

lemma handle_check_table_refresh_ok:
  assumes "handler_ok (h, io)"
    and "\<And>refresh. map_of (table_actions h) (transaction_action_id tid) = Some (RefreshAction refresh) \<Longrightarrow> refresh_ok refresh"
  shows "\<exists>st'. handle_check_table_refresh env tid (h, io) = Ok st' \<and> handler_ok st'"
proof (cases "\<exists>refresh. map_of (table_actions h) (transaction_action_id tid) = Some (RefreshAction refresh)")
  case True
  then obtain refresh where refresh: "map_of (table_actions h) (transaction_action_id tid) = Some (RefreshAction refresh)" by blast
  have "table_ok (the_table h)" using assms(1) by (simp add: handler_ok_def detached_ok_def)
  from continue_refresh_result [OF this, of refresh "env_now env" io] assms(2) [OF refresh]
  obtain r refresh' t' io' where c: "continue_refresh (env_now env) (refresh, the_table h, io) = Ok (r, refresh', t', io')"
    "evolves (the_table h, io) (t', io')" "r = Refreshing \<longrightarrow> refresh_ok refresh'" unfolding refresh_ok_def by blast
  let ?io = "if r = RefreshFailed then shutdown_event_loop Unspecified io' else io'"
  have "handler_ok (set_table t' h, ?io)"
    using handler_ok_evolves [OF assms(1) c(2)] handler_ok_calls [OF _ shutdown_calls] by simp
  then have "handler_ok (set_action (transaction_action_id tid) (RefreshAction refresh') (set_table t' h), ?io)"
    using c(3) by (intro handler_ok_set_action) (cases r; simp add: action_ok_def)+
  with c(1) refresh show ?thesis by (simp add: handle_check_table_refresh_def)
next
  case False
  then have "handle_check_table_refresh env tid (h, io) = Ok (h, io)"
    by (auto simp: handle_check_table_refresh_def split: option.split table_action.split)
  with assms(1) show ?thesis by blast
qed

lemma post_bootstrap_ok:
  assumes "handler_ok st" and "future_ok a"
  shows "\<exists>st'. post_bootstrap env a st = Ok st' \<and> handler_ok st'"
proof (cases a)
  case (PostLookup ih announce)
  with handle_start_lookup_ok [OF assms(1), of env ih announce] show ?thesis by (simp add: post_bootstrap_def)
next
  case (PostRefresh refresh tid)
  let ?h = "set_action (transaction_action_id tid) (RefreshAction refresh) (fst st)"
  have r: "refresh_ok refresh" using assms(2) PostRefresh by (simp add: future_ok_def)
  then have "handler_ok (?h, snd st)"
    using handler_ok_set_action [of "fst st" "snd st" "transaction_action_id tid" "RefreshAction refresh"] assms(1) by (simp add: action_ok_def)
  from handle_check_table_refresh_ok [OF this, of tid env] r PostRefresh show ?thesis
    by (simp add: post_bootstrap_def hash_insert_def)
qed

lemma post_bootstrap_all_ok:
  "handler_ok st \<Longrightarrow> list_all future_ok as \<Longrightarrow> \<exists>st'. post_bootstrap_all env as st = Ok st' \<and> handler_ok st'"
proof (induction as arbitrary: st)
  case (Cons a as)
  then show ?case using post_bootstrap_ok [of st a env] by auto
qed simp

section \<open>Bootstrap\<close>

lemma handler_ok_remove:
  "handler_ok (h, io) \<Longrightarrow> handler_ok (h\<lparr>table_actions := snd (hash_remove (table_actions h) aid)\<rparr>, io)"
  using hash_remove_subset [of "table_actions h" aid] actions_ok_mono [of h io io "h\<lparr>table_actions := snd (hash_remove (table_actions h) aid)\<rparr>"]
  by (simp add: handler_ok_def)

lemma broadcast_bootstrap_completed_ok:
  assumes "handler_ok st"
  shows "\<exists>st'. broadcast_bootstrap_completed env aid st = Ok st' \<and> handler_ok st'"
proof -
  obtain h io where b: "broadcast BootstrapCompleted st = (h, io)" by (rule prod.exhaust)
  have ok: "handler_ok (h, io)" using handler_ok_broadcast [OF assms, of BootstrapCompleted] b by simp
  let ?h = "h\<lparr>detached := (detached h)\<lparr>bootstrapping := False, future_actions := []\<rparr>,
      table_actions := snd (hash_remove (table_actions h) aid)\<rparr>"
  have "handler_ok (?h, io)" using handler_ok_remove [OF ok, of aid] by (simp add: handler_ok_def detached_ok_def actions_ok_def)
  moreover have "list_all future_ok (future_actions (detached h))" using ok by (simp add: handler_ok_def detached_ok_def)
  ultimately show ?thesis using post_bootstrap_all_ok [of "(?h, io)" "future_actions (detached h)" env] b
    by (simp add: broadcast_bootstrap_completed_def Let_def)
qed

lemma num_good_nodes_total: "table_wf t \<Longrightarrow> \<exists>k. num_good_nodes now t = Ok k"
  by (erule closest_with_status_eq [of t now Good "table_node_id t"]) (simp add: num_good_nodes_def)

lemma should_rebootstrap_total: "table_wf t \<Longrightarrow> \<exists>again. should_rebootstrap now t = Ok again"
  using num_good_nodes_total [of t now] by (auto simp: should_rebootstrap_def)

lemma attempt_rebootstrap_result:
  assumes "table_wf t" and "length (sha_bytes (bs_table_id bs)) = SHA_HASH_LEN"
  shows "\<exists>r bs' k' io'. attempt_rebootstrap now t (bs, k, io) = Ok (r, bs', k', io') \<and> evolves (t, io) (t, io') \<and>
    (r = None \<longrightarrow> shutdown_requested io') \<and> (r = Some True \<longrightarrow> bootstrap_ok bs' io')"
proof (cases "k + 1 \<ge> MAX_BOOTSTRAP_ATTEMPTS")
  case True
  obtain good where "num_good_nodes now t = Ok good" using num_good_nodes_total [OF assms(1)] by blast
  with True evolves_shutdown_loop show ?thesis by (simp add: attempt_rebootstrap.simps)
next
  case False
  obtain r bs' io' where s: "start_bootstrap (bs, io) = (r, bs', io')" by (rule prod_cases3)
  from start_bootstrap_result [OF s assms(2), of t] have ev: "evolves (t, io) (t, io')"
    and "r = BootstrapFailure \<or> r = Bootstrapping \<and> bootstrap_ok bs' io'" by auto
  then show ?thesis
  proof (elim disjE conjE)
    assume "r = BootstrapFailure"
    with False s evolves_trans [OF ev evolves_shutdown_loop] show ?thesis by (simp add: attempt_rebootstrap.simps)
  next
    assume "r = Bootstrapping" "bootstrap_ok bs' io'"
    with False s ev show ?thesis by (simp add: attempt_rebootstrap.simps)
  qed
qed

lemma bootstrap_outcome_result:
  assumes "table_wf t" and "bootstrap_after r bs0 bs io" and "length (sha_bytes (bs_table_id bs0)) = SHA_HASH_LEN"
  shows "\<exists>complete bs' k' io'. bootstrap_outcome now t r (bs, k, io) = Ok (complete, bs', k', io') \<and> evolves (t, io) (t, io') \<and>
    (complete \<or> shutdown_requested io' \<or> bootstrap_ok bs' io')"
proof (cases r)
  case BootstrapDone
  obtain again where again: "should_rebootstrap now t = Ok again" using should_rebootstrap_total [OF assms(1)] by blast
  have "length (sha_bytes (bs_table_id bs)) = SHA_HASH_LEN" using assms(2,3) by (simp add: bootstrap_after_def)
  from attempt_rebootstrap_result [OF assms(1) this, of now k io] obtain x bs' k' io' where
    x: "attempt_rebootstrap now t (bs, k, io) = Ok (x, bs', k', io')" "evolves (t, io) (t, io')"
       "x = None \<longrightarrow> shutdown_requested io'" "x = Some True \<longrightarrow> bootstrap_ok bs' io'" by blast
  then have "x = Some False \<or> shutdown_requested io' \<or> bootstrap_ok bs' io'" by (cases x) auto
  with x(1,2) again BootstrapDone show ?thesis by (cases again) (auto simp: bootstrap_outcome_def)
qed (use assms(2) evolves_shutdown_loop in \<open>auto simp: bootstrap_outcome_def bootstrap_after_def\<close>)

lemma finish_bootstrap_step_ok:
  assumes "handler_ok (h, io)" and "bootstrap_after r bs0 bs io" and "length (sha_bytes (bs_table_id bs0)) = SHA_HASH_LEN"
  shows "\<exists>st'. finish_bootstrap_step env aid r (bs, k, io) h = Ok st' \<and> handler_ok st'"
proof -
  have "table_wf (the_table h)" using assms(1) by (simp add: handler_ok_def detached_ok_def table_ok_def)
  from bootstrap_outcome_result [OF this assms(2,3), of "env_now env" k] obtain complete bs' k' io' where
    o: "bootstrap_outcome (env_now env) (the_table h) r (bs, k, io) = Ok (complete, bs', k', io')"
       "evolves (the_table h, io) (the_table h, io')" "complete \<or> shutdown_requested io' \<or> bootstrap_ok bs' io'" by blast
  have ok: "handler_ok (h, io')" by (rule handler_ok_calls [OF assms(1) evolves_subset [OF o(2)]])
  let ?h = "set_action aid (BootstrapAction bs' k') h"
  show ?thesis
  proof (cases complete)
    case True
    have "broadcast_bootstrap_completed env aid (?h, io') = broadcast_bootstrap_completed env aid (h, io')"
      by (simp add: broadcast_bootstrap_completed_def broadcast_def set_action_def hash_insert_def hash_remove_def Let_def
          split: prod.split)
    with o(1) True broadcast_bootstrap_completed_ok [OF ok, of env aid] show ?thesis by (simp add: finish_bootstrap_step_def)
  next
    case False
    with o(3) handler_ok_set_action [OF ok, of aid "BootstrapAction bs' k'"] have "handler_ok (?h, io')" by (auto simp: action_ok_def)
    with o(1) False show ?thesis by (simp add: finish_bootstrap_step_def)
  qed
qed

lemma handle_start_bootstrap_ok:
  assumes "handler_ok st"
  shows "\<exists>st'. handle_start_bootstrap env routers nds st = Ok st' \<and> handler_ok st'"
proof -
  obtain h io where st: "st = (h, io)" by (rule prod.exhaust)
  obtain m g io1 where e: "next_action (dh_aid_generator (detached h)) io = (m, g, io1)" by (rule prod_cases3)
  let ?routers = "List.map_filter (\<lambda>r. map_option V4 (router_ipv4_addr (env_resolve env) r)) routers"
  let ?bs = "bootstrap_new (table_node_id (the_table h)) m nds ?routers"
  have len: "length (sha_bytes (bs_table_id ?bs)) = SHA_HASH_LEN"
    using assms st by (simp add: bootstrap_new_def handler_ok_def detached_ok_def table_ok_def)
  obtain r bs io2 where s: "start_bootstrap (?bs, io1) = (r, bs, io2)" by (rule prod_cases3)
  note res = start_bootstrap_result [OF s len]
  let ?h = "h\<lparr>detached := (detached h)\<lparr>dh_aid_generator := g, bootstrapping := True\<rparr>\<rparr>"
  have "handler_ok (h\<lparr>detached := (detached h)\<lparr>dh_aid_generator := g\<rparr>\<rparr>, io2)"
    using handler_ok_calls [OF next_action_ok(1) [OF assms [unfolded st] e]] evolves_subset res by blast
  then have "handler_ok (?h, io2)" by (simp add: handler_ok_def detached_ok_def actions_ok_def)
  moreover have "bootstrap_after r ?bs bs io2" using res by (auto simp: bootstrap_after_def)
  ultimately show ?thesis using finish_bootstrap_step_ok [OF _ _ len, of ?h io2 r bs env "mid_generator_action_id m" 0] st e s
    by (simp add: handle_start_bootstrap_def Let_def)
qed

text \<open>A step of a stored bootstrap, for a timeout and for a response.\<close>

lemma bootstrap_step_ok:
  assumes "handler_ok (h, io)" and "bootstrap_ok bs io" and "evolves (the_table h, io) (t', io')" and "bootstrap_after r bs bs' io'"
  shows "\<exists>st'. finish_bootstrap_step env aid r (bs', k, io') (set_table t' h) = Ok st' \<and> handler_ok st'"
  using finish_bootstrap_step_ok [OF handler_ok_evolves [OF assms(1,3)] assms(4)] assms(2) by (simp add: bootstrap_ok_def)

lemma handle_check_bootstrap_timeout_ok:
  assumes "handler_ok (h, io)" and "\<not> shutdown_requested io"
  shows "\<exists>st'. handle_check_bootstrap_timeout env tid (h, io) = Ok st' \<and> handler_ok st'"
proof (cases "\<exists>bs k. map_of (table_actions h) (transaction_action_id tid) = Some (BootstrapAction bs k)")
  case True
  then obtain bs k where bs: "map_of (table_actions h) (transaction_action_id tid) = Some (BootstrapAction bs k)" by blast
  have ok: "bootstrap_ok bs io" using map_of_action_ok [OF assms bs] by (simp add: action_ok_def)
  have "table_ok (the_table h)" using assms(1) by (simp add: handler_ok_def detached_ok_def)
  from bootstrap_recv_timeout_result [OF this ok, of "env_now env" tid] obtain r bs' t' io' where
    r: "bootstrap_recv_timeout (env_now env) tid (bs, the_table h, io) = Ok (r, bs', t', io')"
      "evolves (the_table h, io) (t', io')" "bootstrap_after r bs bs' io'" by blast
  from bootstrap_step_ok [OF assms(1) ok r(2,3)] r(1) bs show ?thesis by (simp add: handle_check_bootstrap_timeout_def Let_def)
next
  case False
  then have "handle_check_bootstrap_timeout env tid (h, io) = Ok (h, io)"
    by (auto simp: handle_check_bootstrap_timeout_def Let_def split: option.split table_action.split)
  with assms(1) show ?thesis by blast
qed

section \<open>Timers of lookups\<close>

lemma handle_check_lookup_timeout_ok:
  assumes "handler_ok (h, io)" and "\<not> shutdown_requested io"
  shows "\<exists>st'. handle_check_lookup_timeout env tid (h, io) = Ok st' \<and> handler_ok st'"
proof (cases "\<exists>lookup. map_of (table_actions h) (transaction_action_id tid) = Some (LookupAction lookup)")
  case True
  then obtain lookup where l: "map_of (table_actions h) (transaction_action_id tid) = Some (LookupAction lookup)" by blast
  obtain a where a: "transaction_action_id tid = ActionID a" "lookup_inv a lookup io"
    using map_of_action_ok [OF assms l] by (auto simp: action_ok_def)
  obtain r lookup' t' io' where r: "lookup_recv_timeout (env_now env) tid (lookup, the_table h, io) = (r, lookup', t', io')"
    by (rule prod_cases4)
  from lookup_recv_timeout_inv [OF r a(2)] a(1) l r show ?thesis
    by (simp add: handle_check_lookup_timeout_def Let_def lookup_step_ok [OF assms(1)] action_ok_def)
next
  case False
  then have "handle_check_lookup_timeout env tid (h, io) = Ok (h, io)"
    by (auto simp: handle_check_lookup_timeout_def Let_def split: option.split table_action.split)
  with assms(1) show ?thesis by blast
qed

lemma handle_check_lookup_endgame_ok:
  assumes "handler_ok (h, io)"
  shows "\<exists>st'. handle_check_lookup_endgame env tid (h, io) = Ok st' \<and> handler_ok st'"
proof -
  let ?aid = "transaction_action_id tid"
  let ?h = "h\<lparr>table_actions := snd (hash_remove (table_actions h) ?aid)\<rparr>"
  have ok: "handler_ok (?h, io)" by (rule handler_ok_remove [OF assms])
  show ?thesis
  proof (cases "\<exists>lookup. map_of (table_actions h) ?aid = Some (LookupAction lookup)")
    case True
    then obtain lookup where l: "map_of (table_actions h) ?aid = Some (LookupAction lookup)" by blast
    obtain r lookup' t' io' where
      r: "lookup_recv_finished (env_now env) (handshaker_port (detached h)) (lookup, the_table h, io) = Ok (r, lookup', t', io')"
         "evolves (the_table h, io) (t', io')"
      using lookup_recv_finished_result [of "env_now env" "handshaker_port (detached h)" lookup "the_table h" io] by blast
    have "handler_ok (set_table t' ?h, io')" by (rule handler_ok_evolves [OF ok]) (use r in simp)
    from lookup_outcome_ok [OF this] l r show ?thesis by (simp add: handle_check_lookup_endgame_def hash_remove_def)
  next
    case False
    then have "handle_check_lookup_endgame env tid (h, io) = Ok (?h, io)"
      by (auto simp: handle_check_lookup_endgame_def hash_remove_def Let_def split: option.split table_action.split)
    with ok show ?thesis by blast
  qed
qed

section \<open>Nodes and contacts on the wire\<close>

lemma node_encode_wire:
  assumes "node_addr n = V4 a" and "length (sha_bytes (node_ident n)) = 20"
  shows "node_encode n = Ok (compact_node_bytes (node_ident n, a))"
  using assms by (cases "v4_ip a")
    (simp add: node_encode_def compact_node_bytes_def sock_v4_to_bytes_be_def ipv4_to_bytes_be_def port_to_bytes_be_def
      copy_into_def list_update_append numeral_2_eq_2 Let_def)

lemma contact_bytes_V4: "contact_bytes (V4 a) = sock_v4_to_bytes_be a"
proof -
  have m: "(255 :: u16) = mask 8" by (simp add: mask_eq_exp_minus_1)
  have "ucast (v4_port a AND 255) = (ucast (v4_port a) :: u8)"
    unfolding m by (rule bit_word_eqI) (auto simp: bit_simps)
  then show ?thesis
    by (cases "v4_ip a") (simp add: sock_v4_to_bytes_be_def ipv4_to_bytes_be_def port_to_bytes_be_def copy_into_def Let_def
        numeral_2_eq_2)
qed

text \<open>Contacts as pairs of an id and an IPv4 address.\<close>

definition wire_pairs :: "(sha_hash \<times> socket_addr_v4) list \<Rightarrow> node list \<Rightarrow> bool" where
  "wire_pairs ps ns \<longleftrightarrow> map (\<lambda>(ident, a). (ident, V4 a)) ps = map contact ns \<and> (\<forall>p \<in> set ps. length (sha_bytes (fst p)) = 20)"

lemma encode_nodes_wire:
  "\<forall>n \<in> set ns. wire_contact (contact n) \<Longrightarrow>
   \<exists>ps. wire_pairs ps ns \<and> encode_nodes ns = Ok (concat (map compact_node_bytes ps))"
proof (induction ns)
  case (Cons n ns)
  then obtain ps where ps: "wire_pairs ps ns" "encode_nodes ns = Ok (concat (map compact_node_bytes ps))" by auto
  from Cons.prems obtain a where a: "node_addr n = V4 a" "length (sha_bytes (node_ident n)) = 20"
    by (auto simp: wire_contact_def contact_def SHA_HASH_LEN_def)
  with ps node_encode_wire [OF a] have "wire_pairs ((node_ident n, a) # ps) (n # ns)"
    "encode_nodes (n # ns) = Ok (concat (map compact_node_bytes ((node_ident n, a) # ps)))"
    by (simp_all add: wire_pairs_def contact_def)
  then show ?case by blast
qed (simp add: wire_pairs_def)

lemma length_compact_nodes:
  "\<forall>p \<in> set ps. length (sha_bytes (fst p)) = 20 \<Longrightarrow> length (concat (map compact_node_bytes ps)) = 26 * length ps"
  by (induction ps) (auto simp: compact_node_bytes_def)

lemma closest_nodes_bytes_result:
  assumes "table_ok t"
  shows "\<exists>ns ps. closest_first (env_now env) 8 t target = Ok ns \<and> wire_pairs ps ns \<and> length ps \<le> 8 \<and>
    closest_nodes_bytes env target t = Ok (concat (map compact_node_bytes ps))"
proof -
  have wf: "table_wf t" using assms by (simp add: table_ok_def)
  obtain found where f: "mset found = mset (usable_nodes (env_now env) t)"
    "\<And>k. closest_first (env_now env) k t target = Ok (take k found)"
    using closest_first_eq [OF wf, of "env_now env" target] by blast
  have "\<forall>n \<in> set (take 8 found). wire_contact (contact n)"
  proof
    fix n assume "n \<in> set (take 8 found)"
    then have "n \<in> set (usable_nodes (env_now env) t)" using mset_eq_setD [OF f(1)] by (auto dest: in_set_takeD)
    then have "contact n \<in> table_contacts t" unfolding usable_nodes_set table_contacts_def by blast
    with assms show "wire_contact (contact n)" by (simp add: table_ok_def)
  qed
  from encode_nodes_wire [OF this] obtain ps where ps: "wire_pairs ps (take 8 found)"
    "encode_nodes (take 8 found) = Ok (concat (map compact_node_bytes ps))" by blast
  moreover have "length ps \<le> 8" using arg_cong [of _ _ length, OF conjunct1 [OF ps(1) [unfolded wire_pairs_def]]] by simp
  ultimately show ?thesis using f(2) [of 8] by (auto simp: closest_nodes_bytes_def)
qed

text \<open>The values: one byte string for every IPv4 contact.\<close>

lemma contact_bytes_concat:
  "concat (map contact_bytes cs) = concat (map sock_v4_to_bytes_be (List.map_filter map_ipv4 cs))"
proof (induction cs)
  case (Cons c cs)
  then show ?case by (cases c) (simp_all add: contact_bytes_V4 List.map_filter_simps del: contact_bytes.simps(1))
qed (simp add: List.map_filter_simps)

lemma contact_chunks_concat:
  "contact_chunks (concat (map sock_v4_to_bytes_be as)) = map (\<lambda>a. MBytes (sock_v4_to_bytes_be a)) as"
proof (induction as)
  case (Cons a as)
  have "length (concat (map sock_v4_to_bytes_be as)) = 6 * length as" for as by (induction as) simp_all
  then have "contact_chunks (concat (map sock_v4_to_bytes_be (a # as))) =
      MBytes (sock_v4_to_bytes_be a) # contact_chunks (concat (map sock_v4_to_bytes_be as))"
    by (simp add: contact_chunks_def upt_conv_Cons map_Suc_upt [symmetric] comp_def del: upt_Suc)
  with Cons show ?case by simp
qed (simp add: contact_chunks_def)

lemma compact_value_info_new_contacts:
  "compact_value_info_new (map (\<lambda>a. MBytes (sock_v4_to_bytes_be a)) as) =
   Ok \<lparr>compact_values = map (\<lambda>a. MBytes (sock_v4_to_bytes_be a)) as\<rparr>"
  using check_values_Ok [of 0 "map (\<lambda>a. MBytes (sock_v4_to_bytes_be a)) as"]
  by (auto simp: compact_value_info_new_def)

section \<open>Requests\<close>

lemma handler_ok_reply: "handler_ok (h, io) \<Longrightarrow> handler_ok (reply msg addr (h, io))"
  using handler_ok_calls [of h io] evolves_subset [OF evolves_io(4)] evolves_subset [OF evolves_trans [OF evolves_io(4) evolves_shutdown_loop]]
  by (auto simp: reply_def split: prod.split)

lemma handler_ok_note_request: "handler_ok (h, io) \<Longrightarrow> handler_ok (note_request env ident addr h, io)"
  unfolding note_request_def by (erule handler_ok_evolves) (simp add: evolves_mark)

lemma handle_ping_ok: "handler_ok (h, io) \<Longrightarrow> \<exists>st'. handle_ping env p addr (h, io) = Ok st' \<and> handler_ok st'"
  by (simp add: handle_ping_def Let_def handler_ok_reply handler_ok_note_request)

lemma find_node_reply:
  assumes "handler_ok (h, io)"
  shows "\<exists>ns ps. let h1 = note_request env (fnq_node_id f) addr h in
    closest_first (env_now env) 8 (the_table h1) (fnq_target_id f) = Ok ns \<and> wire_pairs ps ns \<and> length ps \<le> 8 \<and>
    handle_find_node env f addr (h, io) = Ok (reply (find_node_response_encode
      \<lparr>fns_trans_id = fnq_trans_id f, fns_node_id = table_node_id (the_table h1),
       fns_nodes = \<lparr>compact_nodes = concat (map compact_node_bytes ps)\<rparr>\<rparr>) addr (h1, io))"
proof -
  let ?h = "note_request env (fnq_node_id f) addr h"
  have "table_ok (the_table ?h)" using handler_ok_note_request [OF assms, of env "fnq_node_id f" addr]
    by (simp add: handler_ok_def detached_ok_def)
  from closest_nodes_bytes_result [OF this, of env "fnq_target_id f"] obtain ns ps where
    c: "closest_first (env_now env) 8 (the_table ?h) (fnq_target_id f) = Ok ns" "wire_pairs ps ns" "length ps \<le> 8"
      "closest_nodes_bytes env (fnq_target_id f) (the_table ?h) = Ok (concat (map compact_node_bytes ps))" by blast
  have "find_node_response_new t i (concat (map compact_node_bytes ps)) =
      Ok \<lparr>fns_trans_id = t, fns_node_id = i, fns_nodes = \<lparr>compact_nodes = concat (map compact_node_bytes ps)\<rparr>\<rparr>" for t i
    using length_compact_nodes [of ps] c(2) by (simp add: find_node_response_new_def wire_pairs_def)
  with c show ?thesis by (auto simp: handle_find_node_def Let_def)
qed

lemma handle_find_node_ok:
  assumes "handler_ok (h, io)"
  shows "\<exists>st'. handle_find_node env f addr (h, io) = Ok st' \<and> handler_ok st'"
  using find_node_reply [OF assms, of env f addr] handler_ok_reply [OF handler_ok_note_request [OF assms]]
  unfolding Let_def by blast

lemma note_request_frame [simp]:
  "dh_token_store (detached (note_request env ident addr h)) = dh_token_store (detached h)"
  "active_stores (detached (note_request env ident addr h)) = active_stores (detached h)"
  "table_node_id (the_table (note_request env ident addr h)) = table_node_id (the_table h)"
  "table_actions (note_request env ident addr h) = table_actions h"
  by (simp_all add: note_request_def set_table_def)

definition peers_info :: "(sha_hash \<times> socket_addr_v4) list \<Rightarrow> socket_addr_v4 list \<Rightarrow> compact_info_type" where
  "peers_info ps as =
     (let ns = \<lparr>compact_nodes = concat (map compact_node_bytes ps)\<rparr>
      in if as = [] then InfoNodes ns else InfoBoth ns \<lparr>compact_values = map (\<lambda>a. MBytes (sock_v4_to_bytes_be a)) as\<rparr>)"

lemma get_peers_reply:
  assumes "handler_ok (h, io)"
    and f: "storage_find (env_now env) (gpq_info_hash g) (active_stores (detached h)) = (contacts, stores)"
    and d: "draw_secrets io = (r1, r2, io1)"
    and c: "checkout (env_sha env) (env_now env) r1 r2 (from_socket_addr addr) (dh_token_store (detached h)) = (tok, tokens)"
    and h1: "h1 = note_request env (gpq_node_id g) addr h"
  shows "\<exists>ns ps. closest_first (env_now env) 8 (the_table h1) (gpq_info_hash g) = Ok ns \<and> wire_pairs ps ns \<and> length ps \<le> 8 \<and>
    handle_get_peers env g addr (h, io) = Ok (reply (get_peers_response_encode
      \<lparr>gps_trans_id = gpq_trans_id g, gps_node_id = table_node_id (the_table h), gps_token = Some (token_bytes tok),
       gps_info_type = peers_info ps (List.map_filter map_ipv4 contacts)\<rparr>) addr
      (h1\<lparr>detached := (detached h1)\<lparr>active_stores := stores, dh_token_store := tokens\<rparr>\<rparr>, io1))"
proof -
  have "table_ok (the_table h1)" using handler_ok_note_request [OF assms(1), of env "gpq_node_id g" addr]
    by (simp add: handler_ok_def detached_ok_def h1)
  from closest_nodes_bytes_result [OF this, of env "gpq_info_hash g"] obtain ns ps where
    n: "closest_first (env_now env) 8 (the_table h1) (gpq_info_hash g) = Ok ns" "wire_pairs ps ns" "length ps \<le> 8"
      "closest_nodes_bytes env (gpq_info_hash g) (the_table h1) = Ok (concat (map compact_node_bytes ps))" by blast
  have m: "compact_node_info_new (concat (map compact_node_bytes ps)) = Ok \<lparr>compact_nodes = concat (map compact_node_bytes ps)\<rparr>"
    using length_compact_nodes [of ps] n(2) by (simp add: compact_node_info_new_def wire_pairs_def compact_consts)
  have "handle_get_peers env g addr (h, io) = Ok (reply (get_peers_response_encode
      \<lparr>gps_trans_id = gpq_trans_id g, gps_node_id = table_node_id (the_table h), gps_token = Some (token_bytes tok),
       gps_info_type = peers_info ps (List.map_filter map_ipv4 contacts)\<rparr>) addr
      (h1\<lparr>detached := (detached h1)\<lparr>active_stores := stores, dh_token_store := tokens\<rparr>\<rparr>, io1))"
    using n(4) m f d c
    by (simp add: handle_get_peers_def Let_def contact_bytes_concat contact_chunks_concat compact_value_info_new_contacts
        peers_info_def h1 [symmetric])
  with n show ?thesis by blast
qed

lemma draw_secrets_calls: "draw_secrets io = (r1, r2, io1) \<Longrightarrow> io_calls io1 = io_calls io"
  by (auto simp: draw_secrets_def)

text \<open>Stores of tokens and contacts are no part of the invariant.\<close>

lemma handler_ok_stores:
  assumes "handler_ok (h, io)" and "set (io_calls io) \<subseteq> set (io_calls io')"
  shows "handler_ok (h\<lparr>detached := (detached h)\<lparr>active_stores := stores, dh_token_store := tokens\<rparr>\<rparr>, io')"
    "handler_ok (h\<lparr>detached := (detached h)\<lparr>dh_token_store := tokens\<rparr>\<rparr>, io')"
    "handler_ok (h\<lparr>detached := (detached h)\<lparr>dh_token_store := tokens, active_stores := stores\<rparr>\<rparr>, io')"
  using handler_ok_calls [OF assms] by (simp_all add: handler_ok_def detached_ok_def actions_ok_def)

lemma handle_get_peers_ok:
  assumes "handler_ok (h, io)"
  shows "\<exists>st'. handle_get_peers env g addr (h, io) = Ok st' \<and> handler_ok st'"
proof -
  obtain contacts stores where f: "storage_find (env_now env) (gpq_info_hash g) (active_stores (detached h)) = (contacts, stores)"
    by (rule prod.exhaust)
  obtain r1 r2 io1 where d: "draw_secrets io = (r1, r2, io1)" by (rule prod_cases3)
  obtain tok tokens where c: "checkout (env_sha env) (env_now env) r1 r2 (from_socket_addr addr) (dh_token_store (detached h)) = (tok, tokens)"
    by (rule prod.exhaust)
  let ?h = "note_request env (gpq_node_id g) addr h"
  have "set (io_calls io) \<subseteq> set (io_calls io1)" using draw_secrets_calls [OF d] by simp
  from handler_ok_reply [OF handler_ok_stores(1) [OF handler_ok_note_request [OF assms] this]]
  have "handler_ok (reply msg addr (?h\<lparr>detached := (detached ?h)\<lparr>active_stores := stores, dh_token_store := tokens\<rparr>\<rparr>, io1))" for msg .
  with get_peers_reply [OF assms f d c refl] show ?thesis by blast
qed

text \<open>An announcement: the token decides whether the contact reaches the storage.\<close>

definition announce_reply :: "dht_env \<Rightarrow> announce_peer_request \<Rightarrow> socket_addr \<Rightarrow> bool \<Rightarrow> dht_handler \<Rightarrow> bytes \<times> dht_handler" where
  "announce_reply env a addr valid h =
     (if \<not> valid then
        (error_message_encode (error_message_new (apq_trans_id a) ProtocolError (ascii ''Received An Invalid Token'')), h)
      else
        let (added, stores) = storage_add (env_now env) (env_now env) (apq_info_hash a) (connect_addr (apq_port a) addr) (active_stores (detached h))
        in (if added then announce_peer_response_encode \<lparr>aps_trans_id = apq_trans_id a, aps_node_id = table_node_id (the_table h)\<rparr>
            else error_message_encode (error_message_new (apq_trans_id a) ServerError (ascii ''Announce Storage Is Full'')),
            h\<lparr>detached := (detached h)\<lparr>active_stores := stores\<rparr>\<rparr>))"

lemma same_tokens: "dh_token_store (detached h) = tokens \<Longrightarrow> h\<lparr>detached := (detached h)\<lparr>dh_token_store := tokens\<rparr>\<rparr> = h"
  by auto

lemma handle_announce_peer_eq:
  "\<exists>valid tokens io1. (io_calls io1 = io_calls io \<and> io_sent io1 = io_sent io \<and> io_out_ok io1 = io_out_ok io) \<and>
    handle_announce_peer env a addr (h, io) =
     (let h1 = note_request env (apq_node_id a) addr h;
          (msg, h2) = announce_reply env a addr valid (h1\<lparr>detached := (detached h1)\<lparr>dh_token_store := tokens\<rparr>\<rparr>)
      in Ok (reply msg addr (h2, io1))) \<and>
    (\<forall>t. token_new (apq_token a) = Ok t \<longrightarrow>
      (case draw_secrets io of (r1, r2, io2) \<Rightarrow>
        checkin (env_sha env) (env_now env) r1 r2 (from_socket_addr addr) t (dh_token_store (detached h)) = (valid, tokens))) \<and>
    ((\<forall>t. token_new (apq_token a) \<noteq> Ok t) \<longrightarrow> \<not> valid \<and> tokens = dh_token_store (detached h))"
proof (cases "token_new (apq_token a)")
  case (Ok t)
  obtain r1 r2 io1 where d: "draw_secrets io = (r1, r2, io1)" by (rule prod_cases3)
  obtain valid tokens where c: "checkin (env_sha env) (env_now env) r1 r2 (from_socket_addr addr) t (dh_token_store (detached h)) = (valid, tokens)"
    by (rule prod.exhaust)
  have "handle_announce_peer env a addr (h, io) =
     (let h1 = note_request env (apq_node_id a) addr h;
          (msg, h2) = announce_reply env a addr valid (h1\<lparr>detached := (detached h1)\<lparr>dh_token_store := tokens\<rparr>\<rparr>)
      in Ok (reply msg addr (h2, io1)))"
    using Ok d c by (simp add: handle_announce_peer_def announce_reply_def Let_def split: prod.split)
  moreover have "io_calls io1 = io_calls io \<and> io_sent io1 = io_sent io \<and> io_out_ok io1 = io_out_ok io" using d by (auto simp: draw_secrets_def)
  ultimately show ?thesis using Ok d c by (intro exI [of _ valid] exI [of _ tokens] exI [of _ io1]) simp
next
  case (Err e)
  then show ?thesis
    by (intro exI [of _ False] exI [of _ "dh_token_store (detached h)"] exI [of _ io])
       (simp add: handle_announce_peer_def announce_reply_def Let_def same_tokens)
next
  case Panic
  then show ?thesis
    by (intro exI [of _ False] exI [of _ "dh_token_store (detached h)"] exI [of _ io])
       (simp add: handle_announce_peer_def announce_reply_def Let_def same_tokens)
qed

lemma handle_announce_peer_ok:
  assumes "handler_ok (h, io)"
  shows "\<exists>st'. handle_announce_peer env a addr (h, io) = Ok st' \<and> handler_ok st'"
proof -
  let ?h = "note_request env (apq_node_id a) addr h"
  from handle_announce_peer_eq [of io env a addr h] obtain valid tokens io1 where
    r: "io_calls io1 = io_calls io" "handle_announce_peer env a addr (h, io) =
      (let (msg, h2) = announce_reply env a addr valid (?h\<lparr>detached := (detached ?h)\<lparr>dh_token_store := tokens\<rparr>\<rparr>)
       in Ok (reply msg addr (h2, io1)))" unfolding Let_def by blast
  obtain msg h2 where m: "announce_reply env a addr valid (?h\<lparr>detached := (detached ?h)\<lparr>dh_token_store := tokens\<rparr>\<rparr>) = (msg, h2)"
    by (rule prod.exhaust)
  have "handler_ok (h2, io1)"
    using m handler_ok_stores(2,3) [OF handler_ok_note_request [OF assms, of env "apq_node_id a" addr], of io1] r(1)
    by (auto simp: announce_reply_def Let_def split: if_splits prod.splits)
  with r(2) m handler_ok_reply show ?thesis by simp
qed

section \<open>Responses\<close>

lemma wire_contact_V4: "hash_valid ident \<Longrightarrow> wire_contact (ident, V4 a)"
  by (simp add: wire_contact_def hash_valid_def)

lemma contact_as:
  "contact (as_good now ident addr) = (ident, addr)" "contact (as_questionable now ident addr) = (ident, addr)"
  by (simp_all add: contact_def as_good_def as_questionable_def)

lemma handle_find_node_response_ok:
  assumes "handler_ok (h, io)" and "\<not> shutdown_requested io" and "response_valid (FindNodeResponse f)"
    and "transaction_id_from_bytes (fns_trans_id f) = Some tid"
  shows "\<exists>st'. handle_find_node_response env f (V4 a) (h, io) = Ok st' \<and> handler_ok st'"
proof -
  let ?now = "env_now env" and ?n = "as_good (env_now env) (fns_node_id f) (V4 a)" and ?aid = "transaction_action_id tid"
  have t: "table_ok (the_table h)" using assms(1) by (simp add: handler_ok_def detached_ok_def)
  obtain infos where i: "(compact_node_collect (compact_node_into_iter (fns_nodes f)) :: (_, unit) outcome) = Ok infos"
    "\<forall>(ident, sock) \<in> set infos. length (sha_bytes ident) = 20"
    using compact_node_collect_spec [of "compact_node_into_iter (fns_nodes f)", where ?'e = unit] assms(3)
    by (auto simp: compact_node_into_iter_def nodes_valid_def compact_consts)
  let ?ns = "map (\<lambda>(ident, v4_addr). as_questionable ?now ident (V4 v4_addr)) infos"
  have "\<forall>n \<in> set ?ns. wire_contact (contact n)"
    using i(2) by (auto simp: contact_as wire_contact_def SHA_HASH_LEN_def)
  from add_nodes_ok [OF t this, of ?now] obtain t1 where t1: "add_nodes ?now ?ns (the_table h) = Ok t1" "table_ok t1"
    "table_node_id t1 = table_node_id (the_table h)" by blast
  have "wire_contact (contact ?n)" using assms(3) by (simp add: contact_as wire_contact_V4)
  from add_node_ok [OF t1(2) this, of ?now] obtain t2 where t2: "add_node ?now ?n t1 = Ok t2" "table_ok t2"
    "table_node_id t2 = table_node_id t1" by blast
  have ev: "evolves (the_table h, io) (t', io)" if "table_ok t'" "table_node_id t' = table_node_id (the_table h)" for t'
    using that by (simp add: evolves_def)
  note okT = handler_ok_evolves [OF assms(1) ev]
  consider refresh where "map_of (table_actions h) ?aid = Some (RefreshAction refresh)"
    | bs k where "map_of (table_actions h) ?aid = Some (BootstrapAction bs k)"
    | "map_of (table_actions h) ?aid = None" | l where "map_of (table_actions h) ?aid = Some (LookupAction l)"
    by (metis not_Some_eq table_action.exhaust)
  then show ?thesis
  proof cases
    case 1
    with assms(4) i t1 t2 okT [of t2] show ?thesis by (simp add: handle_find_node_response_def Let_def)
  next
    case (2 bs k)
    let ?t = "if is_router (node_addr ?n) bs then t1 else t2"
    have ok: "bootstrap_ok bs io" using map_of_action_ok [OF assms(1,2) 2] by (simp add: action_ok_def)
    have T: "table_ok ?t" "table_node_id ?t = table_node_id (the_table h)" using t1 t2 by simp_all
    from bootstrap_recv_response_result [OF T(1) ok, of ?now tid] obtain r bs' t' io' where
      r: "bootstrap_recv_response ?now tid (bs, ?t, io) = Ok (r, bs', t', io')" "evolves (?t, io) (t', io')" "bootstrap_after r bs bs' io'"
      by blast
    have "handle_find_node_response env f (V4 a) (h, io) = finish_bootstrap_step env ?aid r (bs', k, io') (set_table t' h)"
      using assms(4) i t1 t2 2 r(1) by (cases "is_router (node_addr ?n) bs") (simp_all add: handle_find_node_response_def Let_def)
    with bootstrap_step_ok [OF assms(1) ok evolves_trans [OF ev [OF T] r(2)] r(3)] show ?thesis by simp
  next
    case 3
    with assms(4) i t1 okT [of t1] show ?thesis by (simp add: handle_find_node_response_def Let_def)
  next
    case (4 l)
    with assms(4) i t1 okT [of t1] show ?thesis by (simp add: handle_find_node_response_def Let_def)
  qed
qed

lemma handle_get_peers_response_ok:
  assumes "handler_ok (h, io)" and "\<not> shutdown_requested io" and "response_valid (GetPeersResponse g)"
    and "transaction_id_from_bytes (gps_trans_id g) = Some tid"
  shows "\<exists>st'. handle_get_peers_response env g (V4 a) (h, io) = Ok st' \<and> handler_ok st'"
proof -
  let ?now = "env_now env" and ?n = "as_good (env_now env) (gps_node_id g) (V4 a)" and ?aid = "transaction_action_id tid"
  have t: "table_ok (the_table h)" using assms(1) by (simp add: handler_ok_def detached_ok_def)
  have "wire_contact (contact ?n)" using assms(3) by (simp add: contact_as wire_contact_V4)
  from add_node_ok [OF t this, of ?now] obtain t1 where t1: "add_node ?now ?n (the_table h) = Ok t1" "table_ok t1"
    "table_node_id t1 = table_node_id (the_table h)" by blast
  have ok: "handler_ok (set_table t1 h, io)" by (rule handler_ok_evolves [OF assms(1)]) (use t1 in \<open>simp add: evolves_def\<close>)
  show ?thesis
  proof (cases "\<exists>l. map_of (table_actions h) ?aid = Some (LookupAction l)")
    case True
    then obtain l where l: "map_of (table_actions h) ?aid = Some (LookupAction l)" by blast
    obtain k where k: "?aid = ActionID k" "lookup_inv k l io" using map_of_action_ok [OF assms(1,2) l] by (auto simp: action_ok_def)
    from lookup_recv_response_inv [OF k(2), of g "env_pick env" ?now ?n tid t1] assms(3) obtain r l' t' io' where
      r: "lookup_recv_response (env_pick env) ?now ?n tid g (l, t1, io) = Ok (r, l', t', io')" "evolves (t1, io) (t', io')"
        "r \<noteq> SearchFailed \<longrightarrow> lookup_inv k l' io'" by auto
    have "handler_ok (lookup_outcome (lk_target_id l') r (set_action ?aid (LookupAction l') (set_table t' (set_table t1 h)), io'))"
      by (rule lookup_step_ok [OF ok]) (use r k in \<open>simp_all add: action_ok_def\<close>)
    with assms(4) t1 l r(1) show ?thesis by (simp add: handle_get_peers_response_def Let_def)
  next
    case False
    then have "handle_get_peers_response env g (V4 a) (h, io) = Ok (set_table t1 h, io)"
      using assms(4) t1 by (auto simp: handle_get_peers_response_def Let_def split: option.split table_action.split)
    with ok show ?thesis by blast
  qed
qed

section \<open>Callbacks\<close>

lemma awaited_response_kinds: "awaited_response h t \<in> {ExpectNone, ExpectGetPeers, ExpectFindNode}"
  by (simp add: awaited_response_def split: option.split table_action.split)

lemma awaited_response_id: "awaited_response h t \<noteq> ExpectNone \<Longrightarrow> \<exists>tid. transaction_id_from_bytes t = Some tid"
  by (auto simp: awaited_response_def split: option.splits)

lemma dht_decode_no_panic: "dht_bencode_decode buf \<noteq> Panic"
  using dht_bencode_decode_cases [of buf] by (cases "bencode_decode buf (dht_opts buf)") auto

lemma handle_message_ok:
  assumes "handler_ok (h, io)" and "\<not> shutdown_requested io" and "message_valid m" and "awaited (awaited_response h) m"
  shows "\<exists>st'. handle_message env m (V4 a) (h, io) = Ok st' \<and> handler_ok st'"
proof (cases m)
  case (RequestMessage r)
  then show ?thesis using assms(1)
    by (cases r) (simp_all add: handle_message_def handle_ping_ok handle_find_node_ok handle_get_peers_ok handle_announce_peer_ok
        del: split_paired_Ex)
next
  case (ResponseMessage r)
  have "\<exists>tid. transaction_id_from_bytes (response_trans_id r) = Some tid" if "expected_of r \<noteq> ExpectNone"
    using awaited_response_id [of h "response_trans_id r"] assms(4) ResponseMessage that by simp
  then show ?thesis using assms ResponseMessage
    by (cases r) (auto simp: handle_message_def simp del: split_paired_Ex
        intro: handle_find_node_response_ok handle_get_peers_response_ok)
next
  case (ErrorMessage e)
  with assms(1) show ?thesis by (simp add: handle_message_def)
qed

lemma handle_incoming_ok:
  assumes "handler_ok (h, io)" and "\<not> shutdown_requested io"
  shows "\<exists>st'. handle_incoming env buf (V4 a) (h, io) = Ok st' \<and> handler_ok st'"
proof (cases "dht_bencode_decode buf")
  case (Ok b)
  have "\<forall>t. awaited_response h t \<noteq> ExpectGetData \<and> awaited_response h t \<noteq> ExpectPutData"
    using awaited_response_kinds [of h] by (metis empty_iff expected_response.distinct insert_iff)
  from message_type_new_no_panic [OF this, of b] consider m where "message_type_new b (awaited_response h) = Ok m"
    | e where "message_type_new b (awaited_response h) = Err e" by (cases "message_type_new b (awaited_response h)") auto
  then show ?thesis
  proof cases
    case (1 m)
    with handle_message_ok [OF assms message_type_new_valid [OF 1] message_type_new_awaited [OF 1], of env a] Ok assms(1)
    show ?thesis by (auto simp: handle_incoming_def)
  next
    case (2 e)
    with Ok assms(1) show ?thesis by (auto simp: handle_incoming_def)
  qed
qed (use assms(1) dht_decode_no_panic in \<open>auto simp: handle_incoming_def\<close>)

lemma notify_ok:
  assumes "handler_ok (h, io)" and "\<not> shutdown_requested io"
    and "case task of Incoming buf addr \<Rightarrow> \<exists>a. addr = V4 a | _ \<Rightarrow> True"
  shows "\<exists>st'. notify env task (h, io) = Ok st' \<and> handler_ok st'"
proof (cases task)
  case (Incoming buf addr)
  with handle_incoming_ok [OF assms(1,2)] assms(3) show ?thesis by auto
next
  case (RegisterSender s)
  with assms(1) show ?thesis by (simp add: handle_register_sender_def handler_ok_def detached_ok_def actions_ok_def)
next
  case (Shutdown cause)
  obtain h' io' where b: "broadcast (ShuttingDown cause) (h, io) = (h', io')" by (rule prod.exhaust)
  with handler_ok_broadcast [OF assms(1), of "ShuttingDown cause"] handler_ok_calls [of h' io' "event_call LoopShutdown io'"] Shutdown
  show ?thesis by (auto simp: handle_shutdown_def)
qed (use assms(1) handle_start_bootstrap_ok handle_start_lookup_ok in simp_all)

lemma timeout_ok:
  assumes "handler_ok (h, io)" and "\<not> shutdown_requested io"
  shows "\<exists>st'. timeout env data (h, io) = Ok st' \<and> handler_ok st'"
proof -
  obtain d task where data: "data = (d, task)" by (rule prod.exhaust)
  have "refresh_ok r" if "map_of (table_actions h) aid = Some (RefreshAction r)" for aid r
    using map_of_action_ok [OF assms that] by (simp add: action_ok_def)
  with data assms show ?thesis
    by (cases task) (simp_all add: handle_check_table_refresh_ok handle_check_bootstrap_timeout_ok handle_check_lookup_timeout_ok
        handle_check_lookup_endgame_ok del: split_paired_Ex)
qed

section \<open>Runs of the worker\<close>

fun run_steps :: "('x \<Rightarrow> 's \<Rightarrow> ('s, 'e) outcome) \<Rightarrow> 'x list \<Rightarrow> 's \<Rightarrow> ('s, 'e) outcome" where
  "run_steps stp [] s = Ok s"
| "run_steps stp (x # xs) s = and_then (stp x s) (run_steps stp xs)"

text \<open>A machine that keeps its invariant until it is told to stop.\<close>

locale stoppable =
  fixes stp :: "'x \<Rightarrow> 's \<Rightarrow> ('s, 'e) outcome" and inv :: "'s \<Rightarrow> bool" and stopped :: "'s \<Rightarrow> bool" and allowed :: "'x \<Rightarrow> bool"
  assumes step_inv: "\<lbrakk>inv s; \<not> stopped s; allowed x\<rbrakk> \<Longrightarrow> \<exists>s'. stp x s = Ok s' \<and> inv s'"
begin

lemma run_inv:
  "inv s \<Longrightarrow> list_all allowed xs \<Longrightarrow>
   (\<exists>s'. run_steps stp xs s = Ok s' \<and> inv s') \<or>
   (\<exists>before rest s1. xs = before @ rest \<and> run_steps stp before s = Ok s1 \<and> inv s1 \<and> stopped s1)"
proof (induction xs arbitrary: s)
  case (Cons x xs)
  show ?case
  proof (cases "stopped s")
    case True
    with Cons.prems have "x # xs = [] @ x # xs \<and> run_steps stp [] s = Ok s \<and> inv s \<and> stopped s" by simp
    then show ?thesis by blast
  next
    case False
    with step_inv [OF Cons.prems(1)] Cons.prems(2) obtain s' where s': "stp x s = Ok s'" "inv s'" by auto
    have allowed: "list_all allowed xs" using Cons.prems(2) by simp
    from Cons.IH [OF s'(2) allowed] consider s2 where "run_steps stp xs s' = Ok s2" "inv s2"
      | before rest s1 where "xs = before @ rest" "run_steps stp before s' = Ok s1" "inv s1" "stopped s1" by blast
    then show ?thesis
    proof cases
      case 1
      with s'(1) show ?thesis by simp
    next
      case (2 before rest s1)
      with s'(1) have "x # xs = (x # before) @ rest \<and> run_steps stp (x # before) s = Ok s1 \<and> inv s1 \<and> stopped s1" by simp
      then show ?thesis by blast
    qed
  qed
qed simp

end

datatype worker_event = Notified oneshot_task | TimedOut "nat \<times> scheduled_task"

fun callback :: "dht_env \<times> worker_event \<Rightarrow> handler_state \<Rightarrow> (handler_state, unit) outcome" where
  "callback (env, Notified task) st = notify env task st"
| "callback (env, TimedOut data) st = timeout env data st"

fun from_ipv4 :: "dht_env \<times> worker_event \<Rightarrow> bool" where
  "from_ipv4 (env, Notified (Incoming buf addr)) = (case addr of V4 _ \<Rightarrow> True | V6 _ \<Rightarrow> False)"
| "from_ipv4 _ = True"

definition stopping :: "handler_state \<Rightarrow> bool" where
  "stopping st \<longleftrightarrow> shutdown_requested (snd st)"

interpretation worker: stoppable callback handler_ok stopping from_ipv4
proof
  fix st :: handler_state and x
  assume ok: "handler_ok st" and "\<not> stopping st" and v4: "from_ipv4 x"
  obtain h io where st: "st = (h, io)" by (rule prod.exhaust)
  with \<open>\<not> stopping st\<close> have ns: "\<not> shutdown_requested io" by (simp add: stopping_def)
  obtain env ev where x: "x = (env, ev)" by (rule prod.exhaust)
  show "\<exists>st'. callback x st = Ok st' \<and> handler_ok st'"
  proof (cases ev)
    case (Notified task)
    have "case task of Incoming buf addr \<Rightarrow> \<exists>a. addr = V4 a | _ \<Rightarrow> True"
      using v4 x Notified by (auto split: oneshot_task.split socket_addr.splits)
    from notify_ok [OF ok [unfolded st] ns this, of env] x Notified st show ?thesis by simp
  next
    case (TimedOut data)
    from timeout_ok [OF ok [unfolded st] ns, of env data] x TimedOut st show ?thesis by simp
  qed
qed

lemma routing_table_new_ok: "length (sha_bytes ident) = SHA_HASH_LEN \<Longrightarrow> table_ok (routing_table_new ident)"
  using table_new_wf [of ident] by (auto simp: table_ok_def table_contacts_def routing_table_new_def bucket_new_def)

lemma handler_new_ok:
  assumes "length (sha_bytes ident) = SHA_HASH_LEN"
  shows "handler_ok (handler_new now (routing_table_new ident) rdonly port io)"
proof -
  let ?g = "aid_generator_new (io_rnds io (io_drawn io))"
  obtain m g io1 where e: "next_action ?g (io\<lparr>io_drawn := Suc (io_drawn io)\<rparr>) = (m, g, io1)" by (rule prod_cases3)
  obtain tid m' io2 where e2: "next_trans_id m io1 = (tid, m', io2)" by (rule prod_cases3)
  obtain r1 r2 io3 where e3: "draw_secrets io2 = (r1, r2, io3)" by (rule prod_cases3)
  have "aid_inv ?g" by (rule aid_generator_new_inv)
  from next_action_result(1) [OF this e] routing_table_new_ok [OF assms] show ?thesis
    by (simp add: handler_new_def Let_def e e2 e3 handler_ok_def detached_ok_def actions_ok_def future_ok_def refresh_ok_def refresh_new_def)
qed

section \<open>What the receiver of a reply reads\<close>

lemma compact_node_bytes_inj:
  assumes "compact_node_bytes p = compact_node_bytes q" and "length (sha_bytes (fst p)) = 20" and "length (sha_bytes (fst q)) = 20"
  shows "p = q"
proof -
  have "sha_bytes (fst p) = sha_bytes (fst q)" "sock_v4_to_bytes_be (snd p) = sock_v4_to_bytes_be (snd q)"
    using assms by (simp_all add: compact_node_bytes_def split_beta)
  then have "fst p = fst q" "snd p = snd q" by (metis sha_hash_eta, metis sock_v4_roundtrip)
  then show ?thesis by (rule prod_eqI)
qed

lemma compact_nodes_inj:
  "concat (map compact_node_bytes ps) = concat (map compact_node_bytes qs) \<Longrightarrow>
   \<forall>p \<in> set ps. length (sha_bytes (fst p)) = 20 \<Longrightarrow> \<forall>q \<in> set qs. length (sha_bytes (fst q)) = 20 \<Longrightarrow> ps = qs"
proof (induction ps arbitrary: qs)
  case Nil
  then show ?case by (cases qs) (auto simp: compact_node_bytes_def)
next
  case (Cons p ps)
  have l: "length (sha_bytes (fst r)) = 20 \<Longrightarrow> length (compact_node_bytes r) = 26" for r
    by (simp add: compact_node_bytes_def split_beta)
  have "length (concat (map compact_node_bytes qs)) \<ge> 26"
    using arg_cong [OF Cons.prems(1), of length] Cons.prems(2) l [of p] by simp
  then obtain q rest where qs: "qs = q # rest" by (cases qs) auto
  from Cons.prems qs l [of p] l [of q] have "compact_node_bytes p = compact_node_bytes q"
    "concat (map compact_node_bytes ps) = concat (map compact_node_bytes rest)" by simp_all
  with Cons.IH [of rest] Cons.prems(2,3) qs compact_node_bytes_inj [of p q] show ?case by simp
qed

lemma collect_compact_nodes:
  assumes "\<forall>p \<in> set ps. length (sha_bytes (fst p)) = 20"
  shows "(compact_node_collect (compact_node_into_iter \<lparr>compact_nodes = concat (map compact_node_bytes ps)\<rparr>) :: (_, 'e) outcome) = Ok ps"
proof -
  let ?it = "compact_node_into_iter \<lparr>compact_nodes = concat (map compact_node_bytes ps)\<rparr>"
  obtain ns where ns: "(compact_node_collect ?it :: (_, 'e) outcome) = Ok ns"
    "concat (map compact_node_bytes ns) = concat (map compact_node_bytes ps)" "\<forall>(ident, sock) \<in> set ns. length (sha_bytes ident) = 20"
    using compact_node_collect_spec [of ?it, where ?'e = 'e] length_compact_nodes [OF assms] by (auto simp: compact_node_into_iter_def)
  from compact_nodes_inj [OF ns(2) _ assms] ns(3) have "ns = ps" by fastforce
  with ns(1) show ?thesis by simp
qed

lemma reply_sent:
  "io_out_ok io (length (io_sent io)) \<Longrightarrow> reply msg addr (h, io) = (h, io\<lparr>io_sent := io_sent io @ [(msg, addr)]\<rparr>)"
  by (simp add: reply_def out_send_def)

section \<open>Properties\<close>

definition sample_env :: dht_env where
  "sample_env = \<lparr>env_now = 5, env_sha = (\<lambda>bs. ShaHash (take 20 (bs @ replicate 20 0))), env_pick = (\<lambda>_ _. 0), env_resolve = (\<lambda>_. None)\<rparr>"

definition sample_state :: handler_state where
  "sample_state = handler_new 0 (routing_table_new (ShaHash (replicate 20 0))) False 6881 sample_io"

lemma sample_state_ok: "handler_ok sample_state"
  unfolding sample_state_def by (rule handler_new_ok) (simp add: SHA_HASH_LEN_def)

lemma sample_state_out: "io_out_ok (snd sample_state) k" "io_sent (snd sample_state) = []"
  by (simp_all add: sample_state_def handler_new_def next_action_def next_trans_id_def draw_secrets_def Let_def sample_io_def split: prod.split)

text \<open>C28: Whatever arrives from IPv4 senders, whatever the clients ask for, whichever timers fire and whether the
  event loop and the channel take what they are given or not: the worker keeps its invariant and does not
  panic, unless it has been told to shut down before.\<close>

theorem worker_never_panics:
  assumes "length (sha_bytes ident) = SHA_HASH_LEN" and "list_all from_ipv4 events"
  shows "(\<exists>st. run_steps callback events (handler_new now (routing_table_new ident) rdonly port io) = Ok st \<and> handler_ok st) \<or>
    (\<exists>before rest st. events = before @ rest \<and>
      run_steps callback before (handler_new now (routing_table_new ident) rdonly port io) = Ok st \<and> handler_ok st \<and>
      shutdown_requested (snd st))"
  using worker.run_inv [OF handler_new_ok [OF assms(1)] assms(2)] unfolding stopping_def by blast

theorem worker_never_panics_witness:
  "let events = [(sample_env, Notified (StartBootstrap [] [])), (sample_env, Notified (Incoming [100, 101] (V4 \<lparr>v4_ip = Ipv4Addr 10 0 0 1, v4_port = 1\<rparr>)))];
       start = handler_new 0 (routing_table_new (ShaHash (replicate 20 0))) False 6881 sample_io
   in (\<exists>st. run_steps callback events start = Ok st \<and> handler_ok st) \<or>
    (\<exists>before rest st. events = before @ rest \<and> run_steps callback before start = Ok st \<and> handler_ok st \<and> shutdown_requested (snd st))"
  unfolding Let_def by (rule worker_never_panics) (simp_all add: SHA_HASH_LEN_def)

text \<open>C29: A node that asks for the nodes near a target gets one message, which it reads as the response it awaits,
  with its own transaction id, the id of the worker, and the contacts of the eight closest usable nodes.\<close>

theorem find_node_answered:
  assumes "handler_ok (h, io)" and "io_out_ok io (length (io_sent io))"
    and "length (fnq_trans_id f) < 2 ^ 63" and "mapper (fnq_trans_id f) = ExpectFindNode"
  shows "\<exists>h' io' msg b r ns ps. handle_find_node env f addr (h, io) = Ok (h', io') \<and> io_sent io' = io_sent io @ [(msg, addr)] \<and>
    dht_bencode_decode msg = Ok b \<and> message_type_new b mapper = Ok (ResponseMessage (FindNodeResponse r)) \<and>
    fns_trans_id r = fnq_trans_id f \<and> fns_node_id r = table_node_id (the_table h) \<and>
    closest_first (env_now env) 8 (the_table h') (fnq_target_id f) = Ok ns \<and>
    (compact_node_collect (compact_node_into_iter (fns_nodes r)) :: (_, unit) outcome) = Ok ps \<and>
    map (\<lambda>(ident, a). (ident, V4 a)) ps = map contact ns"
proof -
  let ?h = "note_request env (fnq_node_id f) addr h"
  from find_node_reply [OF assms(1), of env f addr] obtain ns ps where
    c: "closest_first (env_now env) 8 (the_table ?h) (fnq_target_id f) = Ok ns" "wire_pairs ps ns" "length ps \<le> 8" and
    hf: "handle_find_node env f addr (h, io) = Ok (reply (find_node_response_encode
      \<lparr>fns_trans_id = fnq_trans_id f, fns_node_id = table_node_id (the_table h),
       fns_nodes = \<lparr>compact_nodes = concat (map compact_node_bytes ps)\<rparr>\<rparr>) addr (?h, io))" by (auto simp: Let_def)
  let ?r = "\<lparr>fns_trans_id = fnq_trans_id f, fns_node_id = table_node_id (the_table h),
       fns_nodes = \<lparr>compact_nodes = concat (map compact_node_bytes ps)\<rparr>\<rparr>"
  have len: "\<forall>p \<in> set ps. length (sha_bytes (fst p)) = 20" "length (concat (map compact_node_bytes ps)) = 26 * length ps"
    using c(2) length_compact_nodes by (auto simp: wire_pairs_def)
  have "hash_valid (table_node_id (the_table h))"
    using assms(1) by (simp add: handler_ok_def detached_ok_def table_ok_def hash_valid_def)
  then have "response_valid (FindNodeResponse ?r)" "response_fits (FindNodeResponse ?r)"
    using assms(3) c(3) len(2) by (simp_all add: nodes_valid_def compact_consts del: length_concat)
  from response_roundtrip [OF this, of mapper] assms(4) obtain b where
    b: "dht_bencode_decode (find_node_response_encode ?r) = Ok b" "message_type_new b mapper = Ok (ResponseMessage (FindNodeResponse ?r))" by auto
  have "map (\<lambda>(ident, a). (ident, V4 a)) ps = map contact ns" using c(2) by (simp add: wire_pairs_def)
  with hf b c(1) collect_compact_nodes [OF len(1)] reply_sent [OF assms(2)] show ?thesis
    by (intro exI [of _ ?h] exI [of _ "io\<lparr>io_sent := io_sent io @ [(find_node_response_encode ?r, addr)]\<rparr>"]
        exI [of _ "find_node_response_encode ?r"] exI [of _ b] exI [of _ ?r] exI [of _ ns] exI [of _ ps]) simp
qed

definition filled_handler :: dht_handler where
  "filled_handler = set_table filled_table (fst sample_state)"

lemma filled_handler_ok: "handler_ok (filled_handler, snd sample_state)"
proof -
  have "wire_contact (contact (sample_node 5))"
    by (simp add: wire_contact_def contact_def sample_node_def as_good_def SHA_HASH_LEN_def)
  then have "table_ok filled_table" using filled_wf
    by (simp add: table_ok_def table_contacts_def filled_table_def sample_table_def routing_table_new_def SHA_HASH_LEN_def)
  with sample_state_ok show ?thesis
    by (auto simp: handler_ok_def detached_ok_def filled_handler_def set_table_def actions_ok_def)
qed

theorem find_node_answered_witness:
  "let f = \<lparr>fnq_trans_id = [97], fnq_node_id = ShaHash (replicate 20 1), fnq_target_id = ShaHash (replicate 20 2)\<rparr>;
       addr = V4 \<lparr>v4_ip = Ipv4Addr 10 0 0 1, v4_port = 1\<rparr> in
   \<exists>h' io' msg b r ps. handle_find_node sample_env f addr (filled_handler, snd sample_state) = Ok (h', io') \<and> io_sent io' = [(msg, addr)] \<and>
    dht_bencode_decode msg = Ok b \<and> message_type_new b (\<lambda>_. ExpectFindNode) = Ok (ResponseMessage (FindNodeResponse r)) \<and>
    (compact_node_collect (compact_node_into_iter (fns_nodes r)) :: (_, unit) outcome) = Ok ps \<and>
    map (\<lambda>(ident, a). (ident, V4 a)) ps = [contact (sample_node 5)]"
proof -
  let ?f = "\<lparr>fnq_trans_id = [97], fnq_node_id = ShaHash (replicate 20 1), fnq_target_id = ShaHash (replicate 20 2)\<rparr>"
    and ?addr = "V4 \<lparr>v4_ip = Ipv4Addr 10 0 0 1, v4_port = 1\<rparr>"
  let ?h = "note_request sample_env (ShaHash (replicate 20 1)) ?addr filled_handler"
  let ?n = "as_good 5 (ShaHash (replicate 20 1)) ?addr"
  have "leading_bit_count (ShaHash (replicate 20 0)) (ShaHash (replicate 20 1)) = 7" by code_simp
  then have "leading_bit_count (table_node_id filled_table) (node_ident ?n) = 7"
    by (simp add: filled_table_def sample_table_def routing_table_new_def as_good_def)
  from find_node_eq [OF filled_wf this, of 5] have "find_node 5 ?n filled_table = None"
    by (simp add: filled_table_def MAX_BUCKETS_def SHA_HASH_LEN_def)
  then have same: "the_table ?h = filled_table"
    by (simp add: note_request_def set_table_def mark_found_def filled_handler_def sample_env_def)
  obtain found where f: "mset found = mset (usable_nodes 5 filled_table)"
    "\<And>k. closest_first 5 k filled_table (fnq_target_id ?f) = Ok (take k found)"
    by (rule closest_first_eq [OF filled_wf, of 5 "fnq_target_id ?f"]) blast
  from f(1) have "found = [sample_node 5]" by (simp add: usable_nodes_def filled_pingable del: mset_map)
  with f(2) [of 8] have "closest_first 5 8 filled_table (fnq_target_id ?f) = Ok [sample_node 5]" by simp
  then have closest: "closest_first (env_now sample_env) 8 (the_table ?h) (fnq_target_id ?f) = Ok [sample_node 5]"
    unfolding same by (simp add: sample_env_def)
  have "\<exists>msg. handle_find_node sample_env ?f ?addr (filled_handler, snd sample_state) = Ok (reply msg ?addr (?h, snd sample_state))"
    using find_node_reply [OF filled_handler_ok, of sample_env ?f ?addr] by (auto simp: Let_def)
  then obtain io where hf: "handle_find_node sample_env ?f ?addr (filled_handler, snd sample_state) = Ok (?h, io)"
    unfolding reply_def fst_conv case_prod_unfold by blast
  from find_node_answered [OF filled_handler_ok, where f = ?f and addr = ?addr and env = sample_env and mapper = "\<lambda>_. ExpectFindNode"]
  obtain h' io' msg b r ns ps where *: "handle_find_node sample_env ?f ?addr (filled_handler, snd sample_state) = Ok (h', io')"
    "io_sent io' = io_sent (snd sample_state) @ [(msg, ?addr)]" "dht_bencode_decode msg = Ok b"
    "message_type_new b (\<lambda>_. ExpectFindNode) = Ok (ResponseMessage (FindNodeResponse r))"
    "closest_first (env_now sample_env) 8 (the_table h') (fnq_target_id ?f) = Ok ns"
    "(compact_node_collect (compact_node_into_iter (fns_nodes r)) :: (_, unit) outcome) = Ok ps"
    "map (\<lambda>(ident, a). (ident, V4 a)) ps = map contact ns"
    using sample_state_out(1) by auto
  with hf closest have "ns = [sample_node 5]" by simp
  with * sample_state_out(2) show ?thesis unfolding Let_def by auto
qed

end
