(* ===== verification/Dht_Handler_Peers.thy ===== *)
theory Dht_Handler_Peers
  imports Dht_Handler_Props
begin

text \<open>
  The worker as a tracker: a token it hands out is good for ten minutes, a peer announced with it is handed
  out to others for a day, whatever else the worker does in between.
\<close>

section \<open>Who touches tokens and contacts\<close>

definition stores_of :: "dht_handler \<Rightarrow> token_store \<times> announce_storage" where
  "stores_of h = (dh_token_store (detached h), active_stores (detached h))"

lemma stores_simps [simp]:
  "stores_of (set_table t h) = stores_of h" "stores_of (set_action aid act h) = stores_of h"
  "stores_of (note_request env ident addr h) = stores_of h"
  "stores_of (fst (broadcast event st)) = stores_of (fst st)"
  "stores_of (fst (lookup_outcome ih r st)) = stores_of (fst st)"
  "stores_of (fst (reply msg addr st)) = stores_of (fst st)"
  "stores_of (h\<lparr>table_actions := acts\<rparr>) = stores_of h"
  "stores_of (h\<lparr>detached := (detached h)\<lparr>dh_aid_generator := g\<rparr>\<rparr>) = stores_of h"
  "stores_of (h\<lparr>detached := (detached h)\<lparr>future_actions := fs\<rparr>\<rparr>) = stores_of h"
  "stores_of (h\<lparr>detached := (detached h)\<lparr>event_notifiers := ns\<rparr>\<rparr>) = stores_of h"
  by (auto simp: stores_of_def set_table_def set_action_def note_request_def broadcast_def broadcast_dht_event_def
      lookup_outcome_def reply_def Let_def split: prod.splits lookup_status.splits)

lemma handle_start_lookup_stores:
  "handle_start_lookup env ih announce st = Ok st' \<Longrightarrow> stores_of (fst st') = stores_of (fst st)"
  by (auto simp: handle_start_lookup_def Let_def split: prod.splits if_splits option.splits) (simp_all add: stores_of_def set_table_def)

lemma handle_check_table_refresh_stores:
  "handle_check_table_refresh env tid st = Ok st' \<Longrightarrow> stores_of (fst st') = stores_of (fst st)"
  by (auto simp: handle_check_table_refresh_def Let_def split: prod.splits option.splits table_action.splits)

lemma post_bootstrap_stores: "post_bootstrap env a st = Ok st' \<Longrightarrow> stores_of (fst st') = stores_of (fst st)"
  by (cases a) (auto simp: post_bootstrap_def dest: handle_start_lookup_stores handle_check_table_refresh_stores)

lemma post_bootstrap_all_stores: "post_bootstrap_all env as st = Ok st' \<Longrightarrow> stores_of (fst st') = stores_of (fst st)"
proof (induction as arbitrary: st)
  case (Cons a as)
  then obtain st1 where "post_bootstrap env a st = Ok st1" "post_bootstrap_all env as st1 = Ok st'" by auto
  with Cons.IH post_bootstrap_stores show ?case by metis
qed simp

lemma broadcast_bootstrap_completed_stores:
  assumes "broadcast_bootstrap_completed env aid st = Ok st'"
  shows "stores_of (fst st') = stores_of (fst st)"
proof -
  obtain h io where b: "broadcast BootstrapCompleted st = (h, io)" by (rule prod.exhaust)
  have "stores_of h = stores_of (fst st)" using stores_simps(4) [of BootstrapCompleted st] b by simp
  moreover from assms b have "stores_of (fst st') = stores_of h"
    by (auto simp: broadcast_bootstrap_completed_def Let_def stores_of_def dest!: post_bootstrap_all_stores)
  ultimately show ?thesis by simp
qed

lemma finish_bootstrap_step_stores:
  "finish_bootstrap_step env aid r bs h = Ok st' \<Longrightarrow> stores_of (fst st') = stores_of h"
  by (auto simp: finish_bootstrap_step_def Let_def split: prod.splits if_splits dest!: broadcast_bootstrap_completed_stores)

lemma bootstrap_frame:
  "handle_start_bootstrap env routers nds st = Ok st' \<Longrightarrow> stores_of (fst st') = stores_of (fst st)"
  "handle_check_bootstrap_timeout env tid st = Ok st' \<Longrightarrow> stores_of (fst st') = stores_of (fst st)"
  by (auto simp: handle_start_bootstrap_def handle_check_bootstrap_timeout_def Let_def
      split: prod.splits option.splits table_action.splits dest!: finish_bootstrap_step_stores)
     (simp_all add: stores_of_def)

lemma lookup_frame:
  "handle_check_lookup_timeout env tid st = Ok st' \<Longrightarrow> stores_of (fst st') = stores_of (fst st)"
  "handle_check_lookup_endgame env tid st = Ok st' \<Longrightarrow> stores_of (fst st') = stores_of (fst st)"
  by (auto simp: handle_check_lookup_timeout_def handle_check_lookup_endgame_def Let_def
      split: prod.splits option.splits table_action.splits)

lemma request_frame:
  "handle_ping env p addr st = Ok st' \<Longrightarrow> stores_of (fst st') = stores_of (fst st)"
  "handle_find_node env f addr st = Ok st' \<Longrightarrow> stores_of (fst st') = stores_of (fst st)"
  by (auto simp: handle_ping_def handle_find_node_def Let_def split: prod.splits)

lemma find_node_response_frame:
  assumes "handle_find_node_response env f addr st = Ok st'"
  shows "stores_of (fst st') = stores_of (fst st)"
proof -
  obtain h io where st: "st = (h, io)" by (rule prod.exhaust)
  from assms st obtain tid where tid: "transaction_id_from_bytes (fns_trans_id f) = Some tid"
    by (auto simp: handle_find_node_response_def split: option.splits)
  show ?thesis
  proof (cases "map_of (table_actions h) (transaction_action_id tid)")
    case None
    with assms st tid show ?thesis by (auto simp: handle_find_node_response_def Let_def)
  next
    case (Some act)
    with assms st tid show ?thesis
      by (cases act) (auto simp: handle_find_node_response_def Let_def split: if_splits dest!: finish_bootstrap_step_stores)
  qed
qed

lemma get_peers_response_frame:
  assumes "handle_get_peers_response env g addr st = Ok st'"
  shows "stores_of (fst st') = stores_of (fst st)"
proof -
  obtain h io where st: "st = (h, io)" by (rule prod.exhaust)
  from assms st obtain tid where tid: "transaction_id_from_bytes (gps_trans_id g) = Some tid"
    by (auto simp: handle_get_peers_response_def split: option.splits)
  show ?thesis
  proof (cases "map_of (table_actions h) (transaction_action_id tid)")
    case None
    with assms st tid show ?thesis by (auto simp: handle_get_peers_response_def Let_def)
  next
    case (Some act)
    with assms st tid show ?thesis by (cases act) (auto simp: handle_get_peers_response_def Let_def)
  qed
qed

text \<open>Only two requests change the stores: what they do to them.\<close>

definition stores_step :: "datetime \<Rightarrow> token_store \<times> announce_storage \<Rightarrow> token_store \<times> announce_storage \<Rightarrow> bool" where
  "stores_step now s s' \<longleftrightarrow> s' = s \<or>
     (\<exists>r1 r2. fst s' = refresh_check now r1 r2 (fst s) \<or> fst s' = fst s) \<and>
     (snd s' = snd s \<or> (\<exists>ih. snd s' = snd (storage_find now ih (snd s))) \<or>
      (\<exists>ih a. snd s' = snd (storage_add now now ih a (snd s))))"

lemma get_peers_step:
  assumes "handle_get_peers env g addr st = Ok st'"
  shows "stores_step (env_now env) (stores_of (fst st)) (stores_of (fst st'))"
proof -
  obtain h io where st: "st = (h, io)" by (rule prod.exhaust)
  let ?h = "note_request env (gpq_node_id g) addr h"
  obtain contacts stores where f: "storage_find (env_now env) (gpq_info_hash g) (active_stores (detached h)) = (contacts, stores)"
    by (rule prod.exhaust)
  obtain r1 r2 io1 where d: "draw_secrets io = (r1, r2, io1)" by (rule prod_cases3)
  obtain tok tokens where c: "checkout (env_sha env) (env_now env) r1 r2 (from_socket_addr addr) (dh_token_store (detached h)) = (tok, tokens)"
    by (rule prod.exhaust)
  let ?h3 = "?h\<lparr>detached := (detached ?h)\<lparr>active_stores := stores, dh_token_store := tokens\<rparr>\<rparr>"
  from assms st f d c have "\<exists>msg. st' = reply msg addr (?h3, io1)"
    by (auto simp: handle_get_peers_def Let_def simp del: if_split)
  then have "stores_of (fst st') = stores_of ?h3" by auto
  then have "stores_of (fst st') = (tokens, stores)" by (simp add: stores_of_def)
  moreover have "tokens = refresh_check (env_now env) r1 r2 (dh_token_store (detached h))" using c by (auto simp: checkout_def Let_def)
  moreover have "stores = snd (storage_find (env_now env) (gpq_info_hash g) (active_stores (detached h)))" using f by simp
  moreover have "stores_step now (x, y) (refresh_check now r1 r2 x, snd (storage_find now ih y))" for now x y ih
    by (auto simp: stores_step_def)
  ultimately show ?thesis using st by (simp add: stores_of_def)
qed

lemma announce_peer_step:
  assumes "handle_announce_peer env a addr st = Ok st'"
  shows "stores_step (env_now env) (stores_of (fst st)) (stores_of (fst st'))"
proof -
  obtain h io where st: "st = (h, io)" by (rule prod.exhaust)
  let ?h = "note_request env (apq_node_id a) addr h"
  from handle_announce_peer_eq [of io env a addr h] obtain valid tokens io1 where
    eq: "handle_announce_peer env a addr (h, io) =
      (let (msg, h2) = announce_reply env a addr valid (?h\<lparr>detached := (detached ?h)\<lparr>dh_token_store := tokens\<rparr>\<rparr>)
       in Ok (reply msg addr (h2, io1)))" and
    chk: "\<forall>t. token_new (apq_token a) = Ok t \<longrightarrow> (case draw_secrets io of (r1, r2, io2) \<Rightarrow>
        checkin (env_sha env) (env_now env) r1 r2 (from_socket_addr addr) t (dh_token_store (detached h)) = (valid, tokens))" and
    none: "(\<forall>t. token_new (apq_token a) \<noteq> Ok t) \<longrightarrow> \<not> valid \<and> tokens = dh_token_store (detached h)" unfolding Let_def by blast
  have tok: "\<exists>r1 r2. tokens = refresh_check (env_now env) r1 r2 (dh_token_store (detached h)) \<or> tokens = dh_token_store (detached h)"
  proof (cases "token_new (apq_token a)")
    case (Ok t)
    with chk show ?thesis by (auto simp: checkin_def Let_def split: prod.splits)
  qed (use none in auto)
  obtain msg h2 where m: "announce_reply env a addr valid (?h\<lparr>detached := (detached ?h)\<lparr>dh_token_store := tokens\<rparr>\<rparr>) = (msg, h2)"
    by (rule prod.exhaust)
  have "st' = reply msg addr (h2, io1)" using assms st eq m by simp
  then have s': "stores_of (fst st') = stores_of h2" by simp
  obtain added stores where add: "storage_add (env_now env) (env_now env) (apq_info_hash a) (connect_addr (apq_port a) addr)
      (active_stores (detached h)) = (added, stores)" by (rule prod.exhaust)
  have "stores_of h2 = (tokens, if valid then stores else active_stores (detached h))"
    using m add by (auto simp: announce_reply_def stores_of_def split: if_splits)
  moreover have "stores = snd (storage_add (env_now env) (env_now env) (apq_info_hash a) (connect_addr (apq_port a) addr)
      (active_stores (detached h)))" using add by simp
  ultimately show ?thesis using tok st s' unfolding stores_step_def stores_of_def fst_conv snd_conv by (cases valid) auto
qed

lemma handle_shutdown_stores [simp]: "stores_of (fst (handle_shutdown cause st)) = stores_of (fst st)"
  using stores_simps(4) [of "ShuttingDown cause" st] by (auto simp: handle_shutdown_def simp del: stores_simps(4) split: prod.split)

lemma callback_step:
  assumes "callback (env, ev) st = Ok st'"
  shows "stores_step (env_now env) (stores_of (fst st)) (stores_of (fst st'))"
proof (cases "\<exists>buf addr. ev = Notified (Incoming buf addr)")
  case True
  then obtain buf addr where ev: "ev = Notified (Incoming buf addr)" by blast
  show ?thesis
  proof (cases "st' = st")
    case False
    with assms ev obtain m where m: "handle_message env m addr st = Ok st'"
      by (auto simp: handle_incoming_def split: outcome.splits if_splits)
    have frame: "stores_of (fst st') = stores_of (fst st) \<Longrightarrow> ?thesis" by (simp add: stores_step_def)
    from m show ?thesis
      using request_frame [THEN frame] find_node_response_frame [THEN frame] get_peers_response_frame [THEN frame] get_peers_step announce_peer_step
      by (auto simp: handle_message_def stores_step_def split: message_type.splits request_type.splits response_type.splits)
  qed (simp add: stores_step_def)
next
  case False
  then have "stores_of (fst st') = stores_of (fst st)"
    using assms bootstrap_frame lookup_frame handle_start_lookup_stores handle_check_table_refresh_stores
    apply (cases ev)
    subgoal for task by (cases task) (auto simp: handle_register_sender_def split: prod.splits)
    subgoal for data by (cases data; cases "snd data") auto
    done
  then show ?thesis by (simp add: stores_step_def)
qed

section \<open>What holds over a run\<close>

definition callback_time :: "dht_env \<times> worker_event \<Rightarrow> datetime" where
  "callback_time x = env_now (fst x)"

text \<open>An invariant of the two stores that every step keeps while the time is not over.\<close>

locale stores_invariant =
  fixes inv :: "datetime \<Rightarrow> token_store \<times> announce_storage \<Rightarrow> bool" and until :: "datetime \<Rightarrow> bool"
  assumes step: "\<lbrakk>inv t s; t \<le> now; until now; stores_step now s s'\<rbrakk> \<Longrightarrow> inv now s'"
begin

lemma run_keeps:
  "run_steps callback xs st = Ok st' \<Longrightarrow> inv t (stores_of (fst st)) \<Longrightarrow> sorted (t # map callback_time xs) \<Longrightarrow>
   \<forall>x \<in> set xs. until (callback_time x) \<Longrightarrow> inv (last (t # map callback_time xs)) (stores_of (fst st'))"
proof (induction xs arbitrary: st t)
  case (Cons x xs)
  obtain env ev where x: "x = (env, ev)" by (rule prod.exhaust)
  from Cons.prems(1) obtain st1 where st1: "callback x st = Ok st1" "run_steps callback xs st1 = Ok st'" by auto
  have "inv (callback_time x) (stores_of (fst st1))"
    using step [OF Cons.prems(2) _ _ callback_step] st1(1) Cons.prems(3,4) x by (auto simp: callback_time_def)
  from Cons.IH [OF st1(2) this] Cons.prems(3,4) show ?case by simp
qed simp

end

text \<open>A secret is held for ten minutes.\<close>

definition secret_held :: "u32 \<Rightarrow> datetime \<Rightarrow> datetime \<Rightarrow> token_store \<times> announce_storage \<Rightarrow> bool" where
  "secret_held secret t0 t s \<longleftrightarrow> t0 \<le> t \<and> holds_secret secret t0 (fst s) \<and> last_refresh (fst s) \<le> t"

interpretation held: stores_invariant "secret_held secret t0" "\<lambda>now. now - t0 < duration_minutes 10"
proof
  fix t s now s'
  assume "secret_held secret t0 t s" and t: "t \<le> now" "now - t0 < duration_minutes 10" and "stores_step now s s'"
  then have h: "holds_secret secret t0 (fst s)" "last_refresh (fst s) \<le> now" "t0 \<le> now" by (auto simp: secret_held_def)
  from \<open>stores_step now s s'\<close> consider "fst s' = fst s" | r1 r2 where "fst s' = refresh_check now r1 r2 (fst s)"
    by (auto simp: stores_step_def)
  then show "secret_held secret t0 now s'"
    by cases (use h refresh_keeps_secret [OF h t(2)] in \<open>auto simp: secret_held_def\<close>)
qed

text \<open>The storage stays in step with the abstract store, and a contact announced at \<open>t2\<close> stays for a day.\<close>

definition stores_fresh :: "datetime \<Rightarrow> token_store \<times> announce_storage \<Rightarrow> bool" where
  "stores_fresh t s \<longleftrightarrow> last_refresh (fst s) \<le> t \<and> (\<exists>m. sim (snd s) m t)"

definition contact_kept :: "contact_key \<Rightarrow> datetime \<Rightarrow> datetime \<Rightarrow> token_store \<times> announce_storage \<Rightarrow> bool" where
  "contact_kept k t2 t s \<longleftrightarrow> (\<exists>m u. sim (snd s) m t \<and> m k = Some u \<and> t2 \<le> u)"

lemma stores_step_sim:
  assumes "stores_step now s s'" and "sim (snd s) m t" and "t \<le> now"
  obtains "sim (snd s') m now" | ih where "sim (snd s') (expire now m) now"
  | ih a where "sim (snd s') ((expire now m)((ih, a) \<mapsto> now)) now"
proof -
  have same: "sim (snd s) m now" using assms(2,3) in_order_mono by (auto simp: sim_def)
  have find: "sim (snd (storage_find now ih (snd s))) (expire now m) now" for ih
    using storage_find_refines [OF assms(2,3), of ih] by (auto simp: Let_def)
  have add: "sim (snd (storage_add now now ih a (snd s))) (expire now m) now \<or>
      sim (snd (storage_add now now ih a (snd s))) ((expire now m)((ih, a) \<mapsto> now)) now" for ih a
    using storage_add_refines [OF assms(2,3) order_refl, of ih a] by (auto simp: Let_def split: if_splits)
  from assms(1) consider "snd s' = snd s" | ih where "snd s' = snd (storage_find now ih (snd s))"
    | ih a where "snd s' = snd (storage_add now now ih a (snd s))" by (auto simp: stores_step_def)
  then show thesis
    by cases (use same find add that in metis)+
qed

interpretation fresh: stores_invariant stores_fresh "\<lambda>_. True"
proof
  fix t s now s'
  assume s: "stores_fresh t s" and t: "t \<le> now" and st: "stores_step now s s'"
  from s obtain m where m: "sim (snd s) m t" "last_refresh (fst s) \<le> now" using t by (auto simp: stores_fresh_def)
  from st have "last_refresh (fst s') \<le> now"
    using m(2) refresh_not_later [OF m(2)] by (auto simp: stores_step_def)
  moreover have "\<exists>m'. sim (snd s') m' now" by (rule stores_step_sim [OF st m(1) t]) blast+
  ultimately show "stores_fresh now s'" by (simp add: stores_fresh_def)
qed

interpretation kept: stores_invariant "contact_kept k t2" "\<lambda>now. now - t2 < duration_hours EXPIRATION_TIME_HOURS"
proof
  fix t s now s'
  assume s: "contact_kept k t2 t s" and t: "t \<le> now" "now - t2 < duration_hours EXPIRATION_TIME_HOURS"
    and st: "stores_step now s s'"
  from s obtain m u where m: "sim (snd s) m t" "m k = Some u" "t2 \<le> u" by (auto simp: contact_kept_def)
  have "announced (expires (snd s)) k = Some u" "in_order (snd s) t" "distinct (map key (expires (snd s)))"
    using m by (auto simp: sim_def storage_wf_def)
  then have "u \<le> t" by (auto simp: announced_Some in_order_def sorted_append)
  have e: "expire now m k = Some u" using m(2,3) t(2) by (simp add: expire_Some)
  show "contact_kept k t2 now s'"
    by (rule stores_step_sim [OF st m(1) t(1)])
       (use m e \<open>u \<le> t\<close> t(1) in \<open>auto simp: contact_kept_def\<close>)
qed

section \<open>Properties\<close>

lemma length_token:
  assumes "\<forall>bs. length (sha_bytes (sha bs)) = SHA_HASH_LEN"
  shows "length (token_bytes (generate_token_from_addr sha addr secret)) = 20"
  using assms by (cases addr) (simp_all add: generate_token_from_addr_v4_def generate_token_from_addr_v6_def SHA_HASH_LEN_def)

lemma token_new_bytes: "length (token_bytes tok) = 20 \<Longrightarrow> token_new (token_bytes tok) = Ok tok"
  by (cases tok) (simp add: token_new_def SHA_HASH_LEN_def)

text \<open>What the requester of a get_peers request reads.\<close>

lemma get_peers_answer:
  assumes "handler_ok (h, io)" and "io_out_ok io (length (io_sent io))" and "length (gpq_trans_id g) < 2 ^ 63"
    and "mapper (gpq_trans_id g) = ExpectGetPeers" and "\<forall>bs. length (sha_bytes (env_sha env bs)) = SHA_HASH_LEN"
    and f: "storage_find (env_now env) (gpq_info_hash g) (active_stores (detached h)) = (contacts, stores)"
    and d: "draw_secrets io = (r1, r2, io1)"
    and c: "checkout (env_sha env) (env_now env) r1 r2 (from_socket_addr addr) (dh_token_store (detached h)) = (tok, tokens)"
  shows "\<exists>h' io' msg b r ns ps. handle_get_peers env g addr (h, io) = Ok (h', io') \<and> io_sent io' = io_sent io @ [(msg, addr)] \<and>
    stores_of h' = (tokens, stores) \<and>
    dht_bencode_decode msg = Ok b \<and> message_type_new b mapper = Ok (ResponseMessage (GetPeersResponse r)) \<and>
    gps_trans_id r = gpq_trans_id g \<and> gps_token r = Some (token_bytes tok) \<and>
    closest_first (env_now env) 8 (the_table h') (gpq_info_hash g) = Ok ns \<and> wire_pairs ps ns \<and>
    gps_info_type r = peers_info ps (List.map_filter map_ipv4 contacts)"
proof -
  let ?h = "note_request env (gpq_node_id g) addr h"
  from get_peers_reply [OF assms(1) f d c refl] obtain ns ps where
    n: "closest_first (env_now env) 8 (the_table ?h) (gpq_info_hash g) = Ok ns" "wire_pairs ps ns" "length ps \<le> 8" and
    e: "handle_get_peers env g addr (h, io) = Ok (reply (get_peers_response_encode
      \<lparr>gps_trans_id = gpq_trans_id g, gps_node_id = table_node_id (the_table h), gps_token = Some (token_bytes tok),
       gps_info_type = peers_info ps (List.map_filter map_ipv4 contacts)\<rparr>) addr
      (?h\<lparr>detached := (detached ?h)\<lparr>active_stores := stores, dh_token_store := tokens\<rparr>\<rparr>, io1))" by blast
  let ?r = "\<lparr>gps_trans_id = gpq_trans_id g, gps_node_id = table_node_id (the_table h), gps_token = Some (token_bytes tok),
       gps_info_type = peers_info ps (List.map_filter map_ipv4 contacts)\<rparr>"
  let ?h3 = "?h\<lparr>detached := (detached ?h)\<lparr>active_stores := stores, dh_token_store := tokens\<rparr>\<rparr>"
  have len: "length (concat (map compact_node_bytes ps)) = 26 * length ps"
    using n(2) length_compact_nodes by (auto simp: wire_pairs_def)
  have "tok = generate_token_from_addr (env_sha env) (from_socket_addr addr) (curr_secret tokens)" using c by (auto simp: checkout_def Let_def)
  then have tl: "length (token_bytes tok) = 20" using length_token [OF assms(5)] by simp
  have "hash_valid (table_node_id (the_table h))"
    using assms(1) by (simp add: handler_ok_def detached_ok_def table_ok_def hash_valid_def)
  then have "response_valid (GetPeersResponse ?r)" "response_fits (GetPeersResponse ?r)"
    using assms(3) n(3) len tl
    by (simp_all add: peers_info_def Let_def nodes_valid_def values_valid_def compact_consts del: length_concat)
  from response_roundtrip [OF this, of mapper] assms(4) obtain b where
    b: "dht_bencode_decode (get_peers_response_encode ?r) = Ok b" "message_type_new b mapper = Ok (ResponseMessage (GetPeersResponse ?r))" by auto
  have o: "io_out_ok io1 (length (io_sent io1))" "io_sent io1 = io_sent io" using d assms(2) by (auto simp: draw_secrets_def)
  from e reply_sent [OF o(1)] b n(1,2) o(2) show ?thesis
    by (intro exI [of _ ?h3] exI [of _ "io1\<lparr>io_sent := io_sent io1 @ [(get_peers_response_encode ?r, addr)]\<rparr>"]
        exI [of _ "get_peers_response_encode ?r"] exI [of _ b] exI [of _ ?r] exI [of _ ns] exI [of _ ps]) (simp add: stores_of_def)
qed

lemma collect_compact_values:
  "(compact_value_collect (compact_value_into_iter \<lparr>compact_values = map (\<lambda>a. MBytes (sock_v4_to_bytes_be a)) as\<rparr>) :: (_, 'e) outcome) = Ok as"
proof -
  let ?it = "compact_value_into_iter \<lparr>compact_values = map (\<lambda>a. MBytes (sock_v4_to_bytes_be a)) as\<rparr>"
  obtain ss where ss: "(compact_value_collect ?it :: (_, 'e) outcome) = Ok ss"
    "map (\<lambda>s. MBytes (sock_v4_to_bytes_be s)) ss = map (\<lambda>a. MBytes (sock_v4_to_bytes_be a)) as"
    using compact_value_collect_spec [of ?it, where ?'e = 'e] by (auto simp: compact_value_into_iter_def)
  moreover have "inj (\<lambda>s. MBytes (sock_v4_to_bytes_be s))" by (rule injI) (metis bencode_mut.inject(2) sock_v4_roundtrip)
  ultimately have "ss = as" using inj_map_eq_map by blast
  with ss(1) show ?thesis by simp
qed

lemma utf8_texts [simp]: "utf8_valid (ascii ''Received An Invalid Token'')" "utf8_valid (ascii ''Announce Storage Is Full'')"
  by code_simp+

text \<open>A positive answer to an announcement is not to be confused with an error: the contact is stored.\<close>

lemma announce_reply_added:
  assumes m: "announce_reply env a addr valid h = (msg, h2)"
    and msg: "msg = announce_peer_response_encode \<lparr>aps_trans_id = apq_trans_id a, aps_node_id = table_node_id (the_table h)\<rparr>"
    and "hash_valid (table_node_id (the_table h))" and "length (apq_trans_id a) < 2 ^ 63"
  shows "storage_add (env_now env) (env_now env) (apq_info_hash a) (connect_addr (apq_port a) addr) (active_stores (detached h)) =
    (True, active_stores (detached h2))"
proof -
  let ?r = "\<lparr>aps_trans_id = apq_trans_id a, aps_node_id = table_node_id (the_table h)\<rparr>"
  have noterr: "msg \<noteq> error_message_encode (error_message_new (apq_trans_id a) c descr)" if "utf8_valid descr" "length descr < 2 ^ 63" for c descr
    using response_roundtrip [of "AnnouncePeerResponse ?r" "\<lambda>_. ExpectAnnouncePeer"] assms(3,4)
      error_roundtrip [of "error_message_new (apq_trans_id a) c descr" "\<lambda>_. ExpectAnnouncePeer"] that msg
    by (auto simp: error_message_new_def)
  obtain added stores where add: "storage_add (env_now env) (env_now env) (apq_info_hash a) (connect_addr (apq_port a) addr)
      (active_stores (detached h)) = (added, stores)" by (rule prod.exhaust)
  have valid using m noterr [of "ascii ''Received An Invalid Token''" ProtocolError] by (cases valid) (auto simp: announce_reply_def)
  moreover have added
    using m add noterr [of "ascii ''Announce Storage Is Full''" ServerError] \<open>valid\<close> by (cases added) (auto simp: announce_reply_def)
  ultimately show ?thesis using m add by (auto simp: announce_reply_def)
qed

lemma stores_fresh_new: "stores_fresh now (stores_of (fst (handler_new now table rdonly port io)))"
  by (auto simp: handler_new_def stores_of_def stores_fresh_def token_store_new_def sim_def storage_wf_def stored_def lists_def in_order_def
      announce_storage_new_def announced_def Let_def split: prod.split)

text \<open>C30: The token a requester reads in the answer to its get_peers request is accepted from its address for ten
  minutes: whatever the worker does in the meantime, an announcement with this token reaches the storage.\<close>

theorem token_accepted:
  assumes "handler_ok (h, io)" and "last_refresh (dh_token_store (detached h)) \<le> env_now env"
    and "io_out_ok io (length (io_sent io))" and "length (gpq_trans_id g) < 2 ^ 63"
    and "mapper (gpq_trans_id g) = ExpectGetPeers" and sha: "\<forall>bs. length (sha_bytes (env_sha env bs)) = SHA_HASH_LEN"
  shows "\<exists>h1 io1 msg b r tok. handle_get_peers env g addr (h, io) = Ok (h1, io1) \<and> io_sent io1 = io_sent io @ [(msg, addr)] \<and>
    dht_bencode_decode msg = Ok b \<and> message_type_new b mapper = Ok (ResponseMessage (GetPeersResponse r)) \<and> gps_token r = Some tok \<and>
    (\<forall>events h2 io2 env2 a addr2. run_steps callback events (h1, io1) = Ok (h2, io2) \<and>
       sorted (env_now env # map callback_time events @ [env_now env2]) \<and> env_now env2 - env_now env < duration_minutes 10 \<and>
       env_sha env2 = env_sha env \<and> from_socket_addr addr2 = from_socket_addr addr \<and> apq_token a = tok \<longrightarrow>
       (\<exists>h3 io3 added. handle_announce_peer env2 a addr2 (h2, io2) = Ok (h3, io3) \<and>
         storage_add (env_now env2) (env_now env2) (apq_info_hash a) (connect_addr (apq_port a) addr2) (active_stores (detached h2)) =
           (added, active_stores (detached h3))))"
proof -
  obtain contacts stores where f: "storage_find (env_now env) (gpq_info_hash g) (active_stores (detached h)) = (contacts, stores)"
    by (rule prod.exhaust)
  obtain r1 r2 io0 where d: "draw_secrets io = (r1, r2, io0)" by (rule prod_cases3)
  obtain tok tokens where c: "checkout (env_sha env) (env_now env) r1 r2 (from_socket_addr addr) (dh_token_store (detached h)) = (tok, tokens)"
    by (rule prod.exhaust)
  then have tokens: "tokens = refresh_check (env_now env) r1 r2 (dh_token_store (detached h))"
    "tok = generate_token_from_addr (env_sha env) (from_socket_addr addr) (curr_secret tokens)" by (auto simp: checkout_def Let_def)
  obtain h1 io1 msg b r where gp: "handle_get_peers env g addr (h, io) = Ok (h1, io1)" "io_sent io1 = io_sent io @ [(msg, addr)]"
    "stores_of h1 = (tokens, stores)" "dht_bencode_decode msg = Ok b"
    "message_type_new b mapper = Ok (ResponseMessage (GetPeersResponse r))" "gps_token r = Some (token_bytes tok)"
    using get_peers_answer [where mapper = mapper, OF assms(1,3,4,5) sha f d c] by blast
  have start: "secret_held (curr_secret tokens) (env_now env) (env_now env) (stores_of h1)"
    using assms(2) unfolding gp(3) tokens(1) secret_held_def
    by (cases rule: refresh_check_cases [OF assms(2), of r1 r2]) (auto simp: holds_secret_def duration_minutes_def)
  have "\<exists>h3 io3 added. handle_announce_peer env2 a addr2 (h2, io2) = Ok (h3, io3) \<and>
         storage_add (env_now env2) (env_now env2) (apq_info_hash a) (connect_addr (apq_port a) addr2) (active_stores (detached h2)) =
           (added, active_stores (detached h3))"
    if run: "run_steps callback events (h1, io1) = Ok (h2, io2)" and clock: "sorted (env_now env # map callback_time events @ [env_now env2])"
      and ten: "env_now env2 - env_now env < duration_minutes 10" and same: "env_sha env2 = env_sha env" "from_socket_addr addr2 = from_socket_addr addr"
      and a: "apq_token a = token_bytes tok" for events h2 io2 env2 a addr2
  proof -
    have "\<forall>x \<in> set events. callback_time x - env_now env < duration_minutes 10" using clock ten by (fastforce simp: sorted_append)
    moreover have "sorted (env_now env # map callback_time events)" using clock by (auto simp: sorted_append)
    ultimately have "secret_held (curr_secret tokens) (env_now env) (last (env_now env # map callback_time events)) (stores_of h2)"
      using held.run_keeps [OF run, of "curr_secret tokens" "env_now env" "env_now env"] start by simp
    moreover have "last (env_now env # map callback_time events) \<le> env_now env2"
      using clock by (cases events rule: rev_cases) (auto simp: sorted_append)
    ultimately have h: "holds_secret (curr_secret tokens) (env_now env) (dh_token_store (detached h2))"
      "last_refresh (dh_token_store (detached h2)) \<le> env_now env2" "env_now env \<le> env_now env2"
      by (auto simp: secret_held_def stores_of_def)
    have valid: "fst (checkin (env_sha env2) (env_now env2) q1 q2 (from_socket_addr addr2) tok (dh_token_store (detached h2)))" for q1 q2
      using refresh_keeps_secret(1) [OF h ten, of q1 q2] unfolding checkin_def Let_def fst_conv tokens(2) same
      by (intro validate_generated) (auto simp: holds_secret_def)
    have t: "token_new (apq_token a) = Ok tok" using token_new_bytes length_token [OF sha] a tokens(2) by metis
    let ?h = "note_request env2 (apq_node_id a) addr2 h2"
    from handle_announce_peer_eq [of io2 env2 a addr2 h2] obtain v tk io3 where
      eq: "handle_announce_peer env2 a addr2 (h2, io2) =
        (let (msg, h3) = announce_reply env2 a addr2 v (?h\<lparr>detached := (detached ?h)\<lparr>dh_token_store := tk\<rparr>\<rparr>)
         in Ok (reply msg addr2 (h3, io3)))" and
      chk: "\<forall>t. token_new (apq_token a) = Ok t \<longrightarrow> (case draw_secrets io2 of (q1, q2, io4) \<Rightarrow>
        checkin (env_sha env2) (env_now env2) q1 q2 (from_socket_addr addr2) t (dh_token_store (detached h2)) = (v, tk))"
      unfolding Let_def by blast
    from chk [THEN spec, THEN mp, OF t] valid have v by (auto split: prod.splits) (metis fst_conv)
    obtain added stores2 where add: "storage_add (env_now env2) (env_now env2) (apq_info_hash a) (connect_addr (apq_port a) addr2)
        (active_stores (detached h2)) = (added, stores2)" by (rule prod.exhaust)
    obtain msg' where m: "announce_reply env2 a addr2 v (?h\<lparr>detached := (detached ?h)\<lparr>dh_token_store := tk\<rparr>\<rparr>) =
        (msg', ?h\<lparr>detached := (detached ?h)\<lparr>dh_token_store := tk, active_stores := stores2\<rparr>\<rparr>)"
      using \<open>v\<close> add by (simp add: announce_reply_def)
    obtain h4 io4 where rp: "reply msg' addr2 (?h\<lparr>detached := (detached ?h)\<lparr>dh_token_store := tk, active_stores := stores2\<rparr>\<rparr>, io3) = (h4, io4)"
      by (rule prod.exhaust)
    then have "active_stores (detached h4) = stores2" by (auto simp: reply_def split: prod.splits)
    with eq m rp add show ?thesis by simp
  qed
  with gp show ?thesis by blast
qed

lemma sample_sha: "length (sha_bytes (env_sha sample_env bs)) = SHA_HASH_LEN"
  by (simp add: sample_env_def SHA_HASH_LEN_def)

lemma sample_state_fresh: "stores_fresh 0 (stores_of (fst sample_state))"
  unfolding sample_state_def by (rule stores_fresh_new)

theorem token_accepted_witness:
  "let g = \<lparr>gpq_trans_id = [97], gpq_node_id = ShaHash (replicate 20 1), gpq_info_hash = ShaHash (replicate 20 2)\<rparr>;
       h = fst sample_state; io = snd sample_state; addr = V4 \<lparr>v4_ip = Ipv4Addr 10 0 0 1, v4_port = 1\<rparr> in
   \<exists>h1 io1 msg b r tok h3 io3 added. handle_get_peers sample_env g addr (h, io) = Ok (h1, io1) \<and> io_sent io1 = io_sent io @ [(msg, addr)] \<and>
    dht_bencode_decode msg = Ok b \<and> message_type_new b (\<lambda>_. ExpectGetPeers) = Ok (ResponseMessage (GetPeersResponse r)) \<and> gps_token r = Some tok \<and>
    handle_announce_peer (sample_env\<lparr>env_now := duration_minutes 9\<rparr>)
      \<lparr>apq_trans_id = [98], apq_node_id = ShaHash (replicate 20 1), apq_info_hash = ShaHash (replicate 20 2), apq_token = tok,
       apq_port = Explicit 6881\<rparr> addr (h1, io1) = Ok (h3, io3) \<and>
    storage_add (duration_minutes 9) (duration_minutes 9) (ShaHash (replicate 20 2)) (connect_addr (Explicit 6881) addr)
      (active_stores (detached h1)) = (added, active_stores (detached h3))"
proof -
  let ?g = "\<lparr>gpq_trans_id = [97], gpq_node_id = ShaHash (replicate 20 1), gpq_info_hash = ShaHash (replicate 20 2)\<rparr>"
    and ?addr = "V4 \<lparr>v4_ip = Ipv4Addr 10 0 0 1, v4_port = 1\<rparr>" and ?env = "sample_env\<lparr>env_now := duration_minutes 9\<rparr>"
  have "last_refresh (dh_token_store (detached (fst sample_state))) \<le> env_now sample_env"
    using sample_state_fresh by (simp add: stores_fresh_def stores_of_def sample_env_def)
  from token_accepted [where mapper = "\<lambda>_. ExpectGetPeers", OF _ this, of "snd sample_state" ?g ?addr]
    sample_state_ok sample_state_out(1) sample_sha
  obtain h1 io1 msg b r tok where g: "handle_get_peers sample_env ?g ?addr (fst sample_state, snd sample_state) = Ok (h1, io1)"
      "io_sent io1 = io_sent (snd sample_state) @ [(msg, ?addr)]" "dht_bencode_decode msg = Ok b"
      "message_type_new b (\<lambda>_. ExpectGetPeers) = Ok (ResponseMessage (GetPeersResponse r))" "gps_token r = Some tok"
    and later: "\<forall>events h2 io2 env2 a addr2. run_steps callback events (h1, io1) = Ok (h2, io2) \<and>
       sorted (env_now sample_env # map callback_time events @ [env_now env2]) \<and> env_now env2 - env_now sample_env < duration_minutes 10 \<and>
       env_sha env2 = env_sha sample_env \<and> from_socket_addr addr2 = from_socket_addr ?addr \<and> apq_token a = tok \<longrightarrow>
       (\<exists>h3 io3 added. handle_announce_peer env2 a addr2 (h2, io2) = Ok (h3, io3) \<and>
         storage_add (env_now env2) (env_now env2) (apq_info_hash a) (connect_addr (apq_port a) addr2) (active_stores (detached h2)) =
           (added, active_stores (detached h3)))"
    by auto
  let ?a = "\<lparr>apq_trans_id = [98], apq_node_id = ShaHash (replicate 20 1), apq_info_hash = ShaHash (replicate 20 2), apq_token = tok,
       apq_port = Explicit 6881\<rparr>"
  have "run_steps callback [] (h1, io1) = Ok (h1, io1)" by simp
  with later [rule_format, of "[]" h1 io1 ?env ?addr ?a] obtain h3 io3 added where
    "handle_announce_peer ?env ?a ?addr (h1, io1) = Ok (h3, io3)"
    "storage_add (duration_minutes 9) (duration_minutes 9) (ShaHash (replicate 20 2)) (connect_addr (Explicit 6881) ?addr)
      (active_stores (detached h1)) = (added, active_stores (detached h3))"
    by (auto simp: sample_env_def duration_minutes_def)
  with g show ?thesis unfolding Let_def by blast
qed

text \<open>C31: A peer at an IPv4 address whose announcement was answered positively is handed out to everyone who asks for the same info hash
  within a day, whatever the worker does in the meantime.\<close>

theorem announced_peer_found:
  assumes start: "run_steps callback before (handler_new now0 table rdonly port io0) = Ok (h, io)"
    and announce: "handle_announce_peer env2 a addr (h, io) = Ok (h1, io1)"
    and reply: "last (io_sent io1) = (announce_peer_response_encode \<lparr>aps_trans_id = apq_trans_id a, aps_node_id = table_node_id (the_table h)\<rparr>, addr)"
    and out: "io_out_ok io (length (io_sent io))" and "length (apq_trans_id a) < 2 ^ 63" and ok: "handler_ok (h, io)"
    and peer: "connect_addr (apq_port a) addr = V4 peer"
    and run: "run_steps callback after (h1, io1) = Ok (h2, io2)" and "handler_ok (h2, io2)"
    and clock: "sorted (now0 # map callback_time before @ env_now env2 # map callback_time after @ [env_now env3])"
    and day: "env_now env3 - env_now env2 < duration_hours EXPIRATION_TIME_HOURS"
    and "gpq_info_hash g = apq_info_hash a" and "io_out_ok io2 (length (io_sent io2))" and "length (gpq_trans_id g) < 2 ^ 63"
    and "mapper (gpq_trans_id g) = ExpectGetPeers" and "\<forall>bs. length (sha_bytes (env_sha env3 bs)) = SHA_HASH_LEN"
  shows "\<exists>h3 io3 msg b r ns vs peers. handle_get_peers env3 g addr3 (h2, io2) = Ok (h3, io3) \<and>
    io_sent io3 = io_sent io2 @ [(msg, addr3)] \<and>
    dht_bencode_decode msg = Ok b \<and> message_type_new b mapper = Ok (ResponseMessage (GetPeersResponse r)) \<and>
    gps_info_type r = InfoBoth ns vs \<and>
    (compact_value_collect (compact_value_into_iter vs) :: (_, unit) outcome) = Ok peers \<and> peer \<in> set peers"
proof -
  let ?ih = "apq_info_hash a"
  have "stores_fresh (last (now0 # map callback_time before)) (stores_of (fst (h, io)))"
    by (rule fresh.run_keeps [OF start stores_fresh_new]) (use clock in \<open>auto simp: sorted_append\<close>)
  moreover have "last (now0 # map callback_time before) \<le> env_now env2"
    using clock by (cases before rule: rev_cases) (auto simp: sorted_append)
  ultimately obtain m t where m: "sim (active_stores (detached h)) m t" "t \<le> env_now env2" by (auto simp: stores_fresh_def stores_of_def)
  let ?h = "note_request env2 (apq_node_id a) addr h"
  from handle_announce_peer_eq [of io env2 a addr h] obtain v tk io' where
    eq: "handle_announce_peer env2 a addr (h, io) =
      (let (msg, h3) = announce_reply env2 a addr v (?h\<lparr>detached := (detached ?h)\<lparr>dh_token_store := tk\<rparr>\<rparr>)
       in Ok (reply msg addr (h3, io')))" and io': "io_out_ok io' = io_out_ok io" "io_sent io' = io_sent io"
    unfolding Let_def by blast
  obtain msg1 h3 where m1: "announce_reply env2 a addr v (?h\<lparr>detached := (detached ?h)\<lparr>dh_token_store := tk\<rparr>\<rparr>) = (msg1, h3)"
    by (rule prod.exhaust)
  have h1: "h1 = h3" "io_sent io1 = io_sent io @ [(msg1, addr)]"
    using announce eq m1 reply_sent [of io' msg1 addr h3] io' out by auto
  have valid: "hash_valid (table_node_id (the_table h))"
    using ok by (simp add: handler_ok_def detached_ok_def table_ok_def hash_valid_def)
  have added: "storage_add (env_now env2) (env_now env2) ?ih (V4 peer) (active_stores (detached h)) = (True, active_stores (detached h1))"
    using announce_reply_added [OF m1] reply h1 valid assms(5) peer by simp
  have "contact_kept (?ih, V4 peer) (env_now env2) (env_now env2) (stores_of (fst (h1, io1)))"
    using storage_add_refines [OF m order_refl, of ?ih "V4 peer"] added
    by (auto simp: contact_kept_def stores_of_def Let_def split: if_splits)
  moreover have "sorted (env_now env2 # map callback_time after)" "\<forall>x \<in> set after. callback_time x \<le> env_now env3"
    using clock by (auto simp: sorted_append)
  ultimately have k: "contact_kept (?ih, V4 peer) (env_now env2) (last (env_now env2 # map callback_time after)) (stores_of (fst (h2, io2)))"
    using day by (intro kept.run_keeps [OF run]) auto
  moreover have le: "last (env_now env2 # map callback_time after) \<le> env_now env3"
    using clock by (cases after rule: rev_cases) (auto simp: sorted_append)
  ultimately obtain m' u where m': "sim (active_stores (detached h2)) m' (last (env_now env2 # map callback_time after))"
    "m' (?ih, V4 peer) = Some u" "env_now env2 \<le> u" by (auto simp: contact_kept_def stores_of_def)
  obtain contacts stores where f: "storage_find (env_now env3) ?ih (active_stores (detached h2)) = (contacts, stores)"
    by (rule prod.exhaust)
  have "expire (env_now env3) m' (?ih, V4 peer) = Some u" using m'(2,3) day by (simp add: expire_Some)
  then have "V4 peer \<in> set contacts"
    using storage_find_refines [OF m'(1) le, of ?ih] f by (auto simp: Let_def)
  then have found: "peer \<in> set (List.map_filter map_ipv4 contacts)" by (force simp: List.map_filter_def)
  obtain r1 r2 io4 where d: "draw_secrets io2 = (r1, r2, io4)" by (rule prod_cases3)
  obtain tok tokens where c: "checkout (env_sha env3) (env_now env3) r1 r2 (from_socket_addr addr3) (dh_token_store (detached h2)) = (tok, tokens)"
    by (rule prod.exhaust)
  obtain h4 io5 msg b r ns ps where gp: "handle_get_peers env3 g addr3 (h2, io2) = Ok (h4, io5)" "io_sent io5 = io_sent io2 @ [(msg, addr3)]"
    "dht_bencode_decode msg = Ok b" "message_type_new b mapper = Ok (ResponseMessage (GetPeersResponse r))"
    "gps_info_type r = peers_info ps (List.map_filter map_ipv4 contacts)"
    using get_peers_answer [where mapper = mapper, OF assms(9,13,14,15,16) f [folded assms(12)] d c] by blast
  let ?vs = "\<lparr>compact_values = map (\<lambda>a. MBytes (sock_v4_to_bytes_be a)) (List.map_filter map_ipv4 contacts)\<rparr>"
  have "List.map_filter map_ipv4 contacts \<noteq> []" using found by auto
  then obtain ns' where "gps_info_type r = InfoBoth ns' ?vs" using gp(5) by (simp add: peers_info_def Let_def)
  moreover have "(compact_value_collect (compact_value_into_iter ?vs) :: (_, unit) outcome) = Ok (List.map_filter map_ipv4 contacts)"
    by (rule collect_compact_values)
  ultimately show ?thesis using gp found by blast
qed

definition sample_peer :: socket_addr_v4 where
  "sample_peer = \<lparr>v4_ip = Ipv4Addr 10 0 0 1, v4_port = 1\<rparr>"

definition sample_announce :: announce_peer_request where
  "sample_announce = \<lparr>apq_trans_id = [97], apq_node_id = ShaHash (replicate 20 1), apq_info_hash = ShaHash (replicate 20 2),
     apq_token = [10, 0, 0, 1] @ replicate 16 0, apq_port = Implied\<rparr>"

lemma sample_stores: "stores_of (fst sample_state) = (\<lparr>curr_secret = 0, last_secret = 0, last_refresh = 0\<rparr>, announce_storage_new)"
  by (simp add: sample_state_def handler_new_def next_action_def next_trans_id_def draw_secrets_def Let_def sample_io_def stores_of_def
      token_store_new_def split: prod.split)

lemma sample_checkin:
  "fst (checkin (env_sha sample_env) 5 q1 q2 (IpV4 (Ipv4Addr 10 0 0 1)) (Token ([10, 0, 0, 1] @ replicate 16 0))
     \<lparr>curr_secret = 0, last_secret = 0, last_refresh = 0\<rparr>)"
proof -
  have "refresh_check 5 q1 q2 \<lparr>curr_secret = 0, last_secret = 0, last_refresh = 0\<rparr> = \<lparr>curr_secret = 0, last_secret = 0, last_refresh = 0\<rparr>"
    by (rule refresh_check_cases [of "\<lparr>curr_secret = 0, last_secret = 0, last_refresh = 0\<rparr>" 5 q1 q2]) (simp_all add: duration_minutes_def)
  moreover have "validate_token_from_addr (env_sha sample_env) (IpV4 (Ipv4Addr 10 0 0 1)) (Token ([10, 0, 0, 1] @ replicate 16 0)) 0 0"
    unfolding sample_env_def dht_env.simps by code_simp
  ultimately show ?thesis by (simp add: checkin_def Let_def)
qed

lemma sample_announced:
  "\<exists>h1 io1. handle_announce_peer sample_env sample_announce (V4 sample_peer) sample_state = Ok (h1, io1) \<and> handler_ok (h1, io1) \<and>
     io_sent io1 = [(announce_peer_response_encode \<lparr>aps_trans_id = [97], aps_node_id = table_node_id (the_table (fst sample_state))\<rparr>, V4 sample_peer)] \<and>
     io_out_ok io1 = (\<lambda>k. True)"
proof -
  obtain h io where st: "sample_state = (h, io)" by (rule prod.exhaust)
  let ?h = "note_request sample_env (apq_node_id sample_announce) (V4 sample_peer) h"
  from handle_announce_peer_eq [of io sample_env sample_announce "V4 sample_peer" h] obtain v tk io' where
    eq: "handle_announce_peer sample_env sample_announce (V4 sample_peer) (h, io) =
      (let (msg, h3) = announce_reply sample_env sample_announce (V4 sample_peer) v (?h\<lparr>detached := (detached ?h)\<lparr>dh_token_store := tk\<rparr>\<rparr>)
       in Ok (reply msg (V4 sample_peer) (h3, io')))" and io': "io_out_ok io' = io_out_ok io" "io_sent io' = io_sent io" and
    chk: "\<forall>t. token_new (apq_token sample_announce) = Ok t \<longrightarrow> (case draw_secrets io of (r1, r2, io2) \<Rightarrow>
        checkin (env_sha sample_env) (env_now sample_env) r1 r2 (from_socket_addr (V4 sample_peer)) t (dh_token_store (detached h)) = (v, tk))"
    unfolding Let_def by blast
  have s: "dh_token_store (detached h) = \<lparr>curr_secret = 0, last_secret = 0, last_refresh = 0\<rparr>" "active_stores (detached h) = announce_storage_new"
    using sample_stores [unfolded st] by (simp_all add: stores_of_def)
  have t: "token_new (apq_token sample_announce) = Ok (Token ([10, 0, 0, 1] @ replicate 16 0))"
    by (simp add: sample_announce_def token_new_def SHA_HASH_LEN_def)
  obtain q1 q2 io2 where d: "draw_secrets io = (q1, q2, io2)" by (rule prod_cases3)
  have "env_now sample_env = 5" "from_socket_addr (V4 sample_peer) = IpV4 (Ipv4Addr 10 0 0 1)" by (simp_all add: sample_env_def sample_peer_def)
  then have v using chk [THEN spec, THEN mp, OF t, unfolded d prod.case s(1)] sample_checkin [of q1 q2] by simp
  obtain stores where "storage_add 5 5 (ShaHash (replicate 20 2)) (V4 sample_peer) announce_storage_new = (True, stores)"
    by (simp add: storage_add_def remove_expired_items_def announce_storage_new_def insert_contact_def MAX_ITEMS_STORED_def Let_def)
  then have m: "announce_reply sample_env sample_announce (V4 sample_peer) v (?h\<lparr>detached := (detached ?h)\<lparr>dh_token_store := tk\<rparr>\<rparr>) =
      (announce_peer_response_encode \<lparr>aps_trans_id = [97], aps_node_id = table_node_id (the_table h)\<rparr>,
       ?h\<lparr>detached := (detached ?h)\<lparr>dh_token_store := tk, active_stores := stores\<rparr>\<rparr>)"
    using \<open>v\<close> s by (simp add: announce_reply_def sample_announce_def sample_env_def)
  have o: "io_out_ok io = (\<lambda>k. True)" "io_sent io = []" using sample_state_out [unfolded st] by (auto simp: fun_eq_iff)
  have e: "handle_announce_peer sample_env sample_announce (V4 sample_peer) sample_state =
      Ok (?h\<lparr>detached := (detached ?h)\<lparr>dh_token_store := tk, active_stores := stores\<rparr>\<rparr>,
          io'\<lparr>io_sent := [(announce_peer_response_encode \<lparr>aps_trans_id = [97], aps_node_id = table_node_id (the_table h)\<rparr>, V4 sample_peer)]\<rparr>)"
    using eq m st o io' reply_sent [of io'] by simp
  moreover have "\<exists>st'. handle_announce_peer sample_env sample_announce (V4 sample_peer) (h, io) = Ok st' \<and> handler_ok st'"
    by (rule handle_announce_peer_ok) (use sample_state_ok st in simp)
  ultimately show ?thesis using o io' unfolding st by auto
qed

theorem announced_peer_found_witness:
  "\<exists>h1 io1 h3 io3 msg b r ns vs peers. handle_announce_peer sample_env sample_announce (V4 sample_peer) sample_state = Ok (h1, io1) \<and>
    handle_get_peers (sample_env\<lparr>env_now := duration_hours 23\<rparr>)
      \<lparr>gpq_trans_id = [98], gpq_node_id = ShaHash (replicate 20 3), gpq_info_hash = ShaHash (replicate 20 2)\<rparr>
      (V4 \<lparr>v4_ip = Ipv4Addr 10 0 0 2, v4_port = 2\<rparr>) (h1, io1) = Ok (h3, io3) \<and>
    io_sent io3 = io_sent io1 @ [(msg, V4 \<lparr>v4_ip = Ipv4Addr 10 0 0 2, v4_port = 2\<rparr>)] \<and>
    dht_bencode_decode msg = Ok b \<and> message_type_new b (\<lambda>_. ExpectGetPeers) = Ok (ResponseMessage (GetPeersResponse r)) \<and>
    gps_info_type r = InfoBoth ns vs \<and>
    (compact_value_collect (compact_value_into_iter vs) :: (_, unit) outcome) = Ok peers \<and> sample_peer \<in> set peers"
proof -
  let ?g = "\<lparr>gpq_trans_id = [98], gpq_node_id = ShaHash (replicate 20 3), gpq_info_hash = ShaHash (replicate 20 2)\<rparr>"
  obtain h io where st: "sample_state = (h, io)" by (rule prod.exhaust)
  obtain h1 io1 where a: "handle_announce_peer sample_env sample_announce (V4 sample_peer) (h, io) = Ok (h1, io1)" "handler_ok (h1, io1)"
    "io_sent io1 = [(announce_peer_response_encode \<lparr>aps_trans_id = [97], aps_node_id = table_node_id (the_table h)\<rparr>, V4 sample_peer)]"
    "io_out_ok io1 = (\<lambda>k. True)"
    using sample_announced unfolding st fst_conv by blast
  have start: "run_steps callback [] (handler_new 0 (routing_table_new (ShaHash (replicate 20 0))) False 6881 sample_io) = Ok (h, io)"
    using st by (simp add: sample_state_def)
  have "env_sha (sample_env\<lparr>env_now := duration_hours 23\<rparr>) = env_sha sample_env" by simp
  then have sha: "\<forall>bs. length (sha_bytes (env_sha (sample_env\<lparr>env_now := duration_hours 23\<rparr>) bs)) = SHA_HASH_LEN" using sample_sha by simp
  have "handler_ok (h, io)" "io_out_ok io (length (io_sent io))" using sample_state_ok [unfolded st] sample_state_out [unfolded st] by auto
  from announced_peer_found [where mapper = "\<lambda>_. ExpectGetPeers" and after = "[]" and g = ?g and ?env3.0 = "sample_env\<lparr>env_now := duration_hours 23\<rparr>"
      and ?addr3.0 = "V4 \<lparr>v4_ip = Ipv4Addr 10 0 0 2, v4_port = 2\<rparr>" and peer = sample_peer,
      OF start a(1) _ this(2) _ this(1) _ _ a(2) _ _ _ _ _ _ sha]
  have "\<exists>h3 io3 msg b r ns vs peers. handle_get_peers (sample_env\<lparr>env_now := duration_hours 23\<rparr>) ?g
      (V4 \<lparr>v4_ip = Ipv4Addr 10 0 0 2, v4_port = 2\<rparr>) (h1, io1) = Ok (h3, io3) \<and>
    io_sent io3 = io_sent io1 @ [(msg, V4 \<lparr>v4_ip = Ipv4Addr 10 0 0 2, v4_port = 2\<rparr>)] \<and>
    dht_bencode_decode msg = Ok b \<and> message_type_new b (\<lambda>_. ExpectGetPeers) = Ok (ResponseMessage (GetPeersResponse r)) \<and>
    gps_info_type r = InfoBoth ns vs \<and>
    (compact_value_collect (compact_value_into_iter vs) :: (_, unit) outcome) = Ok peers \<and> sample_peer \<in> set peers"
    using a(3,4) by (simp add: sample_announce_def sample_env_def duration_hours_def EXPIRATION_TIME_HOURS_def)
  with a(1) show ?thesis unfolding st by blast
qed

end
