(* ===== verification/Wire.thy ===== *)
theory Wire
  imports Util_Convert Util_Hash
begin

unbundle bit_operations_syntax

text \<open>
  What the message formats of \<open>src/utracker\<close>, \<open>src/peer\<close> and \<open>src/handshake\<close> read and write with.

  The leaf parsers of the crate \<open>nom\<close> and the integer encodings of the crate \<open>byteorder\<close> are not part
  of the program: they are the fields of a record \<open>wire\<close>, an argument of every definition that uses
  them, and \<open>wire_ok\<close> states their documentation. The macros of \<open>nom\<close> that compose parsers are
  the control flow they stand for: \<open>do_parse!\<close> and \<open>switch!\<close> go on with the rest of the input after
  success, \<open>alt!\<close> tries the next parser after an error only. How many further bytes an incomplete
  parse asks for when some were read before is left to the field \<open>more_needed\<close>, and whether
  \<open>opt!(be_u8)\<close> at the end of the input gives nothing or asks for more is left to \<open>opt_u8\<close>.

  A writer is a vector, which grows, or a cursor over a buffer of fixed size.
\<close>

section \<open>Parsers\<close>

datatype needed = Unknown | Size nat

text \<open>\<open>Stuck\<close> is a parser that panics or does not return.\<close>

datatype ('i, 'o) iresult = Done 'i 'o | Error | Incomplete needed | Stuck

type_synonym 'o parse = "bytes \<Rightarrow> (bytes, 'o) iresult"
type_synonym i32 = "32 word"
type_synonym i64 = "64 word"

record wire =
  be_u8 :: "u8 parse"
  be_u16 :: "u16 parse"
  be_u32 :: "u32 parse"
  be_u64 :: "u64 parse"
  be_i32 :: "i32 parse"
  be_i64 :: "i64 parse"
  take_p :: "nat \<Rightarrow> bytes parse"
  tag_p :: "bytes \<Rightarrow> bytes parse"
  eof_p :: "bytes parse"
  opt_u8 :: "u8 option parse"
  more_needed :: "nat \<Rightarrow> needed \<Rightarrow> needed"
  put_u16 :: "u16 \<Rightarrow> bytes"
  put_u32 :: "u32 \<Rightarrow> bytes"
  put_u64 :: "u64 \<Rightarrow> bytes"
  put_i32 :: "i32 \<Rightarrow> bytes"
  put_i64 :: "i64 \<Rightarrow> bytes"

definition value_p :: "'a \<Rightarrow> 'a parse" where
  "value_p x i = Done i x"

definition error_p :: "'a parse" where
  "error_p i = Error"

definition map_p :: "('a \<Rightarrow> 'b) \<Rightarrow> 'a parse \<Rightarrow> 'b parse" where
  "map_p f p i = (case p i of Done r x \<Rightarrow> Done r (f x) | Error \<Rightarrow> Error | Incomplete n \<Rightarrow> Incomplete n | Stuck \<Rightarrow> Stuck)"

text \<open>\<open>map!\<close> with a closure that unwraps a result.\<close>

definition unwrap_p :: "('a \<Rightarrow> ('b, 'e) outcome) \<Rightarrow> 'a parse \<Rightarrow> 'b parse" where
  "unwrap_p f p i =
     (case p i of Done r x \<Rightarrow> (case f x of Ok y \<Rightarrow> Done r y | Err e \<Rightarrow> Stuck | Panic \<Rightarrow> Stuck)
      | Error \<Rightarrow> Error | Incomplete n \<Rightarrow> Incomplete n | Stuck \<Rightarrow> Stuck)"

definition do_parse :: "wire \<Rightarrow> 'a parse \<Rightarrow> ('a \<Rightarrow> 'b parse) \<Rightarrow> 'b parse" where
  "do_parse w p f i =
     (case p i of
        Done r x \<Rightarrow>
          (case f x r of Incomplete n \<Rightarrow> Incomplete (more_needed w (length i - length r) n) | res \<Rightarrow> res)
      | Error \<Rightarrow> Error
      | Incomplete n \<Rightarrow> Incomplete n
      | Stuck \<Rightarrow> Stuck)"

definition alt_p :: "'a parse \<Rightarrow> 'a parse \<Rightarrow> 'a parse" where
  "alt_p p q i = (case p i of Error \<Rightarrow> q i | res \<Rightarrow> res)"

primrec count_fixed :: "wire \<Rightarrow> 'a parse \<Rightarrow> nat \<Rightarrow> 'a list parse" where
  "count_fixed w p 0 = value_p []"
| "count_fixed w p (Suc n) = do_parse w p (\<lambda>x. do_parse w (count_fixed w p n) (\<lambda>xs. value_p (x # xs)))"

section \<open>Documentation of the parsers\<close>

definition reads :: "nat \<Rightarrow> (bytes \<Rightarrow> 'a) \<Rightarrow> 'a parse \<Rightarrow> bool" where
  "reads n f p \<longleftrightarrow>
     (\<forall>i. (n \<le> length i \<longrightarrow> p i = Done (drop n i) (f (take n i))) \<and>
          (length i < n \<longrightarrow> (\<exists>m. p i = Incomplete m)))"

abbreviation be_word :: "bytes \<Rightarrow> 'w::len word" where
  "be_word bs \<equiv> word_of_nat (be_value bs)"

definition wire_ok :: "wire \<Rightarrow> bool" where
  "wire_ok w \<longleftrightarrow>
     reads 1 be_word (be_u8 w) \<and> reads 2 be_word (be_u16 w) \<and> reads 4 be_word (be_u32 w) \<and>
     reads 8 be_word (be_u64 w) \<and> reads 4 be_word (be_i32 w) \<and> reads 8 be_word (be_i64 w) \<and>
     (\<forall>n. reads n (\<lambda>b. b) (take_p w n)) \<and>
     (\<forall>t i. let k = min (length t) (length i) in
        if take k t \<noteq> take k i then tag_p w t i = Error
        else if length t \<le> length i then tag_p w t i = Done (drop (length t) i) t
        else \<exists>m. tag_p w t i = Incomplete m) \<and>
     (\<forall>i. eof_p w i = (if i = [] then Done i i else Error)) \<and>
     (\<forall>b r. opt_u8 w (b # r) = Done r (Some b)) \<and>
     (opt_u8 w [] = Done [] None \<or> (\<exists>m. opt_u8 w [] = Incomplete m)) \<and>
     (\<forall>x. put_u16 w x = be_bytes 2 (unat x)) \<and> (\<forall>x. put_u32 w x = be_bytes 4 (unat x)) \<and>
     (\<forall>x. put_u64 w x = be_bytes 8 (unat x)) \<and> (\<forall>x. put_i32 w x = be_bytes 4 (unat x)) \<and>
     (\<forall>x. put_i64 w x = be_bytes 8 (unat x))"

text \<open>Parsers and encodings that follow the documentation.\<close>

definition read_n :: "nat \<Rightarrow> (bytes \<Rightarrow> 'a) \<Rightarrow> 'a parse" where
  "read_n n f i = (if n \<le> length i then Done (drop n i) (f (take n i)) else Incomplete (Size n))"

definition sample_wire :: wire where
  "sample_wire =
     \<lparr>be_u8 = read_n 1 be_word, be_u16 = read_n 2 be_word, be_u32 = read_n 4 be_word,
      be_u64 = read_n 8 be_word, be_i32 = read_n 4 be_word, be_i64 = read_n 8 be_word,
      take_p = (\<lambda>n. read_n n (\<lambda>b. b)),
      tag_p = (\<lambda>t i. if take (length i) t \<noteq> take (length t) i then Error
        else if length t \<le> length i then Done (drop (length t) i) t else Incomplete (Size (length t))),
      eof_p = (\<lambda>i. if i = [] then Done i i else Error),
      opt_u8 = (\<lambda>i. case i of [] \<Rightarrow> Incomplete (Size 1) | b # r \<Rightarrow> Done r (Some b)),
      more_needed = (\<lambda>k n. case n of Size m \<Rightarrow> Size (k + m) | Unknown \<Rightarrow> Unknown),
      put_u16 = (\<lambda>x. be_bytes 2 (unat x)), put_u32 = (\<lambda>x. be_bytes 4 (unat x)),
      put_u64 = (\<lambda>x. be_bytes 8 (unat x)), put_i32 = (\<lambda>x. be_bytes 4 (unat x)),
      put_i64 = (\<lambda>x. be_bytes 8 (unat x))\<rparr>"

section \<open>Writers\<close>

datatype io_error_kind = WriteZero | InvalidData | OtherError

datatype writer = VecWriter bytes | CursorWriter nat bytes

fun written :: "writer \<Rightarrow> bytes" where
  "written (VecWriter bs) = bs"
| "written (CursorWriter cap bs) = bs"

text \<open>
  A buffer that a failed write has filled partly is not used by any caller, so a failure keeps
  nothing of the writer.
\<close>

fun write_all :: "bytes \<Rightarrow> writer \<Rightarrow> (writer, io_error_kind) outcome" where
  "write_all bs (VecWriter out) = Ok (VecWriter (out @ bs))"
| "write_all bs (CursorWriter cap out) =
     (if bs = [] \<or> length out + length bs \<le> cap then Ok (CursorWriter cap (out @ bs)) else Err WriteZero)"

section \<open>Lemmas\<close>

named_theorems wire_simps \<open>the documented behaviour of the parsers as rewrite rules\<close>
named_theorems write_simps \<open>sequences of writes as one write\<close>

lemma be_word_be_bytes [simp]: "8 * k = LENGTH('w) \<Longrightarrow> be_word (be_bytes k (unat x)) = (x :: 'w::len word)"
proof -
  assume "8 * k = LENGTH('w)"
  then have "(256 :: nat) ^ k = 2 ^ LENGTH('w)" using power_mult [of "2 :: nat" 8 k] by simp
  then have "unat x mod 256 ^ k = unat x" using unsigned_less [of x, where ?'a = nat] by simp
  then show ?thesis by simp
qed

lemma be_bytes_be_word [simp]: "8 * length bs = LENGTH('w) \<Longrightarrow> be_bytes (length bs) (unat (be_word bs :: 'w::len word)) = bs"
proof -
  assume "8 * length bs = LENGTH('w)"
  then have "(256 :: nat) ^ length bs = 2 ^ LENGTH('w)" using power_mult [of "2 :: nat" 8 "length bs"] by simp
  with be_value_less [of bs] have "be_value bs < 2 ^ LENGTH('w)" by simp
  then show ?thesis by (simp add: unat_of_nat)
qed

lemma reads_append: "reads n f p \<Longrightarrow> length bs = n \<Longrightarrow> p (bs @ r) = Done r (f bs)"
  by (simp add: reads_def)

lemma reads_short: "reads n f p \<Longrightarrow> length i < n \<Longrightarrow> \<exists>m. p i = Incomplete m"
  by (simp add: reads_def)

lemma reads_Done:
  "reads n f p \<Longrightarrow> p i = Done r x \<longleftrightarrow> n \<le> length i \<and> r = drop n i \<and> x = f (take n i)"
  by (cases "n \<le> length i") (auto simp: reads_def not_le dest!: spec [of _ i])

lemma reads_not_stuck: "reads n f p \<Longrightarrow> p i \<noteq> Stuck"
  by (cases "n \<le> length i") (auto simp: reads_def not_le dest!: spec [of _ i])

lemma reads_not_error: "reads n f p \<Longrightarrow> p i \<noteq> Error"
  by (cases "n \<le> length i") (auto simp: reads_def not_le dest!: spec [of _ i])

lemma wire_reads:
  assumes "wire_ok w"
  shows "reads 1 be_word (be_u8 w)" "reads 2 be_word (be_u16 w)" "reads 4 be_word (be_u32 w)"
    "reads 8 be_word (be_u64 w)" "reads 4 be_word (be_i32 w)" "reads 8 be_word (be_i64 w)"
    "reads n (\<lambda>b. b) (take_p w n)"
  using assms by (simp_all add: wire_ok_def)

lemma be_word_single [simp]: "be_word [b] = (b :: u8)"
  by (simp add: be_value_def)

lemma wire_put [wire_simps]:
  assumes "wire_ok w"
  shows "be_u8 w (b # r) = Done r b"
    "be_u16 w (put_u16 w x2 @ r) = Done r x2" "be_u32 w (put_u32 w x4 @ r) = Done r x4"
    "be_u64 w (put_u64 w x8 @ r) = Done r x8" "be_i32 w (put_i32 w x4 @ r) = Done r x4"
    "be_i64 w (put_i64 w x8 @ r) = Done r x8"
proof -
  have put: "put_u16 w x = be_bytes 2 (unat x)" "put_u32 w y = be_bytes 4 (unat y)"
    "put_u64 w z = be_bytes 8 (unat z)" "put_i32 w y = be_bytes 4 (unat y)" "put_i64 w z = be_bytes 8 (unat z)" for x y z
    using assms by (simp_all add: wire_ok_def)
  show "be_u8 w (b # r) = Done r b"
    using reads_append [OF wire_reads(1) [OF assms], of "[b]" r] by (simp del: One_nat_def)
  show "be_u16 w (put_u16 w x2 @ r) = Done r x2" "be_u32 w (put_u32 w x4 @ r) = Done r x4"
    "be_u64 w (put_u64 w x8 @ r) = Done r x8" "be_i32 w (put_i32 w x4 @ r) = Done r x4"
    "be_i64 w (put_i64 w x8 @ r) = Done r x8"
    by (simp_all del: be_value_be_bytes add: put reads_append [OF wire_reads(2) [OF assms]] reads_append [OF wire_reads(3) [OF assms]]
      reads_append [OF wire_reads(4) [OF assms]] reads_append [OF wire_reads(5) [OF assms]]
      reads_append [OF wire_reads(6) [OF assms]])
qed

lemma wire_put_length [simp]:
  assumes "wire_ok w"
  shows "length (put_u16 w x2) = 2" "length (put_u32 w x4) = 4" "length (put_u64 w x8) = 8"
    "length (put_i32 w y4) = 4" "length (put_i64 w y8) = 8"
  using assms by (simp_all add: wire_ok_def)

lemma wire_take [wire_simps]: "wire_ok w \<Longrightarrow> length bs = n \<Longrightarrow> take_p w n (bs @ r) = Done r bs"
  by (rule reads_append [OF wire_reads(7)])

lemma wire_take_all [wire_simps]: "wire_ok w \<Longrightarrow> length bs = n \<Longrightarrow> take_p w n bs = Done [] bs"
  using wire_take [of w bs n "[]"] by simp

lemma wire_tag:
  assumes "wire_ok w" and "length t \<le> length i"
  shows "tag_p w t i = (if take (length t) i = t then Done (drop (length t) i) t else Error)"
proof -
  have "let k = min (length t) (length i) in
      if take k t \<noteq> take k i then tag_p w t i = Error
      else if length t \<le> length i then tag_p w t i = Done (drop (length t) i) t
      else \<exists>m. tag_p w t i = Incomplete m"
    using assms(1) by (simp add: wire_ok_def)
  with assms(2) show ?thesis by (auto simp: Let_def min_def split: if_splits)
qed

lemma wire_tag_not_stuck: "wire_ok w \<Longrightarrow> tag_p w t i \<noteq> Stuck"
proof
  assume w: "wire_ok w" and t: "tag_p w t i = Stuck"
  have "let k = min (length t) (length i) in
      if take k t \<noteq> take k i then tag_p w t i = Error
      else if length t \<le> length i then tag_p w t i = Done (drop (length t) i) t
      else \<exists>m. tag_p w t i = Incomplete m"
    using w by (simp add: wire_ok_def)
  with t show False by (auto simp: Let_def split: if_splits)
qed

lemma wire_tag_Done:
  assumes "wire_ok w" and "tag_p w t i = Done r x"
  shows "i = t @ r \<and> x = t"
proof -
  have "let k = min (length t) (length i) in
      if take k t \<noteq> take k i then tag_p w t i = Error
      else if length t \<le> length i then tag_p w t i = Done (drop (length t) i) t
      else \<exists>m. tag_p w t i = Incomplete m"
    using assms(1) by (simp add: wire_ok_def)
  with assms(2) have "length t \<le> length i" "take (length t) i = t" "r = drop (length t) i" "x = t"
    by (auto simp: Let_def min_def split: if_splits)
  then show ?thesis by (metis append_take_drop_id)
qed

lemma wire_eof: "wire_ok w \<Longrightarrow> eof_p w i = (if i = [] then Done i i else Error)"
  unfolding wire_ok_def by blast

lemma wire_opt:
  assumes "wire_ok w"
  shows "opt_u8 w (b # r) = Done r (Some b)"
    and "opt_u8 w [] = Done [] None \<or> (\<exists>m. opt_u8 w [] = Incomplete m)"
  using assms unfolding wire_ok_def by blast+

lemma reads_read_n: "reads n f (read_n n f)"
  by (simp add: reads_def read_n_def)

lemma sample_wire_ok [simp]: "wire_ok sample_wire"
  by (auto simp: wire_ok_def sample_wire_def Let_def min_def reads_read_n split: if_splits)

text \<open>Composition.\<close>

lemma do_parse_Done [wire_simps]:
  "p i = Done r x \<Longrightarrow> f x r = Done r' y \<Longrightarrow> do_parse w p f i = Done r' y"
  by (simp add: do_parse_def)

lemma do_parse_eq_Done [simp]:
  "do_parse w p f i = Done r y \<longleftrightarrow> (\<exists>r' x. p i = Done r' x \<and> f x r' = Done r y)"
  by (auto simp: do_parse_def split: iresult.splits)

lemma do_parse_eq_Stuck:
  "do_parse w p f i = Stuck \<longleftrightarrow> p i = Stuck \<or> (\<exists>r x. p i = Done r x \<and> f x r = Stuck)"
  by (auto simp: do_parse_def split: iresult.splits)

lemma value_p_simps [simp]: "value_p x i = Done i x" "error_p i = Error"
  by (simp_all add: value_p_def error_p_def)

lemma map_p_eq_Done [simp]: "map_p f p i = Done r y \<longleftrightarrow> (\<exists>x. p i = Done r x \<and> y = f x)"
  by (auto simp: map_p_def split: iresult.splits)

lemma map_p_eq_Stuck [simp]: "map_p f p i = Stuck \<longleftrightarrow> p i = Stuck"
  by (auto simp: map_p_def split: iresult.splits)

lemma map_p_eq_Error [simp]: "map_p f p i = Error \<longleftrightarrow> p i = Error"
  by (auto simp: map_p_def split: iresult.splits)

lemma unwrap_p_eq_Done [simp]: "unwrap_p f p i = Done r y \<longleftrightarrow> (\<exists>x. p i = Done r x \<and> f x = Ok y)"
  by (auto simp: unwrap_p_def split: iresult.splits outcome.splits)

lemma unwrap_p_eq_Stuck:
  "unwrap_p f p i = Stuck \<longleftrightarrow> p i = Stuck \<or> (\<exists>r x. p i = Done r x \<and> (\<forall>y. f x \<noteq> Ok y))"
  by (auto simp: unwrap_p_def split: iresult.splits outcome.splits)

lemma alt_p_eq_Done: "alt_p p q i = Done r y \<longleftrightarrow> p i = Done r y \<or> p i = Error \<and> q i = Done r y"
  by (auto simp: alt_p_def split: iresult.splits)

lemma alt_p_eq_Stuck: "alt_p p q i = Stuck \<longleftrightarrow> p i = Stuck \<or> p i = Error \<and> q i = Stuck"
  by (auto simp: alt_p_def split: iresult.splits)

lemma count_fixed_bytes [wire_simps]:
  "wire_ok w \<Longrightarrow> length bs = n \<Longrightarrow> count_fixed w (be_u8 w) n (bs @ r) = Done r bs"
proof (induction n arbitrary: bs)
  case (Suc n)
  then obtain b bs' where "bs = b # bs'" and "length bs' = n" by (cases bs) auto
  with Suc show ?case by (simp add: wire_simps)
qed simp

lemma count_fixed_not_stuck:
  assumes "\<And>i. p i \<noteq> Stuck"
  shows "count_fixed w p n i \<noteq> Stuck"
  using assms by (induction n arbitrary: i) (auto simp: do_parse_eq_Stuck)

lemma count_fixed_Done:
  assumes "wire_ok w" and "count_fixed w (be_u8 w) n i = Done r bs"
  shows "i = bs @ r \<and> length bs = n"
  using assms(2)
proof (induction n arbitrary: i bs)
  case (Suc n)
  then obtain r' b bs' where b: "be_u8 w i = Done r' b" and bs: "bs = b # bs'"
    and n: "count_fixed w (be_u8 w) n r' = Done r bs'" by auto
  from b have "i = b # r'"
    using wire_put(1) [OF assms(1)] reads_short [OF wire_reads(1) [OF assms(1)], of i] by (cases i) auto
  with Suc.IH [OF n] bs show ?case by simp
qed simp

text \<open>Writers.\<close>

lemma and_then_assoc: "and_then (and_then r f) g = and_then r (\<lambda>x. and_then (f x) g)"
  by (cases r) simp_all

lemma write_all_Nil [simp]: "write_all [] wr = Ok wr"
  by (cases wr) simp_all

lemma write_all_then [write_simps]: "and_then (write_all a wr) (write_all b) = write_all (a @ b) wr"
  by (cases wr) auto

lemma write_all_then_then [write_simps]:
  "and_then (write_all a wr) (\<lambda>w. and_then (write_all b w) f) = and_then (write_all (a @ b) wr) f"
  by (simp flip: and_then_assoc write_all_then)

lemma write_all_then' [write_simps]:
  "and_then (write_all a wr) (\<lambda>w. write_all b w) = write_all (a @ b) wr"
  by (rule write_all_then)

lemma and_then_Ok [write_simps]: "and_then (r :: ('a, 'e) outcome) Ok = r"
  by (cases r) simp_all

lemma written_write_all: "write_all bs wr = Ok wr' \<Longrightarrow> written wr' = written wr @ bs"
  by (cases wr) (auto split: if_splits)

end
