(* ===== verification/Utracker_Message.thy ===== *)
theory Utracker_Message
  imports Wire Hash_Map
begin

text \<open>
  The messages of UDP trackers, \<open>src/utracker\<close>: announce options (\<open>option.rs\<close>), lists of peers
  (\<open>contact.rs\<close>), announcing (\<open>announce.rs\<close>), scraping (\<open>scrape.rs\<close>), errors (\<open>error.rs\<close>), requests
  (\<open>request.rs\<close>) and responses (\<open>response.rs\<close>). Borrowed and owned bytes are not distinguished, so
  \<open>to_owned\<close> is the identity except for options, which it builds up again. Signed integers are words.
\<close>

section \<open>Announce options\<close>

definition END_OF_OPTIONS_BYTE :: u8 where "END_OF_OPTIONS_BYTE = 0x00"
definition NO_OPERATION_BYTE :: u8 where "NO_OPERATION_BYTE = 0x01"
definition URL_DATA_BYTE :: u8 where "URL_DATA_BYTE = 0x02"

type_synonym announce_options = "(u8, bytes) hash_map"

primrec write_chunks :: "u8 \<Rightarrow> bytes list \<Rightarrow> writer \<Rightarrow> (writer, io_error_kind) outcome" where
  "write_chunks byte [] wr = Ok wr"
| "write_chunks byte (c # cs) wr =
     and_then (write_all [byte] wr) (\<lambda>wr.
     and_then (write_all [of_nat (length c)] wr) (\<lambda>wr.
     and_then (write_all c wr) (write_chunks byte cs)))"

primrec write_options :: "announce_options \<Rightarrow> writer \<Rightarrow> (writer, io_error_kind) outcome" where
  "write_options [] wr = Ok wr"
| "write_options (e # es) wr = and_then (write_chunks (fst e) (chunks 255 (snd e)) wr) (write_options es)"

definition options_write_bytes :: "announce_options \<Rightarrow> writer \<Rightarrow> (writer, io_error_kind) outcome" where
  "options_write_bytes self wr =
     and_then (write_options self wr) (\<lambda>wr.
       Ok (case write_all [END_OF_OPTIONS_BYTE] wr of Ok wr' \<Rightarrow> wr' | Err e \<Rightarrow> wr | Panic \<Rightarrow> wr))"

definition options_get :: "u8 \<Rightarrow> (bytes \<Rightarrow> 'o option) \<Rightarrow> announce_options \<Rightarrow> 'o option" where
  "options_get option_byte read_option self =
     (case map_of self option_byte of None \<Rightarrow> None | Some bs \<Rightarrow> read_option bs)"

definition insert_bytes :: "u8 \<Rightarrow> bytes \<Rightarrow> announce_options \<Rightarrow> announce_options" where
  "insert_bytes byte contents self = snd (hash_insert self byte contents)"

definition options_insert ::
    "u8 \<Rightarrow> ('o \<Rightarrow> nat) \<Rightarrow> ('o \<Rightarrow> bytes \<Rightarrow> (bytes, unit) outcome) \<Rightarrow> 'o \<Rightarrow> announce_options \<Rightarrow>
     (announce_options, unit) outcome" where
  "options_insert option_byte option_length write_option option self =
     and_then (write_option option (replicate (option_length option) 0)) (\<lambda>bs.
       Ok (insert_bytes option_byte bs self))"

definition options_to_owned :: "announce_options \<Rightarrow> announce_options" where
  "options_to_owned self = fold (\<lambda>(byte, contents). insert_bytes byte contents) self []"

definition parse_end_option :: "wire \<Rightarrow> bool parse" where
  "parse_end_option w = map_p (\<lambda>_. True) (alt_p (eof_p w) (tag_p w [END_OF_OPTIONS_BYTE]))"

definition parse_no_option :: "wire \<Rightarrow> bool parse" where
  "parse_no_option w = map_p (\<lambda>_. False) (tag_p w [NO_OPERATION_BYTE])"

definition length_bytes :: "wire \<Rightarrow> nat parse \<Rightarrow> bytes parse" where
  "length_bytes w p = do_parse w p (take_p w)"

definition byte_usize :: "wire \<Rightarrow> nat parse" where
  "byte_usize w = map_p unat (be_u8 w)"

definition parse_user_option :: "wire \<Rightarrow> announce_options \<Rightarrow> (bool \<times> announce_options) parse" where
  "parse_user_option w option_map =
     do_parse w (be_u8 w) (\<lambda>option_byte.
     do_parse w (length_bytes w (byte_usize w)) (\<lambda>option_contents.
       value_p (False,
         case map_of option_map option_byte of
           Some occ \<Rightarrow> snd (hash_insert option_map option_byte (occ @ option_contents))
         | None \<Rightarrow> snd (hash_insert option_map option_byte option_contents))))"

text \<open>
  Every turn that does not end the loop reads at least one byte, so one turn more than there are bytes
  is enough.
\<close>

fun parse_options :: "wire \<Rightarrow> nat \<Rightarrow> announce_options \<Rightarrow> announce_options parse" where
  "parse_options w 0 option_map curr_bytes = Stuck"
| "parse_options w (Suc fuel) option_map curr_bytes =
     (case alt_p (map_p (\<lambda>e. (e, option_map)) (parse_end_option w))
             (alt_p (map_p (\<lambda>e. (e, option_map)) (parse_no_option w)) (parse_user_option w option_map))
             curr_bytes of
        Done new_bytes (eof, option_map') \<Rightarrow>
          if eof then Done new_bytes option_map' else parse_options w fuel option_map' new_bytes
      | Error \<Rightarrow> Error
      | Incomplete n \<Rightarrow> Incomplete n
      | Stuck \<Rightarrow> Stuck)"

definition options_from_bytes :: "wire \<Rightarrow> announce_options parse" where
  "options_from_bytes w bs = parse_options w (Suc (length bs)) [] bs"

text \<open>\<open>URLDataOption\<close>; writing into the buffer panics when the data does not fit.\<close>

type_synonym url_data_option = bytes

definition url_option_length :: "url_data_option \<Rightarrow> nat" where
  "url_option_length self = length self"

definition url_read_option :: "bytes \<Rightarrow> url_data_option option" where
  "url_read_option bs = Some bs"

definition url_write_option :: "url_data_option \<Rightarrow> bytes \<Rightarrow> (bytes, unit) outcome" where
  "url_write_option self buf =
     (if length self \<le> length buf then Ok (self @ drop (length self) buf) else Panic)"

section \<open>Lists of peers\<close>

definition SOCKET_ADDR_V4_BYTES :: nat where "SOCKET_ADDR_V4_BYTES = 6"
definition SOCKET_ADDR_V6_BYTES :: nat where "SOCKET_ADDR_V6_BYTES = 18"

datatype compact_peers = PeersV4 bytes | PeersV6 bytes

definition parse_peers_v4 :: "bytes parse" where
  "parse_peers_v4 bs =
     (let remainder_bytes = length bs mod SOCKET_ADDR_V4_BYTES
      in if remainder_bytes \<noteq> 0 then Incomplete (Size (SOCKET_ADDR_V4_BYTES - remainder_bytes))
         else Done [] bs)"

definition parse_peers_v6 :: "bytes parse" where
  "parse_peers_v6 bs =
     (let remainder_bytes = length bs mod SOCKET_ADDR_V6_BYTES
      in if remainder_bytes \<noteq> 0 then Incomplete (Size (SOCKET_ADDR_V6_BYTES - remainder_bytes))
         else Done [] bs)"

definition peers_from_bytes_v4 :: "compact_peers parse" where
  "peers_from_bytes_v4 bs = map_p PeersV4 parse_peers_v4 bs"

definition peers_from_bytes_v6 :: "compact_peers parse" where
  "peers_from_bytes_v6 bs = map_p PeersV6 parse_peers_v6 bs"

fun peers_write_bytes :: "compact_peers \<Rightarrow> writer \<Rightarrow> (writer, io_error_kind) outcome" where
  "peers_write_bytes (PeersV4 peers) wr = write_all peers wr"
| "peers_write_bytes (PeersV6 peers) wr = write_all peers wr"

definition peers_insert_v4 :: "socket_addr_v4 \<Rightarrow> bytes \<Rightarrow> bytes" where
  "peers_insert_v4 peer peers = peers @ sock_v4_to_bytes_be peer"

definition peers_insert_v6 :: "socket_addr_v6 \<Rightarrow> bytes \<Rightarrow> bytes" where
  "peers_insert_v6 peer peers = peers @ sock_v6_to_bytes_be peer"

text \<open>An iterator is the bytes and the offset of the next peer.\<close>

fun peers_next_v4 :: "bytes \<times> nat \<Rightarrow> socket_addr_v4 option \<times> (bytes \<times> nat)" where
  "peers_next_v4 (peers, offset) =
     (if offset = length peers then (None, (peers, offset))
      else let sock_bytes = copy_into SOCKET_ADDR_V4_BYTES (take SOCKET_ADDR_V4_BYTES (drop offset peers))
           in (Some (bytes_be_to_sock_v4 sock_bytes), (peers, offset + SOCKET_ADDR_V4_BYTES)))"

fun peers_next_v6 :: "bytes \<times> nat \<Rightarrow> socket_addr_v6 option \<times> (bytes \<times> nat)" where
  "peers_next_v6 (peers, offset) =
     (if offset = length peers then (None, (peers, offset))
      else let sock_bytes = copy_into SOCKET_ADDR_V6_BYTES (take SOCKET_ADDR_V6_BYTES (drop offset peers))
           in (Some (bytes_be_to_sock_v6 sock_bytes), (peers, offset + SOCKET_ADDR_V6_BYTES)))"

datatype compact_peers_iter = IterV4 "bytes \<times> nat" | IterV6 "bytes \<times> nat"

fun peers_iter :: "compact_peers \<Rightarrow> compact_peers_iter" where
  "peers_iter (PeersV4 peers) = IterV4 (peers, 0)"
| "peers_iter (PeersV6 peers) = IterV6 (peers, 0)"

fun peers_next :: "compact_peers_iter \<Rightarrow> socket_addr option \<times> compact_peers_iter" where
  "peers_next (IterV4 it) = (let (a, it') = peers_next_v4 it in (map_option V4 a, IterV4 it'))"
| "peers_next (IterV6 it) = (let (a, it') = peers_next_v6 it in (map_option V6 a, IterV6 it'))"

text \<open>A \<open>for\<close> loop over an iterator that may panic: \<open>None\<close> when it takes more turns than the fuel.\<close>

fun collect_iter :: "nat \<Rightarrow> ('s \<Rightarrow> ('a option \<times> 's, unit) outcome) \<Rightarrow> 's \<Rightarrow> ('a list, unit) outcome option" where
  "collect_iter 0 next_item it = None"
| "collect_iter (Suc fuel) next_item it =
     (case next_item it of
        Ok (None, it') \<Rightarrow> Some (Ok [])
      | Ok (Some x, it') \<Rightarrow> map_option (\<lambda>res. and_then res (\<lambda>xs. Ok (x # xs))) (collect_iter fuel next_item it')
      | Err e \<Rightarrow> Some (Err e)
      | Panic \<Rightarrow> Some Panic)"

section \<open>Announcing\<close>

definition IMPLIED_IPV4_ID :: bytes where "IMPLIED_IPV4_ID = replicate 4 0"
definition IMPLIED_IPV6_ID :: bytes where "IMPLIED_IPV6_ID = replicate 16 0"
definition DEFAULT_NUM_WANT :: i32 where "DEFAULT_NUM_WANT = - 1"

datatype announce_event = NoEvent | Completed | Started | Stopped

fun as_id :: "announce_event \<Rightarrow> i32" where
  "as_id NoEvent = 0"
| "as_id Completed = 1"
| "as_id Started = 2"
| "as_id Stopped = 3"

definition event_write_bytes :: "wire \<Rightarrow> announce_event \<Rightarrow> writer \<Rightarrow> (writer, io_error_kind) outcome" where
  "event_write_bytes w self wr = write_all (put_i32 w (as_id self)) wr"

definition parse_event :: "wire \<Rightarrow> announce_event parse" where
  "parse_event w =
     do_parse w (be_i32 w) (\<lambda>event_id.
       if event_id = 0 then value_p NoEvent
       else if event_id = 1 then value_p Completed
       else if event_id = 2 then value_p Started
       else if event_id = 3 then value_p Stopped
       else error_p)"

record client_state =
  cs_downloaded :: i64
  cs_left :: i64
  cs_uploaded :: i64
  cs_event :: announce_event

definition state_write_bytes :: "wire \<Rightarrow> client_state \<Rightarrow> writer \<Rightarrow> (writer, io_error_kind) outcome" where
  "state_write_bytes w self wr =
     and_then (write_all (put_i64 w (cs_downloaded self)) wr) (\<lambda>wr.
     and_then (write_all (put_i64 w (cs_left self)) wr) (\<lambda>wr.
     and_then (write_all (put_i64 w (cs_uploaded self)) wr) (\<lambda>wr.
       event_write_bytes w (cs_event self) wr)))"

definition parse_state :: "wire \<Rightarrow> client_state parse" where
  "parse_state w =
     do_parse w (be_i64 w) (\<lambda>downloaded.
     do_parse w (be_i64 w) (\<lambda>left.
     do_parse w (be_i64 w) (\<lambda>uploaded.
     do_parse w (parse_event w) (\<lambda>event.
       value_p \<lparr>cs_downloaded = downloaded, cs_left = left, cs_uploaded = uploaded, cs_event = event\<rparr>))))"

datatype source_ip = ImpliedV4 | ExplicitV4 ipv4_addr | ImpliedV6 | ExplicitV6 ipv6_addr

fun source_write_bytes :: "source_ip \<Rightarrow> writer \<Rightarrow> (writer, io_error_kind) outcome" where
  "source_write_bytes ImpliedV4 wr = write_all IMPLIED_IPV4_ID wr"
| "source_write_bytes ImpliedV6 wr = write_all IMPLIED_IPV6_ID wr"
| "source_write_bytes (ExplicitV4 addr) wr = write_all (ipv4_to_bytes_be addr) wr"
| "source_write_bytes (ExplicitV6 addr) wr = write_all (ipv6_to_bytes_be addr) wr"

fun source_is_ipv6 :: "source_ip \<Rightarrow> bool" where
  "source_is_ipv6 ImpliedV6 = True"
| "source_is_ipv6 (ExplicitV6 _) = True"
| "source_is_ipv6 ImpliedV4 = False"
| "source_is_ipv6 (ExplicitV4 _) = False"

definition source_is_ipv4 :: "source_ip \<Rightarrow> bool" where
  "source_is_ipv4 self = (\<not> source_is_ipv6 self)"

definition parse_preference_v4 :: "wire \<Rightarrow> source_ip parse" where
  "parse_preference_v4 w =
     alt_p (map_p (\<lambda>_. ImpliedV4) (tag_p w IMPLIED_IPV4_ID))
       (map_p ExplicitV4 (map_p bytes_be_to_ipv4 (count_fixed w (be_u8 w) 4)))"

definition parse_preference_v6 :: "wire \<Rightarrow> source_ip parse" where
  "parse_preference_v6 w =
     alt_p (map_p (\<lambda>_. ImpliedV6) (tag_p w IMPLIED_IPV6_ID))
       (map_p ExplicitV6 (map_p bytes_be_to_ipv6 (count_fixed w (be_u8 w) 16)))"

datatype desired_peers = DefaultPeers | Specified i32

definition desired_write_bytes :: "wire \<Rightarrow> desired_peers \<Rightarrow> writer \<Rightarrow> (writer, io_error_kind) outcome" where
  "desired_write_bytes w self wr =
     (let write_value = (case self of DefaultPeers \<Rightarrow> DEFAULT_NUM_WANT | Specified n \<Rightarrow> n)
      in write_all (put_i32 w write_value) wr)"

definition parse_desired :: "wire \<Rightarrow> desired_peers parse" where
  "parse_desired w =
     do_parse w (be_i32 w) (\<lambda>specified_peers.
       if specified_peers = DEFAULT_NUM_WANT then value_p DefaultPeers else value_p (Specified specified_peers))"

record announce_request =
  ar_info_hash :: sha_hash
  ar_peer_id :: sha_hash
  ar_state :: client_state
  ar_ip :: source_ip
  ar_key :: u32
  ar_num_want :: desired_peers
  ar_port :: u16
  ar_options :: announce_options

definition announce_request_write_bytes ::
    "wire \<Rightarrow> announce_request \<Rightarrow> writer \<Rightarrow> (writer, io_error_kind) outcome" where
  "announce_request_write_bytes w self wr =
     and_then (write_all (sha_bytes (ar_info_hash self)) wr) (\<lambda>wr.
     and_then (write_all (sha_bytes (ar_peer_id self)) wr) (\<lambda>wr.
     and_then (state_write_bytes w (ar_state self) wr) (\<lambda>wr.
     and_then (source_write_bytes (ar_ip self) wr) (\<lambda>wr.
     and_then (write_all (put_u32 w (ar_key self)) wr) (\<lambda>wr.
     and_then (desired_write_bytes w (ar_num_want self) wr) (\<lambda>wr.
     and_then (write_all (put_u16 w (ar_port self)) wr) (\<lambda>wr.
       options_write_bytes (ar_options self) wr)))))))"

definition parse_announce_request :: "wire \<Rightarrow> source_ip parse \<Rightarrow> announce_request parse" where
  "parse_announce_request w ip_type =
     do_parse w (unwrap_p from_hash (take_p w SHA_HASH_LEN)) (\<lambda>hash.
     do_parse w (unwrap_p from_hash (take_p w SHA_HASH_LEN)) (\<lambda>peer_id.
     do_parse w (parse_state w) (\<lambda>state.
     do_parse w ip_type (\<lambda>ip.
     do_parse w (be_u32 w) (\<lambda>rkey.
     do_parse w (parse_desired w) (\<lambda>num_want.
     do_parse w (be_u16 w) (\<lambda>port.
     do_parse w (options_from_bytes w) (\<lambda>options.
       value_p \<lparr>ar_info_hash = hash, ar_peer_id = peer_id, ar_state = state, ar_ip = ip, ar_key = rkey,
         ar_num_want = num_want, ar_port = port, ar_options = options\<rparr>))))))))"

definition announce_request_to_owned :: "announce_request \<Rightarrow> announce_request" where
  "announce_request_to_owned self = self\<lparr>ar_options := options_to_owned (ar_options self)\<rparr>"

record announce_response =
  as_interval :: i32
  as_leechers :: i32
  as_seeders :: i32
  as_peers :: compact_peers

definition announce_response_write_bytes ::
    "wire \<Rightarrow> announce_response \<Rightarrow> writer \<Rightarrow> (writer, io_error_kind) outcome" where
  "announce_response_write_bytes w self wr =
     and_then (write_all (put_i32 w (as_interval self)) wr) (\<lambda>wr.
     and_then (write_all (put_i32 w (as_leechers self)) wr) (\<lambda>wr.
     and_then (write_all (put_i32 w (as_seeders self)) wr) (\<lambda>wr.
       peers_write_bytes (as_peers self) wr)))"

definition parse_announce_respone :: "wire \<Rightarrow> compact_peers parse \<Rightarrow> announce_response parse" where
  "parse_announce_respone w peers_type =
     do_parse w (be_i32 w) (\<lambda>interval.
     do_parse w (be_i32 w) (\<lambda>leechers.
     do_parse w (be_i32 w) (\<lambda>seeders.
     do_parse w peers_type (\<lambda>peers.
       value_p \<lparr>as_interval = interval, as_leechers = leechers, as_seeders = seeders, as_peers = peers\<rparr>))))"

section \<open>Scraping\<close>

definition SCRAPE_STATS_BYTES :: nat where "SCRAPE_STATS_BYTES = 12"

record scrape_stats =
  st_seeders :: i32
  st_downloaded :: i32
  st_leechers :: i32

definition parse_stats :: "wire \<Rightarrow> scrape_stats parse" where
  "parse_stats w =
     do_parse w (be_i32 w) (\<lambda>seeders.
     do_parse w (be_i32 w) (\<lambda>downloaded.
     do_parse w (be_i32 w) (\<lambda>leechers.
       value_p \<lparr>st_seeders = seeders, st_downloaded = downloaded, st_leechers = leechers\<rparr>)))"

text \<open>A scrape request is the bytes of its hashes, a scrape response those of its statistics.\<close>

type_synonym scrape_request = bytes
type_synonym scrape_response = bytes

definition scrape_request_insert :: "sha_hash \<Rightarrow> scrape_request \<Rightarrow> scrape_request" where
  "scrape_request_insert hash self = self @ sha_bytes hash"

definition parse_scrape_request :: "scrape_request parse" where
  "parse_scrape_request bs =
     (let remainder_bytes = length bs mod SHA_HASH_LEN
      in if remainder_bytes \<noteq> 0 then Incomplete (Size (SHA_HASH_LEN - remainder_bytes)) else Done [] bs)"

definition scrape_response_insert :: "scrape_stats \<Rightarrow> scrape_response \<Rightarrow> scrape_response" where
  "scrape_response_insert stats self =
     (let seeders_bytes = four_bytes_to_array (st_seeders stats);
          downloads_bytes = four_bytes_to_array (st_downloaded stats);
          leechers_bytes = four_bytes_to_array (st_leechers stats)
      in self @ seeders_bytes @ downloads_bytes @ leechers_bytes)"

definition parse_scrape_response :: "scrape_response parse" where
  "parse_scrape_response bs =
     (let remainder_bytes = length bs mod SCRAPE_STATS_BYTES
      in if remainder_bytes \<noteq> 0 then Incomplete (Size (SCRAPE_STATS_BYTES - remainder_bytes)) else Done [] bs)"

fun scrape_request_next :: "bytes \<times> nat \<Rightarrow> (sha_hash option \<times> (bytes \<times> nat), unit) outcome" where
  "scrape_request_next (hashes, offset) =
     (if offset = length hashes then Ok (None, (hashes, offset))
      else let start = offset; stop = offset + SHA_HASH_LEN
           in and_then (slice_range hashes start stop) (\<lambda>bs.
              and_then (unwrap (from_hash bs)) (\<lambda>hash. Ok (Some hash, (hashes, stop)))))"

fun scrape_response_next :: "wire \<Rightarrow> bytes \<times> nat \<Rightarrow> (scrape_stats option \<times> (bytes \<times> nat), unit) outcome" where
  "scrape_response_next w (stats, offset) =
     (if offset = length stats then Ok (None, (stats, offset))
      else let start = offset; stop = offset + SCRAPE_STATS_BYTES
           in and_then (slice_range stats start stop) (\<lambda>bs.
              case parse_stats w bs of Done _ st \<Rightarrow> Ok (Some st, (stats, stop)) | _ \<Rightarrow> Panic))"

section \<open>Errors\<close>

text \<open>The message of an error is the bytes of its text; reading it checks the encoding.\<close>

definition take_str :: "wire \<Rightarrow> nat \<Rightarrow> bytes parse" where
  "take_str w n = do_parse w (take_p w n) (\<lambda>s. if utf8_valid s then value_p s else error_p)"

definition error_from_bytes :: "wire \<Rightarrow> bytes parse" where
  "error_from_bytes w bs = take_str w (length bs) bs"

definition error_write_bytes :: "bytes \<Rightarrow> writer \<Rightarrow> (writer, io_error_kind) outcome" where
  "error_write_bytes message wr = write_all message wr"

section \<open>Requests\<close>

definition CONNECT_ACTION_ID :: u32 where "CONNECT_ACTION_ID = 0"
definition ANNOUNCE_IPV4_ACTION_ID :: u32 where "ANNOUNCE_IPV4_ACTION_ID = 1"
definition SCRAPE_ACTION_ID :: u32 where "SCRAPE_ACTION_ID = 2"
definition ANNOUNCE_IPV6_ACTION_ID :: u32 where "ANNOUNCE_IPV6_ACTION_ID = 4"
definition ERROR_ACTION_ID :: u32 where "ERROR_ACTION_ID = 3"
definition CONNECT_ID_PROTOCOL_ID :: u64 where "CONNECT_ID_PROTOCOL_ID = 0x41727101980"

datatype tracker_request_type = ConnectRequest | AnnounceRequest announce_request | ScrapeRequest scrape_request

record tracker_request =
  rq_connection_id :: u64
  rq_transaction_id :: u32
  rq_type :: tracker_request_type

definition tracker_request_write_bytes ::
    "wire \<Rightarrow> tracker_request \<Rightarrow> writer \<Rightarrow> (writer, io_error_kind) outcome" where
  "tracker_request_write_bytes w self wr =
     and_then (write_all (put_u64 w (rq_connection_id self)) wr) (\<lambda>wr.
       case rq_type self of
         ConnectRequest \<Rightarrow>
           and_then (write_all (put_u32 w CONNECT_ACTION_ID) wr) (\<lambda>wr.
             write_all (put_u32 w (rq_transaction_id self)) wr)
       | AnnounceRequest req \<Rightarrow>
           (let action_id = (if source_is_ipv4 (ar_ip req) then ANNOUNCE_IPV4_ACTION_ID else ANNOUNCE_IPV6_ACTION_ID)
            in and_then (write_all (put_u32 w action_id) wr) (\<lambda>wr.
               and_then (write_all (put_u32 w (rq_transaction_id self)) wr) (\<lambda>wr.
                 announce_request_write_bytes w req wr)))
       | ScrapeRequest req \<Rightarrow>
           and_then (write_all (put_u32 w SCRAPE_ACTION_ID) wr) (\<lambda>wr.
           and_then (write_all (put_u32 w (rq_transaction_id self)) wr) (\<lambda>wr.
             write_all req wr)))"

definition parse_tracker_request :: "wire \<Rightarrow> tracker_request parse" where
  "parse_tracker_request w =
     do_parse w (do_parse w (be_u64 w) (\<lambda>cid. do_parse w (be_u32 w) (\<lambda>action.
         do_parse w (be_u32 w) (\<lambda>tid. value_p (cid, action, tid))))) (\<lambda>(cid, action, tid).
       let request = (\<lambda>t. \<lparr>rq_connection_id = cid, rq_transaction_id = tid, rq_type = t\<rparr>) in
       if cid = CONNECT_ID_PROTOCOL_ID \<and> action = CONNECT_ACTION_ID then value_p (request ConnectRequest)
       else if action = ANNOUNCE_IPV4_ACTION_ID
       then map_p (\<lambda>ann_req. request (AnnounceRequest ann_req)) (parse_announce_request w (parse_preference_v4 w))
       else if action = SCRAPE_ACTION_ID
       then map_p (\<lambda>scr_req. request (ScrapeRequest scr_req)) parse_scrape_request
       else if action = ANNOUNCE_IPV6_ACTION_ID
       then map_p (\<lambda>ann_req. request (AnnounceRequest ann_req)) (parse_announce_request w (parse_preference_v6 w))
       else error_p)"

section \<open>Responses\<close>

datatype tracker_response_type =
    ConnectResponse u64
  | AnnounceResponse announce_response
  | ScrapeResponse scrape_response
  | ErrorResponse bytes

record tracker_response =
  rs_transaction_id :: u32
  rs_type :: tracker_response_type

definition tracker_response_write_bytes ::
    "wire \<Rightarrow> tracker_response \<Rightarrow> writer \<Rightarrow> (writer, io_error_kind) outcome" where
  "tracker_response_write_bytes w self wr =
     (case rs_type self of
        ConnectResponse cid \<Rightarrow>
          and_then (write_all (put_u32 w CONNECT_ACTION_ID) wr) (\<lambda>wr.
          and_then (write_all (put_u32 w (rs_transaction_id self)) wr) (\<lambda>wr.
            write_all (put_u64 w cid) wr))
      | AnnounceResponse req \<Rightarrow>
          (let action_id = (case as_peers req of PeersV4 _ \<Rightarrow> ANNOUNCE_IPV4_ACTION_ID | PeersV6 _ \<Rightarrow> ANNOUNCE_IPV6_ACTION_ID)
           in and_then (write_all (put_u32 w action_id) wr) (\<lambda>wr.
              and_then (write_all (put_u32 w (rs_transaction_id self)) wr) (\<lambda>wr.
                announce_response_write_bytes w req wr)))
      | ScrapeResponse req \<Rightarrow>
          and_then (write_all (put_u32 w SCRAPE_ACTION_ID) wr) (\<lambda>wr.
          and_then (write_all (put_u32 w (rs_transaction_id self)) wr) (\<lambda>wr.
            write_all req wr))
      | ErrorResponse err \<Rightarrow>
          and_then (write_all (put_u32 w ERROR_ACTION_ID) wr) (\<lambda>wr.
          and_then (write_all (put_u32 w (rs_transaction_id self)) wr) (\<lambda>wr.
            error_write_bytes err wr)))"

definition parse_tracker_response :: "wire \<Rightarrow> tracker_response parse" where
  "parse_tracker_response w =
     do_parse w (do_parse w (be_u32 w) (\<lambda>action. do_parse w (be_u32 w) (\<lambda>tid. value_p (action, tid)))) (\<lambda>(action, tid).
       let response = (\<lambda>t. \<lparr>rs_transaction_id = tid, rs_type = t\<rparr>) in
       if action = CONNECT_ACTION_ID then map_p (\<lambda>cid. response (ConnectResponse cid)) (be_u64 w)
       else if action = ANNOUNCE_IPV4_ACTION_ID
       then map_p (\<lambda>ann_res. response (AnnounceResponse ann_res)) (parse_announce_respone w peers_from_bytes_v4)
       else if action = SCRAPE_ACTION_ID
       then map_p (\<lambda>scr_res. response (ScrapeResponse scr_res)) parse_scrape_response
       else if action = ERROR_ACTION_ID
       then map_p (\<lambda>err_res. response (ErrorResponse err_res)) (error_from_bytes w)
       else if action = ANNOUNCE_IPV6_ACTION_ID
       then map_p (\<lambda>ann_res. response (AnnounceResponse ann_res)) (parse_announce_respone w peers_from_bytes_v6)
       else error_p)"

end
