(* ===== verification/Utracker_Client.thy ===== *)
theory Utracker_Client
  imports Utracker_Message Util_Ids
begin

text \<open>
  The tracker client and the tracker server: \<open>src/utracker/client/mod.rs\<close>,
  \<open>src/utracker/client/dispatcher.rs\<close>, \<open>src/utracker/client/error.rs\<close> and
  \<open>src/utracker/server/dispatcher.rs\<close>.

  The event loop, the handshaker of the client and the handler of the server are not part of the
  program. The answers of the event loop to requests for timers and the random keys are given in advance,
  and what the program asks of the event loop and of the handshaker is recorded in order. The clock is
  read once in a callback, as \<open>now\<close>, in nanoseconds.
\<close>

section \<open>Requests and their results\<close>

datatype client_request = ClientAnnounce sha_hash client_state | ClientScrape sha_hash

datatype client_response = AnnounceResult announce_response | ScrapeResult scrape_response

datatype client_error =
    MaxTimeout
  | MaxLength
  | ClientShutdown
  | ServerError
  | IPVersionMismatch
  | ServerMessage bytes

type_synonym client_result = "client_error + client_response"

text \<open>A \<open>ClientToken\<close> is its number.\<close>

type_synonym client_token = u32

datatype dispatch_timeout = ConnectTimeout client_token | CleanUp

datatype dispatch_message =
    RequestMessage socket_addr client_token client_request
  | StartTimer
  | ShutdownMessage

section \<open>Limiting requests\<close>

record request_limiter =
  rl_active :: u64
  rl_capacity :: u64

definition limiter_new :: "u64 \<Rightarrow> request_limiter" where
  "limiter_new capacity = \<lparr>rl_active = 0, rl_capacity = capacity\<rparr>"

definition acknowledge :: "request_limiter \<Rightarrow> request_limiter" where
  "acknowledge self = self\<lparr>rl_active := rl_active self - 1\<rparr>"

text \<open>The addition and the subtraction that takes it back are two atomic steps of the client's thread. Only
  this thread reads the counter and the dispatcher's only subtracts from it, so nothing observes the
  state in between.\<close>

definition can_initiate :: "request_limiter \<Rightarrow> bool \<times> request_limiter" where
  "can_initiate self =
     (let current_active_requests = rl_active self;
          self1 = self\<lparr>rl_active := rl_active self + 1\<rparr>
      in if current_active_requests < rl_capacity self then (True, self1) else (False, acknowledge self1))"

section \<open>Connection ids\<close>

definition CONNECTION_ID_VALID_DURATION_MILLIS :: int where "CONNECTION_ID_VALID_DURATION_MILLIS = 60000"

definition is_expired_id :: "int \<Rightarrow> int \<Rightarrow> bool" where
  "is_expired_id curr_time prev_time \<longleftrightarrow> curr_time - prev_time \<ge> CONNECTION_ID_VALID_DURATION_MILLIS * 1000000"

type_synonym connect_id_cache = "(socket_addr, u64 \<times> int) hash_map"

definition cache_get :: "int \<Rightarrow> socket_addr \<Rightarrow> connect_id_cache \<Rightarrow> u64 option \<times> connect_id_cache" where
  "cache_get now addr self =
     (case map_of self addr of
        None \<Rightarrow> (None, self)
      | Some (cid, prev_time) \<Rightarrow>
          if is_expired_id now prev_time then (None, snd (hash_remove self addr)) else (Some cid, self))"

definition cache_put :: "int \<Rightarrow> socket_addr \<Rightarrow> u64 \<Rightarrow> connect_id_cache \<Rightarrow> connect_id_cache" where
  "cache_put now addr connect_id self = snd (hash_insert self addr (connect_id, now))"

text \<open>The index moves on after a removal as well.\<close>

function clean_from :: "int \<Rightarrow> nat \<Rightarrow> connect_id_cache \<Rightarrow> connect_id_cache" where
  "clean_from now index self =
     (if length self \<le> index then self
      else let (addr, cid, prev_time) = self ! index;
               self1 = (if is_expired_id now prev_time then snd (hash_remove self addr) else self)
           in clean_from now (Suc index) self1)"
  by pat_completeness auto
termination
  by (relation "measure (\<lambda>(now, index, self). length self - index)")
     (auto simp: hash_remove_def intro!: le_less_trans [OF diff_le_mono [OF length_filter_le] diff_less_mono2])

declare clean_from.simps [simp del]

definition clean_expired :: "int \<Rightarrow> connect_id_cache \<Rightarrow> connect_id_cache" where
  "clean_expired now self = clean_from now 0 self"

section \<open>Timers of requests\<close>

definition MAXIMUM_REQUEST_RETRANSMIT_ATTEMPTS :: nat where "MAXIMUM_REQUEST_RETRANSMIT_ATTEMPTS = 8"
definition EXPECTED_PACKET_LENGTH :: nat where "EXPECTED_PACKET_LENGTH = 1500"

record connect_timer =
  ct_addr :: socket_addr
  ct_attempt :: nat
  ct_request :: client_request
  ct_timeout_id :: "nat option"

definition connect_timer_new :: "socket_addr \<Rightarrow> client_request \<Rightarrow> connect_timer" where
  "connect_timer_new addr request =
     \<lparr>ct_addr = addr, ct_attempt = 0, ct_request = request, ct_timeout_id = None\<rparr>"

definition calculate_message_timeout_millis :: "nat \<Rightarrow> nat" where
  "calculate_message_timeout_millis attempt = (15 * 2 ^ attempt) * 1000"

definition current_timeout :: "bool \<Rightarrow> connect_timer \<Rightarrow> nat option \<times> connect_timer" where
  "current_timeout timed_out self =
     (if ct_attempt self = MAXIMUM_REQUEST_RETRANSMIT_ATTEMPTS then (None, self)
      else let self1 = (if timed_out then self\<lparr>ct_attempt := ct_attempt self + 1\<rparr> else self)
           in (Some (calculate_message_timeout_millis (ct_attempt self1)), self1))"

section \<open>The event loop and the handshaker\<close>

datatype loop_call = SetTimeout dispatch_timeout nat | ClearTimer nat | StopLoop

text \<open>
  \<open>tio_timers k\<close> is the answer to a timer that is the \<open>k\<close>-th call of the event loop, and \<open>tio_keys k\<close>
  the random number drawn for the message that is the \<open>k\<close>-th sent.
\<close>

record tracker_io =
  tio_timers :: "nat \<Rightarrow> nat option"
  tio_calls :: "loop_call list"
  tio_keys :: "nat \<Rightarrow> u32"
  tio_sent :: "(bytes \<times> socket_addr) list"
  tio_connects :: "(sha_hash \<times> socket_addr) list"
  tio_metadata :: "(client_token \<times> client_result) list"

definition set_timeout :: "dispatch_timeout \<Rightarrow> nat \<Rightarrow> tracker_io \<Rightarrow> nat option \<times> tracker_io" where
  "set_timeout data delay io =
     (tio_timers io (length (tio_calls io)), io\<lparr>tio_calls := tio_calls io @ [SetTimeout data delay]\<rparr>)"

definition clear_timer :: "nat \<Rightarrow> tracker_io \<Rightarrow> tracker_io" where
  "clear_timer timer io = io\<lparr>tio_calls := tio_calls io @ [ClearTimer timer]\<rparr>"

section \<open>The dispatcher of the client\<close>

record client_env =
  ce_peer_id :: sha_hash
  ce_port :: u16
  ce_bound_addr :: socket_addr

record client_dispatcher =
  cd_active :: "(client_token, connect_timer) hash_map"
  cd_id_cache :: connect_id_cache
  cd_limiter :: request_limiter

type_synonym client_st = "client_dispatcher \<times> tracker_io"

definition dispatcher_new :: "request_limiter \<Rightarrow> client_dispatcher" where
  "dispatcher_new limiter = \<lparr>cd_active = [], cd_id_cache = [], cd_limiter = limiter\<rparr>"

fun notify_client :: "client_token \<Rightarrow> client_result \<Rightarrow> client_st \<Rightarrow> client_st" where
  "notify_client token result (self, io) =
     (self\<lparr>cd_limiter := acknowledge (cd_limiter self)\<rparr>, io\<lparr>tio_metadata := tio_metadata io @ [(token, result)]\<rparr>)"

fun client_shutdown :: "client_st \<Rightarrow> client_st" where
  "client_shutdown (self, io) =
     (let (self1, io1) = fold (\<lambda>token_index st.
            notify_client (map fst (cd_active (fst st)) ! token_index) (Inl ClientShutdown) st)
            [0..<length (cd_active self)] (self, io)
      in (self1\<lparr>cd_active := []\<rparr>, io1\<lparr>tio_calls := tio_calls io1 @ [StopLoop]\<rparr>))"

text \<open>The type of request to make, and the connection id to make it with.\<close>

fun resolve_request ::
    "client_env \<Rightarrow> u32 \<Rightarrow> socket_addr \<Rightarrow> u64 option \<Rightarrow> client_request \<Rightarrow> u64 \<times> tracker_request_type" where
  "resolve_request env rkey addr (Some cid) (ClientAnnounce hash state) =
     (let source_ip = (case addr of V4 _ \<Rightarrow> ImpliedV4 | V6 _ \<Rightarrow> ImpliedV6)
      in (cid, AnnounceRequest \<lparr>ar_info_hash = hash, ar_peer_id = ce_peer_id env, ar_state = state,
            ar_ip = source_ip, ar_key = rkey, ar_num_want = DefaultPeers, ar_port = ce_port env, ar_options = []\<rparr>))"
| "resolve_request env rkey addr (Some cid) (ClientScrape hash) =
     (cid, ScrapeRequest (scrape_request_insert hash []))"
| "resolve_request env rkey addr None req = (CONNECT_ID_PROTOCOL_ID, ConnectRequest)"

fun process_request ::
    "wire \<Rightarrow> client_env \<Rightarrow> int \<Rightarrow> client_token \<Rightarrow> bool \<Rightarrow> client_st \<Rightarrow> (client_st, unit) outcome" where
  "process_request w env now token timed_out (self, io) =
     (case hash_remove (cd_active self) token of
        (None, active) \<Rightarrow> Ok (self, io)
      | (Some conn_timer0, active) \<Rightarrow>
          (let self1 = self\<lparr>cd_active := active\<rparr> in
           case current_timeout timed_out conn_timer0 of
             (None, conn_timer) \<Rightarrow> Ok (notify_client token (Inl MaxTimeout) (self1, io))
           | (Some next_timeout, conn_timer) \<Rightarrow>
               (let addr = ct_addr conn_timer;
                    (opt_conn_id, id_cache) = cache_get now addr (cd_id_cache self1);
                    self2 = self1\<lparr>cd_id_cache := id_cache\<rparr>;
                    (conn_id, req_type) = resolve_request env (tio_keys io (length (tio_sent io))) addr opt_conn_id (ct_request conn_timer);
                    tracker_request = \<lparr>rq_connection_id = conn_id, rq_transaction_id = token, rq_type = req_type\<rparr>
                in case tracker_request_write_bytes w tracker_request (CursorWriter EXPECTED_PACKET_LENGTH []) of
                     Ok wr \<Rightarrow>
                       (let io1 = io\<lparr>tio_sent := tio_sent io @ [(written wr, addr)]\<rparr>
                        in case set_timeout (ConnectTimeout token) next_timeout io1 of
                             (None, io2) \<Rightarrow> Panic
                           | (Some timer, io2) \<Rightarrow>
                               Ok (self2\<lparr>cd_active := snd (hash_insert (cd_active self2) token
                                     (conn_timer\<lparr>ct_timeout_id := Some timer\<rparr>))\<rparr>, io2))
                   | _ \<Rightarrow> Ok (notify_client token (Inl MaxLength) (self2, io)))))"

fun send_request ::
    "wire \<Rightarrow> client_env \<Rightarrow> int \<Rightarrow> socket_addr \<Rightarrow> client_token \<Rightarrow> client_request \<Rightarrow> client_st \<Rightarrow> (client_st, unit) outcome" where
  "send_request w env now addr token request (self, io) =
     (case (ce_bound_addr env, addr) of
        (V4 _, V6 _) \<Rightarrow> Ok (notify_client token (Inl IPVersionMismatch) (self, io))
      | (V6 _, V4 _) \<Rightarrow> Ok (notify_client token (Inl IPVersionMismatch) (self, io))
      | _ \<Rightarrow> process_request w env now token False
               (self\<lparr>cd_active := snd (hash_insert (cd_active self) token (connect_timer_new addr request))\<rparr>, io))"

text \<open>
  The result of a response that is not a connection id. The peers of a response that was read are whole
  addresses, so one turn of the loop for each byte is enough.
\<close>

fun forward_response :: "client_token \<Rightarrow> client_request \<Rightarrow> tracker_response_type \<Rightarrow> client_st \<Rightarrow> (client_st, unit) outcome" where
  "forward_response token (ClientAnnounce hash state) (AnnounceResponse res) (self, io) =
     (case collect_iter (Suc (length (case as_peers res of PeersV4 bs \<Rightarrow> bs | PeersV6 bs \<Rightarrow> bs)))
             (\<lambda>it. Ok (peers_next it)) (peers_iter (as_peers res)) of
        Some (Ok addrs) \<Rightarrow>
          Ok (notify_client token (Inr (AnnounceResult res))
            (self, io\<lparr>tio_connects := tio_connects io @ map (\<lambda>addr. (hash, addr)) addrs\<rparr>))
      | _ \<Rightarrow> Panic)"
| "forward_response token (ClientScrape hash) (ScrapeResponse res) st =
     Ok (notify_client token (Inr (ScrapeResult res)) st)"
| "forward_response token req (ErrorResponse res) st = Ok (notify_client token (Inl (ServerMessage res)) st)"
| "forward_response token req res st = Ok (notify_client token (Inl ServerError) st)"

fun recv_response ::
    "wire \<Rightarrow> client_env \<Rightarrow> int \<Rightarrow> socket_addr \<Rightarrow> tracker_response \<Rightarrow> client_st \<Rightarrow> (client_st, unit) outcome" where
  "recv_response w env now addr response (self, io) =
     (let token = rs_transaction_id response in
      case hash_remove (cd_active self) token of
        (None, active) \<Rightarrow> Ok (self, io)
      | (Some conn_timer, active) \<Rightarrow>
          (let self1 = self\<lparr>cd_active := active\<rparr> in
           if ct_addr conn_timer \<noteq> addr then Ok (self1, io)
           else case ct_timeout_id conn_timer of
             None \<Rightarrow> Panic
           | Some timer \<Rightarrow>
               (let io1 = clear_timer timer io in
                case rs_type response of
                  ConnectResponse cid \<Rightarrow>
                    process_request w env now token False
                      (self1\<lparr>cd_id_cache := cache_put now addr cid (cd_id_cache self1),
                             cd_active := snd (hash_insert active token conn_timer)\<rparr>, io1)
                | res \<Rightarrow> forward_response token (ct_request conn_timer) res (self1, io1))))"

section \<open>Callbacks of the client\<close>

fun client_timeout :: "wire \<Rightarrow> client_env \<Rightarrow> int \<Rightarrow> dispatch_timeout \<Rightarrow> client_st \<Rightarrow> (client_st, unit) outcome" where
  "client_timeout w env now (ConnectTimeout token) st = process_request w env now token True st"
| "client_timeout w env now CleanUp (self, io) =
     (case set_timeout CleanUp (nat CONNECTION_ID_VALID_DURATION_MILLIS) io of
        (None, io1) \<Rightarrow> Panic
      | (Some timer, io1) \<Rightarrow> Ok (self\<lparr>cd_id_cache := clean_expired now (cd_id_cache self)\<rparr>, io1))"

fun client_notify :: "wire \<Rightarrow> client_env \<Rightarrow> int \<Rightarrow> dispatch_message \<Rightarrow> client_st \<Rightarrow> (client_st, unit) outcome" where
  "client_notify w env now (RequestMessage addr token req) st = send_request w env now addr token req st"
| "client_notify w env now StartTimer st = client_timeout w env now CleanUp st"
| "client_notify w env now ShutdownMessage st = Ok (client_shutdown st)"

definition client_incoming :: "wire \<Rightarrow> client_env \<Rightarrow> int \<Rightarrow> bytes \<Rightarrow> socket_addr \<Rightarrow> client_st \<Rightarrow> (client_st, unit) outcome" where
  "client_incoming w env now message addr st =
     (case parse_tracker_response w message of
        Done _ rsp \<Rightarrow> recv_response w env now addr rsp st
      | Stuck \<Rightarrow> Panic
      | _ \<Rightarrow> Ok st)"

section \<open>The client\<close>

text \<open>
  The limiter is shared with the dispatcher. The channel to the dispatcher is the list of the messages
  in it; \<open>send_ok\<close> says whether it takes the message.
\<close>

record tracker_client =
  tc_channel :: "dispatch_message list"
  tc_generator :: "u32 tid_generator"

fun tracker_client_request ::
    "bool \<Rightarrow> (nat \<Rightarrow> nat) \<Rightarrow> socket_addr \<Rightarrow> client_request \<Rightarrow> tracker_client \<times> request_limiter \<Rightarrow>
     (client_token option \<times> tracker_client \<times> request_limiter, unit) outcome" where
  "tracker_client_request send_ok rnd addr request (self, limiter) =
     (case can_initiate limiter of
        (True, limiter1) \<Rightarrow>
          (case tid_generate 2 rnd (tc_generator self) of
             None \<Rightarrow> Panic
           | Some (token, generator) \<Rightarrow>
               if send_ok
               then Ok (Some token, self\<lparr>tc_channel := tc_channel self @ [RequestMessage addr token request],
                      tc_generator := generator\<rparr>, limiter1)
               else Panic)
      | (False, limiter1) \<Rightarrow> Ok (None, self, limiter1))"

text \<open>
  A new client and its dispatcher, which is told to start its timer. \<open>chk\<close> says whether the build has
  overflow checks, \<open>build\<close> whether the event loop can be built with a channel and a timer capacity, \<open>send_ok\<close>
  whether its channel takes the first message. A dropped client tells the dispatcher to shut down.
\<close>

definition create_dispatcher ::
    "bool \<Rightarrow> (u64 \<Rightarrow> u64 \<Rightarrow> bool) \<Rightarrow> bool \<Rightarrow> u64 \<Rightarrow> request_limiter \<Rightarrow>
       (dispatch_message list \<times> client_dispatcher, unit) outcome" where
  "create_dispatcher chk build send_ok msg_capacity limiter =
     and_then (word_add chk msg_capacity 1) (\<lambda>timer_capacity.
       if \<not> build msg_capacity timer_capacity then Err ()
       else if send_ok then Ok ([StartTimer], dispatcher_new limiter)
       else Panic)"

definition with_capacity ::
    "bool \<Rightarrow> (u64 \<Rightarrow> u64 \<Rightarrow> bool) \<Rightarrow> bool \<Rightarrow> (nat \<Rightarrow> nat) \<Rightarrow> u64 \<Rightarrow> (tracker_client \<times> client_dispatcher, unit) outcome" where
  "with_capacity chk build send_ok rnd capacity =
     (let chan_capacity = capacity + 1; would_overflow = (chan_capacity = 0)
      in if would_overflow then Panic
         else and_then (create_dispatcher chk build send_ok chan_capacity (limiter_new capacity)) (\<lambda>(chan, dispatcher).
           Ok (\<lparr>tc_channel = chan, tc_generator = tid_generator_new rnd\<rparr>, dispatcher)))"

definition client_drop :: "bool \<Rightarrow> tracker_client \<Rightarrow> (tracker_client, unit) outcome" where
  "client_drop send_ok self =
     (if send_ok then Ok (self\<lparr>tc_channel := tc_channel self @ [ShutdownMessage]\<rparr>) else Panic)"

section \<open>The server\<close>

text \<open>
  The handler is a parameter with a state: for each kind of request what it hands to the callback, if it
  calls it, and its new state.
\<close>

type_synonym 'a server_result = "bytes + 'a"

record 'h server_handler =
  sh_connect :: "'h \<Rightarrow> socket_addr \<Rightarrow> u64 server_result option \<times> 'h"
  sh_announce :: "'h \<Rightarrow> socket_addr \<Rightarrow> u64 \<Rightarrow> announce_request \<Rightarrow> announce_response server_result option \<times> 'h"
  sh_scrape :: "'h \<Rightarrow> socket_addr \<Rightarrow> u64 \<Rightarrow> scrape_request \<Rightarrow> scrape_response server_result option \<times> 'h"

text \<open>The state of the server: its handler and what it sent.\<close>

type_synonym 'h server_st = "'h \<times> (bytes \<times> socket_addr) list"

definition write_response :: "wire \<Rightarrow> tracker_response \<Rightarrow> socket_addr \<Rightarrow> (bytes \<times> socket_addr) list \<Rightarrow> (bytes \<times> socket_addr) list" where
  "write_response w response addr sent =
     (case tracker_response_write_bytes w response (CursorWriter EXPECTED_PACKET_LENGTH []) of
        Ok cursor \<Rightarrow> sent @ [(written cursor, addr)]
      | _ \<Rightarrow> sent)"

definition forward_result ::
    "wire \<Rightarrow> u32 \<Rightarrow> ('a \<Rightarrow> tracker_response_type) \<Rightarrow> socket_addr \<Rightarrow> 'a server_result option \<times> 'h \<Rightarrow> (bytes \<times> socket_addr) list \<Rightarrow> 'h server_st" where
  "forward_result w trans_id to_response addr result sent =
     (case result of
        (None, handler) \<Rightarrow> (handler, sent)
      | (Some (Inr x), handler) \<Rightarrow>
          (handler, write_response w \<lparr>rs_transaction_id = trans_id, rs_type = to_response x\<rparr> addr sent)
      | (Some (Inl err_msg), handler) \<Rightarrow>
          (handler, write_response w \<lparr>rs_transaction_id = trans_id, rs_type = ErrorResponse err_msg\<rparr> addr sent))"

fun server_process_request :: "wire \<Rightarrow> 'h server_handler \<Rightarrow> tracker_request \<Rightarrow> socket_addr \<Rightarrow> 'h server_st \<Rightarrow> 'h server_st" where
  "server_process_request w hs request addr (handler, sent) =
     (let conn_id = rq_connection_id request; trans_id = rq_transaction_id request in
      case rq_type request of
        ConnectRequest \<Rightarrow>
          if conn_id = CONNECT_ID_PROTOCOL_ID
          then forward_result w trans_id ConnectResponse addr (sh_connect hs handler addr) sent
          else (handler, sent)
      | AnnounceRequest req \<Rightarrow>
          forward_result w trans_id AnnounceResponse addr (sh_announce hs handler addr conn_id req) sent
      | ScrapeRequest req \<Rightarrow>
          forward_result w trans_id ScrapeResponse addr (sh_scrape hs handler addr conn_id req) sent)"

definition server_incoming ::
    "wire \<Rightarrow> 'h server_handler \<Rightarrow> bytes \<Rightarrow> socket_addr \<Rightarrow> 'h server_st \<Rightarrow> ('h server_st, unit) outcome" where
  "server_incoming w hs message addr st =
     (case parse_tracker_request w message of
        Done _ req \<Rightarrow> Ok (server_process_request w hs req addr st)
      | Stuck \<Rightarrow> Panic
      | _ \<Rightarrow> Ok st)"

end
