(* ===== verification/Utracker_Props.thy ===== *)
theory Utracker_Props
  imports Utracker_Message
begin

text \<open>
  The message formats of UDP trackers: what is written is read back, what is accepted is what would be
  written, reading ends without a panic, and the packed lists hand out what was put in.
\<close>

section \<open>Writing as one byte string\<close>

definition option_bytes :: "u8 \<Rightarrow> bytes list \<Rightarrow> bytes" where
  "option_bytes byte cs = concat (map (\<lambda>c. byte # of_nat (length c) # c) cs)"

definition options_bytes :: "announce_options \<Rightarrow> bytes" where
  "options_bytes opts = concat (map (\<lambda>e. option_bytes (fst e) (chunks 255 (snd e))) opts)"

definition event_bytes :: "wire \<Rightarrow> announce_event \<Rightarrow> bytes" where
  "event_bytes w e = put_i32 w (as_id e)"

definition state_bytes :: "wire \<Rightarrow> client_state \<Rightarrow> bytes" where
  "state_bytes w s = put_i64 w (cs_downloaded s) @ put_i64 w (cs_left s) @ put_i64 w (cs_uploaded s) @ event_bytes w (cs_event s)"

fun source_bytes :: "source_ip \<Rightarrow> bytes" where
  "source_bytes ImpliedV4 = IMPLIED_IPV4_ID"
| "source_bytes ImpliedV6 = IMPLIED_IPV6_ID"
| "source_bytes (ExplicitV4 a) = ipv4_to_bytes_be a"
| "source_bytes (ExplicitV6 a) = ipv6_to_bytes_be a"

definition desired_bytes :: "wire \<Rightarrow> desired_peers \<Rightarrow> bytes" where
  "desired_bytes w d = put_i32 w (case d of DefaultPeers \<Rightarrow> DEFAULT_NUM_WANT | Specified n \<Rightarrow> n)"

fun peers_bytes :: "compact_peers \<Rightarrow> bytes" where
  "peers_bytes (PeersV4 bs) = bs"
| "peers_bytes (PeersV6 bs) = bs"

definition announce_head :: "wire \<Rightarrow> announce_request \<Rightarrow> bytes" where
  "announce_head w r = sha_bytes (ar_info_hash r) @ sha_bytes (ar_peer_id r) @ state_bytes w (ar_state r) @
     source_bytes (ar_ip r) @ put_u32 w (ar_key r) @ desired_bytes w (ar_num_want r) @ put_u16 w (ar_port r)"

definition announce_response_bytes :: "wire \<Rightarrow> announce_response \<Rightarrow> bytes" where
  "announce_response_bytes w r = put_i32 w (as_interval r) @ put_i32 w (as_leechers r) @ put_i32 w (as_seeders r) @
     peers_bytes (as_peers r)"

fun response_bytes :: "wire \<Rightarrow> u32 \<Rightarrow> tracker_response_type \<Rightarrow> bytes" where
  "response_bytes w t (ConnectResponse c) = put_u32 w CONNECT_ACTION_ID @ put_u32 w t @ put_u64 w c"
| "response_bytes w t (AnnounceResponse a) =
     put_u32 w (case as_peers a of PeersV4 _ \<Rightarrow> ANNOUNCE_IPV4_ACTION_ID | PeersV6 _ \<Rightarrow> ANNOUNCE_IPV6_ACTION_ID) @
     put_u32 w t @ announce_response_bytes w a"
| "response_bytes w t (ScrapeResponse s) = put_u32 w SCRAPE_ACTION_ID @ put_u32 w t @ s"
| "response_bytes w t (ErrorResponse e) = put_u32 w ERROR_ACTION_ID @ put_u32 w t @ e"

lemma write_chunks_eq: "write_chunks byte cs wr = write_all (option_bytes byte cs) wr"
proof (induction cs arbitrary: wr)
  case (Cons c cs)
  have "write_chunks byte cs = write_all (option_bytes byte cs)" using Cons.IH by (rule ext)
  then show ?case by (simp add: write_simps option_bytes_def)
qed (simp add: option_bytes_def)

lemma write_options_eq: "write_options es wr = write_all (options_bytes es) wr"
proof (induction es arbitrary: wr)
  case (Cons e es)
  have "write_options es = write_all (options_bytes es)" using Cons.IH by (rule ext)
  then show ?case by (simp add: write_simps write_chunks_eq options_bytes_def)
qed (simp add: options_bytes_def)

lemma component_write:
  "event_write_bytes w e wr = write_all (event_bytes w e) wr"
  "state_write_bytes w s wr = write_all (state_bytes w s) wr"
  "source_write_bytes ip wr = write_all (source_bytes ip) wr"
  "desired_write_bytes w d wr = write_all (desired_bytes w d) wr"
  "peers_write_bytes p wr = write_all (peers_bytes p) wr"
  "error_write_bytes m wr = write_all m wr"
  "announce_response_write_bytes w a wr = write_all (announce_response_bytes w a) wr"
proof -
  show e: "event_write_bytes w e wr = write_all (event_bytes w e) wr" for e wr
    by (simp add: event_write_bytes_def event_bytes_def)
  show "state_write_bytes w s wr = write_all (state_bytes w s) wr"
    by (simp add: state_write_bytes_def state_bytes_def e write_simps)
  show "source_write_bytes ip wr = write_all (source_bytes ip) wr"
    by (cases ip) simp_all
  show "desired_write_bytes w d wr = write_all (desired_bytes w d) wr"
    by (simp add: desired_write_bytes_def desired_bytes_def)
  show p: "peers_write_bytes p wr = write_all (peers_bytes p) wr" for p wr
    by (cases p) simp_all
  show "error_write_bytes m wr = write_all m wr" by (simp add: error_write_bytes_def)
  show "announce_response_write_bytes w a wr = write_all (announce_response_bytes w a) wr"
    by (simp add: announce_response_write_bytes_def announce_response_bytes_def p write_simps)
qed

lemma component_writes [write_simps]:
  "event_write_bytes w e = write_all (event_bytes w e)"
  "state_write_bytes w s = write_all (state_bytes w s)"
  "source_write_bytes ip = write_all (source_bytes ip)"
  "desired_write_bytes w d = write_all (desired_bytes w d)"
  "peers_write_bytes p = write_all (peers_bytes p)"
  "error_write_bytes m = write_all m"
  "announce_response_write_bytes w a = write_all (announce_response_bytes w a)"
  by (rule ext, rule component_write)+

lemma response_write_eq:
  "tracker_response_write_bytes w rs wr = write_all (response_bytes w (rs_transaction_id rs) (rs_type rs)) wr"
  by (cases "rs_type rs") (simp_all add: tracker_response_write_bytes_def write_simps)

text \<open>Options end with their terminator, or without it where the buffer is full.\<close>

lemma options_write_Ok:
  assumes "options_write_bytes opts wr = Ok wr'"
  shows "\<exists>t. written wr' = written wr @ options_bytes opts @ t \<and> (t = [] \<or> t = [END_OF_OPTIONS_BYTE])"
proof -
  from assms obtain wr1 where "write_all (options_bytes opts) wr = Ok wr1"
    and wr': "wr' = (case write_all [END_OF_OPTIONS_BYTE] wr1 of Ok w \<Rightarrow> w | Err e \<Rightarrow> wr1 | Panic \<Rightarrow> wr1)"
    by (auto simp: options_write_bytes_def write_options_eq)
  then have "written wr1 = written wr @ options_bytes opts" by (simp add: written_write_all)
  with wr' show ?thesis
    by (cases "write_all [END_OF_OPTIONS_BYTE] wr1") (auto dest: written_write_all)
qed

lemma announce_request_write_eq:
  "announce_request_write_bytes w r wr = and_then (write_all (announce_head w r) wr) (options_write_bytes (ar_options r))"
  by (simp add: announce_request_write_bytes_def announce_head_def write_simps)

section \<open>Prefix codes\<close>

text \<open>What the fixed-size parts promise to the messages made of them.\<close>

locale wire_codec =
  fixes put :: "wire \<Rightarrow> 'a \<Rightarrow> bytes"
    and get :: "wire \<Rightarrow> 'a parse"
    and valid :: "'a \<Rightarrow> bool"
  assumes get_put: "wire_ok w \<Longrightarrow> valid x \<Longrightarrow> get w (put w x @ r) = Done r x"
    and get_total: "wire_ok w \<Longrightarrow> get w i \<noteq> Stuck"
begin

lemma put_prefix_free:
  assumes "wire_ok w" and "valid x" and "valid y" and "put w x @ r = put w y @ s"
  shows "x = y \<and> r = s"
proof -
  have "Done r x = get w (put w y @ s)" by (simp add: get_put [OF assms(1,2)] flip: assms(4))
  then show ?thesis by (simp add: get_put [OF assms(1,3)])
qed

lemma then_get:
  assumes "wire_ok w" and "valid x"
  shows "do_parse w (get w) f (put w x @ r) = Done r' y \<longleftrightarrow> f x r = Done r' y"
  using get_put [OF assms] by simp

lemma then_total:
  assumes "wire_ok w" and "\<And>x r. f x r \<noteq> Stuck"
  shows "do_parse w (get w) f i \<noteq> Stuck"
  using get_total [OF assms(1)] assms(2) by (simp add: do_parse_eq_Stuck)

end

interpretation code_u32: wire_codec put_u32 be_u32 "\<lambda>_. True"
  by unfold_locales (auto simp: wire_put dest: reads_not_stuck [OF wire_reads(3)])

interpretation code_u64: wire_codec put_u64 be_u64 "\<lambda>_. True"
  by unfold_locales (auto simp: wire_put dest: reads_not_stuck [OF wire_reads(4)])

interpretation code_u16: wire_codec put_u16 be_u16 "\<lambda>_. True"
  by unfold_locales (auto simp: wire_put dest: reads_not_stuck [OF wire_reads(2)])

interpretation code_i32: wire_codec put_i32 be_i32 "\<lambda>_. True"
  by unfold_locales (auto simp: wire_put dest: reads_not_stuck [OF wire_reads(5)])

interpretation code_i64: wire_codec put_i64 be_i64 "\<lambda>_. True"
  by unfold_locales (auto simp: wire_put dest: reads_not_stuck [OF wire_reads(6)])

interpretation event: wire_codec event_bytes parse_event "\<lambda>_. True"
proof
  fix w and e :: announce_event and r i
  assume w: "wire_ok w"
  show "parse_event w (event_bytes w e @ r) = Done r e"
    by (cases e) (simp_all add: parse_event_def event_bytes_def wire_put [OF w])
  show "parse_event w i \<noteq> Stuck"
    unfolding parse_event_def by (rule code_i32.then_total [OF w]) simp
qed

interpretation state: wire_codec state_bytes parse_state "\<lambda>_. True"
proof
  fix w and s :: client_state and r i
  assume w: "wire_ok w"
  show "parse_state w (state_bytes w s @ r) = Done r s"
    by (simp add: parse_state_def state_bytes_def wire_put [OF w] event.get_put [OF w])
  show "parse_state w i \<noteq> Stuck"
    unfolding parse_state_def by (intro code_i64.then_total [OF w] event.then_total [OF w]) simp
qed

interpretation desired: wire_codec desired_bytes parse_desired "\<lambda>d. d \<noteq> Specified DEFAULT_NUM_WANT"
proof
  fix w and d :: desired_peers and r i
  assume w: "wire_ok w"
  show "parse_desired w (desired_bytes w d @ r) = Done r d" if "d \<noteq> Specified DEFAULT_NUM_WANT"
    using that by (cases d) (simp_all add: parse_desired_def desired_bytes_def wire_put [OF w])
  show "parse_desired w i \<noteq> Stuck"
    unfolding parse_desired_def by (rule code_i32.then_total [OF w]) simp
qed

lemma preference_total:
  assumes w: "wire_ok w"
  shows "parse_preference_v4 w i \<noteq> Stuck" "parse_preference_v6 w i \<noteq> Stuck"
  using wire_tag_not_stuck [OF w] count_fixed_not_stuck [of "be_u8 w", OF reads_not_stuck [OF wire_reads(1) [OF w]]]
  by (simp_all add: parse_preference_v4_def parse_preference_v6_def alt_p_eq_Stuck)

interpretation source_v4: wire_codec "\<lambda>w. source_bytes" parse_preference_v4
  "\<lambda>ip. ip = ImpliedV4 \<or> (\<exists>a. ip = ExplicitV4 a \<and> octets a \<noteq> IMPLIED_IPV4_ID)"
proof
  fix w and ip :: source_ip and r i
  assume w: "wire_ok w"
  show "parse_preference_v4 w i \<noteq> Stuck" by (rule preference_total [OF w])
  show "parse_preference_v4 w (source_bytes ip @ r) = Done r ip"
    if "ip = ImpliedV4 \<or> (\<exists>a. ip = ExplicitV4 a \<and> octets a \<noteq> IMPLIED_IPV4_ID)"
    using that
  proof
    assume "ip = ImpliedV4"
    then show ?thesis by (simp add: parse_preference_v4_def alt_p_eq_Done wire_tag [OF w])
  next
    assume "\<exists>a. ip = ExplicitV4 a \<and> octets a \<noteq> IMPLIED_IPV4_ID"
    then obtain a where a: "ip = ExplicitV4 a" "octets a \<noteq> IMPLIED_IPV4_ID" by blast
    have len: "length (octets a) = 4" by (cases a) simp
    then have "tag_p w IMPLIED_IPV4_ID (octets a @ r) = Error"
      using a(2) by (simp add: wire_tag [OF w] IMPLIED_IPV4_ID_def)
    moreover have "bytes_be_to_ipv4 (octets a) = a"
      by (cases a) (simp add: bytes_be_to_ipv4_def)
    ultimately show ?thesis
      using a(1) count_fixed_bytes [OF w len]
      by (simp add: parse_preference_v4_def alt_p_eq_Done ipv4_to_bytes_be_def)
  qed
qed

interpretation source_v6: wire_codec "\<lambda>w. source_bytes" parse_preference_v6
  "\<lambda>ip. ip = ImpliedV6 \<or> (\<exists>a. ip = ExplicitV6 a \<and> ipv6_to_bytes_be a \<noteq> IMPLIED_IPV6_ID)"
proof
  fix w and ip :: source_ip and r i
  assume w: "wire_ok w"
  show "parse_preference_v6 w i \<noteq> Stuck" by (rule preference_total [OF w])
  show "parse_preference_v6 w (source_bytes ip @ r) = Done r ip"
    if "ip = ImpliedV6 \<or> (\<exists>a. ip = ExplicitV6 a \<and> ipv6_to_bytes_be a \<noteq> IMPLIED_IPV6_ID)"
    using that
  proof
    assume "ip = ImpliedV6"
    then show ?thesis by (simp add: parse_preference_v6_def alt_p_eq_Done wire_tag [OF w])
  next
    assume "\<exists>a. ip = ExplicitV6 a \<and> ipv6_to_bytes_be a \<noteq> IMPLIED_IPV6_ID"
    then obtain a where a: "ip = ExplicitV6 a" "ipv6_to_bytes_be a \<noteq> IMPLIED_IPV6_ID" by blast
    have len: "length (ipv6_to_bytes_be a) = 16" by simp
    then have "tag_p w IMPLIED_IPV6_ID (ipv6_to_bytes_be a @ r) = Error"
      using a(2) by (simp add: wire_tag [OF w] IMPLIED_IPV6_ID_def)
    moreover have "bytes_be_to_ipv6 (ipv6_to_bytes_be a) = a" by simp
    ultimately show ?thesis
      using a(1) count_fixed_bytes [OF w len]
      by (simp add: parse_preference_v6_def alt_p_eq_Done)
  qed
qed

section \<open>Options\<close>

definition option_add :: "u8 \<Rightarrow> bytes \<Rightarrow> announce_options \<Rightarrow> announce_options" where
  "option_add byte c m =
     (case map_of m byte of Some occ \<Rightarrow> snd (hash_insert m byte (occ @ c)) | None \<Rightarrow> snd (hash_insert m byte c))"

lemma map_of_option_add [simp]:
  "map_of (option_add byte c m) =
     (map_of m)(byte \<mapsto> (case map_of m byte of Some occ \<Rightarrow> occ @ c | None \<Rightarrow> c))"
  by (simp add: option_add_def hash_insert_def map_of_filter_key split: option.split)

lemma map_of_option_add_chunks:
  "cs \<noteq> [] \<Longrightarrow> map_of (fold (option_add byte) cs m) =
     (map_of m)(byte \<mapsto> (case map_of m byte of Some occ \<Rightarrow> occ @ concat cs | None \<Rightarrow> concat cs))"
  by (induction cs arbitrary: m rule: list_nonempty_induct) (auto simp: fun_upd_def fun_eq_iff split: option.splits)

lemma end_option_bytes:
  assumes "wire_ok w"
  shows "parse_end_option w [] = Done [] True"
    "parse_end_option w (b # r) = (if b = END_OF_OPTIONS_BYTE then Done r True else Error)"
  using assms by (simp_all add: parse_end_option_def map_p_def alt_p_def wire_eof wire_tag)

lemma no_option_bytes:
  "wire_ok w \<Longrightarrow> parse_no_option w (b # r) = (if b = NO_OPERATION_BYTE then Done r False else Error)"
  by (simp add: parse_no_option_def map_p_def wire_tag)

lemma user_option_bytes:
  assumes "wire_ok w" and "length c \<le> 255"
  shows "parse_user_option w m (byte # of_nat (length c) # c @ r) = Done r (False, option_add byte c m)"
proof -
  have "unat (of_nat (length c) :: u8) = length c" using assms(2) by (simp add: unat_of_nat)
  then show ?thesis
    by (simp add: parse_user_option_def length_bytes_def byte_usize_def option_add_def
      wire_put(1) [OF assms(1)] wire_take [OF assms(1)] split: option.split)
qed

lemma parse_options_end:
  assumes "wire_ok w"
  shows "parse_options w (Suc n) m [] = Done [] m" "parse_options w (Suc n) m (END_OF_OPTIONS_BYTE # r) = Done r m"
  using end_option_bytes [OF assms] by (simp_all add: alt_p_def map_p_def)

lemma parse_options_chunk:
  assumes "wire_ok w" and "length c \<le> 255" and "byte \<noteq> END_OF_OPTIONS_BYTE" and "byte \<noteq> NO_OPERATION_BYTE"
  shows "parse_options w (Suc n) m (byte # of_nat (length c) # c @ r) = parse_options w n (option_add byte c m) r"
  using end_option_bytes [OF assms(1)] no_option_bytes [OF assms(1)] user_option_bytes [OF assms(1,2)] assms(3,4)
  by (simp add: alt_p_def map_p_def)

lemma parse_options_chunks:
  assumes "wire_ok w" and "\<forall>c \<in> set cs. length c \<le> 255" and "byte \<noteq> END_OF_OPTIONS_BYTE" and "byte \<noteq> NO_OPERATION_BYTE"
  shows "parse_options w (length cs + n) m (option_bytes byte cs @ r) = parse_options w n (fold (option_add byte) cs m) r"
  using assms(2)
proof (induction cs arbitrary: m)
  case (Cons c cs)
  have "parse_options w (Suc (length cs + n)) m (byte # of_nat (length c) # c @ option_bytes byte cs @ r) =
      parse_options w (length cs + n) (option_add byte c m) (option_bytes byte cs @ r)"
    using Cons.prems by (intro parse_options_chunk [OF assms(1) _ assms(3,4)]) simp
  with Cons show ?case by (simp add: option_bytes_def del: parse_options.simps)
qed (simp add: option_bytes_def)

text \<open>
  Options that can be written without loss: one entry for every byte, no byte that means something
  else, and no empty content.
\<close>

definition options_wf :: "announce_options \<Rightarrow> bool" where
  "options_wf opts \<longleftrightarrow> distinct (map fst opts) \<and>
     (\<forall>e \<in> set opts. fst e \<noteq> END_OF_OPTIONS_BYTE \<and> fst e \<noteq> NO_OPERATION_BYTE \<and> snd e \<noteq> [])"

definition chunk_count :: "announce_options \<Rightarrow> nat" where
  "chunk_count opts = sum_list (map (\<lambda>e. length (chunks 255 (snd e))) opts)"

lemma chunks_255: "concat (chunks 255 xs) = xs" "\<forall>c \<in> set (chunks 255 xs). length c \<le> 255"
  "xs \<noteq> [] \<Longrightarrow> chunks 255 xs \<noteq> []"
proof -
  have c: "concat (chunks 255 xs) = xs \<and> (\<forall>c \<in> set (chunks 255 xs). length c \<le> 255 \<and> c \<noteq> [])"
    by (rule concat_chunks) simp
  then show "concat (chunks 255 xs) = xs" "\<forall>c \<in> set (chunks 255 xs). length c \<le> 255" by blast+
  show "chunks 255 xs \<noteq> []" if "xs \<noteq> []" using c that by auto
qed

lemma parse_options_all:
  assumes w: "wire_ok w" and "options_wf opts" and "\<forall>e \<in> set opts. map_of m (fst e) = None"
  shows "\<exists>m'. parse_options w (chunk_count opts + n) m (options_bytes opts @ r) = parse_options w n m' r \<and>
    map_of m' = map_of m ++ map_of opts"
  using assms(2,3)
proof (induction opts arbitrary: m)
  case (Cons e opts)
  obtain byte content where e: "e = (byte, content)" by (cases e)
  let ?cs = "chunks 255 content"
  let ?m = "fold (option_add byte) ?cs m"
  have bytes: "byte \<noteq> END_OF_OPTIONS_BYTE" "byte \<noteq> NO_OPERATION_BYTE" and ne: "content \<noteq> []"
    and wf: "options_wf opts" and fresh: "byte \<notin> fst ` set opts" and none: "map_of m byte = None"
    using Cons.prems e by (auto simp: options_wf_def)
  have "parse_options w (length ?cs + (chunk_count opts + n)) m (option_bytes byte ?cs @ (options_bytes opts @ r)) =
      parse_options w (chunk_count opts + n) ?m (options_bytes opts @ r)"
    by (rule parse_options_chunks [OF w chunks_255(2) bytes])
  then have step: "parse_options w (chunk_count (e # opts) + n) m (options_bytes (e # opts) @ r) =
      parse_options w (chunk_count opts + n) ?m (options_bytes opts @ r)"
    by (simp add: e chunk_count_def options_bytes_def add.assoc)
  have m: "map_of ?m = (map_of m)(byte \<mapsto> content)"
    using map_of_option_add_chunks [OF chunks_255(3) [OF ne], of byte m] none by (simp add: chunks_255(1))
  have "\<forall>e \<in> set opts. map_of ?m (fst e) = None"
    using Cons.prems fresh by (auto simp: m)
  from Cons.IH [OF wf this] obtain m' where
    "parse_options w (chunk_count opts + n) ?m (options_bytes opts @ r) = parse_options w n m' r"
    "map_of m' = map_of ?m ++ map_of opts" by blast
  moreover have "map_of ?m ++ map_of opts = map_of m ++ map_of (e # opts)"
    using fresh map_of_eq_None_iff [of opts byte] by (auto simp: m e fun_eq_iff map_add_def split: option.splits)
  ultimately show ?case using step by metis
next
  case Nil
  show ?case by (rule exI [of _ m]) (simp add: chunk_count_def options_bytes_def)
qed

lemma chunk_count_le: "chunk_count opts \<le> length (options_bytes opts)"
proof -
  have "length cs \<le> length (option_bytes byte cs)" for byte cs
    by (induction cs) (simp_all add: option_bytes_def)
  then show ?thesis
    by (induction opts) (simp_all add: chunk_count_def options_bytes_def add_mono)
qed

lemma options_from_bytes_roundtrip:
  assumes w: "wire_ok w" and "options_wf opts" and "t = [] \<or> t = [END_OF_OPTIONS_BYTE]"
  shows "\<exists>m. options_from_bytes w (options_bytes opts @ t) = Done [] m \<and> map_of m = map_of opts"
proof -
  let ?n = "Suc (length (options_bytes opts @ t)) - chunk_count opts"
  have n: "Suc (length (options_bytes opts @ t)) = chunk_count opts + ?n" and "0 < ?n"
    using chunk_count_le [of opts] by simp_all
  then obtain n' where n': "?n = Suc n'" by (metis gr0_conv_Suc)
  from parse_options_all [OF w assms(2), of "[]" ?n t] obtain m where
    "parse_options w (chunk_count opts + ?n) [] (options_bytes opts @ t) = parse_options w (Suc n') m t"
    and m: "map_of m = map_of opts" unfolding n' by auto
  moreover have "parse_options w (Suc n') m t = Done [] m"
    using assms(3) parse_options_end [OF w] by auto
  ultimately show ?thesis using n m by (metis options_from_bytes_def)
qed

lemma user_option_reads:
  assumes w: "wire_ok w" and "parse_user_option w m i = Done r x"
  shows "length r < length i"
proof -
  from assms(2) obtain r1 b r2 n c where 1: "be_u8 w i = Done r1 b" and 2: "be_u8 w r1 = Done r2 n"
    and 3: "take_p w (unat n) r2 = Done r c"
    by (auto simp: parse_user_option_def length_bytes_def byte_usize_def)
  from 1 2 3 show ?thesis
    using reads_Done [OF wire_reads(1) [OF w]] reads_Done [OF wire_reads(7) [OF w]] by auto
qed

lemma parse_options_total:
  assumes w: "wire_ok w"
  shows "length i < n \<Longrightarrow> parse_options w n m i \<noteq> Stuck"
proof (induction n arbitrary: m i)
  case (Suc n)
  let ?alt = "alt_p (map_p (\<lambda>e. (e, m)) (parse_end_option w))
    (alt_p (map_p (\<lambda>e. (e, m)) (parse_no_option w)) (parse_user_option w m))"
  have "be_u8 w i \<noteq> Stuck" "take_p w k i \<noteq> Stuck" for i k
    by (rule reads_not_stuck [OF wire_reads(1) [OF w]], rule reads_not_stuck [OF wire_reads(7) [OF w]])
  then have user: "parse_user_option w m i \<noteq> Stuck" for i
    by (simp add: parse_user_option_def length_bytes_def byte_usize_def do_parse_eq_Stuck)
  have "?alt i \<noteq> Stuck"
    using user wire_tag_not_stuck [OF w]
    by (simp add: alt_p_eq_Stuck parse_no_option_def parse_end_option_def wire_eof [OF w])
  moreover have "length r < length i" if "?alt i = Done r (False, m')" for r m'
  proof (cases i)
    case Nil
    with that show ?thesis by (simp add: alt_p_def map_p_def end_option_bytes [OF w])
  next
    case (Cons b i')
    with that have "parse_user_option w m i = Done r (False, m') \<or> r = i'"
      by (auto simp: alt_p_eq_Done end_option_bytes [OF w] no_option_bytes [OF w] split: if_splits)
    with Cons user_option_reads [OF w, of m i r] show ?thesis by auto
  qed
  ultimately show ?case
    using Suc.IH Suc.prems by (auto split: iresult.splits)
qed simp

lemma options_total: "wire_ok w \<Longrightarrow> options_from_bytes w i \<noteq> Stuck"
  unfolding options_from_bytes_def by (rule parse_options_total) simp_all

section \<open>Requests\<close>

fun source_wf :: "source_ip \<Rightarrow> bool" where
  "source_wf (ExplicitV4 a) = (octets a \<noteq> IMPLIED_IPV4_ID)"
| "source_wf (ExplicitV6 a) = (ipv6_to_bytes_be a \<noteq> IMPLIED_IPV6_ID)"
| "source_wf _ = True"

definition announce_request_wf :: "announce_request \<Rightarrow> bool" where
  "announce_request_wf r \<longleftrightarrow> length (sha_bytes (ar_info_hash r)) = SHA_HASH_LEN \<and>
     length (sha_bytes (ar_peer_id r)) = SHA_HASH_LEN \<and> source_wf (ar_ip r) \<and>
     ar_num_want r \<noteq> Specified DEFAULT_NUM_WANT \<and> options_wf (ar_options r)"

definition request_wf :: "tracker_request \<Rightarrow> bool" where
  "request_wf rq \<longleftrightarrow>
     (case rq_type rq of
        ConnectRequest \<Rightarrow> rq_connection_id rq = CONNECT_ID_PROTOCOL_ID
      | AnnounceRequest r \<Rightarrow> announce_request_wf r
      | ScrapeRequest hashes \<Rightarrow> length hashes mod SHA_HASH_LEN = 0)"

text \<open>The derived equality of requests compares options as maps.\<close>

definition announce_request_eq :: "announce_request \<Rightarrow> announce_request \<Rightarrow> bool" where
  "announce_request_eq a b \<longleftrightarrow>
     a\<lparr>ar_options := []\<rparr> = b\<lparr>ar_options := []\<rparr> \<and> map_of (ar_options a) = map_of (ar_options b)"

fun request_type_eq :: "tracker_request_type \<Rightarrow> tracker_request_type \<Rightarrow> bool" where
  "request_type_eq (AnnounceRequest a) (AnnounceRequest b) = announce_request_eq a b"
| "request_type_eq a b = (a = b)"

lemma parse_announce_request_roundtrip:
  assumes w: "wire_ok w" and wf: "announce_request_wf r" and t: "t = [] \<or> t = [END_OF_OPTIONS_BYTE]"
    and ip: "\<And>i. ip_type (source_bytes (ar_ip r) @ i) = Done i (ar_ip r)"
  shows "\<exists>r'. parse_announce_request w ip_type (announce_head w r @ options_bytes (ar_options r) @ t) = Done [] r' \<and>
    announce_request_eq r' r"
proof -
  from wf have hash: "from_hash (sha_bytes (ar_info_hash r)) = Ok (ar_info_hash r)"
    "from_hash (sha_bytes (ar_peer_id r)) = Ok (ar_peer_id r)"
    and len: "length (sha_bytes (ar_info_hash r)) = SHA_HASH_LEN" "length (sha_bytes (ar_peer_id r)) = SHA_HASH_LEN"
    and num: "ar_num_want r \<noteq> Specified DEFAULT_NUM_WANT" and opts: "options_wf (ar_options r)"
    by (simp_all add: announce_request_wf_def)
  obtain m where m: "options_from_bytes w (options_bytes (ar_options r) @ t) = Done [] m" "map_of m = map_of (ar_options r)"
    using options_from_bytes_roundtrip [OF w opts t] by blast
  have "parse_announce_request w ip_type (announce_head w r @ options_bytes (ar_options r) @ t) = Done [] (r\<lparr>ar_options := m\<rparr>)"
    by (simp add: parse_announce_request_def announce_head_def wire_take [OF w len(1)] wire_take [OF w len(2)] len hash ip m
      wire_put [OF w] state.get_put [OF w] desired.get_put [OF w num])
  with m show ?thesis by (auto simp: announce_request_eq_def)
qed

definition request_head :: "wire \<Rightarrow> tracker_request \<Rightarrow> bytes" where
  "request_head w rq = put_u64 w (rq_connection_id rq) @
     (case rq_type rq of
        ConnectRequest \<Rightarrow> put_u32 w CONNECT_ACTION_ID @ put_u32 w (rq_transaction_id rq)
      | AnnounceRequest r \<Rightarrow>
          put_u32 w (if source_is_ipv4 (ar_ip r) then ANNOUNCE_IPV4_ACTION_ID else ANNOUNCE_IPV6_ACTION_ID) @
          put_u32 w (rq_transaction_id rq) @ announce_head w r
      | ScrapeRequest hashes \<Rightarrow> put_u32 w SCRAPE_ACTION_ID @ put_u32 w (rq_transaction_id rq) @ hashes)"

definition request_options :: "tracker_request \<Rightarrow> writer \<Rightarrow> (writer, io_error_kind) outcome" where
  "request_options rq = (case rq_type rq of AnnounceRequest r \<Rightarrow> options_write_bytes (ar_options r) | _ \<Rightarrow> Ok)"

lemma request_write_eq:
  "tracker_request_write_bytes w rq wr = and_then (write_all (request_head w rq) wr) (request_options rq)"
proof (cases "rq_type rq")
  case (AnnounceRequest r)
  have "announce_request_write_bytes w r =
      (\<lambda>wr. and_then (write_all (announce_head w r) wr) (options_write_bytes (ar_options r)))"
    by (rule ext, rule announce_request_write_eq)
  with AnnounceRequest show ?thesis
    by (simp add: tracker_request_write_bytes_def request_head_def request_options_def Let_def write_simps)
qed (simp_all add: tracker_request_write_bytes_def request_head_def request_options_def write_simps)

lemma parse_scrape_request_all [simp]: "length hs mod SHA_HASH_LEN = 0 \<Longrightarrow> parse_scrape_request hs = Done [] hs"
  by (simp add: parse_scrape_request_def)

lemmas action_ids = CONNECT_ACTION_ID_def ANNOUNCE_IPV4_ACTION_ID_def SCRAPE_ACTION_ID_def
  ANNOUNCE_IPV6_ACTION_ID_def ERROR_ACTION_ID_def

lemma parse_request_head:
  assumes w: "wire_ok w" and wf: "request_wf rq" and t: "t = [] \<or> t = [END_OF_OPTIONS_BYTE]"
  shows "\<exists>rq'. parse_tracker_request w (request_head w rq @
      (case rq_type rq of AnnounceRequest r \<Rightarrow> options_bytes (ar_options r) @ t | _ \<Rightarrow> [])) = Done [] rq' \<and>
    rq_connection_id rq' = rq_connection_id rq \<and> rq_transaction_id rq' = rq_transaction_id rq \<and>
    request_type_eq (rq_type rq') (rq_type rq)"
proof (cases "rq_type rq")
  case ConnectRequest
  have "put_u32 w x = put_u32 w x @ []" for x by simp
  then have "be_u32 w (put_u32 w x) = Done [] x" for x using wire_put(3) [OF w] by metis
  with ConnectRequest wf show ?thesis
    by (simp add: request_head_def request_wf_def parse_tracker_request_def wire_put [OF w] action_ids)
next
  case (ScrapeRequest hashes)
  with wf show ?thesis
    by (simp add: request_head_def request_wf_def parse_tracker_request_def wire_put [OF w] action_ids)
next
  case (AnnounceRequest r)
  then have r: "announce_request_wf r" using wf by (simp add: request_wf_def)
  then have "source_wf (ar_ip r)" by (simp add: announce_request_wf_def)
  define ip_type where "ip_type = (if source_is_ipv4 (ar_ip r) then parse_preference_v4 w else parse_preference_v6 w)"
  have "ip_type (source_bytes (ar_ip r) @ i) = Done i (ar_ip r)" for i
    using \<open>source_wf (ar_ip r)\<close> source_v4.get_put [OF w] source_v6.get_put [OF w]
    by (cases "ar_ip r") (simp_all add: ip_type_def source_is_ipv4_def del: source_bytes.simps)
  from parse_announce_request_roundtrip [OF w r t this] obtain r' where
    r': "parse_announce_request w ip_type (announce_head w r @ options_bytes (ar_options r) @ t) = Done [] r'"
    "announce_request_eq r' r" by blast
  with AnnounceRequest show ?thesis
    by (simp add: request_head_def parse_tracker_request_def wire_put [OF w] action_ids ip_type_def split: if_splits)
qed

lemma request_written:
  assumes w: "wire_ok w" and wf: "request_wf rq" and wr0: "written wr0 = []"
    and wr: "tracker_request_write_bytes w rq wr0 = Ok wr"
  shows "\<exists>rq'. parse_tracker_request w (written wr) = Done [] rq' \<and>
    rq_connection_id rq' = rq_connection_id rq \<and> rq_transaction_id rq' = rq_transaction_id rq \<and>
    request_type_eq (rq_type rq') (rq_type rq)"
proof -
  obtain wr1 where wr1: "write_all (request_head w rq) wr0 = Ok wr1" "request_options rq wr1 = Ok wr"
    using wr by (auto simp: request_write_eq)
  with wr0 have "written wr1 = request_head w rq" using written_write_all by force
  with wr1(2) have "\<exists>t. (t = [] \<or> t = [END_OF_OPTIONS_BYTE]) \<and> written wr = request_head w rq @
      (case rq_type rq of AnnounceRequest r \<Rightarrow> options_bytes (ar_options r) @ t | _ \<Rightarrow> [])"
    by (cases "rq_type rq") (auto simp: request_options_def dest: options_write_Ok)
  then show ?thesis using parse_request_head [OF w wf] by metis
qed

text \<open>C36: Requests survive the wire. A request with one entry per option, options that carry content
  and use no reserved byte, an explicit address that is not all zeros and a number of wanted peers that
  is not the default marker is always written to a vector. Whatever it was written to, a vector or a
  buffer that ended before or after the terminating byte, reading the bytes takes them all and gives an
  equal request.\<close>

theorem tracker_request_roundtrip:
  assumes w: "wire_ok w" and wf: "request_wf rq"
  shows "(\<exists>wr. tracker_request_write_bytes w rq (VecWriter []) = Ok wr) \<and>
    (\<forall>wr0 wr. written wr0 = [] \<and> tracker_request_write_bytes w rq wr0 = Ok wr \<longrightarrow>
       (\<exists>rq'. parse_tracker_request w (written wr) = Done [] rq' \<and>
          rq_connection_id rq' = rq_connection_id rq \<and> rq_transaction_id rq' = rq_transaction_id rq \<and>
          request_type_eq (rq_type rq') (rq_type rq)))"
proof (intro conjI allI impI)
  show "\<exists>wr. tracker_request_write_bytes w rq (VecWriter []) = Ok wr"
    by (cases "rq_type rq")
       (simp_all add: request_write_eq request_options_def options_write_bytes_def write_options_eq)
qed (use request_written [OF w wf] in blast)

definition sample_tracker_announce :: announce_request where
  "sample_tracker_announce = \<lparr>ar_info_hash = ShaHash (replicate 20 7), ar_peer_id = ShaHash (replicate 20 9),
     ar_state = \<lparr>cs_downloaded = 5, cs_left = - 1, cs_uploaded = 2, cs_event = Started\<rparr>,
     ar_ip = ExplicitV4 (Ipv4Addr 127 0 0 1), ar_key = 99, ar_num_want = Specified 30, ar_port = 6881,
     ar_options = [(URL_DATA_BYTE, [47, 97])]\<rparr>"

definition sample_request :: tracker_request where
  "sample_request = \<lparr>rq_connection_id = 77, rq_transaction_id = 5, rq_type = AnnounceRequest sample_tracker_announce\<rparr>"

lemma IMPLIED_IPV4_ID_eq: "IMPLIED_IPV4_ID = [0, 0, 0, 0]"
  by (simp add: IMPLIED_IPV4_ID_def numeral_eq_Suc)

lemma sample_request_wf: "request_wf sample_request"
  by (simp add: request_wf_def sample_request_def sample_tracker_announce_def announce_request_wf_def SHA_HASH_LEN_def
    options_wf_def IMPLIED_IPV4_ID_eq DEFAULT_NUM_WANT_def END_OF_OPTIONS_BYTE_def NO_OPERATION_BYTE_def
    URL_DATA_BYTE_def)

theorem tracker_request_roundtrip_witness:
  "\<exists>wr rq'. tracker_request_write_bytes sample_wire sample_request (VecWriter []) = Ok wr \<and>
     parse_tracker_request sample_wire (written wr) = Done [] rq' \<and>
     rq_connection_id rq' = 77 \<and> request_type_eq (rq_type rq') (AnnounceRequest sample_tracker_announce)"
  using tracker_request_roundtrip [OF sample_wire_ok sample_request_wf]
  by (metis sample_request_def tracker_request.select_convs(1,3) written.simps(1))

section \<open>Responses\<close>

definition response_wf :: "tracker_response \<Rightarrow> bool" where
  "response_wf rs \<longleftrightarrow>
     (case rs_type rs of
        ConnectResponse c \<Rightarrow> True
      | AnnounceResponse a \<Rightarrow> (case as_peers a of
          PeersV4 bs \<Rightarrow> length bs mod SOCKET_ADDR_V4_BYTES = 0 | PeersV6 bs \<Rightarrow> length bs mod SOCKET_ADDR_V6_BYTES = 0)
      | ScrapeResponse s \<Rightarrow> length s mod SCRAPE_STATS_BYTES = 0
      | ErrorResponse e \<Rightarrow> utf8_valid e)"

lemma be_bytes_back:
  fixes i :: bytes
  assumes "8 * k = LENGTH('w)" and "k \<le> length i"
  shows "be_bytes k (unat (be_word (take k i) :: 'w::len word)) @ drop k i = i"
proof -
  have "length (take k i) = k" using assms by simp
  with assms be_bytes_be_word [of "take k i", where ?'w = 'w] show ?thesis by simp
qed

lemma be_put_iff:
  assumes w: "wire_ok w"
  shows "be_u32 w i = Done r x4 \<longleftrightarrow> i = put_u32 w x4 @ r" "be_u64 w i = Done r x8 \<longleftrightarrow> i = put_u64 w x8 @ r"
    "be_i32 w i = Done r x4 \<longleftrightarrow> i = put_i32 w x4 @ r" "be_u16 w i = Done r x2 \<longleftrightarrow> i = put_u16 w x2 @ r"
proof -
  have put: "put_u32 w y = be_bytes 4 (unat y)" "put_u64 w z = be_bytes 8 (unat z)" "put_i32 w y = be_bytes 4 (unat y)"
    "put_u16 w v = be_bytes 2 (unat v)" for y z v
    using w by (simp_all add: wire_ok_def)
  show "be_u32 w i = Done r x4 \<longleftrightarrow> i = put_u32 w x4 @ r"
    using reads_Done [OF wire_reads(3) [OF w]] be_bytes_back [of 4 i, where ?'w = 32] wire_put(3) [OF w] by (auto simp: put)
  show "be_u64 w i = Done r x8 \<longleftrightarrow> i = put_u64 w x8 @ r"
    using reads_Done [OF wire_reads(4) [OF w]] be_bytes_back [of 8 i, where ?'w = 64] wire_put(4) [OF w] by (auto simp: put)
  show "be_i32 w i = Done r x4 \<longleftrightarrow> i = put_i32 w x4 @ r"
    using reads_Done [OF wire_reads(5) [OF w]] be_bytes_back [of 4 i, where ?'w = 32] wire_put(5) [OF w] by (auto simp: put)
  show "be_u16 w i = Done r x2 \<longleftrightarrow> i = put_u16 w x2 @ r"
    using reads_Done [OF wire_reads(2) [OF w]] be_bytes_back [of 2 i, where ?'w = 16] wire_put(2) [OF w] by (auto simp: put)
qed

lemma peers_from_bytes_iff:
  "peers_from_bytes_v4 i = Done r p \<longleftrightarrow> r = [] \<and> p = PeersV4 i \<and> length i mod SOCKET_ADDR_V4_BYTES = 0"
  "peers_from_bytes_v6 i = Done r p \<longleftrightarrow> r = [] \<and> p = PeersV6 i \<and> length i mod SOCKET_ADDR_V6_BYTES = 0"
  by (auto simp: peers_from_bytes_v4_def peers_from_bytes_v6_def parse_peers_v4_def parse_peers_v6_def Let_def)

lemma parse_scrape_response_iff:
  "parse_scrape_response i = Done r x \<longleftrightarrow> r = [] \<and> x = i \<and> length i mod SCRAPE_STATS_BYTES = 0"
  by (auto simp: parse_scrape_response_def Let_def)

lemma error_from_bytes_iff:
  assumes "wire_ok w"
  shows "error_from_bytes w i = Done r x \<longleftrightarrow> r = [] \<and> x = i \<and> utf8_valid i"
  using wire_take_all [OF assms, of i] by (auto simp: error_from_bytes_def take_str_def)

lemma parse_announce_respone_iff:
  assumes "wire_ok w"
  shows "parse_announce_respone w peers_type i = Done r a \<longleftrightarrow>
    (\<exists>i'. i = put_i32 w (as_interval a) @ put_i32 w (as_leechers a) @ put_i32 w (as_seeders a) @ i' \<and>
      peers_type i' = Done r (as_peers a))"
  by (cases a) (simp add: parse_announce_respone_def be_put_iff [OF assms], blast)

lemma put_u32_eq_iff:
  assumes "wire_ok w"
  shows "put_u32 w x @ r = put_u32 w y @ s \<longleftrightarrow> x = y \<and> r = s"
  using code_u32.put_prefix_free [OF assms TrueI TrueI, where x = x and y = y and r = r and s = s] by auto

definition response_body :: "wire \<Rightarrow> u32 \<Rightarrow> tracker_response_type parse" where
  "response_body w action =
     (if action = CONNECT_ACTION_ID then map_p ConnectResponse (be_u64 w)
      else if action = ANNOUNCE_IPV4_ACTION_ID then map_p AnnounceResponse (parse_announce_respone w peers_from_bytes_v4)
      else if action = SCRAPE_ACTION_ID then map_p ScrapeResponse parse_scrape_response
      else if action = ERROR_ACTION_ID then map_p ErrorResponse (error_from_bytes w)
      else if action = ANNOUNCE_IPV6_ACTION_ID then map_p AnnounceResponse (parse_announce_respone w peers_from_bytes_v6)
      else error_p)"

lemma parse_response_head:
  assumes w: "wire_ok w"
  shows "parse_tracker_response w bs = Done r rs \<longleftrightarrow>
    (\<exists>action i. bs = put_u32 w action @ put_u32 w (rs_transaction_id rs) @ i \<and>
       response_body w action i = Done r (rs_type rs))"
proof -
  define body where "body = (\<lambda>(action, tid). map_p (\<lambda>t. \<lparr>rs_transaction_id = tid, rs_type = t\<rparr>) (response_body w action))"
  have eq: "parse_tracker_response w =
      do_parse w (do_parse w (be_u32 w) (\<lambda>action. do_parse w (be_u32 w) (\<lambda>tid. value_p (action, tid)))) body"
    unfolding parse_tracker_response_def
    by (rule arg_cong [where f = "do_parse w _"])
       (auto simp: body_def response_body_def fun_eq_iff map_p_def Let_def split: iresult.splits)
  have body: "body (action, tid) i = Done r rs \<longleftrightarrow> tid = rs_transaction_id rs \<and> response_body w action i = Done r (rs_type rs)"
    for action tid i by (cases rs) (auto simp: body_def)
  show ?thesis
    unfolding eq do_parse_eq_Done be_put_iff [OF w] value_p_simps by (auto simp: body)
qed

lemma response_body_iff:
  assumes w: "wire_ok w"
  shows "response_body w action i = Done r ty \<longleftrightarrow>
    (case ty of
       ConnectResponse c \<Rightarrow> action = CONNECT_ACTION_ID \<and> i = put_u64 w c @ r
     | AnnounceResponse a \<Rightarrow>
         action = (case as_peers a of PeersV4 _ \<Rightarrow> ANNOUNCE_IPV4_ACTION_ID | PeersV6 _ \<Rightarrow> ANNOUNCE_IPV6_ACTION_ID) \<and>
         r = [] \<and> i = announce_response_bytes w a \<and> response_wf \<lparr>rs_transaction_id = 0, rs_type = ty\<rparr>
     | ScrapeResponse s \<Rightarrow> action = SCRAPE_ACTION_ID \<and> r = [] \<and> i = s \<and> length s mod SCRAPE_STATS_BYTES = 0
     | ErrorResponse e \<Rightarrow> action = ERROR_ACTION_ID \<and> r = [] \<and> i = e \<and> utf8_valid e)"
proof (cases ty)
  case (AnnounceResponse a)
  have v4: "parse_announce_respone w peers_from_bytes_v4 i = Done r a \<longleftrightarrow>
      (\<exists>bs. as_peers a = PeersV4 bs \<and> length bs mod SOCKET_ADDR_V4_BYTES = 0) \<and> r = [] \<and> i = announce_response_bytes w a"
    by (auto simp: parse_announce_respone_iff [OF w] peers_from_bytes_iff announce_response_bytes_def)
  have v6: "parse_announce_respone w peers_from_bytes_v6 i = Done r a \<longleftrightarrow>
      (\<exists>bs. as_peers a = PeersV6 bs \<and> length bs mod SOCKET_ADDR_V6_BYTES = 0) \<and> r = [] \<and> i = announce_response_bytes w a"
    by (auto simp: parse_announce_respone_iff [OF w] peers_from_bytes_iff announce_response_bytes_def)
  show ?thesis
    by (cases "as_peers a") (auto simp: AnnounceResponse response_body_def v4 v6 response_wf_def action_ids)
qed (auto simp: response_body_def be_put_iff [OF w] parse_scrape_response_iff error_from_bytes_iff [OF w] action_ids)

lemma tracker_response_wf: "wire_ok w \<Longrightarrow> parse_tracker_response w bs = Done r rs \<Longrightarrow> response_wf rs"
  by (cases "rs_type rs") (auto simp: parse_response_head response_body_iff response_wf_def)

lemma response_parsed:
  assumes w: "wire_ok w" and "response_wf rs"
  shows "parse_tracker_response w (response_bytes w (rs_transaction_id rs) (rs_type rs)) = Done [] rs"
  using assms(2) unfolding parse_response_head [OF w] response_body_iff [OF w]
  by (cases "rs_type rs") (auto simp: response_wf_def)

text \<open>C37: The format of responses, exactly. Bytes are read as a response, leaving a rest, if and only if
  they are what is written for the response followed by the rest, the response has whole peer
  addresses, whole statistics and an error text in UTF-8, and nothing is left behind except after
  connection ids.\<close>

theorem tracker_response_format:
  assumes w: "wire_ok w"
  shows "parse_tracker_response w bs = Done r rs \<longleftrightarrow>
    response_wf rs \<and> (\<exists>out. tracker_response_write_bytes w rs (VecWriter []) = Ok (VecWriter out) \<and> bs = out @ r) \<and>
    (r = [] \<or> (\<exists>c. rs_type rs = ConnectResponse c))"
  unfolding parse_response_head [OF w] response_body_iff [OF w] response_write_eq
  by (cases "rs_type rs") (auto simp: response_wf_def)

definition sample_response :: tracker_response where
  "sample_response = \<lparr>rs_transaction_id = 5, rs_type = AnnounceResponse \<lparr>as_interval = 1800, as_leechers = 1,
     as_seeders = 2, as_peers = PeersV4 [127, 0, 0, 1, 26, 225]\<rparr>\<rparr>"

theorem tracker_response_format_witness:
  "\<exists>out. tracker_response_write_bytes sample_wire sample_response (VecWriter []) = Ok (VecWriter out) \<and>
     parse_tracker_response sample_wire out = Done [] sample_response"
proof -
  have "response_wf sample_response"
    by (simp add: response_wf_def sample_response_def SOCKET_ADDR_V4_BYTES_def)
  moreover have "\<exists>out. tracker_response_write_bytes sample_wire sample_response (VecWriter []) = Ok (VecWriter out)"
    by (simp add: response_write_eq)
  ultimately show ?thesis
    using tracker_response_format [OF sample_wire_ok, of _ "[]" sample_response] by fastforce
qed

section \<open>Reading ends without a panic\<close>

lemma reads_total:
  assumes w: "wire_ok w"
  shows "be_u8 w i \<noteq> Stuck" "be_u16 w i \<noteq> Stuck" "be_u32 w i \<noteq> Stuck" "be_u64 w i \<noteq> Stuck"
    "be_i32 w i \<noteq> Stuck" "be_i64 w i \<noteq> Stuck" "take_p w n i \<noteq> Stuck"
  by (rule reads_not_stuck, rule wire_reads, rule w)+

lemma hash_total:
  assumes w: "wire_ok w"
  shows "unwrap_p from_hash (take_p w SHA_HASH_LEN) i \<noteq> Stuck"
  using reads_total(7) [OF w] by (auto simp: unwrap_p_eq_Stuck reads_Done [OF wire_reads(7) [OF w]])

lemma announce_request_total:
  assumes w: "wire_ok w" and "\<And>i. ip_type i \<noteq> Stuck"
  shows "parse_announce_request w ip_type i \<noteq> Stuck"
  using hash_total [OF w] assms(2) reads_total [OF w] state.get_total [OF w] desired.get_total [OF w] options_total [OF w]
  by (simp add: parse_announce_request_def do_parse_eq_Stuck)

lemma request_total:
  assumes w: "wire_ok w"
  shows "parse_tracker_request w bs \<noteq> Stuck"
proof -
  have "parse_scrape_request i \<noteq> Stuck" for i by (simp add: parse_scrape_request_def Let_def)
  then show ?thesis
    using announce_request_total [OF w] preference_total [OF w] reads_total [OF w]
    by (simp add: parse_tracker_request_def do_parse_eq_Stuck Let_def)
qed

lemma response_total:
  assumes w: "wire_ok w"
  shows "parse_tracker_response w bs \<noteq> Stuck"
proof -
  have "parse_scrape_response i \<noteq> Stuck" "peers_from_bytes_v4 i \<noteq> Stuck" "peers_from_bytes_v6 i \<noteq> Stuck"
    "error_from_bytes w i \<noteq> Stuck" for i
    using reads_total(7) [OF w]
    by (simp_all add: parse_scrape_response_def peers_from_bytes_v4_def peers_from_bytes_v6_def parse_peers_v4_def
      parse_peers_v6_def error_from_bytes_def take_str_def do_parse_eq_Stuck Let_def)
  then show ?thesis
    using reads_total [OF w]
    by (simp add: parse_tracker_response_def parse_announce_respone_def do_parse_eq_Stuck Let_def)
qed

text \<open>Whatever bytes arrive, reading a request or a response ends, and does not panic.\<close>

theorem tracker_parsers_total:
  assumes w: "wire_ok w"
  shows "parse_tracker_request w bs \<noteq> Stuck \<and> parse_tracker_response w bs \<noteq> Stuck"
  using request_total [OF w] response_total [OF w] by blast

theorem tracker_parsers_total_witness: "parse_tracker_request sample_wire [0, 0, 0] \<noteq> Stuck"
  using tracker_parsers_total [OF sample_wire_ok] by simp

section \<open>Packed lists\<close>

text \<open>
  What the four packed lists have in common: entries of one size put behind each other, and an iterator
  that reads the entry at its offset.
\<close>

locale packed_items =
  fixes item_size :: nat
    and put :: "'a \<Rightarrow> bytes"
    and get :: "wire \<Rightarrow> bytes \<Rightarrow> 'a"
    and next_item :: "wire \<Rightarrow> bytes \<times> nat \<Rightarrow> ('a option \<times> (bytes \<times> nat), unit) outcome"
    and valid :: "'a \<Rightarrow> bool"
  assumes size_pos: "0 < item_size"
    and length_put: "valid x \<Longrightarrow> length (put x) = item_size"
    and get_put: "wire_ok w \<Longrightarrow> valid x \<Longrightarrow> get w (put x) = x"
    and next_end: "next_item w (bs, length bs) = Ok (None, (bs, length bs))"
    and next_item: "wire_ok w \<Longrightarrow> offset + item_size \<le> length bs \<Longrightarrow>
      next_item w (bs, offset) = Ok (Some (get w (take item_size (drop offset bs))), (bs, offset + item_size))"
begin

lemma length_puts: "\<forall>x \<in> set xs. valid x \<Longrightarrow> length (concat (map put xs)) = length xs * item_size"
  by (induction xs) (simp_all add: length_put)

lemma collect_puts:
  assumes w: "wire_ok w" and "\<forall>x \<in> set xs. valid x"
  shows "length xs < n \<Longrightarrow> collect_iter n (next_item w) (pre @ concat (map put xs), length pre) = Some (Ok xs)"
  using assms(2)
proof (induction xs arbitrary: n pre)
  case Nil
  then show ?case using next_end [of w pre] by (cases n) simp_all
next
  case (Cons x xs)
  then obtain n' where n: "n = Suc n'" "length xs < n'" by (cases n) auto
  have x: "length (put x) = item_size" using Cons.prems by (simp add: length_put)
  have "collect_iter n' (next_item w) ((pre @ put x) @ concat (map put xs), length (pre @ put x)) = Some (Ok xs)"
    by (rule Cons.IH) (use Cons.prems n in auto)
  moreover have "next_item w (pre @ put x @ concat (map put xs), length pre) =
      Ok (Some x, (pre @ put x @ concat (map put xs), length pre + item_size))"
    using next_item [OF w, of "length pre" "pre @ put x @ concat (map put xs)"] Cons.prems x
    by (simp add: get_put [OF w])
  ultimately show ?case by (simp add: n x)
qed

lemma collect_all:
  assumes w: "wire_ok w"
  shows "offset + k * item_size = length bs \<Longrightarrow> k < n \<Longrightarrow>
    collect_iter n (next_item w) (bs, offset) =
      Some (Ok (map (\<lambda>j. get w (take item_size (drop (offset + j * item_size) bs))) [0..<k]))"
proof (induction k arbitrary: n offset)
  case 0
  then show ?case using next_end [of w bs] by (cases n) simp_all
next
  case (Suc k)
  then obtain n' where n: "n = Suc n'" "k < n'" by (cases n) auto
  have "collect_iter n' (next_item w) (bs, offset + item_size) =
      Some (Ok (map (\<lambda>j. get w (take item_size (drop ((offset + item_size) + j * item_size) bs))) [0..<k]))"
    using Suc n by simp
  with Suc.prems show ?case
    by (simp add: n next_item [OF w] upt_conv_Cons map_Suc_upt [symmetric] comp_def add.assoc del: upt_Suc)
qed

end

lemma copy_into_full: "length bs = n \<Longrightarrow> copy_into n bs = bs"
  by (simp add: copy_into_def)

interpretation peers_v4: packed_items SOCKET_ADDR_V4_BYTES sock_v4_to_bytes_be "\<lambda>w. bytes_be_to_sock_v4"
    "\<lambda>w it. Ok (peers_next_v4 it)" "\<lambda>a. True"
  by unfold_locales (auto simp: SOCKET_ADDR_V4_BYTES_def copy_into_full sock_v4_roundtrip)

interpretation peers_v6: packed_items SOCKET_ADDR_V6_BYTES sock_v6_to_bytes_be "\<lambda>w. bytes_be_to_sock_v6"
    "\<lambda>w it. Ok (peers_next_v6 it)" "\<lambda>a. v6_flowinfo a = 0 \<and> v6_scope_id a = 0"
  by unfold_locales (auto simp: SOCKET_ADDR_V6_BYTES_def copy_into_full sock_v6_roundtrip)

interpretation hashes: packed_items SHA_HASH_LEN sha_bytes "\<lambda>w. ShaHash"
    "\<lambda>w. scrape_request_next" "\<lambda>h. length (sha_bytes h) = SHA_HASH_LEN"
  by unfold_locales (auto simp: SHA_HASH_LEN_def slice_range_def)

definition stats_bytes :: "scrape_stats \<Rightarrow> bytes" where
  "stats_bytes st = four_bytes_to_array (st_seeders st) @ four_bytes_to_array (st_downloaded st) @
     four_bytes_to_array (st_leechers st)"

definition stats_of :: "wire \<Rightarrow> bytes \<Rightarrow> scrape_stats" where
  "stats_of w bs = (case parse_stats w bs of Done _ st \<Rightarrow> st | _ \<Rightarrow> \<lparr>st_seeders = 0, st_downloaded = 0, st_leechers = 0\<rparr>)"

lemma four_bytes_eq: "wire_ok w \<Longrightarrow> four_bytes_to_array x = put_i32 w x"
proof -
  assume "wire_ok w"
  have "length (four_bytes_to_array x) = 4" by (simp add: four_bytes_to_array_def Let_def)
  then have "be_bytes 4 (be_value (four_bytes_to_array x)) = four_bytes_to_array x" by simp
  with \<open>wire_ok w\<close> integer_arrays_big_endian [of _ x] show ?thesis by (simp add: wire_ok_def)
qed

lemma parse_stats_bytes: "wire_ok w \<Longrightarrow> parse_stats w (stats_bytes st) = Done [] st"
proof -
  assume w: "wire_ok w"
  have "be_i32 w (put_i32 w x) = Done [] x" for x using wire_put(5) [OF w, of x "[]"] by simp
  then show ?thesis by (simp add: parse_stats_def stats_bytes_def four_bytes_eq [OF w] wire_put [OF w])
qed

lemma parse_stats_total:
  assumes w: "wire_ok w" and "length bs = SCRAPE_STATS_BYTES"
  shows "\<exists>r st. parse_stats w bs = Done r st"
  using assms(2) by (auto simp: parse_stats_def reads_Done [OF wire_reads(5) [OF w]] SCRAPE_STATS_BYTES_def)

interpretation stats: packed_items SCRAPE_STATS_BYTES stats_bytes stats_of scrape_response_next "\<lambda>st. True"
proof
  show "0 < SCRAPE_STATS_BYTES" by (simp add: SCRAPE_STATS_BYTES_def)
  show "length (stats_bytes st) = SCRAPE_STATS_BYTES" for st
    using wire_put_length(4) [OF sample_wire_ok] by (simp add: stats_bytes_def four_bytes_eq [OF sample_wire_ok] SCRAPE_STATS_BYTES_def)
  show "stats_of w (stats_bytes st) = st" if "wire_ok w" for w st
    by (simp add: stats_of_def parse_stats_bytes [OF that])
  show "scrape_response_next w (bs, length bs) = Ok (None, (bs, length bs))" for w bs by simp
  show "scrape_response_next w (bs, offset) =
      Ok (Some (stats_of w (take SCRAPE_STATS_BYTES (drop offset bs))), (bs, offset + SCRAPE_STATS_BYTES))"
    if w: "wire_ok w" and l: "offset + SCRAPE_STATS_BYTES \<le> length bs" for w bs offset
  proof -
    obtain r st where "parse_stats w (take SCRAPE_STATS_BYTES (drop offset bs)) = Done r st"
      using parse_stats_total [OF w, of "take SCRAPE_STATS_BYTES (drop offset bs)"] l by auto
    with l \<open>0 < SCRAPE_STATS_BYTES\<close> show ?thesis by (simp add: slice_range_def stats_of_def)
  qed
qed

lemma collect_peers:
  "collect_iter n (\<lambda>it. Ok (peers_next it)) (IterV4 it) =
     map_option (\<lambda>res. and_then res (\<lambda>xs. Ok (map V4 xs))) (collect_iter n (\<lambda>it. Ok (peers_next_v4 it)) it)"
  "collect_iter n (\<lambda>it. Ok (peers_next it)) (IterV6 it6) =
     map_option (\<lambda>res. and_then res (\<lambda>xs. Ok (map V6 xs))) (collect_iter n (\<lambda>it. Ok (peers_next_v6 it)) it6)"
  by (induction n arbitrary: it it6)
     (auto simp: option.map_comp comp_def and_then_assoc split: prod.splits option.splits simp del: peers_next_v4.simps peers_next_v6.simps)

lemma fold_insert_puts:
  "fold peers_insert_v4 as4 bs = bs @ concat (map sock_v4_to_bytes_be as4)"
  "fold peers_insert_v6 as6 bs = bs @ concat (map sock_v6_to_bytes_be as6)"
  "fold scrape_request_insert hs bs = bs @ concat (map sha_bytes hs)"
  "fold scrape_response_insert sts bs = bs @ concat (map stats_bytes sts)"
proof -
  show "fold peers_insert_v4 as4 bs = bs @ concat (map sock_v4_to_bytes_be as4)"
    by (induction as4 arbitrary: bs) (simp_all add: peers_insert_v4_def)
  show "fold peers_insert_v6 as6 bs = bs @ concat (map sock_v6_to_bytes_be as6)"
    by (induction as6 arbitrary: bs) (simp_all add: peers_insert_v6_def)
  show "fold scrape_request_insert hs bs = bs @ concat (map sha_bytes hs)"
    by (induction hs arbitrary: bs) (simp_all add: scrape_request_insert_def)
  show "fold scrape_response_insert sts bs = bs @ concat (map stats_bytes sts)"
    by (induction sts arbitrary: bs) (simp_all add: scrape_response_insert_def stats_bytes_def)
qed

text \<open>C38: Packed lists hand out what was put in. After inserting addresses, hashes or statistics one
  after the other into an empty list, the list passes its length check, and the iterator yields exactly
  these, in order, and then ends (IPv6 addresses without flow label and scope).\<close>

theorem packed_lists_iterate:
  assumes w: "wire_ok w"
    and as6: "\<forall>a \<in> set as6. v6_flowinfo a = 0 \<and> v6_scope_id a = 0"
    and hs: "\<forall>h \<in> set hs. length (sha_bytes h) = SHA_HASH_LEN"
  shows "parse_peers_v4 (fold peers_insert_v4 as4 []) = Done [] (fold peers_insert_v4 as4 []) \<and>
    collect_iter (Suc (length as4)) (\<lambda>it. Ok (peers_next it)) (peers_iter (PeersV4 (fold peers_insert_v4 as4 []))) =
      Some (Ok (map V4 as4)) \<and>
    parse_peers_v6 (fold peers_insert_v6 as6 []) = Done [] (fold peers_insert_v6 as6 []) \<and>
    collect_iter (Suc (length as6)) (\<lambda>it. Ok (peers_next it)) (peers_iter (PeersV6 (fold peers_insert_v6 as6 []))) =
      Some (Ok (map V6 as6)) \<and>
    parse_scrape_request (fold scrape_request_insert hs []) = Done [] (fold scrape_request_insert hs []) \<and>
    collect_iter (Suc (length hs)) scrape_request_next (fold scrape_request_insert hs [], 0) = Some (Ok hs) \<and>
    parse_scrape_response (fold scrape_response_insert sts []) = Done [] (fold scrape_response_insert sts []) \<and>
    collect_iter (Suc (length sts)) (scrape_response_next w) (fold scrape_response_insert sts [], 0) = Some (Ok sts)"
proof (intro conjI)
  have len: "length (concat (map sock_v4_to_bytes_be as4)) = length as4 * SOCKET_ADDR_V4_BYTES"
    "length (concat (map sock_v6_to_bytes_be as6)) = length as6 * SOCKET_ADDR_V6_BYTES"
    "length (concat (map sha_bytes hs)) = length hs * SHA_HASH_LEN"
    "length (concat (map stats_bytes sts)) = length sts * SCRAPE_STATS_BYTES"
    using peers_v4.length_puts [of as4] peers_v6.length_puts [OF as6] hashes.length_puts [OF hs] stats.length_puts [of sts]
    by simp_all
  show "parse_peers_v4 (fold peers_insert_v4 as4 []) = Done [] (fold peers_insert_v4 as4 [])"
    using len by (simp add: parse_peers_v4_def fold_insert_puts)
  show "parse_peers_v6 (fold peers_insert_v6 as6 []) = Done [] (fold peers_insert_v6 as6 [])"
    using len by (simp add: parse_peers_v6_def fold_insert_puts)
  show "parse_scrape_request (fold scrape_request_insert hs []) = Done [] (fold scrape_request_insert hs [])"
    using len by (simp add: parse_scrape_request_def fold_insert_puts)
  show "parse_scrape_response (fold scrape_response_insert sts []) = Done [] (fold scrape_response_insert sts [])"
    using len by (simp add: parse_scrape_response_def fold_insert_puts)
  show "collect_iter (Suc (length as4)) (\<lambda>it. Ok (peers_next it)) (peers_iter (PeersV4 (fold peers_insert_v4 as4 []))) =
      Some (Ok (map V4 as4))"
    using peers_v4.collect_puts [OF w, of as4 "Suc (length as4)" "[]"]
    by (simp add: fold_insert_puts collect_peers del: collect_iter.simps)
  show "collect_iter (Suc (length as6)) (\<lambda>it. Ok (peers_next it)) (peers_iter (PeersV6 (fold peers_insert_v6 as6 []))) =
      Some (Ok (map V6 as6))"
    using peers_v6.collect_puts [OF w as6, of "Suc (length as6)" "[]"]
    by (simp add: fold_insert_puts collect_peers del: collect_iter.simps)
  show "collect_iter (Suc (length hs)) scrape_request_next (fold scrape_request_insert hs [], 0) = Some (Ok hs)"
    using hashes.collect_puts [OF w hs, of "Suc (length hs)" "[]"] by (simp add: fold_insert_puts del: collect_iter.simps)
  show "collect_iter (Suc (length sts)) (scrape_response_next w) (fold scrape_response_insert sts [], 0) = Some (Ok sts)"
    using stats.collect_puts [OF w, of sts "Suc (length sts)" "[]"] by (simp add: fold_insert_puts del: collect_iter.simps)
qed

theorem packed_lists_iterate_witness:
  "collect_iter (Suc (Suc (Suc 0))) scrape_request_next
     (fold scrape_request_insert [ShaHash (replicate 20 1), ShaHash (replicate 20 2)] [], 0) =
   Some (Ok [ShaHash (replicate 20 1), ShaHash (replicate 20 2)])"
  using packed_lists_iterate [OF sample_wire_ok, of "[]" "[ShaHash (replicate 20 1), ShaHash (replicate 20 2)]" "[]" "[]"]
  by (simp add: SHA_HASH_LEN_def del: collect_iter.simps fold_simps)

section \<open>Option data\<close>

text \<open>What an option type promises to the options it is put into.\<close>

locale announce_option =
  fixes option_byte :: u8
    and option_length :: "'o \<Rightarrow> nat"
    and read_option :: "bytes \<Rightarrow> 'o option"
    and write_option :: "'o \<Rightarrow> bytes \<Rightarrow> (bytes, unit) outcome"
  assumes read_write: "\<exists>bs. write_option x (replicate (option_length x) 0) = Ok bs \<and> length bs = option_length x \<and>
    read_option bs = Some x"
begin

lemma get_insert:
  "\<exists>opts'. options_insert option_byte option_length write_option x opts = Ok opts' \<and>
     options_get option_byte read_option opts' = Some x \<and>
     (\<forall>byte. byte \<noteq> option_byte \<longrightarrow> map_of opts' byte = map_of opts byte)"
  using read_write [of x]
  by (auto simp: options_insert_def insert_bytes_def options_get_def hash_insert_def map_of_filter_key)

end

interpretation url: announce_option URL_DATA_BYTE url_option_length url_read_option url_write_option
  by unfold_locales (simp add: url_write_option_def url_option_length_def url_read_option_def)

lemma options_bytes_nonempty: "options_bytes opts = options_bytes (filter (\<lambda>e. snd e \<noteq> []) opts)"
proof -
  have "option_bytes byte (chunks 255 []) = []" for byte
    using chunks_255(1) [of "[] :: bytes"] concat_chunks [of 255 "[] :: bytes"] by (auto simp: option_bytes_def)
  then show ?thesis by (induction opts) (auto simp: options_bytes_def)
qed

text \<open>The path and query of a tracker URL put into the options are there in the message and are read
  from it, next to the other options, in place of an earlier value. Empty data is lost: the reader
  finds no option.\<close>

theorem url_data_survives:
  assumes w: "wire_ok w" and wf: "options_wf opts"
  shows "\<exists>opts' out m. options_insert URL_DATA_BYTE url_option_length url_write_option data opts = Ok opts' \<and>
    options_get URL_DATA_BYTE url_read_option opts' = Some data \<and>
    options_write_bytes opts' (VecWriter []) = Ok (VecWriter out) \<and>
    options_from_bytes w out = Done [] m \<and>
    options_get URL_DATA_BYTE url_read_option m = (if data = [] then None else Some data) \<and>
    (\<forall>byte. byte \<noteq> URL_DATA_BYTE \<longrightarrow> map_of m byte = map_of opts byte)"
proof -
  let ?rest = "filter (\<lambda>e. fst e \<noteq> URL_DATA_BYTE) opts"
  let ?opts = "(URL_DATA_BYTE, data) # ?rest"
  let ?kept = "(if data = [] then [] else [(URL_DATA_BYTE, data)]) @ ?rest"
  have ins: "options_insert URL_DATA_BYTE url_option_length url_write_option data opts = Ok ?opts"
    by (simp add: options_insert_def url_write_option_def url_option_length_def insert_bytes_def hash_insert_def)
  have "filter (\<lambda>e. snd e \<noteq> []) ?rest = ?rest"
    using wf by (auto simp: options_wf_def filter_id_conv simp del: filter_filter)
  then have "filter (\<lambda>e. snd e \<noteq> []) ?opts = ?kept" by (simp del: filter_filter)
  then have bytes: "options_bytes ?opts = options_bytes ?kept" by (metis options_bytes_nonempty)
  have "options_wf ?kept"
    using wf by (auto simp: options_wf_def distinct_map_filter URL_DATA_BYTE_def END_OF_OPTIONS_BYTE_def NO_OPERATION_BYTE_def)
  from options_from_bytes_roundtrip [OF w this, of "[END_OF_OPTIONS_BYTE]"] obtain m where
    m: "options_from_bytes w (options_bytes ?opts @ [END_OF_OPTIONS_BYTE]) = Done [] m" "map_of m = map_of ?kept"
    unfolding bytes by blast
  have "options_write_bytes ?opts (VecWriter []) = Ok (VecWriter (options_bytes ?opts @ [END_OF_OPTIONS_BYTE]))"
    by (simp add: options_write_bytes_def write_options_eq)
  moreover have "options_get URL_DATA_BYTE url_read_option m = (if data = [] then None else Some data)"
    "\<forall>byte. byte \<noteq> URL_DATA_BYTE \<longrightarrow> map_of m byte = map_of opts byte"
    by (simp_all add: options_get_def url_read_option_def m(2) map_of_filter_key)
  moreover have "options_get URL_DATA_BYTE url_read_option ?opts = Some data"
    by (simp add: options_get_def url_read_option_def)
  ultimately show ?thesis using ins m(1) by blast
qed

theorem url_data_survives_witness:
  "\<exists>opts' out m. options_insert URL_DATA_BYTE url_option_length url_write_option [47] [] = Ok opts' \<and>
    options_write_bytes opts' (VecWriter []) = Ok (VecWriter out) \<and>
    options_from_bytes sample_wire out = Done [] m \<and> options_get URL_DATA_BYTE url_read_option m = Some [47]"
proof -
  have "options_wf []" by (simp add: options_wf_def)
  from url_data_survives [OF sample_wire_ok this, of "[47]"] show ?thesis by fastforce
qed

end
