(* ===== verification/Utracker_Client_Props.thy ===== *)
theory Utracker_Client_Props
  imports Utracker_Client Utracker_Props "HOL-Library.Multiset"
begin

text \<open>
  The tracker client: every request is settled at most once and none is forgotten as long as answers
  come from where the requests went, unanswered requests are given up, and a client and a server
  complete an announcement together.
\<close>

section \<open>Accounting\<close>

definition open_tokens :: "client_st \<Rightarrow> client_token list" where
  "open_tokens st = map fst (cd_active (fst st))"

definition settled_tokens :: "client_st \<Rightarrow> client_token list" where
  "settled_tokens st = map fst (tio_metadata (snd st))"

definition client_ok :: "client_st \<Rightarrow> bool" where
  "client_ok st \<longleftrightarrow> hash_wf (cd_active (fst st)) \<and>
     (\<forall>e \<in> set (cd_active (fst st)). ct_attempt (snd e) \<le> MAXIMUM_REQUEST_RETRANSMIT_ATTEMPTS \<and> ct_timeout_id (snd e) \<noteq> None)"

definition accounts :: "client_token list \<Rightarrow> client_st \<Rightarrow> client_st \<Rightarrow> bool" where
  "accounts new st st' \<longleftrightarrow>
     mset (open_tokens st') + mset (settled_tokens st') = mset (open_tokens st) + mset (settled_tokens st) + mset new \<and>
     rl_active (cd_limiter (fst st')) + of_nat (length (settled_tokens st')) =
       rl_active (cd_limiter (fst st)) + of_nat (length (settled_tokens st)) \<and>
     rl_capacity (cd_limiter (fst st')) = rl_capacity (cd_limiter (fst st)) \<and>
     length (settled_tokens st) \<le> length (settled_tokens st') \<and>
     tio_timers (snd st') = tio_timers (snd st)"

lemma accounts_refl [simp]: "accounts [] st st"
  by (simp add: accounts_def)

lemma accounts_trans: "accounts xs st st' \<Longrightarrow> accounts ys st' st'' \<Longrightarrow> accounts (xs @ ys) st st''"
  by (auto simp: accounts_def)

lemma mset_keys_removed:
  "hash_wf m \<Longrightarrow> map_of m k = Some v \<Longrightarrow>
     add_mset k (image_mset fst {#e \<in># mset m. fst e \<noteq> k#}) = image_mset fst (mset m)"
proof (induction m)
  case (Cons e m)
  show ?case
  proof (cases "fst e = k")
    case True
    with Cons.prems(1) have "k \<notin> fst ` set m" by (simp add: hash_wf_def)
    then have "\<forall>x \<in> set m. fst x \<noteq> k" by force
    then have "{#x \<in># mset m. fst x \<noteq> k#} = mset m" by (simp add: filter_mset_eq_conv)
    with True show ?thesis by simp
  next
    case False
    with Cons have "add_mset k (image_mset fst {#e \<in># mset m. fst e \<noteq> k#}) = image_mset fst (mset m)"
      by (cases e) (simp add: hash_wf_def)
    with False show ?thesis by (simp add: add_mset_commute)
  qed
qed simp

lemma client_ok_removed:
  "client_ok (self, io) \<Longrightarrow> client_ok (self\<lparr>cd_active := filter P (cd_active self)\<rparr>, io')"
  by (auto simp: client_ok_def hash_wf_filter)

lemma client_ok_notify [simp]: "client_ok (notify_client t r st) = client_ok st"
  by (cases st) (simp add: client_ok_def)

lemma accounts_notify:
  assumes "hash_wf (cd_active self)" and "map_of (cd_active self) token = Some ct"
    and "tio_metadata io' = tio_metadata io" and "tio_timers io' = tio_timers io"
  shows "accounts [] (self, io)
    (notify_client token r (self\<lparr>cd_active := filter (\<lambda>e. fst e \<noteq> token) (cd_active self), cd_id_cache := c\<rparr>, io'))"
  using mset_keys_removed [OF assms(1,2)] assms(3,4)
  by (simp add: accounts_def open_tokens_def settled_tokens_def acknowledge_def)

lemma accounts_kept:
  assumes "hash_wf (cd_active self)" and "map_of (cd_active self) token = Some ct"
    and "tio_metadata io' = tio_metadata io" and "tio_timers io' = tio_timers io"
  shows "accounts [] (self, io)
    (self\<lparr>cd_active := (token, ct') # filter (\<lambda>e. fst e \<noteq> token) (cd_active self), cd_id_cache := c\<rparr>, io')"
  using mset_keys_removed [OF assms(1,2)] assms(3,4)
  by (simp add: accounts_def open_tokens_def settled_tokens_def)

lemma current_timeout_cases:
  assumes "ct_attempt ct \<le> MAXIMUM_REQUEST_RETRANSMIT_ATTEMPTS"
  shows "ct_attempt (snd (current_timeout b ct)) \<le> MAXIMUM_REQUEST_RETRANSMIT_ATTEMPTS"
    "ct_addr (snd (current_timeout b ct)) = ct_addr ct" "ct_request (snd (current_timeout b ct)) = ct_request ct"
  using assms by (auto simp: current_timeout_def Let_def)

lemma process_request_sends:
  assumes "map_of (cd_active self) token = Some ct" and "current_timeout b ct = (Some next_timeout, ct')"
    and "cache_get now (ct_addr ct') (cd_id_cache self) = (opt, c)"
    and "resolve_request env (tio_keys io (length (tio_sent io))) (ct_addr ct') opt (ct_request ct') = (cid, ty)"
    and "tracker_request_write_bytes w \<lparr>rq_connection_id = cid, rq_transaction_id = token, rq_type = ty\<rparr>
      (CursorWriter EXPECTED_PACKET_LENGTH []) = Ok wr"
    and "tio_timers io (length (tio_calls io)) = Some timer"
  shows "process_request w env now token b (self, io) =
    Ok (self\<lparr>cd_active := (token, ct'\<lparr>ct_timeout_id := Some timer\<rparr>) # filter (\<lambda>e. fst e \<noteq> token) (cd_active self),
          cd_id_cache := c\<rparr>,
        io\<lparr>tio_sent := tio_sent io @ [(written wr, ct_addr ct')],
          tio_calls := tio_calls io @ [SetTimeout (ConnectTimeout token) next_timeout]\<rparr>)"
  using assms by (simp add: hash_remove_def hash_insert_def Let_def set_timeout_def)

text \<open>Processing a request keeps it, with a timer, or settles it; nothing else changes.\<close>

lemma process_request_step:
  assumes ct: "map_of (cd_active self) token = Some ct"
  shows "process_request w env now token b (self, io) = Panic \<and> tio_timers io (length (tio_calls io)) = None \<or>
    (\<exists>c r. process_request w env now token b (self, io) =
         Ok (notify_client token (Inl r) (self\<lparr>cd_active := filter (\<lambda>e. fst e \<noteq> token) (cd_active self), cd_id_cache := c\<rparr>, io))) \<or>
    (\<exists>c timer io'. process_request w env now token b (self, io) =
         Ok (self\<lparr>cd_active := (token, (snd (current_timeout b ct))\<lparr>ct_timeout_id := Some timer\<rparr>) #
                filter (\<lambda>e. fst e \<noteq> token) (cd_active self), cd_id_cache := c\<rparr>, io') \<and>
       tio_metadata io' = tio_metadata io \<and> tio_timers io' = tio_timers io)"
proof -
  let ?active = "filter (\<lambda>e. fst e \<noteq> token) (cd_active self)"
  obtain nt ct' where cur: "current_timeout b ct = (nt, ct')" by (cases "current_timeout b ct")
  show ?thesis
  proof (cases nt)
    case None
    then have "process_request w env now token b (self, io) =
        Ok (notify_client token (Inl MaxTimeout) (self\<lparr>cd_active := ?active, cd_id_cache := cd_id_cache self\<rparr>, io))"
      using cur ct by (simp add: hash_remove_def)
    then show ?thesis by blast
  next
    case (Some next_timeout)
    obtain opt c where get: "cache_get now (ct_addr ct') (cd_id_cache self) = (opt, c)"
      by (cases "cache_get now (ct_addr ct') (cd_id_cache self)")
    obtain cid ty where res: "resolve_request env (tio_keys io (length (tio_sent io))) (ct_addr ct') opt (ct_request ct') = (cid, ty)"
      by (metis prod.exhaust)
    let ?wr = "tracker_request_write_bytes w \<lparr>rq_connection_id = cid, rq_transaction_id = token, rq_type = ty\<rparr>
      (CursorWriter EXPECTED_PACKET_LENGTH [])"
    show ?thesis
    proof (cases "\<exists>wr. ?wr = Ok wr")
      case False
      then have "process_request w env now token b (self, io) =
          Ok (notify_client token (Inl MaxLength) (self\<lparr>cd_active := ?active, cd_id_cache := c\<rparr>, io))"
        using cur ct Some get res by (cases ?wr) (simp_all add: hash_remove_def Let_def)
      then show ?thesis by blast
    next
      case True
      then obtain wr where wr: "?wr = Ok wr" by blast
      show ?thesis
      proof (cases "tio_timers io (length (tio_calls io))")
        case None
        with cur ct Some get res wr show ?thesis
          by (simp add: hash_remove_def hash_insert_def Let_def set_timeout_def)
      next
        case (Some timer)
        from process_request_sends [OF ct cur [unfolded \<open>nt = Some next_timeout\<close>] get res wr this] cur
        show ?thesis by force
      qed
    qed
  qed
qed

definition timer_ok :: "connect_timer \<Rightarrow> bool" where
  "timer_ok ct \<longleftrightarrow> ct_attempt ct \<le> MAXIMUM_REQUEST_RETRANSMIT_ATTEMPTS \<and> ct_timeout_id ct \<noteq> None"

lemma client_ok_alt: "client_ok st \<longleftrightarrow> hash_wf (cd_active (fst st)) \<and> (\<forall>e \<in> set (cd_active (fst st)). timer_ok (snd e))"
  by (simp add: client_ok_def timer_ok_def)

lemma process_request_accounts:
  assumes wf: "hash_wf (cd_active self)" and rest: "\<forall>e \<in> set (cd_active self). fst e \<noteq> token \<longrightarrow> timer_ok (snd e)"
    and ct: "map_of (cd_active self) token = Some ct" "ct_attempt ct \<le> MAXIMUM_REQUEST_RETRANSMIT_ATTEMPTS"
  shows "process_request w env now token b (self, io) = Panic \<and> tio_timers io (length (tio_calls io)) = None \<or>
    (\<exists>st'. process_request w env now token b (self, io) = Ok st' \<and> client_ok st' \<and> accounts [] (self, io) st')"
proof -
  let ?active = "filter (\<lambda>e. fst e \<noteq> token) (cd_active self)"
  from process_request_step [OF ct(1), where w = w and env = env and now = now and b = b and io = io] show ?thesis
  proof (elim disjE exE conjE)
    fix c r
    assume res: "process_request w env now token b (self, io) =
      Ok (notify_client token (Inl r) (self\<lparr>cd_active := ?active, cd_id_cache := c\<rparr>, io))"
    have "client_ok (notify_client token (Inl r) (self\<lparr>cd_active := ?active, cd_id_cache := c\<rparr>, io))"
      unfolding client_ok_notify using wf rest by (simp add: client_ok_alt hash_wf_filter)
    with res accounts_notify [OF wf ct(1)] show ?thesis by blast
  next
    fix c timer io'
    assume res: "process_request w env now token b (self, io) =
        Ok (self\<lparr>cd_active := (token, (snd (current_timeout b ct))\<lparr>ct_timeout_id := Some timer\<rparr>) # ?active, cd_id_cache := c\<rparr>, io')"
      and io': "tio_metadata io' = tio_metadata io" "tio_timers io' = tio_timers io"
    have "client_ok (self\<lparr>cd_active := (token, (snd (current_timeout b ct))\<lparr>ct_timeout_id := Some timer\<rparr>) # ?active, cd_id_cache := c\<rparr>, io')"
      using wf rest current_timeout_cases(1) [OF ct(2)] unfolding client_ok_alt
      by (auto simp: hash_wf_def distinct_map_filter timer_ok_def)
    with res accounts_kept [OF wf ct(1) io'] show ?thesis by blast
  qed blast
qed

definition client_step :: "client_token list \<Rightarrow> client_st \<Rightarrow> (client_st, unit) outcome \<Rightarrow> bool" where
  "client_step new st res \<longleftrightarrow>
     res = Panic \<and> (\<exists>k. tio_timers (snd st) k = None) \<or> (\<exists>st'. res = Ok st' \<and> client_ok st' \<and> accounts new st st')"

lemma client_step_from:
  assumes "accounts new st st1" and "client_step [] st1 res"
  shows "client_step new st res"
  using assms accounts_trans [OF assms(1), of "[]"] by (auto simp: client_step_def accounts_def)

lemma process_request_ok:
  assumes "client_ok (self, io)"
  shows "client_step [] (self, io) (process_request w env now token b (self, io))"
proof (cases "map_of (cd_active self) token")
  case None
  with assms show ?thesis by (simp add: client_step_def hash_remove_def)
next
  case (Some ct)
  then have "timer_ok ct" using assms map_of_SomeD [OF Some] by (force simp: client_ok_alt)
  then show ?thesis
    using process_request_accounts [OF _ _ Some, where w = w and env = env and now = now and b = b and io = io] assms
    by (auto simp: client_step_def client_ok_alt timer_ok_def)
qed

lemma process_inserted:
  assumes "client_ok (self, io)" and "ct_attempt ct \<le> MAXIMUM_REQUEST_RETRANSMIT_ATTEMPTS"
  shows "client_step [] (self\<lparr>cd_id_cache := c, cd_active := snd (hash_insert (cd_active self) token ct)\<rparr>, io')
    (process_request w env now token b (self\<lparr>cd_id_cache := c, cd_active := snd (hash_insert (cd_active self) token ct)\<rparr>, io'))"
proof -
  have "hash_wf (snd (hash_insert (cd_active self) token ct))"
    using assms(1) by (auto simp: client_ok_def hash_wf_def hash_insert_def distinct_map_filter)
  moreover have "\<forall>e \<in> set (snd (hash_insert (cd_active self) token ct)). fst e \<noteq> token \<longrightarrow> timer_ok (snd e)"
    using assms(1) by (auto simp: client_ok_alt hash_insert_def)
  moreover have "map_of (snd (hash_insert (cd_active self) token ct)) token = Some ct"
    by (simp add: hash_insert_def)
  ultimately show ?thesis
    using process_request_accounts [of "self\<lparr>cd_id_cache := c, cd_active := snd (hash_insert (cd_active self) token ct)\<rparr>",
        where token = token and ct = ct and w = w and env = env and now = now and b = b and io = io'] assms(2)
    by (auto simp: client_step_def)
qed

lemma send_request_ok:
  assumes ok: "client_ok (self, io)" and new: "token \<notin> set (open_tokens (self, io))"
  shows "client_step [token] (self, io) (send_request w env now addr token req (self, io))"
proof -
  have mismatch: "client_step [token] (self, io) (Ok (notify_client token r (self, io)))" for r
    using ok by (simp add: client_step_def accounts_def open_tokens_def settled_tokens_def acknowledge_def client_ok_def)
  let ?st = "(self\<lparr>cd_id_cache := cd_id_cache self,
    cd_active := snd (hash_insert (cd_active self) token (connect_timer_new addr req))\<rparr>, io)"
  have "filter (\<lambda>e. fst e \<noteq> token) (cd_active self) = cd_active self"
    using new by (auto simp: open_tokens_def filter_id_conv)
  then have "accounts [token] (self, io) ?st"
    by (simp add: accounts_def open_tokens_def settled_tokens_def hash_insert_def)
  moreover have "client_step [] ?st (process_request w env now token False ?st)"
    by (rule process_inserted [OF ok]) (simp add: connect_timer_new_def)
  ultimately have "client_step [token] (self, io) (process_request w env now token False ?st)"
    by (rule client_step_from)
  with mismatch show ?thesis
    by (cases addr; cases "ce_bound_addr env") (simp_all del: process_request.simps notify_client.simps)
qed

lemma peers_collected:
  assumes "case p of PeersV4 bs \<Rightarrow> length bs mod SOCKET_ADDR_V4_BYTES = 0 | PeersV6 bs \<Rightarrow> length bs mod SOCKET_ADDR_V6_BYTES = 0"
  shows "\<exists>addrs. collect_iter (Suc (length (case p of PeersV4 bs \<Rightarrow> bs | PeersV6 bs \<Rightarrow> bs)))
    (\<lambda>it. Ok (peers_next it)) (peers_iter p) = Some (Ok addrs)"
proof (cases p)
  case (PeersV4 bs)
  with assms have "0 + length bs div SOCKET_ADDR_V4_BYTES * SOCKET_ADDR_V4_BYTES = length bs" by auto
  from peers_v4.collect_all [OF sample_wire_ok this, of "Suc (length bs)"] PeersV4 show ?thesis
    by (simp add: collect_peers le_imp_less_Suc del: collect_iter.simps)
next
  case (PeersV6 bs)
  with assms have "0 + length bs div SOCKET_ADDR_V6_BYTES * SOCKET_ADDR_V6_BYTES = length bs" by auto
  from peers_v6.collect_all [OF sample_wire_ok this, of "Suc (length bs)"] PeersV6 show ?thesis
    by (simp add: collect_peers le_imp_less_Suc del: collect_iter.simps)
qed

lemma forward_response_notifies:
  assumes "response_wf rs" and "\<forall>c. rs_type rs \<noteq> ConnectResponse c"
  shows "\<exists>r io'. forward_response token req (rs_type rs) (self, io) = Ok (notify_client token r (self, io')) \<and>
    tio_metadata io' = tio_metadata io \<and> tio_timers io' = tio_timers io"
proof (cases "rs_type rs")
  case (AnnounceResponse res)
  then have "case as_peers res of PeersV4 bs \<Rightarrow> length bs mod SOCKET_ADDR_V4_BYTES = 0 |
      PeersV6 bs \<Rightarrow> length bs mod SOCKET_ADDR_V6_BYTES = 0"
    using assms(1) by (simp add: response_wf_def)
  from peers_collected [OF this] obtain addrs where
    "collect_iter (Suc (length (case as_peers res of PeersV4 bs \<Rightarrow> bs | PeersV6 bs \<Rightarrow> bs)))
      (\<lambda>it. Ok (peers_next it)) (peers_iter (as_peers res)) = Some (Ok addrs)" by blast
  with AnnounceResponse show ?thesis
    by (cases req) (force simp del: notify_client.simps collect_iter.simps)+
qed (use assms(2) in \<open>cases req; force simp del: notify_client.simps\<close>)+

text \<open>An answer is genuine when it comes from where the request with its transaction id was sent.\<close>

definition genuine :: "client_st \<Rightarrow> socket_addr \<Rightarrow> tracker_response \<Rightarrow> bool" where
  "genuine st addr rs \<longleftrightarrow>
     (\<forall>ct. map_of (cd_active (fst st)) (rs_transaction_id rs) = Some ct \<longrightarrow> ct_addr ct = addr)"

text \<open>The token that a datagram makes the client lose: one of an open request, sent from elsewhere.\<close>

definition forged_tokens :: "wire \<Rightarrow> bytes \<Rightarrow> socket_addr \<Rightarrow> client_st \<Rightarrow> client_token list" where
  "forged_tokens w bs addr st =
     (case parse_tracker_response w bs of
        Done r rs \<Rightarrow> if genuine st addr rs then [] else [rs_transaction_id rs]
      | _ \<Rightarrow> [])"

lemma recv_response_ok:
  assumes ok: "client_ok (self, io)" and wf: "response_wf rs" and gen: "genuine (self, io) addr rs"
  shows "client_step [] (self, io) (recv_response w env now addr rs (self, io))"
proof (cases "map_of (cd_active self) (rs_transaction_id rs)")
  case None
  with ok show ?thesis by (simp add: client_step_def hash_remove_def)
next
  case (Some ct)
  let ?t = "rs_transaction_id rs"
  let ?active = "filter (\<lambda>e. fst e \<noteq> ?t) (cd_active self)"
  have hwf: "hash_wf (cd_active self)" using ok by (simp add: client_ok_def)
  have "timer_ok ct" using ok map_of_SomeD [OF Some] by (force simp: client_ok_alt)
  then obtain timer where timer: "ct_timeout_id ct = Some timer" and att: "ct_attempt ct \<le> MAXIMUM_REQUEST_RETRANSMIT_ATTEMPTS"
    by (auto simp: timer_ok_def)
  have addr: "ct_addr ct = addr" using gen Some by (simp add: genuine_def)
  show ?thesis
  proof (cases "\<exists>c. rs_type rs = ConnectResponse c")
    case True
    then obtain c where c: "rs_type rs = ConnectResponse c" by blast
    let ?self = "self\<lparr>cd_active := ?active\<rparr>"
    let ?st = "(?self\<lparr>cd_id_cache := cache_put now addr c (cd_id_cache self),
      cd_active := snd (hash_insert (cd_active ?self) ?t ct)\<rparr>, clear_timer timer io)"
    have recv: "recv_response w env now addr rs (self, io) = process_request w env now ?t False ?st"
      using Some timer addr c by (simp add: hash_remove_def Let_def del: process_request.simps)
    have "accounts [] (self, io) (self\<lparr>cd_active := (?t, ct) # ?active, cd_id_cache := cache_put now addr c (cd_id_cache self)\<rparr>, clear_timer timer io)"
      by (rule accounts_kept [OF hwf Some]) (simp_all add: clear_timer_def)
    then have "accounts [] (self, io) ?st"
      by (simp add: hash_insert_def accounts_def open_tokens_def settled_tokens_def)
    moreover have "client_step [] ?st (process_request w env now ?t False ?st)"
      using client_ok_removed [OF ok] by (rule process_inserted [OF _ att])
    ultimately show ?thesis unfolding recv by (rule client_step_from)
  next
    case False
    have recv: "recv_response w env now addr rs (self, io) =
        forward_response ?t (ct_request ct) (rs_type rs) (self\<lparr>cd_active := ?active\<rparr>, clear_timer timer io)"
      using Some timer addr False by (cases "rs_type rs") (simp_all add: hash_remove_def Let_def)
    from forward_response_notifies [OF wf, of ?t "ct_request ct" "self\<lparr>cd_active := ?active\<rparr>" "clear_timer timer io"] False
    obtain r io' where fw: "forward_response ?t (ct_request ct) (rs_type rs) (self\<lparr>cd_active := ?active\<rparr>, clear_timer timer io) =
        Ok (notify_client ?t r (self\<lparr>cd_active := ?active\<rparr>, io'))"
      and io': "tio_metadata io' = tio_metadata io" "tio_timers io' = tio_timers io"
      by (auto simp: clear_timer_def simp del: notify_client.simps)
    have "self\<lparr>cd_active := ?active, cd_id_cache := cd_id_cache self\<rparr> = self\<lparr>cd_active := ?active\<rparr>" by simp
    with accounts_notify [OF hwf Some io', of r "cd_id_cache self"] client_ok_removed [OF ok]
    show ?thesis unfolding recv fw client_step_def by (simp del: notify_client.simps)
  qed
qed

lemma shutdown_loop:
  "fold (\<lambda>i st. notify_client (map fst (cd_active (fst st)) ! i) r st) is (self, io) =
     (self\<lparr>cd_limiter := (acknowledge ^^ length is) (cd_limiter self)\<rparr>,
      io\<lparr>tio_metadata := tio_metadata io @ map (\<lambda>i. (map fst (cd_active self) ! i, r)) is\<rparr>)"
  by (induction "is" arbitrary: self io) (simp_all add: funpow_swap1)

lemma acknowledge_power [simp]:
  "rl_active ((acknowledge ^^ n) l) = rl_active l - of_nat n" "rl_capacity ((acknowledge ^^ n) l) = rl_capacity l"
  by (induction n) (simp_all add: acknowledge_def)

lemma client_shutdown_ok: "client_step [] st (Ok (client_shutdown st))"
proof -
  obtain self io where st: "st = (self, io)" by (cases st)
  have "map (\<lambda>i. map fst (cd_active self) ! i) [0..<length (cd_active self)] = map fst (cd_active self)"
    using map_nth [of "map fst (cd_active self)"] by simp
  then have "settled_tokens (client_shutdown st) = settled_tokens st @ open_tokens st"
    unfolding st client_shutdown.simps shutdown_loop by (simp add: settled_tokens_def open_tokens_def comp_def)
  moreover have "fst (client_shutdown st) =
      self\<lparr>cd_limiter := (acknowledge ^^ length (cd_active self)) (cd_limiter self), cd_active := []\<rparr>"
    "tio_timers (snd (client_shutdown st)) = tio_timers io"
    unfolding st client_shutdown.simps shutdown_loop by simp_all
  ultimately show ?thesis
    by (simp add: client_step_def client_ok_def accounts_def open_tokens_def hash_wf_def st del: client_shutdown.simps)
qed

section \<open>The system of client, channel and dispatcher\<close>

definition channel_tokens :: "tracker_client \<Rightarrow> client_token list" where
  "channel_tokens tc = concat (map (\<lambda>m. case m of RequestMessage _ t _ \<Rightarrow> [t] | _ \<Rightarrow> []) (tc_channel tc))"

text \<open>
  The client asks for requests, which get unused tokens, and is dropped; the dispatcher takes messages
  from the channel, receives datagrams from anywhere, and its timers fire. The lists are those of the
  tokens handed out and of the tokens lost to datagrams from a wrong address.
\<close>

inductive client_system ::
    "wire \<Rightarrow> client_env \<Rightarrow> u64 \<Rightarrow> client_token list \<Rightarrow> client_token list \<Rightarrow> tracker_client \<Rightarrow> client_st \<Rightarrow> bool"
  for w env capacity where
  start: "with_capacity chk build send_ok rnd capacity = Ok (tc, self) \<Longrightarrow> tio_metadata io = [] \<Longrightarrow>
    client_system w env capacity [] [] tc (self, io)"
| ask: "client_system w env capacity ts lost tc (self, io) \<Longrightarrow>
    tracker_client_request True rnd addr req (tc, cd_limiter self) = Ok (Some t, tc', lim) \<Longrightarrow> t \<notin> set ts \<Longrightarrow>
    client_system w env capacity (t # ts) lost tc' (self\<lparr>cd_limiter := lim\<rparr>, io)"
| refuse: "client_system w env capacity ts lost tc (self, io) \<Longrightarrow>
    tracker_client_request True rnd addr req (tc, cd_limiter self) = Ok (None, tc', lim) \<Longrightarrow>
    client_system w env capacity ts lost tc' (self\<lparr>cd_limiter := lim\<rparr>, io)"
| drop: "client_system w env capacity ts lost tc st \<Longrightarrow> client_drop True tc = Ok tc' \<Longrightarrow>
    client_system w env capacity ts lost tc' st"
| take: "client_system w env capacity ts lost tc st \<Longrightarrow> tc_channel tc = m # ms \<Longrightarrow>
    client_notify w env now m st = Ok st' \<Longrightarrow>
    client_system w env capacity ts lost (tc\<lparr>tc_channel := ms\<rparr>) st'"
| receive: "client_system w env capacity ts lost tc st \<Longrightarrow> client_incoming w env now bs addr st = Ok st' \<Longrightarrow>
    client_system w env capacity ts (forged_tokens w bs addr st @ lost) tc st'"
| fire: "client_system w env capacity ts lost tc st \<Longrightarrow> client_timeout w env now timeout st = Ok st' \<Longrightarrow>
    client_system w env capacity ts lost tc st'"

definition system_ok ::
    "u64 \<Rightarrow> client_token list \<Rightarrow> client_token list \<Rightarrow> tracker_client \<Rightarrow> client_st \<Rightarrow> bool" where
  "system_ok capacity ts lost tc st \<longleftrightarrow> client_ok st \<and> distinct ts \<and>
     mset (channel_tokens tc) + mset (open_tokens st) + mset (settled_tokens st) + mset lost = mset ts \<and>
     rl_active (cd_limiter (fst st)) = of_nat (length (channel_tokens tc) + length (open_tokens st) + length lost) \<and>
     rl_capacity (cd_limiter (fst st)) = capacity \<and>
     length (channel_tokens tc) + length (open_tokens st) + length lost \<le> unat capacity"

lemma accounts_lengths:
  assumes "accounts new st st'"
  shows "length (open_tokens st') + length (settled_tokens st') = length (open_tokens st) + length (settled_tokens st) + length new"
proof -
  have "size (mset (open_tokens st') + mset (settled_tokens st')) =
      size (mset (open_tokens st) + mset (settled_tokens st) + mset new)"
    using assms by (simp add: accounts_def)
  then show ?thesis by simp
qed

text \<open>The effect of a callback on the whole system, where it took a message with the tokens \<open>new\<close>.\<close>

lemma system_ok_step:
  assumes sys: "system_ok capacity ts lost tc st" and acc: "accounts new st st'" and "client_ok st'"
    and taken: "channel_tokens tc = new @ channel_tokens tc'"
  shows "system_ok capacity ts lost tc' st'"
proof -
  have len: "length (open_tokens st') + length (settled_tokens st') = length (open_tokens st) + length (settled_tokens st) + length new"
    by (rule accounts_lengths [OF acc])
  have "rl_active (cd_limiter (fst st')) = of_nat (length (channel_tokens tc') + length (open_tokens st') + length lost)"
  proof -
    have "rl_active (cd_limiter (fst st')) + of_nat (length (settled_tokens st')) =
        of_nat (length (channel_tokens tc) + length (open_tokens st) + length lost + length (settled_tokens st))"
      using sys acc by (simp add: system_ok_def accounts_def)
    also have "length (channel_tokens tc) + length (open_tokens st) + length lost + length (settled_tokens st) =
        length (channel_tokens tc') + length (open_tokens st') + length lost + length (settled_tokens st')"
      using len taken by simp
    finally show ?thesis by simp
  qed
  moreover have "length (channel_tokens tc') + length (open_tokens st') + length lost \<le> unat capacity"
    using len taken sys acc by (simp add: system_ok_def accounts_def)
  moreover have "mset (channel_tokens tc') + mset (open_tokens st') + mset (settled_tokens st') + mset lost = mset ts"
  proof -
    have "mset (open_tokens st') + mset (settled_tokens st') = mset (open_tokens st) + mset (settled_tokens st) + mset new"
      using acc by (simp only: accounts_def)
    then have "mset (channel_tokens tc') + (mset (open_tokens st') + mset (settled_tokens st')) =
        mset (channel_tokens tc) + mset (open_tokens st) + mset (settled_tokens st)"
      using taken by (simp add: ac_simps)
    with sys show ?thesis by (simp only: system_ok_def add.assoc [symmetric])
  qed
  ultimately show ?thesis using assms by (simp add: system_ok_def accounts_def)
qed

text \<open>A forged answer takes its token away from the open ones and does nothing else.\<close>

lemma client_incoming_forged:
  assumes "parse_tracker_response w bs = Done r rs" and "\<not> genuine (self, io) addr rs"
  shows "client_incoming w env now bs addr (self, io) =
      Ok (self\<lparr>cd_active := filter (\<lambda>e. fst e \<noteq> rs_transaction_id rs) (cd_active self)\<rparr>, io)"
    and "rs_transaction_id rs \<in> set (open_tokens (self, io))"
proof -
  from assms(2) obtain ct where ct: "map_of (cd_active self) (rs_transaction_id rs) = Some ct" "ct_addr ct \<noteq> addr"
    by (auto simp: genuine_def)
  with assms(1) show "client_incoming w env now bs addr (self, io) =
      Ok (self\<lparr>cd_active := filter (\<lambda>e. fst e \<noteq> rs_transaction_id rs) (cd_active self)\<rparr>, io)"
    by (simp add: client_incoming_def hash_remove_def)
  show "rs_transaction_id rs \<in> set (open_tokens (self, io))"
    using map_of_SomeD [OF ct(1)] by (force simp: open_tokens_def)
qed

lemma mset_without:
  "distinct xs \<Longrightarrow> t \<in> set xs \<Longrightarrow> mset xs = add_mset t (mset (filter (\<lambda>x. x \<noteq> t) xs))"
proof (induction xs)
  case (Cons x xs)
  show ?case
  proof (cases "x = t")
    case True
    with Cons.prems(1) have "filter (\<lambda>x. x \<noteq> t) xs = xs" by (auto simp: filter_id_conv)
    with True show ?thesis by simp
  qed (use Cons in auto)
qed simp

lemma system_ok_forged:
  assumes sys: "system_ok capacity ts lost tc (self, io)" and t: "t \<in> set (open_tokens (self, io))"
  shows "system_ok capacity ts (t # lost) tc (self\<lparr>cd_active := filter (\<lambda>e. fst e \<noteq> t) (cd_active self)\<rparr>, io)"
proof -
  let ?st = "(self\<lparr>cd_active := filter (\<lambda>e. fst e \<noteq> t) (cd_active self)\<rparr>, io)"
  have ok: "client_ok (self, io)" using sys by (simp add: system_ok_def)
  then have d: "distinct (open_tokens (self, io))" by (simp add: client_ok_def hash_wf_def open_tokens_def)
  have o: "open_tokens ?st = filter (\<lambda>x. x \<noteq> t) (open_tokens (self, io))"
    by (simp add: open_tokens_def filter_map comp_def)
  have m: "mset (open_tokens (self, io)) = add_mset t (mset (open_tokens ?st))"
    unfolding o using d t by (rule mset_without)
  then have l: "length (open_tokens (self, io)) = Suc (length (open_tokens ?st))" by (metis size_add_mset size_mset)
  have "settled_tokens ?st = settled_tokens (self, io)" by (simp add: settled_tokens_def)
  with sys client_ok_removed [OF ok, of "\<lambda>e. fst e \<noteq> t"] show ?thesis
    by (simp add: system_ok_def m l)
qed

lemma clean_up_ok:
  assumes "client_ok (self, io)"
  shows "client_step [] (self, io) (client_timeout w env now CleanUp (self, io))"
  using assms
  by (cases "tio_timers io (length (tio_calls io))")
     (auto simp: set_timeout_def client_step_def client_ok_def accounts_def open_tokens_def settled_tokens_def)

lemma client_timeout_ok: "client_ok st \<Longrightarrow> client_step [] st (client_timeout w env now timeout st)"
  using process_request_ok clean_up_ok by (cases st; cases timeout) (simp_all del: process_request.simps client_timeout.simps(2))

definition message_tokens :: "dispatch_message \<Rightarrow> client_token list" where
  "message_tokens m = (case m of RequestMessage _ t _ \<Rightarrow> [t] | _ \<Rightarrow> [])"

lemma channel_tokens_Cons: "tc_channel tc = m # ms \<Longrightarrow> channel_tokens tc = message_tokens m @ channel_tokens (tc\<lparr>tc_channel := ms\<rparr>)"
  by (simp add: channel_tokens_def message_tokens_def)

lemma client_notify_ok:
  assumes "client_ok st" and "set (message_tokens m) \<inter> set (open_tokens st) = {}"
  shows "client_step (message_tokens m) st (client_notify w env now m st)"
proof (cases m)
  case (RequestMessage addr t req)
  with assms send_request_ok [of "fst st" "snd st" t] show ?thesis
    by (simp add: message_tokens_def del: send_request.simps)
next
  case StartTimer
  with client_timeout_ok [OF assms(1)] show ?thesis by (simp add: message_tokens_def del: client_timeout.simps)
next
  case ShutdownMessage
  with client_shutdown_ok show ?thesis by (simp add: message_tokens_def del: client_shutdown.simps)
qed

lemma client_incoming_ok:
  assumes w: "wire_ok w" and "client_ok st" and "\<And>r rs. parse_tracker_response w bs = Done r rs \<Longrightarrow> genuine st addr rs"
  shows "client_step [] st (client_incoming w env now bs addr st)"
proof (cases "parse_tracker_response w bs")
  case (Done r rs)
  have "response_wf rs" using Done tracker_response_wf [OF w] by blast
  with Done assms recv_response_ok [of "fst st" "snd st" rs addr w env now] show ?thesis
    by (simp add: client_incoming_def del: recv_response.simps)
next
  case Stuck
  with response_total [OF w] show ?thesis by blast
qed (use assms(2) in \<open>simp_all add: client_incoming_def client_step_def\<close>)

lemma client_step_Ok: "client_step new st (Ok st') \<longleftrightarrow> client_ok st' \<and> accounts new st st'"
  by (simp add: client_step_def)

lemma system_disjoint:
  assumes "system_ok capacity ts lost tc st" and "tc_channel tc = m # ms"
  shows "set (message_tokens m) \<inter> set (open_tokens st) = {}"
proof -
  have "mset (message_tokens m @ channel_tokens (tc\<lparr>tc_channel := ms\<rparr>) @ open_tokens st @ settled_tokens st @ lost) = mset ts" and "distinct ts"
    using assms(1) by (simp_all add: system_ok_def channel_tokens_Cons [OF assms(2)] add.assoc)
  then have "distinct (message_tokens m @ channel_tokens (tc\<lparr>tc_channel := ms\<rparr>) @ open_tokens st @ settled_tokens st @ lost)"
    using mset_eq_imp_distinct_iff by blast
  then show ?thesis by auto
qed

lemma system_ask:
  assumes sys: "system_ok capacity ts lost tc (self, io)"
    and req: "tracker_client_request True rnd addr req (tc, cd_limiter self) = Ok (Some t, tc', lim)" and "t \<notin> set ts"
  shows "system_ok capacity (t # ts) lost tc' (self\<lparr>cd_limiter := lim\<rparr>, io)"
proof -
  let ?n = "length (channel_tokens tc) + length (open_tokens (self, io)) + length lost"
  have lim: "rl_active (cd_limiter self) < rl_capacity (cd_limiter self)"
    "lim = (cd_limiter self)\<lparr>rl_active := rl_active (cd_limiter self) + 1\<rparr>"
    and tc': "channel_tokens tc' = channel_tokens tc @ [t]"
    using req by (auto simp: can_initiate_def Let_def channel_tokens_def split: if_splits option.splits)
  have "?n \<le> unat capacity" "rl_active (cd_limiter self) = of_nat ?n" "rl_capacity (cd_limiter self) = capacity"
    using sys by (simp_all add: system_ok_def)
  moreover have "unat (of_nat m :: u64) = m" if "m \<le> unat capacity" for m
    using that unsigned_less [of capacity, where ?'a = nat] by (simp add: unat_of_nat)
  ultimately have "?n < unat capacity" using lim(1) by (simp add: word_less_nat_alt del: of_nat_add)
  with sys lim tc' \<open>t \<notin> set ts\<close> show ?thesis
    by (simp add: system_ok_def client_ok_def open_tokens_def settled_tokens_def)
qed

lemma client_system_ok:
  assumes "client_system w env capacity ts lost tc st" and w: "wire_ok w"
  shows "system_ok capacity ts lost tc st"
  using assms(1)
proof (induction rule: client_system.induct)
  case (start chk build send_ok rnd tc self io)
  then show ?case
    by (auto simp: with_capacity_def create_dispatcher_def Let_def system_ok_def client_ok_def dispatcher_new_def limiter_new_def
      hash_wf_def open_tokens_def settled_tokens_def channel_tokens_def split: if_splits)
next
  case (ask ts lost tc self io rnd addr req t tc' lim)
  then show ?case using system_ask by blast
next
  case (refuse ts lost tc self io rnd addr req tc' lim)
  then have "tc' = tc" "lim = cd_limiter self"
    by (auto simp: can_initiate_def acknowledge_def Let_def split: if_splits option.splits)
  with refuse show ?case by simp
next
  case (drop ts lost tc st tc')
  then show ?case by (auto simp: client_drop_def system_ok_def channel_tokens_def)
next
  case (take ts lost tc st m ms now st')
  then have "client_step (message_tokens m) st (Ok st')"
    using client_notify_ok [OF _ system_disjoint [OF take.IH take.hyps(2)], where w = w and env = env and now = now]
    by (simp add: system_ok_def)
  then show ?case
    using system_ok_step [OF take.IH _ _ channel_tokens_Cons [OF take.hyps(2)]] by (simp add: client_step_Ok)
next
  case (receive ts lost tc st now bs addr st')
  obtain self io where st: "st = (self, io)" by (cases st)
  show ?case
  proof (cases "forged_tokens w bs addr st = []")
    case True
    then have "\<And>r rs. parse_tracker_response w bs = Done r rs \<Longrightarrow> genuine st addr rs"
      by (auto simp: forged_tokens_def split: if_splits)
    then have "client_step [] st (Ok st')"
      using client_incoming_ok [OF w, of st bs addr env now] receive by (simp add: system_ok_def)
    then show ?thesis using system_ok_step [OF receive.IH, of "[]"] by (simp add: client_step_Ok True)
  next
    case False
    then obtain r rs where rs: "parse_tracker_response w bs = Done r rs" "\<not> genuine (self, io) addr rs"
      and f: "forged_tokens w bs addr st = [rs_transaction_id rs]"
      by (auto simp: forged_tokens_def st split: iresult.splits if_splits)
    from client_incoming_forged [OF rs] receive st f system_ok_forged [of capacity ts lost tc self io]
    show ?thesis by auto
  qed
next
  case (fire ts lost tc st now timeout st')
  then have "client_step [] st (Ok st')"
    using client_timeout_ok [of st w env now timeout] by (simp add: system_ok_def)
  then show ?case using system_ok_step [OF fire.IH, of "[]"] by (simp add: client_step_Ok)
qed

lemma client_incoming_total:
  assumes w: "wire_ok w" and "client_ok st" and timers: "\<forall>k. tio_timers (snd st) k \<noteq> None"
  shows "\<exists>st'. client_incoming w env now bs addr st = Ok st'"
proof (cases "\<forall>r rs. parse_tracker_response w bs = Done r rs \<longrightarrow> genuine st addr rs")
  case True
  then have "client_step [] st (client_incoming w env now bs addr st)"
    by (intro client_incoming_ok [OF w assms(2)]) blast
  with timers show ?thesis unfolding client_step_def by blast
next
  case False
  with client_incoming_forged(1) [of w bs _ _ "fst st" "snd st" addr env now] show ?thesis by auto
qed

section \<open>Properties of the client\<close>

text \<open>C32: No request of the client is forgotten and none is settled twice, as long as the tokens handed out
  differ. However the client, the channel, the network and the timers act, every token is in exactly one
  place: waiting in the channel, open at the dispatcher, settled by one notification, or lost to a
  datagram that carried its transaction id from a wrong address. The limiter counts exactly the waiting,
  the open and the lost ones, never more than its capacity: a lost token is never given back. And while
  the event loop grants timers, no callback panics, whatever datagram arrives.\<close>

theorem tracker_requests_accounted:
  assumes sys: "client_system w env capacity ts lost tc st" and w: "wire_ok w"
  shows "distinct (channel_tokens tc @ open_tokens st @ settled_tokens st @ lost) \<and>
    set (channel_tokens tc @ open_tokens st @ settled_tokens st @ lost) = set ts \<and>
    unat (rl_active (cd_limiter (fst st))) = length (channel_tokens tc) + length (open_tokens st) + length lost \<and>
    rl_active (cd_limiter (fst st)) \<le> capacity \<and>
    ((\<forall>k. tio_timers (snd st) k \<noteq> None) \<longrightarrow>
       (\<forall>now timeout. \<exists>st'. client_timeout w env now timeout st = Ok st') \<and>
       (\<forall>now m ms. tc_channel tc = m # ms \<longrightarrow> (\<exists>st'. client_notify w env now m st = Ok st')) \<and>
       (\<forall>now bs addr. \<exists>st'. client_incoming w env now bs addr st = Ok st'))"
proof -
  have ok: "system_ok capacity ts lost tc st" by (rule client_system_ok [OF sys w])
  then have "client_ok st" by (simp add: system_ok_def)
  have m: "mset (channel_tokens tc @ open_tokens st @ settled_tokens st @ lost) = mset ts" and "distinct ts"
    using ok by (simp_all add: system_ok_def add.assoc)
  then have "distinct (channel_tokens tc @ open_tokens st @ settled_tokens st @ lost)"
    using mset_eq_imp_distinct_iff by blast
  moreover have "set (channel_tokens tc @ open_tokens st @ settled_tokens st @ lost) = set ts"
    using m by (rule mset_eq_setD)
  moreover have n: "unat (rl_active (cd_limiter (fst st))) = length (channel_tokens tc) + length (open_tokens st) + length lost"
    using ok unsigned_less [of capacity, where ?'a = nat]
    by (simp add: system_ok_def unat_of_nat del: of_nat_add)
  moreover have "rl_active (cd_limiter (fst st)) \<le> capacity"
    using ok n by (simp add: system_ok_def word_le_nat_alt)
  moreover have total: "\<exists>st'. res = Ok st'" if "\<forall>k. tio_timers (snd st) k \<noteq> None" "client_step new st res" for new res
    using that unfolding client_step_def by blast
  ultimately show ?thesis
    using client_timeout_ok [OF \<open>client_ok st\<close>] client_notify_ok [OF \<open>client_ok st\<close> system_disjoint [OF ok]]
      client_incoming_total [OF w \<open>client_ok st\<close>]
    by (intro conjI impI allI) blast+
qed

definition sample_client_env :: client_env where
  "sample_client_env = \<lparr>ce_peer_id = ShaHash (replicate 20 1), ce_port = 6881,
     ce_bound_addr = V4 \<lparr>v4_ip = Ipv4Addr 0 0 0 0, v4_port = 6881\<rparr>\<rparr>"

definition sample_tracker :: socket_addr where
  "sample_tracker = V4 \<lparr>v4_ip = Ipv4Addr 10 0 0 1, v4_port = 80\<rparr>"

definition sample_tracker_io :: tracker_io where
  "sample_tracker_io = \<lparr>tio_timers = Some, tio_calls = [], tio_keys = (\<lambda>k. 7), tio_sent = [], tio_connects = [], tio_metadata = []\<rparr>"

lemma tid_generator_ready: "\<exists>t g. tid_generate 2 rnd (tid_generator_new rnd :: u32 tid_generator) = Some (t, g)"
proof -
  have "length (trans_ids (tid_generator_new rnd :: u32 tid_generator)) = TRANSACTION_ID_PREALLOC_LEN"
    by (simp add: tid_generator_new_def generate_tids_block TRANSACTION_ID_PREALLOC_LEN_def)
  moreover have "curr_index (tid_generator_new rnd :: u32 tid_generator) = 0"
    by (simp add: tid_generator_new_def split: prod.split)
  ultimately show ?thesis by (simp add: numeral_2_eq_2 get_slice_def TRANSACTION_ID_PREALLOC_LEN_def)
qed

theorem tracker_requests_accounted_witness:
  "\<exists>t tc st. client_system sample_wire sample_client_env 1 [t] [] tc st \<and>
     set (channel_tokens tc @ open_tokens st @ settled_tokens st) = {t}"
proof -
  obtain tc self where new: "with_capacity True (\<lambda>_ _. True) True (\<lambda>n. n) 1 = Ok (tc, self)"
    and tc: "tc_generator tc = tid_generator_new (\<lambda>n. n)" and self: "cd_limiter self = limiter_new 1"
    by (simp add: with_capacity_def create_dispatcher_def word_add_def dispatcher_new_def)
  have start: "client_system sample_wire sample_client_env 1 [] [] tc (self, sample_tracker_io)"
    by (rule client_system.start [OF new]) (simp add: sample_tracker_io_def)
  obtain t tc' lim where "tracker_client_request True (\<lambda>n. n) sample_tracker (ClientScrape (ShaHash (replicate 20 2)))
      (tc, cd_limiter self) = Ok (Some t, tc', lim)"
    using tid_generator_ready [of "\<lambda>n. n"] by (auto simp: tc self limiter_new_def can_initiate_def)
  from client_system.ask [OF start this]
  have sys: "client_system sample_wire sample_client_env 1 [t] [] tc' (self\<lparr>cd_limiter := lim\<rparr>, sample_tracker_io)" by simp
  from tracker_requests_accounted [OF this sample_wire_ok]
  have "set (channel_tokens tc' @ open_tokens (self\<lparr>cd_limiter := lim\<rparr>, sample_tracker_io) @
    settled_tokens (self\<lparr>cd_limiter := lim\<rparr>, sample_tracker_io)) = set [t]" by simp
  with sys show ?thesis by (metis empty_set list.simps(15))
qed

text \<open>C35: A datagram from another address that carries the transaction id of an open request drops the
  request. Nobody is notified, the limiter keeps counting it, and when its timer fires nothing
  happens.\<close>

theorem foreign_response_loses_request:
  assumes w: "wire_ok w" and ct: "map_of (cd_active self) (rs_transaction_id rs) = Some ct"
    and addr: "addr \<noteq> ct_addr ct" and rs: "parse_tracker_response w bs = Done r rs"
  shows "\<exists>self'. client_incoming w env now bs addr (self, io) = Ok (self', io) \<and>
    rs_transaction_id rs \<notin> set (open_tokens (self', io)) \<and> cd_limiter self' = cd_limiter self \<and>
    client_timeout w env now' (ConnectTimeout (rs_transaction_id rs)) (self', io) = Ok (self', io)"
proof -
  let ?t = "rs_transaction_id rs"
  let ?self = "self\<lparr>cd_active := filter (\<lambda>e. fst e \<noteq> ?t) (cd_active self)\<rparr>"
  have "client_incoming w env now bs addr (self, io) = Ok (?self, io)"
    using ct addr rs by (simp add: client_incoming_def hash_remove_def)
  moreover have "map_of (cd_active ?self) ?t = None" by (simp add: map_of_filter_key)
  then have "client_timeout w env now' (ConnectTimeout ?t) (?self, io) = Ok (?self, io)"
    by (simp add: hash_remove_def)
  moreover have "?t \<notin> set (open_tokens (?self, io))" by (auto simp: open_tokens_def)
  ultimately show ?thesis by (intro exI [of _ ?self]) simp
qed

definition sample_timer :: connect_timer where
  "sample_timer = \<lparr>ct_addr = sample_tracker, ct_attempt = 0, ct_request = ClientScrape (ShaHash (replicate 20 2)),
     ct_timeout_id = Some 3\<rparr>"

definition sample_dispatcher :: client_dispatcher where
  "sample_dispatcher = \<lparr>cd_active = [(5, sample_timer)], cd_id_cache = [], cd_limiter = \<lparr>rl_active = 1, rl_capacity = 1\<rparr>\<rparr>"

theorem foreign_response_loses_request_witness:
  "\<exists>bs self'. client_incoming sample_wire sample_client_env 0 bs (ce_bound_addr sample_client_env)
      (sample_dispatcher, sample_tracker_io) = Ok (self', sample_tracker_io) \<and>
    5 \<notin> set (open_tokens (self', sample_tracker_io)) \<and> cd_limiter self' = \<lparr>rl_active = 1, rl_capacity = 1\<rparr>"
proof -
  define rs where "rs = \<lparr>rs_transaction_id = 5, rs_type = ErrorResponse []\<rparr>"
  have "response_wf rs" by (simp add: rs_def response_wf_def)
  moreover have "map_of (cd_active sample_dispatcher) (rs_transaction_id rs) = Some sample_timer"
    "ce_bound_addr sample_client_env \<noteq> ct_addr sample_timer"
    by (simp_all add: sample_dispatcher_def sample_timer_def rs_def sample_client_env_def sample_tracker_def)
  ultimately show ?thesis
    using foreign_response_loses_request [OF sample_wire_ok, of sample_dispatcher rs sample_timer
      "ce_bound_addr sample_client_env" "response_bytes sample_wire (rs_transaction_id rs) (rs_type rs)" "[]" sample_client_env 0 sample_tracker_io 0]
      response_parsed [OF sample_wire_ok]
    by (force simp: rs_def sample_dispatcher_def simp del: response_bytes.simps)
qed

section \<open>Giving up\<close>

primrec run_timeouts :: "wire \<Rightarrow> client_env \<Rightarrow> client_token \<Rightarrow> int list \<Rightarrow> client_st \<Rightarrow> (client_st, unit) outcome" where
  "run_timeouts w env token [] st = Ok st"
| "run_timeouts w env token (now # nows) st =
     and_then (client_timeout w env now (ConnectTimeout token) st) (run_timeouts w env token nows)"

fun request_hash :: "client_request \<Rightarrow> sha_hash" where
  "request_hash (ClientAnnounce h s) = h"
| "request_hash (ClientScrape h) = h"

lemma resolved_fits:
  assumes w: "wire_ok w" and "length (sha_bytes (request_hash req)) = SHA_HASH_LEN" and "length (sha_bytes (ce_peer_id env)) = SHA_HASH_LEN"
    and "resolve_request env rk addr opt req = (cid, ty)"
  shows "\<exists>wr. tracker_request_write_bytes w \<lparr>rq_connection_id = cid, rq_transaction_id = token, rq_type = ty\<rparr>
    (CursorWriter EXPECTED_PACKET_LENGTH []) = Ok wr"
proof -
  have src: "length (source_bytes (case addr of V4 _ \<Rightarrow> ImpliedV4 | V6 _ \<Rightarrow> ImpliedV6)) \<le> 16"
    by (cases addr) (simp_all add: IMPLIED_IPV4_ID_def IMPLIED_IPV6_ID_def)
  have "length (request_head w \<lparr>rq_connection_id = cid, rq_transaction_id = token, rq_type = ty\<rparr>) \<le> 116"
    using assms src
    by (cases req; cases opt)
       (auto simp: request_head_def announce_head_def state_bytes_def event_bytes_def desired_bytes_def SHA_HASH_LEN_def
         scrape_request_insert_def Let_def split: desired_peers.split)
  moreover have "request_options \<lparr>rq_connection_id = cid, rq_transaction_id = token, rq_type = ty\<rparr> wr =
      Ok (case ty of AnnounceRequest _ \<Rightarrow> (case write_all [END_OF_OPTIONS_BYTE] wr of Ok wr' \<Rightarrow> wr' | _ \<Rightarrow> wr) | _ \<Rightarrow> wr)" for wr
    using assms(4) by (cases req; cases opt) (auto simp: request_options_def options_write_bytes_def Let_def split: outcome.split)
  ultimately show ?thesis by (simp add: request_write_eq EXPECTED_PACKET_LENGTH_def)
qed

lemma retransmit:
  assumes w: "wire_ok w" and ct: "map_of (cd_active self) token = Some ct" "ct_attempt ct < MAXIMUM_REQUEST_RETRANSMIT_ATTEMPTS"
    and hash: "length (sha_bytes (request_hash (ct_request ct))) = SHA_HASH_LEN" "length (sha_bytes (ce_peer_id env)) = SHA_HASH_LEN"
    and timers: "\<forall>k. tio_timers io k \<noteq> None"
  shows "\<exists>self' io' timer bs. client_timeout w env now (ConnectTimeout token) (self, io) = Ok (self', io') \<and>
    map_of (cd_active self') = (map_of (cd_active self))
      (token \<mapsto> ct\<lparr>ct_attempt := Suc (ct_attempt ct), ct_timeout_id := Some timer\<rparr>) \<and>
    tio_sent io' = tio_sent io @ [(bs, ct_addr ct)] \<and> tio_metadata io' = tio_metadata io \<and> tio_timers io' = tio_timers io \<and>
    tio_calls io' = tio_calls io @ [SetTimeout (ConnectTimeout token) (15000 * 2 ^ Suc (ct_attempt ct))]"
proof -
  let ?ct = "ct\<lparr>ct_attempt := Suc (ct_attempt ct)\<rparr>"
  have cur: "current_timeout True ct = (Some (15000 * 2 ^ Suc (ct_attempt ct)), ?ct)"
    using ct(2) by (simp add: current_timeout_def calculate_message_timeout_millis_def)
  obtain opt c where get: "cache_get now (ct_addr ?ct) (cd_id_cache self) = (opt, c)"
    by (cases "cache_get now (ct_addr ?ct) (cd_id_cache self)")
  obtain cid ty where res: "resolve_request env (tio_keys io (length (tio_sent io))) (ct_addr ?ct) opt (ct_request ?ct) = (cid, ty)"
    by (metis prod.exhaust)
  from resolved_fits [OF w _ hash(2) res, of token] hash(1) obtain wr where
    wr: "tracker_request_write_bytes w \<lparr>rq_connection_id = cid, rq_transaction_id = token, rq_type = ty\<rparr>
      (CursorWriter EXPECTED_PACKET_LENGTH []) = Ok wr" by auto
  obtain timer where "tio_timers io (length (tio_calls io)) = Some timer" using timers by blast
  from process_request_sends [OF ct(1) cur get res wr this] show ?thesis
    by (auto simp: map_of_filter_key)
qed

lemma run_timeouts_gives_up:
  assumes w: "wire_ok w" and peer: "length (sha_bytes (ce_peer_id env)) = SHA_HASH_LEN"
  shows "map_of (cd_active self) token = Some ct \<Longrightarrow> ct_attempt ct \<le> MAXIMUM_REQUEST_RETRANSMIT_ATTEMPTS \<Longrightarrow>
    length (sha_bytes (request_hash (ct_request ct))) = SHA_HASH_LEN \<Longrightarrow> \<forall>k. tio_timers io k \<noteq> None \<Longrightarrow>
    length nows = Suc (MAXIMUM_REQUEST_RETRANSMIT_ATTEMPTS - ct_attempt ct) \<Longrightarrow>
    \<exists>self' io'. run_timeouts w env token nows (self, io) = Ok (self', io') \<and>
      map_of (cd_active self') = (map_of (cd_active self))(token := None) \<and>
      tio_metadata io' = tio_metadata io @ [(token, Inl MaxTimeout)] \<and>
      (\<exists>bss. length bss = MAXIMUM_REQUEST_RETRANSMIT_ATTEMPTS - ct_attempt ct \<and>
         tio_sent io' = tio_sent io @ map (\<lambda>bs. (bs, ct_addr ct)) bss) \<and>
      tio_calls io' = tio_calls io @ map (\<lambda>i. SetTimeout (ConnectTimeout token) (15000 * 2 ^ i))
        [Suc (ct_attempt ct)..<Suc MAXIMUM_REQUEST_RETRANSMIT_ATTEMPTS]"
proof (induction nows arbitrary: self io ct)
  case (Cons now nows)
  show ?case
  proof (cases "ct_attempt ct = MAXIMUM_REQUEST_RETRANSMIT_ATTEMPTS")
    case True
    with Cons.prems(1,5) show ?thesis
      by (simp add: hash_remove_def current_timeout_def map_of_filter_key fun_eq_iff)
  next
    case False
    then have lt: "ct_attempt ct < MAXIMUM_REQUEST_RETRANSMIT_ATTEMPTS" using Cons.prems(2) by simp
    from retransmit [OF w Cons.prems(1) lt Cons.prems(3) peer Cons.prems(4), of now] obtain self1 io1 timer bs where
      step: "client_timeout w env now (ConnectTimeout token) (self, io) = Ok (self1, io1)"
      and self1: "map_of (cd_active self1) = (map_of (cd_active self))
        (token \<mapsto> ct\<lparr>ct_attempt := Suc (ct_attempt ct), ct_timeout_id := Some timer\<rparr>)"
      and io1: "tio_sent io1 = tio_sent io @ [(bs, ct_addr ct)]" "tio_metadata io1 = tio_metadata io"
        "tio_timers io1 = tio_timers io"
        "tio_calls io1 = tio_calls io @ [SetTimeout (ConnectTimeout token) (15000 * 2 ^ Suc (ct_attempt ct))]"
      by blast
    let ?ct = "ct\<lparr>ct_attempt := Suc (ct_attempt ct), ct_timeout_id := Some timer\<rparr>"
    have "map_of (cd_active self1) token = Some ?ct" by (simp add: self1)
    moreover have "ct_attempt ?ct \<le> MAXIMUM_REQUEST_RETRANSMIT_ATTEMPTS"
      "length (sha_bytes (request_hash (ct_request ?ct))) = SHA_HASH_LEN" "\<forall>k. tio_timers io1 k \<noteq> None"
      using lt Cons.prems(3,4) io1 by simp_all
    moreover have "length nows = Suc (MAXIMUM_REQUEST_RETRANSMIT_ATTEMPTS - ct_attempt ?ct)"
      using lt Cons.prems(5) by simp
    ultimately obtain self2 io2 bss where
      rest: "run_timeouts w env token nows (self1, io1) = Ok (self2, io2)"
      and "map_of (cd_active self2) = (map_of (cd_active self1))(token := None)"
      and "tio_metadata io2 = tio_metadata io1 @ [(token, Inl MaxTimeout)]"
      and bss: "length bss = MAXIMUM_REQUEST_RETRANSMIT_ATTEMPTS - ct_attempt ?ct"
        "tio_sent io2 = tio_sent io1 @ map (\<lambda>bs. (bs, ct_addr ?ct)) bss"
      and calls: "tio_calls io2 = tio_calls io1 @ map (\<lambda>i. SetTimeout (ConnectTimeout token) (15000 * 2 ^ i))
        [Suc (ct_attempt ?ct)..<Suc MAXIMUM_REQUEST_RETRANSMIT_ATTEMPTS]"
      using Cons.IH [of self1 ?ct io1] by blast
    then have self2: "map_of (cd_active self2) = (map_of (cd_active self))(token := None)"
      and meta: "tio_metadata io2 = tio_metadata io @ [(token, Inl MaxTimeout)]"
      by (simp_all only: self1 fun_upd_upd io1)
    have sent: "tio_sent io2 = tio_sent io @ map (\<lambda>bs. (bs, ct_addr ct)) (bs # bss)" by (simp add: bss(2) io1)
    have "tio_calls io2 = tio_calls io @ map (\<lambda>i. SetTimeout (ConnectTimeout token) (15000 * 2 ^ i))
        [Suc (ct_attempt ct)..<Suc MAXIMUM_REQUEST_RETRANSMIT_ATTEMPTS]"
      using lt by (simp add: calls io1 upt_conv_Cons del: upt_Suc)
    moreover have "length (bs # bss) = MAXIMUM_REQUEST_RETRANSMIT_ATTEMPTS - ct_attempt ct"
      using bss(1) lt by simp
    moreover have "run_timeouts w env token (now # nows) (self, io) = Ok (self2, io2)"
      using step rest by (simp del: client_timeout.simps)
    ultimately show ?thesis using self2 meta sent by blast
  qed
qed simp

text \<open>C34: A request that is never answered is given up. Whatever the clock shows, every time its timer
  fires the dispatcher sends once more to the same tracker and sets a timer twice as long, until after
  eight retransmissions the next timer settles the request with the timeout error and forgets it. The
  other requests are not touched.\<close>

theorem unanswered_request_given_up:
  assumes "wire_ok w" and "length (sha_bytes (ce_peer_id env)) = SHA_HASH_LEN"
    and "map_of (cd_active self) token = Some ct" and "ct_attempt ct \<le> MAXIMUM_REQUEST_RETRANSMIT_ATTEMPTS"
    and "length (sha_bytes (request_hash (ct_request ct))) = SHA_HASH_LEN" and "\<forall>k. tio_timers io k \<noteq> None"
    and "length nows = Suc (MAXIMUM_REQUEST_RETRANSMIT_ATTEMPTS - ct_attempt ct)"
  shows "\<exists>self' io'. run_timeouts w env token nows (self, io) = Ok (self', io') \<and>
    map_of (cd_active self') = (map_of (cd_active self))(token := None) \<and>
    tio_metadata io' = tio_metadata io @ [(token, Inl MaxTimeout)] \<and>
    (\<exists>bss. length bss = MAXIMUM_REQUEST_RETRANSMIT_ATTEMPTS - ct_attempt ct \<and>
       tio_sent io' = tio_sent io @ map (\<lambda>bs. (bs, ct_addr ct)) bss) \<and>
    tio_calls io' = tio_calls io @ map (\<lambda>i. SetTimeout (ConnectTimeout token) (15000 * 2 ^ i))
      [Suc (ct_attempt ct)..<Suc MAXIMUM_REQUEST_RETRANSMIT_ATTEMPTS]"
  by (rule run_timeouts_gives_up [OF assms])

theorem unanswered_request_given_up_witness:
  "\<exists>self' io'. run_timeouts sample_wire sample_client_env 5 [0, 0, 0, 0, 0, 0, 0, 0, 0] (sample_dispatcher, sample_tracker_io) =
     Ok (self', io') \<and> tio_metadata io' = [(5, Inl MaxTimeout)]"
proof -
  have "map_of (cd_active sample_dispatcher) 5 = Some sample_timer" by (simp add: sample_dispatcher_def)
  from unanswered_request_given_up [OF sample_wire_ok _ this, of sample_client_env sample_tracker_io "[0, 0, 0, 0, 0, 0, 0, 0, 0]"]
  show ?thesis
    by (auto simp: sample_client_env_def sample_timer_def sample_tracker_io_def MAXIMUM_REQUEST_RETRANSMIT_ATTEMPTS_def
      SHA_HASH_LEN_def simp del: run_timeouts.simps)
qed

section \<open>A client and a server\<close>

lemma request_read:
  assumes w: "wire_ok w" and wf: "request_wf rq" and "\<And>r. rq_type rq = AnnounceRequest r \<Longrightarrow> ar_options r = []"
    and wr: "tracker_request_write_bytes w rq (CursorWriter n []) = Ok wr"
  shows "parse_tracker_request w (written wr) = Done [] rq"
proof -
  obtain rq' where rq': "parse_tracker_request w (written wr) = Done [] rq'" "rq_connection_id rq' = rq_connection_id rq"
    "rq_transaction_id rq' = rq_transaction_id rq" "request_type_eq (rq_type rq') (rq_type rq)"
    using request_written [OF w wf _ wr] by auto
  have "rq_type rq' = rq_type rq"
  proof (cases "rq_type rq")
    case (AnnounceRequest r)
    then obtain r' where r': "rq_type rq' = AnnounceRequest r'" "announce_request_eq r' r"
      using rq'(4) by (cases "rq_type rq'") auto
    then have "map_of (ar_options r') = map_of []" using assms(3) AnnounceRequest by (simp add: announce_request_eq_def)
    then have "ar_options r' = []" by (metis map_of.simps(1) map_of_eq_empty_iff)
    with r' AnnounceRequest assms(3) show ?thesis by (cases r'; cases r) (simp add: announce_request_eq_def)
  qed (use rq'(4) in \<open>cases "rq_type rq'"; simp\<close>)+
  with rq' show ?thesis by (cases rq; cases rq') simp
qed

text \<open>One message from a client that finds the server, and one answer that finds the client.\<close>

lemma server_answers:
  assumes w: "wire_ok w" and rq: "request_wf rq" "\<And>r. rq_type rq = AnnounceRequest r \<Longrightarrow> ar_options r = []"
    and wr: "tracker_request_write_bytes w rq (CursorWriter EXPECTED_PACKET_LENGTH []) = Ok wr"
    and proc: "server_process_request w hs rq cli (h, []) =
      (h', write_response w \<lparr>rs_transaction_id = t, rs_type = ty\<rparr> cli [])"
    and fits: "length (response_bytes w t ty) \<le> EXPECTED_PACKET_LENGTH"
  shows "server_incoming w hs (written wr) cli (h, []) = Ok (h', [(response_bytes w t ty, cli)])"
proof -
  have "tracker_response_write_bytes w \<lparr>rs_transaction_id = t, rs_type = ty\<rparr> (CursorWriter EXPECTED_PACKET_LENGTH []) =
      Ok (CursorWriter EXPECTED_PACKET_LENGTH (response_bytes w t ty))"
    using fits by (simp add: response_write_eq)
  with proc request_read [OF w rq wr] show ?thesis
    by (simp add: server_incoming_def write_response_def del: server_process_request.simps)
qed

lemma client_receives_id:
  assumes w: "wire_ok w" and ct: "map_of (cd_active self) token = Some ct" "ct_addr ct = srv" "ct_timeout_id ct = Some timer"
  shows "client_incoming w env now (response_bytes w token (ConnectResponse cid)) srv (self, io) =
    process_request w env now token False
      (self\<lparr>cd_id_cache := cache_put now srv cid (cd_id_cache self),
         cd_active := snd (hash_insert (filter (\<lambda>e. fst e \<noteq> token) (cd_active self)) token ct)\<rparr>, clear_timer timer io)"
proof -
  have "response_wf \<lparr>rs_transaction_id = token, rs_type = ConnectResponse cid\<rparr>" by (simp add: response_wf_def)
  from response_parsed [OF w this]
  have "parse_tracker_response w (response_bytes w token (ConnectResponse cid)) =
      Done [] \<lparr>rs_transaction_id = token, rs_type = ConnectResponse cid\<rparr>" by simp
  with ct show ?thesis
    by (simp add: client_incoming_def hash_remove_def Let_def del: process_request.simps response_bytes.simps)
qed

lemma client_receives_peers:
  assumes w: "wire_ok w" and ct: "map_of (cd_active self) token = Some ct" "ct_addr ct = srv" "ct_timeout_id ct = Some timer"
    "ct_request ct = ClientAnnounce hash state"
    and wf: "response_wf \<lparr>rs_transaction_id = token, rs_type = AnnounceResponse res\<rparr>"
    and addrs: "collect_iter (Suc (length (case as_peers res of PeersV4 bs \<Rightarrow> bs | PeersV6 bs \<Rightarrow> bs)))
      (\<lambda>it. Ok (peers_next it)) (peers_iter (as_peers res)) = Some (Ok addrs)"
  shows "client_incoming w env now (response_bytes w token (AnnounceResponse res)) srv (self, io) =
    Ok (notify_client token (Inr (AnnounceResult res)) (self\<lparr>cd_active := filter (\<lambda>e. fst e \<noteq> token) (cd_active self)\<rparr>,
      (clear_timer timer io)\<lparr>tio_connects := tio_connects io @ map (\<lambda>addr. (hash, addr)) addrs\<rparr>))"
proof -
  from response_parsed [OF w wf]
  have "parse_tracker_response w (response_bytes w token (AnnounceResponse res)) =
      Done [] \<lparr>rs_transaction_id = token, rs_type = AnnounceResponse res\<rparr>" by simp
  with ct addrs show ?thesis
    by (simp add: client_incoming_def hash_remove_def Let_def clear_timer_def del: response_bytes.simps notify_client.simps collect_iter.simps)
qed

fun same_family :: "socket_addr \<Rightarrow> socket_addr \<Rightarrow> bool" where
  "same_family (V4 _) (V4 _) = True"
| "same_family (V6 _) (V6 _) = True"
| "same_family _ _ = False"

abbreviation connect_request :: "u32 \<Rightarrow> tracker_request" where
  "connect_request token \<equiv> \<lparr>rq_connection_id = CONNECT_ID_PROTOCOL_ID, rq_transaction_id = token, rq_type = ConnectRequest\<rparr>"

definition announce_of :: "client_env \<Rightarrow> socket_addr \<Rightarrow> sha_hash \<Rightarrow> client_state \<Rightarrow> u32 \<Rightarrow> announce_request" where
  "announce_of env srv hash state rk = \<lparr>ar_info_hash = hash, ar_peer_id = ce_peer_id env, ar_state = state,
     ar_ip = (case srv of V4 _ \<Rightarrow> ImpliedV4 | V6 _ \<Rightarrow> ImpliedV6), ar_key = rk,
     ar_num_want = DefaultPeers, ar_port = ce_port env, ar_options = []\<rparr>"

abbreviation to_tracker :: "wire \<Rightarrow> tracker_request \<Rightarrow> (writer, io_error_kind) outcome" where
  "to_tracker w rq \<equiv> tracker_request_write_bytes w rq (CursorWriter EXPECTED_PACKET_LENGTH [])"

lemma first_timeout: "ct_attempt ct = 0 \<Longrightarrow> current_timeout False ct = (Some 15000, ct)"
  by (simp add: current_timeout_def calculate_message_timeout_millis_def MAXIMUM_REQUEST_RETRANSMIT_ATTEMPTS_def)

text \<open>Without a connection id the first message asks for one.\<close>

lemma send_connect:
  assumes w: "wire_ok w" and new: "token \<notin> set (open_tokens (self, io))"
    and timers: "\<forall>k. tio_timers io k \<noteq> None" and fam: "same_family (ce_bound_addr env) srv"
    and lens: "length (sha_bytes (request_hash req)) = SHA_HASH_LEN" "length (sha_bytes (ce_peer_id env)) = SHA_HASH_LEN"
    and no_id: "map_of (cd_id_cache self) srv = None"
  shows "\<exists>wr n self' io'. to_tracker w (connect_request token) = Ok wr \<and>
    send_request w env now srv token req (self, io) = Ok (self', io') \<and>
    cd_active self' = (token, (connect_timer_new srv req)\<lparr>ct_timeout_id := Some n\<rparr>) # cd_active self \<and>
    tio_sent io' = tio_sent io @ [(written wr, srv)] \<and> tio_timers io' = tio_timers io \<and>
    tio_metadata io' = tio_metadata io \<and> tio_connects io' = tio_connects io"
proof -
  define ct where "ct = connect_timer_new srv req"
  define self0 where "self0 = self\<lparr>cd_active := (token, ct) # cd_active self\<rparr>"
  have active: "filter (\<lambda>e. fst e \<noteq> token) (cd_active self) = cd_active self"
    using new by (auto simp: open_tokens_def filter_id_conv)
  have send: "send_request w env now srv token req (self, io) = process_request w env now token False (self0, io)"
    using fam by (cases "ce_bound_addr env"; cases srv)
      (simp_all add: self0_def ct_def hash_insert_def active del: process_request.simps)
  have ct: "ct_attempt ct = 0" "ct_addr ct = srv" "ct_request ct = req" by (simp_all add: ct_def connect_timer_new_def)
  have fields: "map_of (cd_active self0) token = Some ct" "current_timeout False ct = (Some 15000, ct)"
    "cache_get now (ct_addr ct) (cd_id_cache self0) = (None, cd_id_cache self)"
    "resolve_request env (tio_keys io (length (tio_sent io))) (ct_addr ct) None (ct_request ct) = (CONNECT_ID_PROTOCOL_ID, ConnectRequest)"
    using no_id by (simp_all add: self0_def ct cache_get_def first_timeout)
  obtain wr where wr: "to_tracker w (connect_request token) = Ok wr"
    using resolved_fits [OF w _ lens(2) fields(4)] lens(1) by (auto simp: ct)
  obtain n where "tio_timers io (length (tio_calls io)) = Some n" using timers by blast
  note sends = process_request_sends [OF fields wr this]
  show ?thesis
    unfolding send sends by (intro exI [of _ wr] exI [of _ n]) (simp add: wr self0_def active ct flip: ct_def)
qed

text \<open>A connection id is used at once.\<close>

lemma send_announce:
  assumes w: "wire_ok w" and active: "cd_active self = (token, ct) # rest" "token \<notin> fst ` set rest"
    and ct: "ct_addr ct = srv" "ct_attempt ct = 0" "ct_request ct = ClientAnnounce hash state" "ct_timeout_id ct = Some timer"
    and timers: "\<forall>k. tio_timers io k \<noteq> None"
    and lens: "length (sha_bytes hash) = SHA_HASH_LEN" "length (sha_bytes (ce_peer_id env)) = SHA_HASH_LEN"
  shows "\<exists>wr n rk self' io'.
    to_tracker w \<lparr>rq_connection_id = cid, rq_transaction_id = token, rq_type = AnnounceRequest (announce_of env srv hash state rk)\<rparr> = Ok wr \<and>
    client_incoming w env now (response_bytes w token (ConnectResponse cid)) srv (self, io) = Ok (self', io') \<and>
    cd_active self' = (token, ct\<lparr>ct_timeout_id := Some n\<rparr>) # rest \<and> tio_sent io' = tio_sent io @ [(written wr, srv)] \<and>
    tio_metadata io' = tio_metadata io \<and> tio_connects io' = tio_connects io"
proof -
  define self1 where "self1 = self\<lparr>cd_id_cache := cache_put now srv cid (cd_id_cache self), cd_active := (token, ct) # rest\<rparr>"
  define io1 where "io1 = clear_timer timer io"
  have rest: "filter (\<lambda>e. fst e \<noteq> token) rest = rest" using active(2) by (force simp: filter_id_conv)
  have recv: "client_incoming w env now (response_bytes w token (ConnectResponse cid)) srv (self, io) =
      process_request w env now token False (self1, io1)"
    using client_receives_id [OF w _ ct(1,4), of self token env now cid io]
    by (simp add: active(1) rest self1_def io1_def hash_insert_def del: process_request.simps response_bytes.simps)
  let ?rk = "tio_keys io1 (length (tio_sent io1))"
  have fields: "map_of (cd_active self1) token = Some ct" "current_timeout False ct = (Some 15000, ct)"
    "cache_get now (ct_addr ct) (cd_id_cache self1) = (Some cid, cd_id_cache self1)"
    "resolve_request env ?rk (ct_addr ct) (Some cid) (ct_request ct) = (cid, AnnounceRequest (announce_of env srv hash state ?rk))"
    by (simp_all add: self1_def ct cache_get_def cache_put_def hash_insert_def first_timeout
      is_expired_id_def CONNECTION_ID_VALID_DURATION_MILLIS_def announce_of_def)
  obtain wr where wr: "to_tracker w \<lparr>rq_connection_id = cid, rq_transaction_id = token,
      rq_type = AnnounceRequest (announce_of env srv hash state ?rk)\<rparr> = Ok wr"
    using resolved_fits [OF w _ lens(2) fields(4)] lens(1) ct(3) by auto
  obtain n where "tio_timers io1 (length (tio_calls io1)) = Some n"
    using timers by (auto simp: io1_def clear_timer_def)
  note sends = process_request_sends [OF fields wr this]
  show ?thesis
    unfolding recv sends by (intro exI [of _ wr] exI [of _ n] exI [of _ ?rk]) (use wr in \<open>simp add: self1_def rest ct io1_def clear_timer_def\<close>)
qed

text \<open>C33: An announcement, from end to end. A client without a connection id for the tracker asks for one;
  the server answers with the id of its handler; the client then announces the torrent under this id;
  the server answers with the response of its handler; and the client hands every peer of the response
  to its handshaker and settles the request with the response. Four datagrams, and afterwards the open
  requests are what they were.\<close>

theorem announce_end_to_end:
  assumes w: "wire_ok w" and new: "token \<notin> set (open_tokens (self, io))"
    and timers: "\<forall>k. tio_timers io k \<noteq> None" and fam: "same_family (ce_bound_addr env) srv"
    and lens: "length (sha_bytes hash) = SHA_HASH_LEN" "length (sha_bytes (ce_peer_id env)) = SHA_HASH_LEN"
    and no_id: "map_of (cd_id_cache self) srv = None"
    and connect: "sh_connect hs h cli = (Some (Inr cid), h1)"
    and announce: "\<forall>req. ar_info_hash req = hash \<and> ar_peer_id req = ce_peer_id env \<and> ar_state req = state \<longrightarrow>
      sh_announce hs h1 cli cid req = (Some (Inr res), h2)"
    and res: "response_wf \<lparr>rs_transaction_id = token, rs_type = AnnounceResponse res\<rparr>"
      "length (peers_bytes (as_peers res)) \<le> 1480"
  shows "\<exists>d1 d2 d3 d4 st1 st2 st3 addrs.
    send_request w env t0 srv token (ClientAnnounce hash state) (self, io) = Ok st1 \<and>
    tio_sent (snd st1) = tio_sent io @ [(d1, srv)] \<and>
    server_incoming w hs d1 cli (h, []) = Ok (h1, [(d2, cli)]) \<and>
    client_incoming w env t1 d2 srv st1 = Ok st2 \<and>
    tio_sent (snd st2) = tio_sent io @ [(d1, srv), (d3, srv)] \<and>
    server_incoming w hs d3 cli (h1, []) = Ok (h2, [(d4, cli)]) \<and>
    client_incoming w env t2 d4 srv st2 = Ok st3 \<and>
    collect_iter (Suc (length (peers_bytes (as_peers res)))) (\<lambda>it. Ok (peers_next it)) (peers_iter (as_peers res)) = Some (Ok addrs) \<and>
    tio_connects (snd st3) = tio_connects io @ map (\<lambda>addr. (hash, addr)) addrs \<and>
    tio_metadata (snd st3) = tio_metadata io @ [(token, Inr (AnnounceResult res))] \<and>
    open_tokens st3 = open_tokens (self, io)"
proof -
  let ?ct = "\<lambda>n. (connect_timer_new srv (ClientAnnounce hash state))\<lparr>ct_timeout_id := Some n\<rparr>"
  have ct: "ct_addr (?ct n) = srv" "ct_attempt (?ct n) = 0" "ct_request (?ct n) = ClientAnnounce hash state"
    "ct_timeout_id (?ct n) = Some n" for n by (simp_all add: connect_timer_new_def)
  have fresh: "token \<notin> fst ` set (cd_active self)" using new by (simp add: open_tokens_def)
  then have active: "filter (\<lambda>e. fst e \<noteq> token) (cd_active self) = cd_active self" by (force simp: filter_id_conv)
  obtain wr1 n1 self1 io1 where 1: "to_tracker w (connect_request token) = Ok wr1"
    "send_request w env t0 srv token (ClientAnnounce hash state) (self, io) = Ok (self1, io1)"
    "cd_active self1 = (token, ?ct n1) # cd_active self" "tio_sent io1 = tio_sent io @ [(written wr1, srv)]"
    "tio_timers io1 = tio_timers io" "tio_metadata io1 = tio_metadata io" "tio_connects io1 = tio_connects io"
    using send_connect [OF w new timers fam _ lens(2) no_id, of "ClientAnnounce hash state" t0] lens(1) by auto
  have srv1: "server_incoming w hs (written wr1) cli (h, []) = Ok (h1, [(response_bytes w token (ConnectResponse cid), cli)])"
    using connect by (intro server_answers [OF w _ _ 1(1)])
      (simp_all add: request_wf_def forward_result_def EXPECTED_PACKET_LENGTH_def wire_put_length [OF w])
  obtain wr2 n2 rk self2 io2 where 2:
    "to_tracker w \<lparr>rq_connection_id = cid, rq_transaction_id = token, rq_type = AnnounceRequest (announce_of env srv hash state rk)\<rparr> = Ok wr2"
    "client_incoming w env t1 (response_bytes w token (ConnectResponse cid)) srv (self1, io1) = Ok (self2, io2)"
    "cd_active self2 = (token, ?ct n2) # cd_active self" "tio_sent io2 = tio_sent io1 @ [(written wr2, srv)]"
    "tio_metadata io2 = tio_metadata io1" "tio_connects io2 = tio_connects io1"
    using send_announce [OF w 1(3) fresh ct _ lens, of io1 cid t1] timers 1(5) by auto
  have "length (response_bytes w token (AnnounceResponse res)) \<le> EXPECTED_PACKET_LENGTH"
    using res(2) by (simp add: EXPECTED_PACKET_LENGTH_def announce_response_bytes_def wire_put_length [OF w])
  then have srv2: "server_incoming w hs (written wr2) cli (h1, []) = Ok (h2, [(response_bytes w token (AnnounceResponse res), cli)])"
    using announce lens by (intro server_answers [OF w _ _ 2(1)])
      (auto simp: announce_of_def request_wf_def announce_request_wf_def options_wf_def forward_result_def split: socket_addr.split)
  have pb: "(case p of PeersV4 bs \<Rightarrow> bs | PeersV6 bs \<Rightarrow> bs) = peers_bytes p" for p by (cases p) simp_all
  obtain addrs where addrs: "collect_iter (Suc (length (case as_peers res of PeersV4 bs \<Rightarrow> bs | PeersV6 bs \<Rightarrow> bs)))
      (\<lambda>it. Ok (peers_next it)) (peers_iter (as_peers res)) = Some (Ok addrs)"
    using peers_collected [of "as_peers res"] res(1) by (auto simp: response_wf_def)
  define st3 where "st3 = notify_client token (Inr (AnnounceResult res)) (self2\<lparr>cd_active := filter (\<lambda>e. fst e \<noteq> token) (cd_active self2)\<rparr>,
    (clear_timer n2 io2)\<lparr>tio_connects := tio_connects io2 @ map (\<lambda>addr. (hash, addr)) addrs\<rparr>)"
  have "client_incoming w env t2 (response_bytes w token (AnnounceResponse res)) srv (self2, io2) = Ok st3"
    unfolding st3_def using client_receives_peers [OF w _ ct(1) ct(4) ct(3) res(1) addrs, of self2 n2] 2(3) by simp
  moreover have "tio_connects (snd st3) = tio_connects io @ map (\<lambda>addr. (hash, addr)) addrs"
    "tio_metadata (snd st3) = tio_metadata io @ [(token, Inr (AnnounceResult res))]" "open_tokens st3 = open_tokens (self, io)"
    by (simp_all add: st3_def 1 2 clear_timer_def open_tokens_def active)
  ultimately show ?thesis
    using 1 2 srv1 srv2 addrs [unfolded pb]
    by (intro exI [of _ "written wr1"] exI [of _ "response_bytes w token (ConnectResponse cid)"] exI [of _ "written wr2"]
      exI [of _ "response_bytes w token (AnnounceResponse res)"] exI [of _ "(self1, io1)"] exI [of _ "(self2, io2)"]
      exI [of _ st3] exI [of _ addrs]) (simp del: send_request.simps collect_iter.simps response_bytes.simps)
qed

definition sample_handler :: "unit server_handler" where
  "sample_handler = \<lparr>sh_connect = (\<lambda>h a. (Some (Inr 42), h)),
     sh_announce = (\<lambda>h a c r. (Some (Inr \<lparr>as_interval = 1800, as_leechers = 1, as_seeders = 2,
       as_peers = PeersV4 [127, 0, 0, 1, 26, 225]\<rparr>), h)),
     sh_scrape = (\<lambda>h a c r. (None, h))\<rparr>"

theorem announce_end_to_end_witness:
  "\<exists>d1 d2 st1. send_request sample_wire sample_client_env 0 sample_tracker 9
       (ClientAnnounce (ShaHash (replicate 20 3)) \<lparr>cs_downloaded = 0, cs_left = 1, cs_uploaded = 0, cs_event = Started\<rparr>)
       (sample_dispatcher, sample_tracker_io) = Ok st1 \<and> tio_sent (snd st1) = [(d1, sample_tracker)] \<and>
     server_incoming sample_wire sample_handler d1 (ce_bound_addr sample_client_env) ((), []) =
       Ok ((), [(d2, ce_bound_addr sample_client_env)])"
proof -
  have "9 \<notin> set (open_tokens (sample_dispatcher, sample_tracker_io))" "\<forall>k. tio_timers sample_tracker_io k \<noteq> None"
    "same_family (ce_bound_addr sample_client_env) sample_tracker"
    "length (sha_bytes (ShaHash (replicate 20 3))) = SHA_HASH_LEN" "length (sha_bytes (ce_peer_id sample_client_env)) = SHA_HASH_LEN"
    "map_of (cd_id_cache sample_dispatcher) sample_tracker = None"
    by (simp_all add: open_tokens_def sample_dispatcher_def sample_tracker_io_def sample_client_env_def sample_tracker_def SHA_HASH_LEN_def)
  note prems = this
  from announce_end_to_end [OF sample_wire_ok prems, where hs = sample_handler and h = "()" and
      ?h1.0 = "()" and ?h2.0 = "()" and cli = "ce_bound_addr sample_client_env" and cid = 42 and
      res = "\<lparr>as_interval = 1800, as_leechers = 1, as_seeders = 2, as_peers = PeersV4 [127, 0, 0, 1, 26, 225]\<rparr>" and ?t0.0 = 0 and ?t1.0 = 0 and ?t2.0 = 0 and
      state = "\<lparr>cs_downloaded = 0, cs_left = 1, cs_uploaded = 0, cs_event = Started\<rparr>"]
  have "\<exists>d1 d2 st1. send_request sample_wire sample_client_env 0 sample_tracker 9
       (ClientAnnounce (ShaHash (replicate 20 3)) \<lparr>cs_downloaded = 0, cs_left = 1, cs_uploaded = 0, cs_event = Started\<rparr>)
       (sample_dispatcher, sample_tracker_io) = Ok st1 \<and> tio_sent (snd st1) = tio_sent sample_tracker_io @ [(d1, sample_tracker)] \<and>
     server_incoming sample_wire sample_handler d1 (ce_bound_addr sample_client_env) ((), []) =
       Ok ((), [(d2, ce_bound_addr sample_client_env)])"
    by (auto simp: sample_handler_def response_wf_def SOCKET_ADDR_V4_BYTES_def simp del: send_request.simps)
  then show ?thesis by (simp add: sample_tracker_io_def del: send_request.simps)
qed

end
