(* ===== verification/Peer_Message.thy ===== *)
theory Peer_Message
  imports Wire Hash_Map Bencode_Access
begin

unbundle bit_operations_syntax

text \<open>
  The peer wire protocol of \<open>src/peer/message\<close> and its codec \<open>src/peer/message_codec\<close>: the standard
  messages with the iterator over a bit field, the port and extended messages that the handshake's
  extension bits activate, the \<open>ut_metadata\<close> messages of the extension protocol, the parser that tries
  them in turn, the writers and the size every message reports.

  A parser of this component gives no rest back: its caller takes the message's size to find the next
  message. The subtractions of message lengths are done at their width, with (\<open>chk\<close>) or without
  overflow checks; a panic of a parser is \<open>Stuck\<close>. A \<open>usize\<close> has 64 bits. The text of an error is left out.
\<close>

section \<open>Helpers of the parsers\<close>

type_synonym 'm io_result = "('m, io_error_kind) outcome"
type_synonym 'm message_result = "(unit, 'm io_result) iresult"

text \<open>The macro \<open>throwaway_input!\<close>.\<close>

fun throwaway_input :: "(bytes, 'a) iresult \<Rightarrow> (unit, 'a) iresult" where
  "throwaway_input (Done r x) = Done () x"
| "throwaway_input Error = Error"
| "throwaway_input (Incomplete n) = Incomplete n"
| "throwaway_input Stuck = Stuck"

text \<open>\<open>IResult::Done\<close> around a computed result; the computation may panic.\<close>

fun done_result :: "'m io_result \<Rightarrow> 'm message_result" where
  "done_result Panic = Stuck"
| "done_result r = Done () r"

text \<open>\<open>switch!\<close> on a parsed key, \<open>alt!\<close> without input, \<open>map!\<close> with a closure that maps the result.\<close>

fun switch_on :: "(unit, 'k) iresult \<Rightarrow> ('k \<Rightarrow> 'm message_result) \<Rightarrow> 'm message_result" where
  "switch_on (Done u x) f = f x"
| "switch_on Error f = Error"
| "switch_on (Incomplete n) f = Incomplete n"
| "switch_on Stuck f = Stuck"

definition alt_result :: "'m message_result \<Rightarrow> 'm message_result \<Rightarrow> 'm message_result" where
  "alt_result p q = (case p of Error \<Rightarrow> q | r \<Rightarrow> r)"

fun map_message :: "('a \<Rightarrow> 'b) \<Rightarrow> 'a message_result \<Rightarrow> 'b message_result" where
  "map_message f (Done u r) = done_result (and_then r (\<lambda>x. Ok (f x)))"
| "map_message f Error = Error"
| "map_message f (Incomplete n) = Incomplete n"
| "map_message f Stuck = Stuck"

text \<open>\<open>Bytes::split_off\<close>, and a computed argument that may panic.\<close>

definition split_off :: "bytes \<Rightarrow> nat \<Rightarrow> (bytes \<Rightarrow> 'm message_result) \<Rightarrow> 'm message_result" where
  "split_off bytes at' f = (if length bytes < at' then Stuck else f (drop at' bytes))"

definition with_arg :: "('a, io_error_kind) outcome \<Rightarrow> ('a \<Rightarrow> 'm message_result) \<Rightarrow> 'm message_result" where
  "with_arg r f = (case r of Ok x \<Rightarrow> f x | _ \<Rightarrow> Stuck)"

definition u32_to_usize :: "u32 \<Rightarrow> nat option" where
  "u32_to_usize v = (if ucast (ucast v :: u64) \<noteq> v then None else Some (unat (ucast v :: u64)))"

definition with_usize :: "u32 \<Rightarrow> (nat \<Rightarrow> 'a parse) \<Rightarrow> 'a parse" where
  "with_usize v f = (case u32_to_usize v of None \<Rightarrow> (\<lambda>i. Stuck) | Some n \<Rightarrow> f n)"

section \<open>Constants and the message header\<close>

definition KEEP_ALIVE_MESSAGE_LEN :: u32 where "KEEP_ALIVE_MESSAGE_LEN = 0"
definition CHOKE_MESSAGE_LEN :: u32 where "CHOKE_MESSAGE_LEN = 1"
definition UNCHOKE_MESSAGE_LEN :: u32 where "UNCHOKE_MESSAGE_LEN = 1"
definition INTERESTED_MESSAGE_LEN :: u32 where "INTERESTED_MESSAGE_LEN = 1"
definition UNINTERESTED_MESSAGE_LEN :: u32 where "UNINTERESTED_MESSAGE_LEN = 1"
definition HAVE_MESSAGE_LEN :: u32 where "HAVE_MESSAGE_LEN = 5"
definition BASE_BITFIELD_MESSAGE_LEN :: u32 where "BASE_BITFIELD_MESSAGE_LEN = 1"
definition REQUEST_MESSAGE_LEN :: u32 where "REQUEST_MESSAGE_LEN = 13"
definition BASE_PIECE_MESSAGE_LEN :: u32 where "BASE_PIECE_MESSAGE_LEN = 9"
definition CANCEL_MESSAGE_LEN :: u32 where "CANCEL_MESSAGE_LEN = 13"
definition CHOKE_MESSAGE_ID :: u8 where "CHOKE_MESSAGE_ID = 0"
definition UNCHOKE_MESSAGE_ID :: u8 where "UNCHOKE_MESSAGE_ID = 1"
definition INTERESTED_MESSAGE_ID :: u8 where "INTERESTED_MESSAGE_ID = 2"
definition UNINTERESTED_MESSAGE_ID :: u8 where "UNINTERESTED_MESSAGE_ID = 3"
definition HAVE_MESSAGE_ID :: u8 where "HAVE_MESSAGE_ID = 4"
definition BITFIELD_MESSAGE_ID :: u8 where "BITFIELD_MESSAGE_ID = 5"
definition REQUEST_MESSAGE_ID :: u8 where "REQUEST_MESSAGE_ID = 6"
definition PIECE_MESSAGE_ID :: u8 where "PIECE_MESSAGE_ID = 7"
definition CANCEL_MESSAGE_ID :: u8 where "CANCEL_MESSAGE_ID = 8"
definition MESSAGE_LENGTH_LEN_BYTES :: nat where "MESSAGE_LENGTH_LEN_BYTES = 4"
definition HEADER_LEN :: nat where "HEADER_LEN = MESSAGE_LENGTH_LEN_BYTES + 1"
definition BASE_PROT_EXTENSION_MESSAGE_LEN :: nat where "BASE_PROT_EXTENSION_MESSAGE_LEN = 2"
definition PORT_MESSAGE_LEN :: u32 where "PORT_MESSAGE_LEN = 3"
definition BASE_EXTENDED_MESSAGE_LEN :: u32 where "BASE_EXTENDED_MESSAGE_LEN = 2"
definition PORT_MESSAGE_ID :: u8 where "PORT_MESSAGE_ID = 9"
definition EXTENDED_MESSAGE_ID :: u8 where "EXTENDED_MESSAGE_ID = 20"
definition EXTENDED_MESSAGE_HANDSHAKE_ID :: u8 where "EXTENDED_MESSAGE_HANDSHAKE_ID = 0"
definition EXTENSION_HEADER_LEN :: nat where "EXTENSION_HEADER_LEN = HEADER_LEN + 1"

definition write_length_id_pair :: "wire \<Rightarrow> u32 \<Rightarrow> u8 option \<Rightarrow> writer \<Rightarrow> writer io_result" where
  "write_length_id_pair w len opt_id wr =
     and_then (write_all (put_u32 w len) wr) (\<lambda>wr.
       case opt_id of Some mid \<Rightarrow> write_all [mid] wr | None \<Rightarrow> Ok wr)"

section \<open>Standard messages\<close>

record have_message =
  have_piece_index :: u32

definition have_parse_bytes :: "wire \<Rightarrow> bytes \<Rightarrow> have_message message_result" where
  "have_parse_bytes w bytes =
     throwaway_input (map_p (\<lambda>index. Ok \<lparr>have_piece_index = index\<rparr>) (be_u32 w) bytes)"

definition have_write_bytes :: "wire \<Rightarrow> have_message \<Rightarrow> writer \<Rightarrow> writer io_result" where
  "have_write_bytes w m wr =
     and_then (write_length_id_pair w HAVE_MESSAGE_LEN (Some HAVE_MESSAGE_ID) wr)
       (write_all (put_u32 w (have_piece_index m)))"

record bitfield_message =
  bitfield_bytes :: bytes

definition bitfield_parse_bytes :: "bytes \<Rightarrow> u32 \<Rightarrow> bitfield_message message_result" where
  "bitfield_parse_bytes bytes len =
     (case u32_to_usize len of
        None \<Rightarrow> Stuck
      | Some cast_len \<Rightarrow>
          if cast_len \<le> length bytes then Done () (Ok \<lparr>bitfield_bytes = take cast_len bytes\<rparr>)
          else Incomplete (Size (cast_len - length bytes)))"

definition bitfield_write_bytes :: "wire \<Rightarrow> bitfield_message \<Rightarrow> writer \<Rightarrow> writer io_result" where
  "bitfield_write_bytes w m wr =
     (let actual_length = word_of_nat (1 + length (bitfield_bytes m)) in
      and_then (write_length_id_pair w actual_length (Some BITFIELD_MESSAGE_ID) wr)
        (write_all (bitfield_bytes m)))"

text \<open>\<open>BitFieldIter\<close>: one bit per step, from the most significant bit of the first byte.\<close>

record bitfield_iter =
  bfi_bytes :: bytes
  cur_bit :: nat

definition bitfield_message_iter :: "bitfield_message \<Rightarrow> bitfield_iter" where
  "bitfield_message_iter m = \<lparr>bfi_bytes = bitfield_bytes m, cur_bit = 0\<rparr>"

function bitfield_iter_next :: "bitfield_iter \<Rightarrow> have_message option \<times> bitfield_iter" where
  "bitfield_iter_next it =
     (let byte_in_bytes = cur_bit it div 8; bit_in_byte = cur_bit it mod 8 in
      case get_slice (bfi_bytes it) byte_in_bytes of
        None \<Rightarrow> (None, it)
      | Some byte \<Rightarrow>
          let have_message = \<lparr>have_piece_index = word_of_nat (cur_bit it)\<rparr>;
              it' = it\<lparr>cur_bit := cur_bit it + 1\<rparr>
          in if drop_bit 7 (push_bit bit_in_byte byte) = 1 then (Some have_message, it')
             else bitfield_iter_next it')"
  by pat_completeness auto
termination
  by (relation "measure (\<lambda>it. 8 * length (bfi_bytes it) - cur_bit it)")
     (auto simp: get_slice_def split: if_splits)

record request_message =
  request_piece_index :: u32
  request_block_offset :: u32
  request_block_length :: nat

definition request_parse_bytes :: "wire \<Rightarrow> bytes \<Rightarrow> request_message message_result" where
  "request_parse_bytes w bytes =
     throwaway_input (do_parse w (be_u32 w) (\<lambda>index. do_parse w (be_u32 w) (\<lambda>offset.
       do_parse w (be_u32 w) (\<lambda>len. with_usize len (\<lambda>n. value_p (Ok
         \<lparr>request_piece_index = index, request_block_offset = offset, request_block_length = n\<rparr>))))) bytes)"

definition request_write_bytes :: "wire \<Rightarrow> request_message \<Rightarrow> writer \<Rightarrow> writer io_result" where
  "request_write_bytes w m wr =
     and_then (write_length_id_pair w REQUEST_MESSAGE_LEN (Some REQUEST_MESSAGE_ID) wr) (\<lambda>wr.
     and_then (write_all (put_u32 w (request_piece_index m)) wr) (\<lambda>wr.
     and_then (write_all (put_u32 w (request_block_offset m)) wr) (\<lambda>wr.
     write_all (put_u32 w (word_of_nat (request_block_length m))) wr)))"

record piece_message =
  piece_piece_index :: u32
  piece_block_offset :: u32
  piece_block :: bytes

text \<open>\<open>bytes.slice(8, 8 + block_len)\<close> is the part of the input that \<open>take!\<close> has checked to be there.\<close>

definition piece_parse_bytes :: "wire \<Rightarrow> bool \<Rightarrow> bytes \<Rightarrow> u32 \<Rightarrow> piece_message message_result" where
  "piece_parse_bytes w chk bytes len =
     throwaway_input (do_parse w (be_u32 w) (\<lambda>piece_index. do_parse w (be_u32 w) (\<lambda>block_offset.
       case (word_sub chk len 8 :: u32 io_result) of
         Ok n \<Rightarrow> with_usize n (\<lambda>block_len.
           do_parse w (map_p (\<lambda>_. segment bytes 8 (8 + block_len)) (take_p w block_len)) (\<lambda>block.
             value_p (Ok \<lparr>piece_piece_index = piece_index, piece_block_offset = block_offset,
               piece_block = block\<rparr>)))
       | _ \<Rightarrow> (\<lambda>i. Stuck))) bytes)"

definition piece_write_bytes :: "wire \<Rightarrow> piece_message \<Rightarrow> writer \<Rightarrow> writer io_result" where
  "piece_write_bytes w m wr =
     (let actual_length = word_of_nat (9 + length (piece_block m)) in
      and_then (write_length_id_pair w actual_length (Some PIECE_MESSAGE_ID) wr) (\<lambda>wr.
      and_then (write_all (put_u32 w (piece_piece_index m)) wr) (\<lambda>wr.
      and_then (write_all (put_u32 w (piece_block_offset m)) wr) (\<lambda>wr.
      write_all (piece_block m) wr))))"

record cancel_message =
  cancel_piece_index :: u32
  cancel_block_offset :: u32
  cancel_block_length :: nat

definition cancel_parse_bytes :: "wire \<Rightarrow> bytes \<Rightarrow> cancel_message message_result" where
  "cancel_parse_bytes w bytes =
     throwaway_input (do_parse w (be_u32 w) (\<lambda>index. do_parse w (be_u32 w) (\<lambda>offset.
       do_parse w (be_u32 w) (\<lambda>len. with_usize len (\<lambda>n. value_p (Ok
         \<lparr>cancel_piece_index = index, cancel_block_offset = offset, cancel_block_length = n\<rparr>))))) bytes)"

definition cancel_write_bytes :: "wire \<Rightarrow> cancel_message \<Rightarrow> writer \<Rightarrow> writer io_result" where
  "cancel_write_bytes w m wr =
     and_then (write_length_id_pair w CANCEL_MESSAGE_LEN (Some CANCEL_MESSAGE_ID) wr) (\<lambda>wr.
     and_then (write_all (put_u32 w (cancel_piece_index m)) wr) (\<lambda>wr.
     and_then (write_all (put_u32 w (cancel_block_offset m)) wr) (\<lambda>wr.
     write_all (put_u32 w (word_of_nat (cancel_block_length m))) wr)))"

section \<open>The port message\<close>

record port_message =
  port_port :: u16

definition port_parse_bytes :: "wire \<Rightarrow> bytes \<Rightarrow> port_message message_result" where
  "port_parse_bytes w bytes =
     throwaway_input (map_p (\<lambda>port. Ok \<lparr>port_port = port\<rparr>) (be_u16 w) bytes)"

definition port_write_bytes :: "wire \<Rightarrow> port_message \<Rightarrow> writer \<Rightarrow> writer io_result" where
  "port_write_bytes w m wr =
     and_then (write_length_id_pair w PORT_MESSAGE_LEN (Some PORT_MESSAGE_ID) wr)
       (write_all (put_u16 w (port_port m)))"

section \<open>The extended message\<close>

definition UT_METADATA_ID :: bytes where "UT_METADATA_ID = ascii ''ut_metadata''"
definition UT_PEX_ID :: bytes where "UT_PEX_ID = ascii ''ut_pex''"
definition ID_MAP_KEY :: bytes where "ID_MAP_KEY = ascii ''m''"
definition CLIENT_ID_KEY :: bytes where "CLIENT_ID_KEY = ascii ''v''"
definition CLIENT_TCP_PORT_KEY :: bytes where "CLIENT_TCP_PORT_KEY = ascii ''p''"
definition OUR_IP_KEY :: bytes where "OUR_IP_KEY = ascii ''yourip''"
definition CLIENT_IPV6_ADDR_KEY :: bytes where "CLIENT_IPV6_ADDR_KEY = ascii ''ipv6''"
definition CLIENT_IPV4_ADDR_KEY :: bytes where "CLIENT_IPV4_ADDR_KEY = ascii ''ipv4''"
definition CLIENT_MAX_REQUESTS_KEY :: bytes where "CLIENT_MAX_REQUESTS_KEY = ascii ''reqq''"
definition METADATA_SIZE_KEY :: bytes where "METADATA_SIZE_KEY = ascii ''metadata_size''"

text \<open>A \<open>String\<close> is its UTF-8 bytes.\<close>

datatype extended_type = UtMetadataType | UtPexType | CustomType bytes

definition extended_type_from_id :: "bytes \<Rightarrow> extended_type" where
  "extended_type_from_id mid =
     (if mid = UT_METADATA_ID then UtMetadataType else if mid = UT_PEX_ID then UtPexType else CustomType mid)"

fun extended_type_id :: "extended_type \<Rightarrow> bytes" where
  "extended_type_id UtMetadataType = UT_METADATA_ID"
| "extended_type_id UtPexType = UT_PEX_ID"
| "extended_type_id (CustomType mid) = mid"

text \<open>The conversion errors of bencode become I/O errors of kind \<open>Other\<close>.\<close>

definition io_convert_error :: "bencode_convert_error \<Rightarrow> io_error_kind" where
  "io_convert_error e = OtherError"

definition result_opt :: "('a, 'e) outcome \<Rightarrow> 'a option" where
  "result_opt r = (case r of Ok x \<Rightarrow> Some x | _ \<Rightarrow> None)"

definition parse_id_map :: "(bytes \<times> bencode_ref) list \<Rightarrow> (extended_type, u8) hash_map" where
  "parse_id_map root =
     (case lookup_and_convert_dict io_convert_error ref_dict root ID_MAP_KEY of
        Ok ben_id_map \<Rightarrow>
          fold (\<lambda>(mid, ben_value) id_map.
            case (utf8_valid mid, convert_int io_convert_error ref_int ben_value mid) of
              (True, Ok v) \<Rightarrow> snd (hash_insert id_map (extended_type_from_id mid) (word_of_int v))
            | _ \<Rightarrow> id_map) (dict_to_list ben_id_map) []
      | _ \<Rightarrow> [])"

definition parse_client_id :: "(bytes \<times> bencode_ref) list \<Rightarrow> bytes option" where
  "parse_client_id root = result_opt (lookup_and_convert_str io_convert_error ref_str root CLIENT_ID_KEY)"

definition parse_client_tcp_port :: "(bytes \<times> bencode_ref) list \<Rightarrow> u16 option" where
  "parse_client_tcp_port root =
     Option.bind (result_opt (lookup_and_convert_int io_convert_error ref_int root CLIENT_TCP_PORT_KEY))
       (\<lambda>port. if uint (word_of_int port :: u16) = port then Some (word_of_int port) else None)"

definition parse_our_ip :: "(bytes \<times> bencode_ref) list \<Rightarrow> ip_addr option" where
  "parse_our_ip root =
     Option.bind (result_opt (lookup_and_convert_bytes io_convert_error ref_bytes root OUR_IP_KEY))
       (\<lambda>ip_bytes.
          if length ip_bytes = 4 then Some (IpV4 (bytes_be_to_ipv4 ip_bytes))
          else if length ip_bytes = 16 then Some (IpV6 (bytes_be_to_ipv6 ip_bytes)) else None)"

definition parse_client_ipv6_addr :: "(bytes \<times> bencode_ref) list \<Rightarrow> ipv6_addr option" where
  "parse_client_ipv6_addr root =
     Option.bind (result_opt (lookup_and_convert_bytes io_convert_error ref_bytes root CLIENT_IPV6_ADDR_KEY))
       (\<lambda>ipv6_bytes. if length ipv6_bytes = 16 then Some (bytes_be_to_ipv6 ipv6_bytes) else None)"

definition parse_client_ipv4_addr :: "(bytes \<times> bencode_ref) list \<Rightarrow> ipv4_addr option" where
  "parse_client_ipv4_addr root =
     Option.bind (result_opt (lookup_and_convert_bytes io_convert_error ref_bytes root CLIENT_IPV4_ADDR_KEY))
       (\<lambda>ipv4_bytes. if length ipv4_bytes = 4 then Some (bytes_be_to_ipv4 ipv4_bytes) else None)"

definition parse_client_max_requests :: "(bytes \<times> bencode_ref) list \<Rightarrow> int option" where
  "parse_client_max_requests root =
     result_opt (lookup_and_convert_int io_convert_error ref_int root CLIENT_MAX_REQUESTS_KEY)"

definition parse_metadata_size :: "(bytes \<times> bencode_ref) list \<Rightarrow> int option" where
  "parse_metadata_size root =
     result_opt (lookup_and_convert_int io_convert_error ref_int root METADATA_SIZE_KEY)"

record extended_message_builder =
  b_id_map :: "(extended_type, u8) hash_map"
  b_our_id :: "bytes option"
  b_our_tcp_port :: "u16 option"
  b_their_ip :: "ip_addr option"
  b_our_ipv6_addr :: "ipv6_addr option"
  b_our_ipv4_addr :: "ipv4_addr option"
  b_our_max_requests :: "int option"
  b_metadata_size :: "int option"
  b_custom_entries :: "(bytes, bencode_mut) hash_map"

definition extended_builder_new :: extended_message_builder where
  "extended_builder_new =
     \<lparr>b_id_map = [], b_our_id = None, b_our_tcp_port = None, b_their_ip = None, b_our_ipv6_addr = None,
      b_our_ipv4_addr = None, b_our_max_requests = None, b_metadata_size = None, b_custom_entries = []\<rparr>"

definition with_our_id :: "bytes option \<Rightarrow> extended_message_builder \<Rightarrow> extended_message_builder" where
  "with_our_id mid b = b\<lparr>b_our_id := mid\<rparr>"

definition with_extended_type ::
    "extended_type \<Rightarrow> u8 option \<Rightarrow> extended_message_builder \<Rightarrow> extended_message_builder" where
  "with_extended_type ext_type opt_value b =
     (case opt_value of
        Some v \<Rightarrow> b\<lparr>b_id_map := snd (hash_insert (b_id_map b) ext_type v)\<rparr>
      | None \<Rightarrow> b\<lparr>b_id_map := snd (hash_remove (b_id_map b) ext_type)\<rparr>)"

definition with_our_tcp_port :: "u16 option \<Rightarrow> extended_message_builder \<Rightarrow> extended_message_builder" where
  "with_our_tcp_port tcp b = b\<lparr>b_our_tcp_port := tcp\<rparr>"

definition with_their_ip :: "ip_addr option \<Rightarrow> extended_message_builder \<Rightarrow> extended_message_builder" where
  "with_their_ip ip b = b\<lparr>b_their_ip := ip\<rparr>"

definition with_our_ipv6_addr :: "ipv6_addr option \<Rightarrow> extended_message_builder \<Rightarrow> extended_message_builder" where
  "with_our_ipv6_addr ipv6 b = b\<lparr>b_our_ipv6_addr := ipv6\<rparr>"

definition with_our_ipv4_addr :: "ipv4_addr option \<Rightarrow> extended_message_builder \<Rightarrow> extended_message_builder" where
  "with_our_ipv4_addr ipv4 b = b\<lparr>b_our_ipv4_addr := ipv4\<rparr>"

definition with_max_requests :: "int option \<Rightarrow> extended_message_builder \<Rightarrow> extended_message_builder" where
  "with_max_requests max_requests b = b\<lparr>b_our_max_requests := max_requests\<rparr>"

definition with_metadata_size :: "int option \<Rightarrow> extended_message_builder \<Rightarrow> extended_message_builder" where
  "with_metadata_size msize b = b\<lparr>b_metadata_size := msize\<rparr>"

definition with_custom_entry ::
    "bytes \<Rightarrow> bencode_mut option \<Rightarrow> extended_message_builder \<Rightarrow> extended_message_builder" where
  "with_custom_entry k opt_value b =
     (case opt_value of
        Some v \<Rightarrow> b\<lparr>b_custom_entries := snd (hash_insert (b_custom_entries b) k v)\<rparr>
      | None \<Rightarrow> b\<lparr>b_custom_entries := snd (hash_remove (b_custom_entries b) k)\<rparr>)"

definition opt_entry :: "bytes \<Rightarrow> 'a option \<Rightarrow> ('a \<Rightarrow> bencode_mut) \<Rightarrow> (bytes \<times> bencode_mut) list" where
  "opt_entry k v f = (case v of Some x \<Rightarrow> [(k, f x)] | None \<Rightarrow> [])"

fun ip_to_bytes :: "ip_addr \<Rightarrow> bytes" where
  "ip_to_bytes (IpV4 ip) = ipv4_to_bytes_be ip"
| "ip_to_bytes (IpV6 ip) = ipv6_to_bytes_be ip"

text \<open>
  The entries in the order the code inserts them: a later one replaces an earlier one with the same
  key. \<open>dict_mut().unwrap()\<close> on a fresh dictionary succeeds.
\<close>

definition builder_id_entries :: "extended_message_builder \<Rightarrow> (bytes \<times> bencode_mut) list" where
  "builder_id_entries b = map (\<lambda>(ext_id, v). (extended_type_id ext_id, MInt (uint v))) (b_id_map b)"

definition builder_entries :: "extended_message_builder \<Rightarrow> bencode_mut \<Rightarrow> (bytes \<times> bencode_mut) list" where
  "builder_entries b ben_id_map =
     (ID_MAP_KEY, ben_id_map) # b_custom_entries b @
     opt_entry CLIENT_ID_KEY (b_our_id b) MBytes @
     opt_entry CLIENT_TCP_PORT_KEY (b_our_tcp_port b) (\<lambda>p. MInt (uint p)) @
     opt_entry OUR_IP_KEY (b_their_ip b) (\<lambda>ip. MBytes (ip_to_bytes ip)) @
     opt_entry CLIENT_IPV6_ADDR_KEY (b_our_ipv6_addr b) (\<lambda>ip. MBytes (ipv6_to_bytes_be ip)) @
     opt_entry CLIENT_IPV4_ADDR_KEY (b_our_ipv4_addr b) (\<lambda>ip. MBytes (ipv4_to_bytes_be ip)) @
     opt_entry CLIENT_MAX_REQUESTS_KEY (b_our_max_requests b) MInt @
     opt_entry METADATA_SIZE_KEY (b_metadata_size b) MInt"

definition bencode_from_builder :: "extended_message_builder \<Rightarrow> (bytes, 'e) outcome" where
  "bencode_from_builder b =
     (case ben_map (builder_id_entries b) of
        None \<Rightarrow> Panic
      | Some ben_id_map \<Rightarrow>
          (case ben_map (builder_entries b ben_id_map) of
             None \<Rightarrow> Panic
           | Some root_map \<Rightarrow> Ok (bencode_encode root_map)))"

record extended_message =
  id_map :: "(extended_type, u8) hash_map"
  our_id :: "bytes option"
  our_tcp_port :: "u16 option"
  their_ip :: "ip_addr option"
  our_ipv6_addr :: "ipv6_addr option"
  our_ipv4_addr :: "ipv4_addr option"
  our_max_requests :: "int option"
  metadata_size :: "int option"
  raw_bencode :: bytes

definition extended_from_builder :: "extended_message_builder \<Rightarrow> (extended_message, 'e) outcome" where
  "extended_from_builder b =
     and_then (bencode_from_builder b) (\<lambda>encoded_bytes. Ok
       \<lparr>id_map = b_id_map b, our_id = b_our_id b, our_tcp_port = b_our_tcp_port b, their_ip = b_their_ip b,
        our_ipv6_addr = b_our_ipv6_addr b, our_ipv4_addr = b_our_ipv4_addr b,
        our_max_requests = b_our_max_requests b, metadata_size = b_metadata_size b,
        raw_bencode = encoded_bytes\<rparr>)"

definition extended_from_dict :: "(bytes \<times> bencode_ref) list \<Rightarrow> bytes \<Rightarrow> extended_message" where
  "extended_from_dict ben_dict raw =
     \<lparr>id_map = parse_id_map ben_dict, our_id = parse_client_id ben_dict,
      our_tcp_port = parse_client_tcp_port ben_dict, their_ip = parse_our_ip ben_dict,
      our_ipv6_addr = parse_client_ipv6_addr ben_dict, our_ipv4_addr = parse_client_ipv4_addr ben_dict,
      our_max_requests = parse_client_max_requests ben_dict, metadata_size = parse_metadata_size ben_dict,
      raw_bencode = raw\<rparr>"

definition extended_parse_bytes :: "bytes \<Rightarrow> u32 \<Rightarrow> extended_message message_result" where
  "extended_parse_bytes bytes len =
     (case u32_to_usize len of
        None \<Rightarrow> Stuck
      | Some cast_len \<Rightarrow>
          if cast_len \<le> length bytes then
            let raw = take cast_len bytes in
            done_result
              (and_then (map_err (bencode_decode raw bdecode_opt_default) (\<lambda>_. OtherError)) (\<lambda>bencode.
               and_then (convert_dict io_convert_error ref_dict bencode (ascii ''ExtendedMessage'')) (\<lambda>ben_dict.
               Ok (extended_from_dict ben_dict raw))))
          else Incomplete (Size (cast_len - length bytes)))"

definition bencode_size :: "extended_message \<Rightarrow> nat" where
  "bencode_size m = length (raw_bencode m)"

text \<open>
  The result of writing the handshake id is dropped by the code: a failed write of that one byte
  leaves the writer as it was.
\<close>

definition extended_write_bytes :: "wire \<Rightarrow> extended_message \<Rightarrow> writer \<Rightarrow> writer io_result" where
  "extended_write_bytes w m wr =
     (let real_length = 2 + bencode_size m in
      and_then (write_length_id_pair w (word_of_nat real_length) (Some EXTENDED_MESSAGE_ID) wr) (\<lambda>wr.
        let wr' = (case write_all [EXTENDED_MESSAGE_HANDSHAKE_ID] wr of Ok wr' \<Rightarrow> wr' | _ \<Rightarrow> wr) in
        write_all (raw_bencode m) wr'))"

definition query_id :: "extended_message \<Rightarrow> extended_type \<Rightarrow> u8 option" where
  "query_id m ext_type = map_of (id_map m) ext_type"

definition bencode_ref_of :: "extended_message \<Rightarrow> (bencode_ref, 'e) outcome" where
  "bencode_ref_of m = unwrap (bencode_decode (raw_bencode m) bdecode_opt_default)"

datatype bits_extension_message = Port port_message | Extended extended_message

fun bits_ext_write_bytes :: "wire \<Rightarrow> bits_extension_message \<Rightarrow> writer \<Rightarrow> writer io_result" where
  "bits_ext_write_bytes w (Port m) wr = port_write_bytes w m wr"
| "bits_ext_write_bytes w (Extended m) wr = extended_write_bytes w m wr"

fun bits_ext_message_size :: "bits_extension_message \<Rightarrow> nat" where
  "bits_ext_message_size (Port m) = unat PORT_MESSAGE_LEN"
| "bits_ext_message_size (Extended m) = unat BASE_EXTENDED_MESSAGE_LEN + bencode_size m"

definition parse_extension :: "wire \<Rightarrow> bool \<Rightarrow> bytes \<Rightarrow> bits_extension_message message_result" where
  "parse_extension w chk bytes =
     alt_result
       (switch_on (throwaway_input (do_parse w (be_u32 w) (\<lambda>message_len. do_parse w (be_u8 w) (\<lambda>mid.
           value_p (message_len, mid))) bytes)) (\<lambda>(message_len, mid).
         if message_len = PORT_MESSAGE_LEN \<and> mid = PORT_MESSAGE_ID
         then split_off bytes HEADER_LEN (\<lambda>rest. map_message Port (port_parse_bytes w rest))
         else Error))
       (switch_on (throwaway_input (do_parse w (be_u32 w) (\<lambda>message_len. do_parse w (be_u8 w) (\<lambda>mid.
           do_parse w (be_u8 w) (\<lambda>ext_id. value_p (message_len, mid, ext_id)))) bytes)) (\<lambda>(message_len, mid, ext_id).
         if mid = EXTENDED_MESSAGE_ID \<and> ext_id = EXTENDED_MESSAGE_HANDSHAKE_ID
         then split_off bytes (HEADER_LEN + 1) (\<lambda>rest. with_arg (word_sub chk message_len 2) (\<lambda>len.
           map_message Extended (extended_parse_bytes rest len)))
         else Error))"

section \<open>The ut\_metadata messages\<close>

definition REQUEST_MESSAGE_TYPE_ID :: u8 where "REQUEST_MESSAGE_TYPE_ID = 0"
definition DATA_MESSAGE_TYPE_ID :: u8 where "DATA_MESSAGE_TYPE_ID = 1"
definition REJECT_MESSAGE_TYPE_ID :: u8 where "REJECT_MESSAGE_TYPE_ID = 2"
definition UT_MESSAGE_TYPE_KEY :: bytes where "UT_MESSAGE_TYPE_KEY = ascii ''msg_type''"
definition PIECE_INDEX_KEY :: bytes where "PIECE_INDEX_KEY = ascii ''piece''"
definition TOTAL_SIZE_KEY :: bytes where "TOTAL_SIZE_KEY = ascii ''total_size''"

definition parse_message_type :: "(bytes \<times> bencode_ref) list \<Rightarrow> u8 io_result" where
  "parse_message_type root =
     and_then (lookup_and_convert_int io_convert_error ref_int root UT_MESSAGE_TYPE_KEY) (\<lambda>t. Ok (word_of_int t))"

definition parse_piece_index :: "(bytes \<times> bencode_ref) list \<Rightarrow> int io_result" where
  "parse_piece_index root = lookup_and_convert_int io_convert_error ref_int root PIECE_INDEX_KEY"

definition parse_total_size :: "(bytes \<times> bencode_ref) list \<Rightarrow> int io_result" where
  "parse_total_size root = lookup_and_convert_int io_convert_error ref_int root TOTAL_SIZE_KEY"

text \<open>\<open>bt_ben_map!{...}.encode()\<close>.\<close>

definition ben_map_encode :: "(bytes \<times> bencode_mut) list \<Rightarrow> (bytes, 'e) outcome" where
  "ben_map_encode kvs = (case ben_map kvs of Some b \<Rightarrow> Ok (bencode_encode b) | None \<Rightarrow> Panic)"

record ut_metadata_request =
  utr_piece :: int
  utr_bencode_size :: nat

definition ut_request_entries :: "int \<Rightarrow> (bytes \<times> bencode_mut) list" where
  "ut_request_entries piece =
     [(UT_MESSAGE_TYPE_KEY, MInt (uint REQUEST_MESSAGE_TYPE_ID)), (PIECE_INDEX_KEY, MInt piece)]"

definition ut_request_new :: "int \<Rightarrow> (ut_metadata_request, 'e) outcome" where
  "ut_request_new piece =
     and_then (ben_map_encode (ut_request_entries piece)) (\<lambda>encoded. Ok
       \<lparr>utr_piece = piece, utr_bencode_size = length encoded\<rparr>)"

definition ut_request_write_bytes :: "ut_metadata_request \<Rightarrow> writer \<Rightarrow> writer io_result" where
  "ut_request_write_bytes m wr =
     and_then (ben_map_encode (ut_request_entries (utr_piece m))) (\<lambda>encoded. write_all encoded wr)"

record ut_metadata_data =
  utd_piece :: int
  utd_total_size :: int
  utd_data :: bytes
  utd_bencode_size :: nat

definition ut_data_entries :: "int \<Rightarrow> int \<Rightarrow> (bytes \<times> bencode_mut) list" where
  "ut_data_entries piece total_size =
     [(UT_MESSAGE_TYPE_KEY, MInt (uint DATA_MESSAGE_TYPE_ID)), (PIECE_INDEX_KEY, MInt piece),
      (TOTAL_SIZE_KEY, MInt total_size)]"

definition ut_data_new :: "int \<Rightarrow> int \<Rightarrow> bytes \<Rightarrow> (ut_metadata_data, 'e) outcome" where
  "ut_data_new piece total_size data =
     and_then (ben_map_encode (ut_data_entries piece total_size)) (\<lambda>encoded. Ok
       \<lparr>utd_piece = piece, utd_total_size = total_size, utd_data = data, utd_bencode_size = length encoded\<rparr>)"

definition ut_data_write_bytes :: "ut_metadata_data \<Rightarrow> writer \<Rightarrow> writer io_result" where
  "ut_data_write_bytes m wr =
     and_then (ben_map_encode (ut_data_entries (utd_piece m) (utd_total_size m))) (\<lambda>encoded.
     and_then (write_all encoded wr) (\<lambda>wr.
     write_all (utd_data m) wr))"

record ut_metadata_reject =
  utj_piece :: int
  utj_bencode_size :: nat

definition ut_reject_entries :: "int \<Rightarrow> (bytes \<times> bencode_mut) list" where
  "ut_reject_entries piece =
     [(UT_MESSAGE_TYPE_KEY, MInt (uint REJECT_MESSAGE_TYPE_ID)), (PIECE_INDEX_KEY, MInt piece)]"

definition ut_reject_new :: "int \<Rightarrow> (ut_metadata_reject, 'e) outcome" where
  "ut_reject_new piece =
     and_then (ben_map_encode (ut_reject_entries piece)) (\<lambda>encoded. Ok
       \<lparr>utj_piece = piece, utj_bencode_size = length encoded\<rparr>)"

definition ut_reject_write_bytes :: "ut_metadata_reject \<Rightarrow> writer \<Rightarrow> writer io_result" where
  "ut_reject_write_bytes m wr =
     and_then (ben_map_encode (ut_reject_entries (utj_piece m))) (\<lambda>encoded. write_all encoded wr)"

datatype ut_metadata_message =
    UtRequest ut_metadata_request | UtData ut_metadata_data | UtReject ut_metadata_reject

definition ut_metadata_parse_bytes :: "bytes \<Rightarrow> ut_metadata_message io_result" where
  "ut_metadata_parse_bytes bytes =
     and_then (map_err (bencode_decode bytes
         \<lparr>max_recursion = 2, check_key_sort = False, enforce_full_decode = False\<rparr>) (\<lambda>_. OtherError)) (\<lambda>bencode.
     and_then (convert_dict io_convert_error ref_dict bencode (ascii ''PeerExtensionProtocolMessage'')) (\<lambda>bencode_dict.
     and_then (parse_message_type bencode_dict) (\<lambda>msg_type.
     and_then (parse_piece_index bencode_dict) (\<lambda>piece.
       let blen = length (buffer bencode) in
       if length bytes < blen then Panic
       else
         let bencode_bytes = take blen bytes; extra_bytes = drop blen bytes in
         if msg_type = REQUEST_MESSAGE_TYPE_ID
         then Ok (UtRequest \<lparr>utr_piece = piece, utr_bencode_size = length bencode_bytes\<rparr>)
         else if msg_type = REJECT_MESSAGE_TYPE_ID
         then Ok (UtReject \<lparr>utj_piece = piece, utj_bencode_size = length bencode_bytes\<rparr>)
         else if msg_type = DATA_MESSAGE_TYPE_ID
         then and_then (parse_total_size bencode_dict) (\<lambda>total_size.
           Ok (UtData \<lparr>utd_piece = piece, utd_total_size = total_size, utd_data = extra_bytes,
             utd_bencode_size = length bencode_bytes\<rparr>))
         else Err OtherError))))"

fun ut_metadata_write_bytes :: "ut_metadata_message \<Rightarrow> writer \<Rightarrow> writer io_result" where
  "ut_metadata_write_bytes (UtRequest m) wr = ut_request_write_bytes m wr"
| "ut_metadata_write_bytes (UtData m) wr = ut_data_write_bytes m wr"
| "ut_metadata_write_bytes (UtReject m) wr = ut_reject_write_bytes m wr"

fun ut_metadata_message_size :: "ut_metadata_message \<Rightarrow> nat" where
  "ut_metadata_message_size (UtRequest m) = utr_bencode_size m"
| "ut_metadata_message_size (UtData m) = utd_bencode_size m + length (utd_data m)"
| "ut_metadata_message_size (UtReject m) = utj_bencode_size m"

section \<open>Messages of the extension protocol\<close>

text \<open>
  The variant \<open>Custom\<close> carries a value of the empty enumeration \<open>NullProtocolMessage\<close>: no such
  message exists, and the type has none here.
\<close>

datatype peer_extension_protocol_message = UtMetadata ut_metadata_message

definition parse_extensions_with_id ::
    "bool \<Rightarrow> bytes \<Rightarrow> extended_message \<Rightarrow> u32 \<Rightarrow> u8 \<Rightarrow> peer_extension_protocol_message message_result" where
  "parse_extensions_with_id chk bytes extended_msg message_len message_id =
     with_arg (word_sub chk (ucast message_len :: u64) 2) (\<lambda>msg_len.
       split_off bytes EXTENSION_HEADER_LEN (\<lambda>temp_bytes.
         if length temp_bytes < unat msg_len then Done () (Err OtherError)
         else
           let msg_bytes = take (unat msg_len) temp_bytes;
               lt_metadata_id = query_id extended_msg UtMetadataType
           in done_result
             (if lt_metadata_id = Some message_id
              then and_then (ut_metadata_parse_bytes msg_bytes) (\<lambda>m. Ok (UtMetadata m))
              else Err OtherError)))"

definition parse_extensions ::
    "wire \<Rightarrow> bool \<Rightarrow> bytes \<Rightarrow> extended_message \<Rightarrow> peer_extension_protocol_message message_result" where
  "parse_extensions w chk bytes extended_msg =
     switch_on (throwaway_input (do_parse w (be_u32 w) (\<lambda>message_len. do_parse w (be_u8 w) (\<lambda>mid.
         do_parse w (be_u8 w) (\<lambda>message_id. value_p (message_len, mid, message_id)))) bytes))
       (\<lambda>(message_len, mid, message_id).
         if mid = EXTENDED_MESSAGE_ID then parse_extensions_with_id chk bytes extended_msg message_len message_id
         else Error)"

definition prot_ext_parse_bytes ::
    "wire \<Rightarrow> bool \<Rightarrow> bytes \<Rightarrow> extended_message option \<Rightarrow> peer_extension_protocol_message io_result" where
  "prot_ext_parse_bytes w chk bytes extended =
     (case extended of
        Some extended_msg \<Rightarrow>
          (case parse_extensions w chk bytes extended_msg of
             Done u r \<Rightarrow> r
           | Stuck \<Rightarrow> Panic
           | _ \<Rightarrow> Err OtherError)
      | None \<Rightarrow> Err OtherError)"

fun prot_ext_message_size :: "peer_extension_protocol_message \<Rightarrow> nat" where
  "prot_ext_message_size (UtMetadata m) = ut_metadata_message_size m"

fun prot_ext_write_bytes ::
    "wire \<Rightarrow> peer_extension_protocol_message \<Rightarrow> extended_message option \<Rightarrow> writer \<Rightarrow> writer io_result" where
  "prot_ext_write_bytes w (UtMetadata m) (Some extended_msg) wr =
     (case query_id extended_msg UtMetadataType of
        None \<Rightarrow> Err OtherError
      | Some ext_id \<Rightarrow>
          let total_len = word_of_nat (2 + ut_metadata_message_size m) in
          and_then (write_length_id_pair w total_len (Some EXTENDED_MESSAGE_ID) wr) (\<lambda>wr.
          and_then (write_all [ext_id] wr) (\<lambda>wr.
          ut_metadata_write_bytes m wr)))"
| "prot_ext_write_bytes w (UtMetadata m) None wr = Err OtherError"

section \<open>All messages\<close>

datatype peer_message =
    KeepAlive | Choke | UnChoke | Interested | UnInterested
  | Have have_message | BitField bitfield_message | Request request_message
  | Piece piece_message | Cancel cancel_message
  | BitsExtension bits_extension_message
  | ProtExtension peer_extension_protocol_message

definition is_keep_alive :: "peer_message \<Rightarrow> bool" where
  "is_keep_alive m = (case m of KeepAlive \<Rightarrow> True | _ \<Rightarrow> False)"

definition bytes_needed :: "wire \<Rightarrow> bytes \<Rightarrow> nat option io_result" where
  "bytes_needed w bytes =
     (case be_u32 w bytes of
        Done r len \<Rightarrow>
          (case u32_to_usize len of Some n \<Rightarrow> Ok (Some (MESSAGE_LENGTH_LEN_BYTES + n)) | None \<Rightarrow> Panic)
      | _ \<Rightarrow> Ok None)"

fun message_write_bytes :: "wire \<Rightarrow> peer_message \<Rightarrow> extended_message option \<Rightarrow> writer \<Rightarrow> writer io_result" where
  "message_write_bytes w KeepAlive extended wr = write_length_id_pair w KEEP_ALIVE_MESSAGE_LEN None wr"
| "message_write_bytes w Choke extended wr = write_length_id_pair w CHOKE_MESSAGE_LEN (Some CHOKE_MESSAGE_ID) wr"
| "message_write_bytes w UnChoke extended wr = write_length_id_pair w UNCHOKE_MESSAGE_LEN (Some UNCHOKE_MESSAGE_ID) wr"
| "message_write_bytes w Interested extended wr =
     write_length_id_pair w INTERESTED_MESSAGE_LEN (Some INTERESTED_MESSAGE_ID) wr"
| "message_write_bytes w UnInterested extended wr =
     write_length_id_pair w UNINTERESTED_MESSAGE_LEN (Some UNINTERESTED_MESSAGE_ID) wr"
| "message_write_bytes w (Have m) extended wr = have_write_bytes w m wr"
| "message_write_bytes w (BitField m) extended wr = bitfield_write_bytes w m wr"
| "message_write_bytes w (Request m) extended wr = request_write_bytes w m wr"
| "message_write_bytes w (Piece m) extended wr = piece_write_bytes w m wr"
| "message_write_bytes w (Cancel m) extended wr = cancel_write_bytes w m wr"
| "message_write_bytes w (BitsExtension m) extended wr = bits_ext_write_bytes w m wr"
| "message_write_bytes w (ProtExtension m) extended wr = prot_ext_write_bytes w m extended wr"

definition message_size :: "peer_message \<Rightarrow> nat" where
  "message_size m =
     MESSAGE_LENGTH_LEN_BYTES +
     (case m of
        KeepAlive \<Rightarrow> unat KEEP_ALIVE_MESSAGE_LEN
      | Choke \<Rightarrow> unat CHOKE_MESSAGE_LEN
      | UnChoke \<Rightarrow> unat UNCHOKE_MESSAGE_LEN
      | Interested \<Rightarrow> unat INTERESTED_MESSAGE_LEN
      | UnInterested \<Rightarrow> unat UNINTERESTED_MESSAGE_LEN
      | Have m \<Rightarrow> unat HAVE_MESSAGE_LEN
      | BitField m \<Rightarrow> unat BASE_BITFIELD_MESSAGE_LEN + length (bitfield_bytes m)
      | Request m \<Rightarrow> unat REQUEST_MESSAGE_LEN
      | Piece m \<Rightarrow> unat BASE_PIECE_MESSAGE_LEN + length (piece_block m)
      | Cancel m \<Rightarrow> unat CANCEL_MESSAGE_LEN
      | BitsExtension ext \<Rightarrow> bits_ext_message_size ext
      | ProtExtension ext \<Rightarrow> BASE_PROT_EXTENSION_MESSAGE_LEN + prot_ext_message_size ext)"

text \<open>The arms of the \<open>switch!\<close> on the length and the optional id, in order.\<close>

definition parse_standard :: "wire \<Rightarrow> bool \<Rightarrow> bytes \<Rightarrow> u32 \<Rightarrow> u8 option \<Rightarrow> peer_message message_result" where
  "parse_standard w chk bytes message_len opt_id =
     (if message_len = KEEP_ALIVE_MESSAGE_LEN \<and> opt_id = None then Done () (Ok KeepAlive)
      else if message_len = KEEP_ALIVE_MESSAGE_LEN \<and> opt_id = Some 0 then Done () (Ok KeepAlive)
      else if message_len = CHOKE_MESSAGE_LEN \<and> opt_id = Some CHOKE_MESSAGE_ID then Done () (Ok Choke)
      else if message_len = UNCHOKE_MESSAGE_LEN \<and> opt_id = Some UNCHOKE_MESSAGE_ID then Done () (Ok UnChoke)
      else if message_len = INTERESTED_MESSAGE_LEN \<and> opt_id = Some INTERESTED_MESSAGE_ID then Done () (Ok Interested)
      else if message_len = UNINTERESTED_MESSAGE_LEN \<and> opt_id = Some UNINTERESTED_MESSAGE_ID
      then Done () (Ok UnInterested)
      else if message_len = HAVE_MESSAGE_LEN \<and> opt_id = Some HAVE_MESSAGE_ID
      then split_off bytes HEADER_LEN (\<lambda>rest. map_message Have (have_parse_bytes w rest))
      else if opt_id = Some BITFIELD_MESSAGE_ID
      then split_off bytes HEADER_LEN (\<lambda>rest. with_arg (word_sub chk message_len 1) (\<lambda>len.
        map_message BitField (bitfield_parse_bytes rest len)))
      else if message_len = REQUEST_MESSAGE_LEN \<and> opt_id = Some REQUEST_MESSAGE_ID
      then split_off bytes HEADER_LEN (\<lambda>rest. map_message Request (request_parse_bytes w rest))
      else if opt_id = Some PIECE_MESSAGE_ID
      then split_off bytes HEADER_LEN (\<lambda>rest. with_arg (word_sub chk message_len 1) (\<lambda>len.
        map_message Piece (piece_parse_bytes w chk rest len)))
      else if message_len = CANCEL_MESSAGE_LEN \<and> opt_id = Some CANCEL_MESSAGE_ID
      then split_off bytes HEADER_LEN (\<lambda>rest. map_message Cancel (cancel_parse_bytes w rest))
      else Error)"

definition parse_message :: "wire \<Rightarrow> bool \<Rightarrow> bytes \<Rightarrow> extended_message option \<Rightarrow> peer_message message_result" where
  "parse_message w chk bytes extended =
     alt_result
       (switch_on (throwaway_input (do_parse w (be_u32 w) (\<lambda>message_len. do_parse w (opt_u8 w) (\<lambda>opt_id.
           value_p (message_len, opt_id))) bytes))
         (\<lambda>(message_len, opt_id). parse_standard w chk bytes message_len opt_id))
       (alt_result (map_message BitsExtension (parse_extension w chk bytes))
         (map_message ProtExtension (done_result (prot_ext_parse_bytes w chk bytes extended))))"

definition message_parse_bytes :: "wire \<Rightarrow> bool \<Rightarrow> bytes \<Rightarrow> extended_message option \<Rightarrow> peer_message io_result" where
  "message_parse_bytes w chk bytes extended =
     (case parse_message w chk bytes extended of
        Done u r \<Rightarrow> r
      | Stuck \<Rightarrow> Panic
      | _ \<Rightarrow> Err OtherError)"

section \<open>The codec\<close>

record peer_codec =
  our_extended_msg :: "extended_message option"
  their_extended_msg :: "extended_message option"

definition peer_codec_new :: peer_codec where
  "peer_codec_new = \<lparr>our_extended_msg = None, their_extended_msg = None\<rparr>"

definition codec_parse_bytes :: "wire \<Rightarrow> bool \<Rightarrow> bytes \<Rightarrow> peer_codec \<Rightarrow> peer_message io_result \<times> peer_codec" where
  "codec_parse_bytes w chk bytes c =
     (case message_parse_bytes w chk bytes (our_extended_msg c) of
        Ok (BitsExtension (Extended msg)) \<Rightarrow>
          (Ok (BitsExtension (Extended msg)), c\<lparr>their_extended_msg := Some msg\<rparr>)
      | other \<Rightarrow> (other, c))"

definition codec_write_bytes ::
    "wire \<Rightarrow> peer_message \<Rightarrow> writer \<Rightarrow> peer_codec \<Rightarrow> writer io_result \<times> peer_codec" where
  "codec_write_bytes w message wr c =
     (case (message_write_bytes w message (their_extended_msg c) wr, message) of
        (Ok wr', BitsExtension (Extended msg)) \<Rightarrow> (Ok wr', c\<lparr>our_extended_msg := Some msg\<rparr>)
      | (other, _) \<Rightarrow> (other, c))"

end
