(* ===== verification/Peer_Message_Props.thy ===== *)
theory Peer_Message_Props
  imports Peer_Message
begin

unbundle bit_operations_syntax

text \<open>
  What the peer wire messages promise: the format every writer produces, that the parser gives the
  message back whatever follows it, that a message cut short is never taken for another one, that the
  size a message reports is the number of bytes it occupies, and that the extended message built from a
  builder announces what the builder was given.
\<close>

section \<open>The format\<close>

lemmas peer_consts =
  KEEP_ALIVE_MESSAGE_LEN_def CHOKE_MESSAGE_LEN_def UNCHOKE_MESSAGE_LEN_def INTERESTED_MESSAGE_LEN_def
  UNINTERESTED_MESSAGE_LEN_def HAVE_MESSAGE_LEN_def BASE_BITFIELD_MESSAGE_LEN_def REQUEST_MESSAGE_LEN_def
  BASE_PIECE_MESSAGE_LEN_def CANCEL_MESSAGE_LEN_def CHOKE_MESSAGE_ID_def UNCHOKE_MESSAGE_ID_def
  INTERESTED_MESSAGE_ID_def UNINTERESTED_MESSAGE_ID_def HAVE_MESSAGE_ID_def BITFIELD_MESSAGE_ID_def
  REQUEST_MESSAGE_ID_def PIECE_MESSAGE_ID_def CANCEL_MESSAGE_ID_def MESSAGE_LENGTH_LEN_BYTES_def HEADER_LEN_def
  BASE_PROT_EXTENSION_MESSAGE_LEN_def PORT_MESSAGE_LEN_def BASE_EXTENDED_MESSAGE_LEN_def PORT_MESSAGE_ID_def
  EXTENDED_MESSAGE_ID_def EXTENDED_MESSAGE_HANDSHAKE_ID_def EXTENSION_HEADER_LEN_def
  REQUEST_MESSAGE_TYPE_ID_def DATA_MESSAGE_TYPE_ID_def REJECT_MESSAGE_TYPE_ID_def

text \<open>The bencode part of a \<open>ut_metadata\<close> message, as a value, and what follows it.\<close>

fun ut_entries :: "ut_metadata_message \<Rightarrow> (bytes \<times> bencode_mut) list" where
  "ut_entries (UtRequest m) = ut_request_entries (utr_piece m)"
| "ut_entries (UtData m) = ut_data_entries (utd_piece m) (utd_total_size m)"
| "ut_entries (UtReject m) = ut_reject_entries (utj_piece m)"

fun ut_extra :: "ut_metadata_message \<Rightarrow> bytes" where
  "ut_extra (UtData m) = utd_data m"
| "ut_extra _ = []"

definition ut_bencode :: "ut_metadata_message \<Rightarrow> bytes" where
  "ut_bencode m = bencoding (MDict (ut_entries m))"

text \<open>The id and content of a message; \<open>u\<close> is the receiver's id for \<open>ut_metadata\<close>.\<close>

fun payload :: "wire \<Rightarrow> u8 \<Rightarrow> peer_message \<Rightarrow> bytes" where
  "payload w u KeepAlive = []"
| "payload w u Choke = [0]"
| "payload w u UnChoke = [1]"
| "payload w u Interested = [2]"
| "payload w u UnInterested = [3]"
| "payload w u (Have m) = 4 # put_u32 w (have_piece_index m)"
| "payload w u (BitField m) = 5 # bitfield_bytes m"
| "payload w u (Request m) =
     6 # put_u32 w (request_piece_index m) @ put_u32 w (request_block_offset m) @
     put_u32 w (word_of_nat (request_block_length m))"
| "payload w u (Piece m) = 7 # put_u32 w (piece_piece_index m) @ put_u32 w (piece_block_offset m) @ piece_block m"
| "payload w u (Cancel m) =
     8 # put_u32 w (cancel_piece_index m) @ put_u32 w (cancel_block_offset m) @
     put_u32 w (word_of_nat (cancel_block_length m))"
| "payload w u (BitsExtension (Port m)) = 9 # put_u16 w (port_port m)"
| "payload w u (BitsExtension (Extended m)) = 20 # 0 # raw_bencode m"
| "payload w u (ProtExtension (UtMetadata m)) = 20 # u # ut_bencode m @ ut_extra m"

definition message_encoding :: "wire \<Rightarrow> u8 \<Rightarrow> peer_message \<Rightarrow> bytes" where
  "message_encoding w u m = put_u32 w (word_of_nat (length (payload w u m))) @ payload w u m"

text \<open>\<open>HashMap\<close>s are equal when they map the same keys to the same values; the other fields are compared.\<close>

definition extended_eq :: "extended_message \<Rightarrow> extended_message \<Rightarrow> bool" where
  "extended_eq a b \<longleftrightarrow> map_of (id_map a) = map_of (id_map b) \<and> a\<lparr>id_map := []\<rparr> = b\<lparr>id_map := []\<rparr>"

fun message_eq :: "peer_message \<Rightarrow> peer_message \<Rightarrow> bool" where
  "message_eq (BitsExtension (Extended a)) m =
     (case m of BitsExtension (Extended b) \<Rightarrow> extended_eq a b | _ \<Rightarrow> False)"
| "message_eq a m = (a = m)"

text \<open>
  The messages a program means to send: numbers fit the width they are written with, the raw bencode of an
  extended message says what its fields say, the recorded size of a \<open>ut_metadata\<close> message is its size.
\<close>

definition extended_ok :: "extended_message \<Rightarrow> bool" where
  "extended_ok m \<longleftrightarrow>
     (case bencode_decode (raw_bencode m) bdecode_opt_default of
        Ok r \<Rightarrow> (case ref_dict r of Some d \<Rightarrow> extended_eq (extended_from_dict d (raw_bencode m)) m | None \<Rightarrow> False)
      | _ \<Rightarrow> False)"

fun ut_ok :: "ut_metadata_message \<Rightarrow> bool" where
  "ut_ok (UtRequest m) \<longleftrightarrow> i64_range (utr_piece m) \<and> utr_bencode_size m = length (ut_bencode (UtRequest m))"
| "ut_ok (UtData m) \<longleftrightarrow> i64_range (utd_piece m) \<and> i64_range (utd_total_size m) \<and>
     utd_bencode_size m = length (ut_bencode (UtData m))"
| "ut_ok (UtReject m) \<longleftrightarrow> i64_range (utj_piece m) \<and> utj_bencode_size m = length (ut_bencode (UtReject m))"

fun message_fields_ok :: "peer_message \<Rightarrow> bool" where
  "message_fields_ok (Request m) \<longleftrightarrow> request_block_length m < 2 ^ 32"
| "message_fields_ok (Cancel m) \<longleftrightarrow> cancel_block_length m < 2 ^ 32"
| "message_fields_ok (BitsExtension (Extended m)) \<longleftrightarrow> extended_ok m"
| "message_fields_ok (ProtExtension (UtMetadata m)) \<longleftrightarrow> ut_ok m"
| "message_fields_ok _ \<longleftrightarrow> True"

definition message_ok :: "peer_message \<Rightarrow> bool" where
  "message_ok m \<longleftrightarrow> message_fields_ok m \<and> message_size m < 2 ^ 32"

text \<open>The receiver's id for \<open>ut_metadata\<close> that the sender was told, where the message needs one.\<close>

fun is_prot_extension :: "peer_message \<Rightarrow> bool" where
  "is_prot_extension (ProtExtension m) = True"
| "is_prot_extension _ = False"

definition ut_id_known :: "extended_message option \<Rightarrow> u8 \<Rightarrow> bool" where
  "ut_id_known ext u \<longleftrightarrow> u \<noteq> 0 \<and> (\<exists>e. ext = Some e \<and> query_id e UtMetadataType = Some u)"

section \<open>Writing\<close>

lemma u32_to_usize_eq [simp]: "u32_to_usize v = Some (unat v)"
  proof -
  have "unat (ucast v :: u64) = unat v" using unsigned_less [of v, where ?'a = nat]
    by (simp add: unsigned_ucast_eq take_bit_nat_eq_self)
  moreover have "ucast (ucast v :: u64) = v" by transfer simp
  ultimately show ?thesis by (simp add: u32_to_usize_def)
qed

lemma ascii_key_order [simp]:
  "UT_MESSAGE_TYPE_KEY < PIECE_INDEX_KEY" "PIECE_INDEX_KEY < TOTAL_SIZE_KEY" "UT_MESSAGE_TYPE_KEY < TOTAL_SIZE_KEY"
  "\<not> PIECE_INDEX_KEY < UT_MESSAGE_TYPE_KEY" "\<not> TOTAL_SIZE_KEY < PIECE_INDEX_KEY" "\<not> TOTAL_SIZE_KEY < UT_MESSAGE_TYPE_KEY"
  "PIECE_INDEX_KEY \<noteq> UT_MESSAGE_TYPE_KEY" "TOTAL_SIZE_KEY \<noteq> PIECE_INDEX_KEY" "TOTAL_SIZE_KEY \<noteq> UT_MESSAGE_TYPE_KEY"
  by code_simp+

lemma ben_map_ut_entries: "ben_map (ut_entries m) = Some (MDict (ut_entries m))"
  by (cases m)
     (simp_all add: ut_request_entries_def ut_data_entries_def ut_reject_entries_def ben_map_def new_dict_def
       dict_new_def dict_insert_def)

lemma ben_map_encode_ut [simp]:
  "ben_map_encode (ut_request_entries i) = Ok (bencoding (MDict (ut_request_entries i)))"
  "ben_map_encode (ut_data_entries i j) = Ok (bencoding (MDict (ut_data_entries i j)))"
  "ben_map_encode (ut_reject_entries i) = Ok (bencoding (MDict (ut_reject_entries i)))"
  using ben_map_ut_entries [of "UtRequest \<lparr>utr_piece = i, utr_bencode_size = 0\<rparr>"]
    ben_map_ut_entries [of "UtData \<lparr>utd_piece = i, utd_total_size = j, utd_data = [], utd_bencode_size = 0\<rparr>"]
    ben_map_ut_entries [of "UtReject \<lparr>utj_piece = i, utj_bencode_size = 0\<rparr>"]
  by (simp_all add: ben_map_encode_def bencode_encode_def encode_append)

lemma ut_metadata_written: "ut_metadata_write_bytes m = write_all (ut_bencode m @ ut_extra m)"
  by (rule ext, cases m)
     (simp_all add: ut_request_write_bytes_def ut_data_write_bytes_def ut_reject_write_bytes_def ut_bencode_def write_simps)

lemma ut_message_size: "ut_ok m \<Longrightarrow> ut_metadata_message_size m = length (ut_bencode m @ ut_extra m)"
  by (cases m) (auto simp: ut_bencode_def)

lemma write_length_id_pair_eq:
  "write_length_id_pair w len (Some i) wr = write_all (put_u32 w len @ [i]) wr"
  "write_length_id_pair w len None wr = write_all (put_u32 w len) wr"
  by (simp_all add: write_length_id_pair_def write_simps)

text \<open>Dropping the result of the one-byte write changes nothing when more bytes follow.\<close>

lemma write_ignored:
  assumes "bs \<noteq> []"
  shows "and_then (write_all a wr) (\<lambda>wr. write_all bs (case write_all [b] wr of Ok wr' \<Rightarrow> wr' | _ \<Rightarrow> wr)) =
    write_all (a @ b # bs) wr"
  using assms by (cases wr) (auto split: if_splits simp: Suc_le_eq length_greater_0_conv [symmetric] simp del: length_greater_0_conv)

lemma extended_ok_not_Nil: "extended_ok m \<Longrightarrow> raw_bencode m \<noteq> []"
  by (auto simp: extended_ok_def bencode_decode_def decode.simps [of "[]"] peek_byte_def get_slice_def bdecode_opt_default_def)

lemma message_size_payload:
  assumes "wire_ok w" and "message_fields_ok m"
  shows "message_size m = 4 + length (payload w u m)"
  using assms
  by (cases "(w, u, m)" rule: payload.cases)
     (auto simp: message_size_def peer_consts bencode_size_def ut_message_size)

lemma length_message_encoding:
  assumes "wire_ok w" and "message_fields_ok m"
  shows "length (message_encoding w u m) = message_size m"
  using assms by (simp add: message_encoding_def message_size_payload [of w m u])

lemma message_written:
  assumes w: "wire_ok w" and m: "message_fields_ok m" and u: "is_prot_extension m \<Longrightarrow> ut_id_known ext u"
  shows "message_write_bytes w m ext wr = write_all (message_encoding w u m) wr"
proof (cases "(w, u, m)" rule: payload.cases)
  case (12 w' u' e)
  then show ?thesis
    using m extended_ok_not_Nil [of e]
    by (simp add: message_encoding_def extended_write_bytes_def bencode_size_def Let_def peer_consts write_ignored
      write_length_id_pair_eq)
next
  case (13 w' u' e)
  with u obtain e' where "ext = Some e'" and "query_id e' UtMetadataType = Some u" by (auto simp: ut_id_known_def)
  with 13 m show ?thesis
    by (simp add: message_encoding_def ut_metadata_written Let_def peer_consts write_length_id_pair_eq ut_message_size write_simps)
qed (use w in \<open>simp_all add: message_encoding_def peer_consts write_length_id_pair_eq have_write_bytes_def
  bitfield_write_bytes_def request_write_bytes_def piece_write_bytes_def cancel_write_bytes_def port_write_bytes_def
  Let_def write_simps\<close>)

section \<open>Parsing what was written\<close>

lemma alt_result_simps [simp]:
  "alt_result Error q = q" "alt_result (Done () r) q = Done () r" "alt_result (Incomplete n) q = Incomplete n"
  "alt_result Stuck q = Stuck"
  by (simp_all add: alt_result_def)

lemma parse_message_head:
  assumes "wire_ok w"
  shows "parse_message w chk (put_u32 w len @ i # r) ext =
    alt_result (parse_standard w chk (put_u32 w len @ i # r) len (Some i))
      (alt_result (map_message BitsExtension (parse_extension w chk (put_u32 w len @ i # r)))
        (map_message ProtExtension (done_result (prot_ext_parse_bytes w chk (put_u32 w len @ i # r) ext))))"
  using assms by (simp add: parse_message_def do_parse_def wire_simps wire_opt)

lemma parse_extension_head:
  assumes "wire_ok w"
  shows "parse_extension w chk (put_u32 w len @ i # j # r) =
    (if len = 3 \<and> i = 9 then map_message Port (port_parse_bytes w (j # r))
     else if i = 20 \<and> j = 0 then with_arg (word_sub chk len 2) (\<lambda>n. map_message Extended (extended_parse_bytes r n))
     else Error)"
  using assms by (auto simp: parse_extension_def do_parse_def wire_simps peer_consts split_off_def alt_result_def
    port_parse_bytes_def split: iresult.splits)

lemma split_off_head [simp]: "wire_ok w \<Longrightarrow> split_off (put_u32 w len @ i # r) HEADER_LEN f = f r"
  by (simp add: split_off_def peer_consts)

lemma with_arg_Ok [simp]: "with_arg (Ok x) f = f x" "with_arg Panic f = Stuck"
  by (simp_all add: with_arg_def)

lemma word_sub_le: "unat b \<le> unat a \<Longrightarrow> word_sub chk a b = Ok (a - b)"
  by (simp add: word_sub_def)

lemma unat_u32: "n < 2 ^ 32 \<Longrightarrow> unat (word_of_nat n :: u32) = n"
  by (simp add: unat_of_nat)

lemma with_usize_eq [simp]: "with_usize v f = f (unat v)"
  by (simp add: with_usize_def)

text \<open>Every input of at least five bytes is a length, an id and a rest.\<close>

lemma bytes_header:
  assumes "wire_ok w" and "4 < length bytes"
  obtains len i r where "bytes = put_u32 w len @ i # r"
proof -
  have "put_u32 w (be_word (take 4 bytes)) = take 4 bytes"
    using assms be_bytes_be_word [of "take 4 bytes", where ?'w = 32] by (simp add: wire_ok_def)
  moreover have "drop 4 bytes = bytes ! 4 # drop 5 bytes"
    using assms(2) Cons_nth_drop_Suc [of 4 bytes] by simp
  ultimately have "bytes = put_u32 w (be_word (take 4 bytes)) @ bytes ! 4 # drop 5 bytes"
    by (metis append_take_drop_id)
  then show thesis by (rule that)
qed

lemma request_parsed:
  assumes "wire_ok w" and "n < 2 ^ 32"
  shows "request_parse_bytes w (put_u32 w a @ put_u32 w b @ put_u32 w (word_of_nat n) @ r) =
      Done () (Ok \<lparr>request_piece_index = a, request_block_offset = b, request_block_length = n\<rparr>)"
    and "cancel_parse_bytes w (put_u32 w a @ put_u32 w b @ put_u32 w (word_of_nat n) @ r) =
      Done () (Ok \<lparr>cancel_piece_index = a, cancel_block_offset = b, cancel_block_length = n\<rparr>)"
  using assms by (simp_all add: request_parse_bytes_def cancel_parse_bytes_def do_parse_def wire_simps unat_of_nat)

lemma piece_parsed:
  assumes "wire_ok w" and "8 + length blk < 2 ^ 32"
  shows "piece_parse_bytes w chk (put_u32 w a @ put_u32 w b @ blk @ r) (word_of_nat (8 + length blk)) =
    Done () (Ok \<lparr>piece_piece_index = a, piece_block_offset = b, piece_block = blk\<rparr>)"
proof -
  have "unat (word_of_nat (8 + length blk) :: u32) = 8 + length blk" using assms(2) by (rule unat_u32)
  then have sub: "word_sub chk (word_of_nat (8 + length blk) :: u32) 8 = (Ok (word_of_nat (length blk)) :: u32 io_result)"
    by (subst word_sub_le) simp_all
  show ?thesis
    using assms by (simp add: sub [simplified of_nat_add of_nat_numeral] piece_parse_bytes_def do_parse_def map_p_def wire_simps unat_of_nat segment_def)
qed

lemma extended_parsed:
  assumes "extended_ok e" and "length (raw_bencode e) < 2 ^ 32"
  shows "\<exists>e'. extended_parse_bytes (raw_bencode e @ r) (word_of_nat (length (raw_bencode e))) = Done () (Ok e') \<and>
    extended_eq e' e"
  using assms by (auto simp: extended_parse_bytes_def extended_ok_def unat_of_nat convert_dict_def Let_def
    split: outcome.splits option.splits)

lemma bencode_decode_prefix:
  assumes "ben_wf b" and "ben_height b \<le> max_recursion opts" and "\<not> enforce_full_decode opts"
  shows "bencode_decode (bencoding b @ r) opts = Ok (ref_of b)"
  using decode_bencoding [OF assms(1), of 0 opts "[]" r] assms(2,3) by (simp add: bencode_decode_def)

lemma ut_metadata_parsed:
  assumes "ut_ok m"
  shows "ut_metadata_parse_bytes (ut_bencode m @ ut_extra m) = Ok m"
proof -
  let ?opts = "\<lparr>max_recursion = 2, check_key_sort = False, enforce_full_decode = False\<rparr>"
  let ?b = "MDict (ut_entries m)"
  have keys: "length UT_MESSAGE_TYPE_KEY < 2 ^ 63" "length PIECE_INDEX_KEY < 2 ^ 63" "length TOTAL_SIZE_KEY < 2 ^ 63"
    by (simp_all add: UT_MESSAGE_TYPE_KEY_def PIECE_INDEX_KEY_def TOTAL_SIZE_KEY_def ascii_def)
  have "ben_wf ?b" and "ben_height ?b \<le> 2"
    using assms keys by (cases m; simp add: ut_request_entries_def ut_data_entries_def ut_reject_entries_def btree_wf_def
      i64_range_def peer_consts)+
  then have "bencode_decode (ut_bencode m @ ut_extra m) ?opts = Ok (ref_of ?b)"
    unfolding ut_bencode_def by (intro bencode_decode_prefix) simp_all
  moreover have "length (buffer (ref_of ?b)) = length (ut_bencode m)" by (simp add: ut_bencode_def)
  ultimately show ?thesis
    using assms
    by (cases m) (simp_all add: ut_metadata_parse_bytes_def convert_defs dict_lookup_def parse_message_type_def
      parse_piece_index_def parse_total_size_def ut_request_entries_def ut_data_entries_def ut_reject_entries_def
      peer_consts Let_def)
qed

lemma unat_ucast_sub_2:
  assumes "2 \<le> unat (len :: u32)"
  shows "word_sub chk (ucast len :: u64) 2 = (Ok (ucast len - 2) :: u64 io_result)"
    and "unat ((ucast len :: u64) - 2) = unat len - 2"
proof -
  have len: "unat (ucast len :: u64) = unat len"
    using unsigned_less [of len, where ?'a = nat] by (simp add: unsigned_ucast_eq take_bit_nat_eq_self)
  with assms have le: "(2 :: u64) \<le> ucast len" by (simp add: word_le_nat_alt)
  show "word_sub chk (ucast len :: u64) 2 = (Ok (ucast len - 2) :: u64 io_result)"
    using assms len by (simp add: word_sub_le)
  show "unat ((ucast len :: u64) - 2) = unat len - 2" using le len by (simp add: unat_sub)
qed

lemma prot_ext_head:
  assumes "wire_ok w"
  shows "prot_ext_parse_bytes w chk (put_u32 w len @ i # j # r) (Some e) =
    (if i = 20 then
       (case parse_extensions_with_id chk (put_u32 w len @ i # j # r) e len j of
          Done u res \<Rightarrow> res | Stuck \<Rightarrow> Panic | _ \<Rightarrow> Err OtherError)
     else Err OtherError)"
  using assms by (simp add: prot_ext_parse_bytes_def parse_extensions_def do_parse_def wire_simps peer_consts)

lemma parse_extensions_with_id_eq:
  assumes "wire_ok w" and "2 \<le> unat len"
  shows "parse_extensions_with_id chk (put_u32 w len @ i # j # r) e len j =
    (if length r < unat len - 2 then Done () (Err OtherError)
     else done_result
       (if query_id e UtMetadataType = Some j
        then and_then (ut_metadata_parse_bytes (take (unat len - 2) r)) (\<lambda>m. Ok (UtMetadata m))
        else Err OtherError))"
  using assms by (simp add: parse_extensions_with_id_def unat_ucast_sub_2 split_off_def peer_consts)

text \<open>The parser on one encoded message, whatever follows it. A keep-alive needs the following byte to be zero.\<close>

lemma parse_message_encoding:
  assumes w: "wire_ok w" and m: "message_ok m"
    and u: "is_prot_extension m \<Longrightarrow> ut_id_known ext u"
    and k: "m = KeepAlive \<Longrightarrow> \<exists>r'. r = 0 # r'"
  shows "\<exists>m'. message_parse_bytes w chk (message_encoding w u m @ r) ext = Ok m' \<and> message_eq m' m"
proof -
  let ?len = "word_of_nat (length (payload w u m)) :: u32"
  have sz: "length (payload w u m) + 4 < 2 ^ 32"
    using m message_size_payload [OF w, of m u] by (simp add: message_ok_def)
  note enc = message_encoding_def message_parse_bytes_def parse_message_head parse_standard_def peer_consts
  have len: "unat ?len = length (payload w u m)" using sz by (simp add: unat_u32)
  show ?thesis
  proof (cases "(w, u, m)" rule: payload.cases)
    case (1 w' u')
    with k obtain r' where "r = 0 # r'" by auto
    with 1 w show ?thesis by (simp add: enc)
  next
    case (6 w' u' h)
    with w show ?thesis by (simp add: enc have_parse_bytes_def map_p_def wire_simps split_off_def)
  next
    case (7 w' u' h)
    then have "unat (1 + word_of_nat (length (bitfield_bytes h)) :: u32) = 1 + length (bitfield_bytes h)"
      using len by simp
    with 7 w sz show ?thesis by (simp add: enc bitfield_parse_bytes_def split_off_def word_sub_le unat_of_nat)
  next
    case (8 w' u' h)
    with w m show ?thesis by (simp add: enc message_ok_def split_off_def request_parsed)
  next
    case (9 w' u' h)
    then have n: "?len = word_of_nat (9 + length (piece_block h))" using w by simp
    have sub: "word_sub chk (word_of_nat (9 + length (piece_block h)) :: u32) 1 =
        (Ok (word_of_nat (8 + length (piece_block h))) :: u32 io_result)"
      using 9 w len unfolding n by (subst word_sub_le) simp_all
    with 9 w sz show ?thesis
      using piece_parsed [OF w, of "piece_block h" chk "piece_piece_index h" "piece_block_offset h" r]
      by (simp add: enc split_off_def sub [simplified of_nat_add of_nat_numeral])
  next
    case (10 w' u' h)
    with w m show ?thesis by (simp add: enc message_ok_def split_off_def request_parsed)
  next
    case (11 w' u' h)
    with w have "length (put_u16 w (port_port h)) = 2" by simp
    then obtain a b where ab: "put_u16 w (port_port h) = [a, b]"
      by (auto simp: length_Suc_conv numeral_2_eq_2)
    with w wire_put(2) [OF w, of "port_port h" r] have "be_u16 w (a # b # r) = Done r (port_port h)" by simp
    with 11 w ab show ?thesis
      by (simp add: enc parse_extension_head port_parse_bytes_def map_p_def)
  next
    case (12 w' u' e)
    then have n: "?len = word_of_nat (2 + length (raw_bencode e))" by simp
    have sub: "word_sub chk (word_of_nat (2 + length (raw_bencode e)) :: u32) 2 =
        (Ok (word_of_nat (length (raw_bencode e))) :: u32 io_result)"
      using 12 len unfolding n by (subst word_sub_le) simp_all
    from 12 m sz extended_parsed [of e r] obtain e' where
      "extended_parse_bytes (raw_bencode e @ r) (word_of_nat (length (raw_bencode e))) = Done () (Ok e')"
      and "extended_eq e' e"
      by (auto simp: message_ok_def)
    with 12 w show ?thesis
      by (simp add: enc parse_extension_head sub [simplified of_nat_add of_nat_numeral])
  next
    case (13 w' u' e)
    with u obtain x where x: "ext = Some x" "query_id x UtMetadataType = Some u" "u \<noteq> 0"
      by (auto simp: ut_id_known_def)
    let ?ut = "ut_bencode e @ ut_extra e"
    from 13 len have n: "unat ?len - 2 = length ?ut" "2 \<le> unat ?len" by simp_all
    from 13 m have "ut_metadata_parse_bytes ?ut = Ok e" by (simp add: message_ok_def ut_metadata_parsed)
    then have "prot_ext_parse_bytes w chk (put_u32 w ?len @ 20 # u # ?ut @ r) ext = Ok (UtMetadata e)"
      using n x by (simp only: prot_ext_head [OF w] parse_extensions_with_id_eq [OF w n(2)]) simp
    with 13 w x show ?thesis by (simp add: enc parse_extension_head)
  qed (use w in \<open>simp_all add: enc\<close>)
qed

section \<open>Messages cut short\<close>

lemma be_short:
  assumes "wire_ok w"
  shows "length i < 4 \<Longrightarrow> \<exists>n. be_u32 w i = Incomplete n" and "length i < 2 \<Longrightarrow> \<exists>n. be_u16 w i = Incomplete n"
    and "\<exists>n. be_u8 w [] = Incomplete n" and "length i < n \<Longrightarrow> \<exists>k. take_p w n i = Incomplete k"
  using reads_short [OF wire_reads(3) [OF assms]] reads_short [OF wire_reads(2) [OF assms]]
    reads_short [OF wire_reads(1) [OF assms], of "[]"] reads_short [OF wire_reads(7) [OF assms]]
  by auto

lemma be_u32_cases:
  assumes "wire_ok w"
  obtains n where "length i < 4" "be_u32 w i = Incomplete n" | x where "4 \<le> length i" "be_u32 w i = Done (drop 4 i) x"
  using be_short(1) [OF assms, of i] wire_reads(3) [OF assms] unfolding reads_def by (metis not_le)

lemma do_parse_Incomplete: "p i = Incomplete n \<Longrightarrow> do_parse w p f i = Incomplete n"
  by (simp add: do_parse_def)

lemma do_parse_more:
  "p i = Done r x \<Longrightarrow> \<exists>n. f x r = Incomplete n \<Longrightarrow> \<exists>n. do_parse w p f i = Incomplete n"
  by (auto simp: do_parse_def)

lemma be_u32_then_short:
  assumes "wire_ok w" and "length i < 4 + k" and "\<And>x r. length r < k \<Longrightarrow> \<exists>n. f x r = Incomplete n"
  shows "\<exists>n. do_parse w (be_u32 w) f i = Incomplete n"
proof (cases rule: be_u32_cases [OF assms(1), of i])
  case (2 x)
  have "length (drop 4 i) < k" using 2(1) assms(2) unfolding length_drop by linarith
  from do_parse_more [where p = "be_u32 w" and f = f and i = i, OF 2(2) assms(3) [OF this]] show ?thesis .
qed (auto intro: do_parse_Incomplete)

lemma throwaway_short: "\<exists>n. p = Incomplete n \<Longrightarrow> \<exists>n. throwaway_input p = Incomplete n"
  by auto

lemma body_short:
  assumes w: "wire_ok w"
  shows "length i < 4 \<Longrightarrow> \<exists>n. have_parse_bytes w i = Incomplete n"
    and "length i < 12 \<Longrightarrow> \<exists>n. request_parse_bytes w i = Incomplete n"
    and "length i < 12 \<Longrightarrow> \<exists>n. cancel_parse_bytes w i = Incomplete n"
    and "length i < 2 \<Longrightarrow> \<exists>n. port_parse_bytes w i = Incomplete n"
    and "length i < unat k \<Longrightarrow> \<exists>n. bitfield_parse_bytes i k = Incomplete n"
    and "length i < unat k \<Longrightarrow> \<exists>n. extended_parse_bytes i k = Incomplete n"
    and "8 \<le> unat k \<Longrightarrow> length i < unat k \<Longrightarrow> \<exists>n. piece_parse_bytes w chk i k = Incomplete n"
proof -
  note short = be_u32_then_short [OF w, where k = 4] be_u32_then_short [OF w, where k = 8]
  show "length i < 4 \<Longrightarrow> \<exists>n. have_parse_bytes w i = Incomplete n"
    using be_short(1) [OF w, of i] by (auto simp: have_parse_bytes_def map_p_def)
  show "length i < 2 \<Longrightarrow> \<exists>n. port_parse_bytes w i = Incomplete n"
    using be_short(2) [OF w, of i] by (auto simp: port_parse_bytes_def map_p_def)
  show "length i < unat k \<Longrightarrow> \<exists>n. bitfield_parse_bytes i k = Incomplete n"
    and "length i < unat k \<Longrightarrow> \<exists>n. extended_parse_bytes i k = Incomplete n"
    by (simp_all add: bitfield_parse_bytes_def extended_parse_bytes_def)
  show "length i < 12 \<Longrightarrow> \<exists>n. request_parse_bytes w i = Incomplete n"
    and "length i < 12 \<Longrightarrow> \<exists>n. cancel_parse_bytes w i = Incomplete n"
    unfolding request_parse_bytes_def cancel_parse_bytes_def
    by (intro throwaway_short short be_u32_then_short [OF w, where k = 0]; simp)+
  show "\<exists>n. piece_parse_bytes w chk i k = Incomplete n" if "8 \<le> unat k" "length i < unat k"
  proof -
    from that have k: "unat (k - 8) = unat k - 8" by (simp add: unat_sub word_le_nat_alt)
    from that have sub: "word_sub chk k 8 = (Ok (k - 8) :: u32 io_result)" by (simp add: word_sub_le)
    have "\<exists>n. do_parse w (map_p f (take_p w (unat (k - 8)))) g r = Incomplete n" if "length r < unat k - 8" for f g r
      using be_short(4) [OF w, of r "unat (k - 8)"] that k by (auto simp: do_parse_def map_p_def)
    then show ?thesis
      unfolding piece_parse_bytes_def sub outcome.case with_usize_eq using that k
      by (intro throwaway_short be_u32_then_short [OF w, where k = "unat k - 4"] be_u32_then_short [OF w, where k = "unat k - 8"]) simp_all
  qed
qed

lemma map_message_short: "\<exists>n. r = Incomplete n \<Longrightarrow> \<exists>n. map_message f r = Incomplete n"
  by auto

lemma parse_extension_short:
  assumes "wire_ok w"
  shows "\<exists>n. parse_extension w chk (put_u32 w len) = Incomplete n"
    and "\<exists>n. parse_extension w chk (put_u32 w len @ [i]) = Incomplete n"
proof -
  obtain n where n: "be_u8 w [] = Incomplete n" using be_short(3) [OF assms] by blast
  obtain k where k: "port_parse_bytes w [] = Incomplete k" using body_short(4) [OF assms, of "[]"] by auto
  have "be_u32 w (put_u32 w len) = Done [] len" using wire_put(3) [OF assms, of len "[]"] by simp
  with n show "\<exists>n. parse_extension w chk (put_u32 w len) = Incomplete n"
    by (simp add: parse_extension_def do_parse_def)
  show "\<exists>n. parse_extension w chk (put_u32 w len @ [i]) = Incomplete n"
    using assms n k by (simp add: parse_extension_def do_parse_def wire_simps)
qed

lemma message_parse_short:
  assumes w: "wire_ok w"
  shows "length p < 4 \<Longrightarrow> message_parse_bytes w chk p ext = Err OtherError"
    and "len \<noteq> 0 \<Longrightarrow> message_parse_bytes w chk (put_u32 w len) ext = Err OtherError"
proof -
  show "length p < 4 \<Longrightarrow> message_parse_bytes w chk p ext = Err OtherError"
    using be_short(1) [OF w, of p] by (auto simp: message_parse_bytes_def parse_message_def do_parse_def)
  obtain n where "parse_extension w chk (put_u32 w len) = Incomplete n" using parse_extension_short(1) [OF w] by blast
  moreover have "be_u32 w (put_u32 w len) = Done [] len" using wire_put(3) [OF w, of len "[]"] by simp
  ultimately show "len \<noteq> 0 \<Longrightarrow> message_parse_bytes w chk (put_u32 w len) ext = Err OtherError"
    using wire_opt(2) [OF w]
    by (auto simp: message_parse_bytes_def parse_message_def do_parse_def parse_standard_def peer_consts)
qed

lemma message_parse_Incomplete:
  assumes w: "wire_ok w"
  shows "\<exists>n. parse_standard w chk (put_u32 w len @ i # r) len (Some i) = Incomplete n \<Longrightarrow>
      message_parse_bytes w chk (put_u32 w len @ i # r) ext = Err OtherError"
    and "parse_standard w chk (put_u32 w len @ i # r) len (Some i) = Error \<Longrightarrow>
      \<exists>n. parse_extension w chk (put_u32 w len @ i # r) = Incomplete n \<Longrightarrow>
      message_parse_bytes w chk (put_u32 w len @ i # r) ext = Err OtherError"
  by (auto simp: message_parse_bytes_def parse_message_head [OF w])

lemma standard_arms:
  assumes "wire_ok w"
  shows "parse_standard w chk (put_u32 w 5 @ 4 # r) 5 (Some 4) = map_message Have (have_parse_bytes w r)"
    and "parse_standard w chk (put_u32 w len @ 5 # r) len (Some 5) =
      with_arg (word_sub chk len 1) (\<lambda>n. map_message BitField (bitfield_parse_bytes r n))"
    and "parse_standard w chk (put_u32 w 13 @ 6 # r) 13 (Some 6) = map_message Request (request_parse_bytes w r)"
    and "parse_standard w chk (put_u32 w len @ 7 # r) len (Some 7) =
      with_arg (word_sub chk len 1) (\<lambda>n. map_message Piece (piece_parse_bytes w chk r n))"
    and "parse_standard w chk (put_u32 w 13 @ 8 # r) 13 (Some 8) = map_message Cancel (cancel_parse_bytes w r)"
    and "parse_standard w chk bytes len (Some 9) = Error" and "parse_standard w chk bytes len (Some 20) = Error"
  using assms by (simp_all add: parse_standard_def split_off_def peer_consts)

lemma unat_eq: "unat (x :: u32) = numeral k \<longleftrightarrow> x = numeral k" if "numeral k < (2 ^ 32 :: nat)" for k
  using that unat_u32 [of "numeral k"] by (simp only: word_unat_eq_iff of_nat_numeral)

text \<open>The three families of messages, cut after the id.\<close>

lemma prefix_standard:
  assumes w: "wire_ok w" and pay: "payload w u m = i # r @ q" and q: "q \<noteq> []" and unat: "unat len = length (payload w u m)"
    and m: "\<And>e. m \<noteq> BitsExtension e" "\<not> is_prot_extension m"
  shows "message_parse_bytes w chk (put_u32 w len @ i # r) ext = Err OtherError"
proof -
  have short: "Suc (length r) < unat len" using unat pay q by simp
  note par = message_parse_Incomplete [OF w, of chk len i r ext]
  show ?thesis
  proof (cases "(w, u, m)" rule: payload.cases)
    case (6 w' u' h)
    with pay have i: "i = 4" by simp
    have l: "unat len = 5" unfolding unat using 6 w by simp
    with short have "length r < 4" by simp
    with i l show ?thesis
      using body_short(1) [OF w, of r] by (intro par(1)) (auto simp: standard_arms [OF w] unat_eq)
  next
    case (7 w' u' h)
    with pay have i: "i = 5" by simp
    have "unat (len - 1) = unat len - 1" using short by (simp add: unat_sub word_le_nat_alt)
    then have "\<exists>n. bitfield_parse_bytes r (len - 1) = Incomplete n" using short by (intro body_short(5) [OF w]) simp
    then show ?thesis using short
      by (intro par(1)) (auto simp: i standard_arms [OF w] word_sub_le)
  next
    case (8 w' u' h)
    with pay have i: "i = 6" by simp
    have l: "unat len = 13" unfolding unat using 8 w by simp
    with short have "length r < 12" by simp
    with i l show ?thesis
      using body_short(2) [OF w, of r] by (intro par(1)) (auto simp: standard_arms [OF w] unat_eq)
  next
    case (9 w' u' h)
    with pay have i: "i = 7" by simp
    have "9 \<le> unat len" unfolding unat using 9 w by simp
    moreover have "unat (len - 1) = unat len - 1" using short by (simp add: unat_sub word_le_nat_alt)
    ultimately have "\<exists>n. piece_parse_bytes w chk r (len - 1) = Incomplete n" using short
      by (intro body_short(7) [OF w]) simp_all
    then show ?thesis using short
      by (intro par(1)) (auto simp: i standard_arms [OF w] word_sub_le)
  next
    case (10 w' u' h)
    with pay have i: "i = 8" by simp
    have l: "unat len = 13" unfolding unat using 10 w by simp
    with short have "length r < 12" by simp
    with i l show ?thesis
      using body_short(3) [OF w, of r] by (intro par(1)) (auto simp: standard_arms [OF w] unat_eq)
  qed (use pay q m in simp_all)
qed

lemma prefix_bits_extension:
  assumes w: "wire_ok w" and pay: "payload w u m = i # r @ q" and q: "q \<noteq> []" and unat: "unat len = length (payload w u m)"
    and m: "m = BitsExtension b"
  shows "message_parse_bytes w chk (put_u32 w len @ i # r) ext = Err OtherError"
proof -
  have short: "Suc (length r) < unat len" using unat pay q by simp
  note par = message_parse_Incomplete [OF w, of chk len i r ext]
  show ?thesis
  proof (cases "(w, u, m)" rule: payload.cases)
    case (11 w' u' h)
    with pay have i: "i = 9" by simp
    have l: "unat len = 3" unfolding unat using 11 w by simp
    with short have r: "length r < 2" by simp
    have "\<exists>n. parse_extension w chk (put_u32 w len @ i # r) = Incomplete n"
    proof (cases r)
      case (Cons j r')
      with i l r body_short(4) [OF w, of r] show ?thesis by (auto simp: parse_extension_head [OF w] unat_eq)
    qed (simp add: parse_extension_short(2) [OF w])
    then show ?thesis by (intro par(2)) (simp_all add: i standard_arms [OF w])
  next
    case (12 w' u' e)
    with pay have i: "i = 20" and r: "0 # raw_bencode e = r @ q" by simp_all
    have "unat (len - 2) = unat len - 2" if "r \<noteq> []" using that short by (cases r) (simp_all add: unat_sub word_le_nat_alt)
    have "\<exists>n. parse_extension w chk (put_u32 w len @ i # r) = Incomplete n"
    proof (cases r)
      case (Cons j r')
      with r have "j = 0" by simp
      moreover have "\<exists>n. extended_parse_bytes r' (len - 2) = Incomplete n"
        using short Cons \<open>r \<noteq> [] \<Longrightarrow> unat (len - 2) = unat len - 2\<close> by (intro body_short(6) [OF w]) simp
      ultimately show ?thesis using short Cons i
        by (auto simp: parse_extension_head [OF w] word_sub_le)
    qed (simp add: parse_extension_short(2) [OF w])
    then show ?thesis by (intro par(2)) (simp_all add: i standard_arms [OF w])
  qed (use m in simp_all)
qed

lemma prefix_prot_extension:
  assumes w: "wire_ok w" and pay: "payload w u m = i # r @ q" and q: "q \<noteq> []" and unat: "unat len = length (payload w u m)"
    and m: "is_prot_extension m" and u: "u \<noteq> 0"
  shows "message_parse_bytes w chk (put_u32 w len @ i # r) ext = Err OtherError"
proof -
  have short: "Suc (length r) < unat len" using unat pay q by simp
  note par = message_parse_Incomplete [OF w, of chk len i r ext]
  show ?thesis
  proof (cases "(w, u, m)" rule: payload.cases)
    case (13 w' u' e)
    with pay have i: "i = 20" and r: "u # ut_bencode e @ ut_extra e = r @ q" by simp_all
    show ?thesis
    proof (cases r)
      case Nil
      then show ?thesis
        by (intro par(2)) (simp_all add: i standard_arms [OF w] parse_extension_short(2) [OF w])
    next
      case (Cons j r')
      with r 13 u have j: "j \<noteq> 0" by simp
      from short Cons have n: "2 \<le> unat len" "length r' < unat len - 2" by simp_all
      have "prot_ext_parse_bytes w chk (put_u32 w len @ i # r) ext = Err OtherError"
        using n by (cases ext) (simp_all add: i Cons prot_ext_head [OF w] parse_extensions_with_id_eq [OF w]
          prot_ext_parse_bytes_def [of _ _ _ None])
      with i j Cons show ?thesis
        by (simp add: message_parse_bytes_def parse_message_head [OF w] standard_arms [OF w] parse_extension_head [OF w])
    qed
  qed (use m in simp_all)
qed

text \<open>A proper prefix of a message is an error that leaves the bytes where they are, never a message or a panic.\<close>

lemma parse_prefix:
  assumes w: "wire_ok w" and m: "message_ok m"
    and u: "is_prot_extension m \<Longrightarrow> u \<noteq> 0"
    and p: "message_encoding w u m = p @ q" and q: "q \<noteq> []"
  shows "message_parse_bytes w chk p ext = Err OtherError"
proof (cases "4 < length p")
  case False
  let ?len = "word_of_nat (length (payload w u m)) :: u32"
  show ?thesis
  proof (cases "length p = 4")
    case True
    with p w have "p = put_u32 w ?len" and "payload w u m = q" by (auto simp: message_encoding_def append_eq_append_conv)
    moreover have "?len \<noteq> 0"
      using m message_size_payload [OF w, of m u] q calculation by (simp add: message_ok_def unat_eq_zero [symmetric] unat_u32)
    ultimately show ?thesis using message_parse_short(2) [OF w] by simp
  next
    case False
    with \<open>\<not> 4 < length p\<close> show ?thesis by (simp add: message_parse_short(1) [OF w])
  qed
next
  case True
  then obtain len i r where p': "p = put_u32 w len @ i # r" by (rule bytes_header [OF w])
  with p have "put_u32 w (word_of_nat (length (payload w u m))) @ payload w u m = put_u32 w len @ i # r @ q"
    by (simp add: message_encoding_def)
  from iffD1 [OF append_eq_append_conv, OF disjI1 this] w
  have pay: "payload w u m = i # r @ q" and "put_u32 w (word_of_nat (length (payload w u m))) = put_u32 w len"
    by auto
  then have len: "len = word_of_nat (length (payload w u m))" by (metis iresult.inject(1) wire_put(3) [OF w])
  have unat: "unat len = length (payload w u m)"
    using m message_size_payload [OF w, of m u] unfolding len by (intro unat_u32) (simp add: message_ok_def)
  show ?thesis
    using prefix_standard [OF w pay q unat] prefix_bits_extension [OF w pay q unat]
      prefix_prot_extension [OF w pay q unat] u unfolding p'
    by (cases m) auto
qed

section \<open>The size of a parsed message\<close>

lemma body_done:
  assumes w: "wire_ok w"
  shows "have_parse_bytes w i = Done () x \<Longrightarrow> 4 \<le> length i"
    and "request_parse_bytes w i = Done () x1 \<Longrightarrow> 12 \<le> length i"
    and "cancel_parse_bytes w i = Done () x2 \<Longrightarrow> 12 \<le> length i"
    and "port_parse_bytes w i = Done () x3 \<Longrightarrow> 2 \<le> length i"
    and "bitfield_parse_bytes i k = Done () (Ok b) \<Longrightarrow> unat k \<le> length i \<and> length (bitfield_bytes b) = unat k"
    and "extended_parse_bytes i k = Done () (Ok e) \<Longrightarrow> unat k \<le> length i \<and> bencode_size e = unat k"
  using body_short(1,2,3,4) [OF w, of i]
  by (force simp: not_le [symmetric])+
     (auto simp: bitfield_parse_bytes_def extended_parse_bytes_def Let_def bencode_size_def extended_from_dict_def
       and_then_eq_Ok split: if_splits elim!: done_result.elims)

lemma throwaway_Done: "throwaway_input r = Done () x \<longleftrightarrow> (\<exists>j. r = Done j x)"
  by (cases r) simp_all

lemma piece_done:
  assumes w: "wire_ok w" and ok: "piece_parse_bytes w chk i k = Done () (Ok p)"
  shows "8 + length (piece_block p) \<le> length i \<and> (chk \<longrightarrow> unat k = 8 + length (piece_block p))"
proof -
  have k: "\<not> (chk \<and> unat k < 8)" using ok by (auto simp: piece_parse_bytes_def throwaway_Done word_sub_def)
  define n where "n = k - 8"
  from ok k obtain a r b r' j x where a: "be_u32 w i = Done r a" and b: "be_u32 w r = Done r' b"
    and t: "take_p w (unat n) r' = Done j x" and p: "piece_block p = segment i 8 (8 + unat n)"
    unfolding n_def by (auto simp: piece_parse_bytes_def throwaway_Done word_sub_def)
  from a b have "r' = drop 4 (drop 4 i)" "4 \<le> length i" "4 \<le> length (drop 4 i)"
    using reads_Done [OF wire_reads(3) [OF w]] by auto
  moreover from t have "unat n \<le> length r'" using reads_Done [OF wire_reads(7) [OF w]] by blast
  ultimately have len: "8 + unat n \<le> length i" by simp
  then have blk: "length (piece_block p) = unat n" by (simp add: p segment_def)
  with len k show ?thesis by (simp add: n_def unat_sub word_le_nat_alt not_less)
qed

lemma ut_metadata_size:
  assumes "ut_metadata_parse_bytes bytes = Ok m"
  shows "ut_metadata_message_size m \<le> length bytes"
    and "ut_metadata_message_size m = length bytes \<or> (\<forall>d. m \<noteq> UtData d)"
  using assms by (auto simp: ut_metadata_parse_bytes_def and_then_eq_Ok Let_def split: if_splits)

lemma done_result_iff:
  "done_result r = Done () (Ok y) \<longleftrightarrow> r = Ok y" "done_result r \<noteq> Error" "done_result r \<noteq> Incomplete n"
  by (cases r; simp)+

lemma map_message_iff:
  "map_message f r = Done () (Ok y) \<longleftrightarrow> (\<exists>x. r = Done () (Ok x) \<and> y = f x)" "map_message f r = Error \<longleftrightarrow> r = Error"
  by (cases r; auto simp: done_result_iff and_then_eq_Ok)+

lemma alt_result_Done:
  "alt_result p q = Done () x \<longleftrightarrow> p = Done () x \<or> p = Error \<and> q = Done () x"
  by (cases p) auto

lemma message_parse_cases:
  assumes "wire_ok w" and "message_parse_bytes w chk (put_u32 w len @ i # r) ext = Ok m"
  obtains (standard) "parse_standard w chk (put_u32 w len @ i # r) len (Some i) = Done () (Ok m)"
  | (bits) b where "parse_extension w chk (put_u32 w len @ i # r) = Done () (Ok b)" "m = BitsExtension b"
  | (prot) p where "parse_extension w chk (put_u32 w len @ i # r) = Error"
      "prot_ext_parse_bytes w chk (put_u32 w len @ i # r) ext = Ok p" "m = ProtExtension p"
proof -
  have "alt_result (parse_standard w chk (put_u32 w len @ i # r) len (Some i))
      (alt_result (map_message BitsExtension (parse_extension w chk (put_u32 w len @ i # r)))
        (map_message ProtExtension (done_result (prot_ext_parse_bytes w chk (put_u32 w len @ i # r) ext)))) = Done () (Ok m)"
    using assms(2) by (auto simp: message_parse_bytes_def parse_message_head [OF assms(1)] split: iresult.splits)
  then show thesis
    using that by (auto simp: alt_result_Done map_message_iff done_result_iff)
qed

lemma parse_standard_size:
  assumes w: "wire_ok w" and ok: "parse_standard w chk (put_u32 w len @ i # r) len (Some i) = Done () (Ok m)"
  shows "message_size m \<le> 5 + length r" and "chk \<Longrightarrow> message_size m = 4 + unat len"
proof -
  have sub: "chk \<Longrightarrow> \<not> (chk \<and> unat len < 1) \<Longrightarrow> unat (len - 1) = unat len - 1"
    by (simp add: unat_sub word_le_nat_alt)
  have "message_size m \<le> 5 + length r \<and> (chk \<longrightarrow> message_size m = 4 + unat len)"
    using ok w sub
    by (auto simp: parse_standard_def split_off_def peer_consts message_size_def map_message_iff with_arg_def word_sub_def
        split: if_splits dest!: body_done [OF w] piece_done [OF w])
  then show "message_size m \<le> 5 + length r" and "chk \<Longrightarrow> message_size m = 4 + unat len" by blast+
qed

lemma parse_extension_size:
  assumes w: "wire_ok w" and ok: "parse_extension w chk (put_u32 w len @ i # r) = Done () (Ok b)"
  shows "bits_ext_message_size b \<le> 1 + length r \<and> (chk \<longrightarrow> bits_ext_message_size b = unat len)"
proof (cases r)
  case Nil
  with ok parse_extension_short(2) [OF w, of chk len i] show ?thesis by auto
next
  case (Cons j r')
  have sub: "chk \<Longrightarrow> 2 \<le> unat len \<Longrightarrow> unat (len - 2) = unat len - 2" by (simp add: unat_sub word_le_nat_alt)
  show ?thesis
    using ok sub unfolding Cons
    by (auto simp: parse_extension_head [OF w] map_message_iff with_arg_def word_sub_def peer_consts not_less
      split: if_splits dest!: body_done [OF w])
qed

lemma prot_extension_size:
  assumes w: "wire_ok w" and ok: "prot_ext_parse_bytes w chk (put_u32 w len @ i # r) ext = Ok p"
    and err: "parse_extension w chk (put_u32 w len @ i # r) = Error"
  shows "1 + prot_ext_message_size p \<le> length r \<and>
    (chk \<longrightarrow> 2 + prot_ext_message_size p = unat len \<or>
      2 + prot_ext_message_size p < unat len \<and> (\<forall>d. p \<noteq> UtMetadata (UtData d)))"
proof (cases r)
  case Nil
  with err parse_extension_short(2) [OF w, of chk len i] show ?thesis by auto
next
  case (Cons j r')
  from ok obtain e where e: "ext = Some e" by (cases ext) (simp_all add: prot_ext_parse_bytes_def)
  with ok Cons have ok': "parse_extensions_with_id chk (put_u32 w len @ i # j # r') e len j = Done () (Ok p)"
    by (auto simp: prot_ext_head [OF w] split: if_splits iresult.splits)
  define n where "n = (ucast len :: u64) - 2"
  from ok' have k: "\<not> (chk \<and> unat (ucast len :: u64) < 2)"
    by (auto simp: parse_extensions_with_id_def word_sub_def)
  with ok' w obtain m where "unat n \<le> length r'" and m: "ut_metadata_parse_bytes (take (unat n) r') = Ok m"
    and p: "p = UtMetadata m"
    unfolding n_def by (auto simp: parse_extensions_with_id_def word_sub_def split_off_def peer_consts done_result_iff
      and_then_eq_Ok split: if_splits)
  moreover have "chk \<Longrightarrow> unat n = unat len - 2 \<and> 2 \<le> unat len"
    using k unat_ucast_sub_2(2) [of len] unsigned_less [of len, where ?'a = nat]
    by (simp add: n_def unsigned_ucast_eq take_bit_nat_eq_self)
  ultimately show ?thesis using ut_metadata_size [OF m] Cons by auto
qed

lemma be_value_put_u32: "wire_ok w \<Longrightarrow> be_value (put_u32 w x) = unat x"
  using unsigned_less [of x, where ?'a = nat] by (simp add: wire_ok_def)

lemma parsed_message_fits:
  assumes w: "wire_ok w" and ok: "message_parse_bytes w chk bytes ext = Ok m"
  shows "4 \<le> length bytes \<and> message_size m \<le> length bytes \<and>
    (chk \<longrightarrow> message_size m = 4 + be_value (take 4 bytes) \<or>
      message_size m < 4 + be_value (take 4 bytes) \<and>
        (\<exists>ut. m = ProtExtension (UtMetadata ut) \<and> (\<forall>d. ut \<noteq> UtData d)))"
proof (cases "4 < length bytes")
  case True
  then obtain len i r where b: "bytes = put_u32 w len @ i # r" by (rule bytes_header [OF w])
  then have len: "be_value (take 4 bytes) = unat len"
    using w by (simp add: be_value_put_u32)
  from w ok [unfolded b] show ?thesis
  proof (cases rule: message_parse_cases)
    case standard
    from parse_standard_size [OF w this] len b w show ?thesis by simp
  next
    case (bits e)
    from parse_extension_size [OF w bits(1)] bits(2) len b w show ?thesis by (simp add: message_size_def peer_consts)
  next
    case (prot p)
    from prot_extension_size [OF w prot(2,1)] prot(3) len b w show ?thesis
      by (cases p) (auto simp: message_size_def peer_consts)
  qed
next
  case False
  with ok message_parse_short(1) [OF w] have four: "length bytes = 4" by (metis nat_neq_iff outcome.distinct(1))
  have "put_u32 w (be_word bytes) = bytes"
    using w four be_bytes_be_word [of bytes, where ?'w = 32] by (simp add: wire_ok_def)
  with ok message_parse_short(2) [OF w] have b: "bytes = put_u32 w 0" by (metis outcome.distinct(1))
  with ok wire_put(3) [OF w, of 0 "[]"] wire_opt(2) [OF w] have "m = KeepAlive"
    by (auto simp: message_parse_bytes_def parse_message_def do_parse_def parse_standard_def peer_consts)
  with b four w show ?thesis by (simp add: message_size_def peer_consts be_value_put_u32)
qed

section \<open>The iterator over a bit field\<close>

declare bitfield_iter_next.simps [simp del]

lemma shifted_bit:
  assumes "k < 8"
  shows "drop_bit 7 (push_bit k (b :: u8)) = 1 \<longleftrightarrow> bit b (7 - k)"
proof -
  have "bit (push_bit k b) 7 = bit b (7 - k)" using assms by (simp add: bit_simps)
  moreover have "\<not> bit (push_bit k b) j" if "7 < j" for j
    using that bit_imp_le_length [of "push_bit k b" j] by auto
  ultimately show ?thesis by (simp add: drop_bit_eq_1)
qed

lemma bitfield_iter_next_eq:
  assumes "c \<le> 8 * length bs"
  shows "bitfield_iter_next \<lparr>bfi_bytes = bs, cur_bit = c\<rparr> =
    (case filter (msb_bit bs) [c..<8 * length bs] of
       [] \<Rightarrow> (None, \<lparr>bfi_bytes = bs, cur_bit = 8 * length bs\<rparr>)
     | j # js \<Rightarrow> (Some \<lparr>have_piece_index = word_of_nat j\<rparr>, \<lparr>bfi_bytes = bs, cur_bit = Suc j\<rparr>))"
  using assms
proof (induction "8 * length bs - c" arbitrary: c)
  case 0
  then have "c = 8 * length bs" by simp
  then show ?case by (subst bitfield_iter_next.simps) (simp add: get_slice_def)
next
  case (Suc n)
  then have c: "c < 8 * length bs" by simp
  then have "c div 8 < length bs" by (simp add: less_mult_imp_div_less mult.commute)
  moreover have "[c..<8 * length bs] = c # [Suc c..<8 * length bs]" using c by (rule upt_conv_Cons)
  ultimately show ?case
    using Suc(1) [of "Suc c"] Suc(2) c
    by (subst bitfield_iter_next.simps) (simp add: get_slice_def Let_def shifted_bit msb_bit_def)
qed

text \<open>A \<open>for\<close> loop over the iterator, at most \<open>fuel\<close> calls of \<open>next\<close>.\<close>

fun bitfield_collect :: "nat \<Rightarrow> bitfield_iter \<Rightarrow> have_message list option" where
  "bitfield_collect 0 it = None"
| "bitfield_collect (Suc fuel) it =
     (case bitfield_iter_next it of
        (None, it') \<Rightarrow> Some []
      | (Some h, it') \<Rightarrow> map_option ((#) h) (bitfield_collect fuel it'))"

lemma filter_upt_rest:
  assumes "filter P [c..<n] = j # js"
  shows "filter P [Suc j..<n] = js \<and> c \<le> j \<and> j < n"
  using assms
proof (induction "n - c" arbitrary: c)
  case (Suc k)
  then have "c < n" by simp
  then have "[c..<n] = c # [Suc c..<n]" by (rule upt_conv_Cons)
  moreover have "k = n - Suc c" using Suc(2) by simp
  ultimately show ?case using Suc(1) [of "Suc c"] Suc(3) \<open>c < n\<close> by (cases "P c") auto
qed simp

lemma bitfield_collect_from:
  assumes "c \<le> 8 * length bs" and "8 * length bs - c < fuel"
  shows "bitfield_collect fuel \<lparr>bfi_bytes = bs, cur_bit = c\<rparr> =
    Some (map (\<lambda>j. \<lparr>have_piece_index = word_of_nat j\<rparr>) (filter (msb_bit bs) [c..<8 * length bs]))"
  using assms
proof (induction fuel arbitrary: c)
  case (Suc fuel)
  show ?case
  proof (cases "filter (msb_bit bs) [c..<8 * length bs]")
    case Nil
    with Suc.prems show ?thesis by (simp add: bitfield_iter_next_eq)
  next
    case (Cons j js)
    have j: "filter (msb_bit bs) [Suc j..<8 * length bs] = js" "c \<le> j" "j < 8 * length bs"
      using filter_upt_rest [OF Cons] by simp_all
    then have "8 * length bs - Suc j < fuel" using Suc.prems by simp
    with j Suc.prems Suc.IH [of "Suc j"] Cons show ?thesis by (simp add: bitfield_iter_next_eq)
  qed
qed simp

section \<open>Building an extended message\<close>






















section \<open>Properties\<close>

lemma bytes_needed_encoding:
  assumes "wire_ok w" and "message_ok m"
  shows "bytes_needed w (message_encoding w u m @ r) = Ok (Some (message_size m))"
proof -
  have "length (payload w u m) < 2 ^ 32" "message_size m = 4 + length (payload w u m)"
    using assms message_size_payload [of w m u] by (auto simp: message_ok_def)
  with wire_put(3) [OF assms(1)] show ?thesis
    by (simp add: bytes_needed_def message_encoding_def unat_u32 peer_consts)
qed

lemma extended_eq_fields:
  assumes "extended_eq a b"
  shows "raw_bencode a = raw_bencode b" "our_id a = our_id b" "our_tcp_port a = our_tcp_port b" "their_ip a = their_ip b"
    "our_max_requests a = our_max_requests b" "metadata_size a = metadata_size b"
  using assms by (cases a; cases b; simp add: extended_eq_def)+

lemma message_eq_size: "message_eq m' m \<Longrightarrow> message_size m' = message_size m"
  by (cases "(m', m)" rule: message_eq.cases)
     (auto simp: message_size_def bencode_size_def dest: extended_eq_fields split: peer_message.splits bits_extension_message.splits)

text \<open>C39: A peer message is written as as many bytes as its size says. The parser gives it back, whatever follows it in
  the stream (a zero byte in the case of a keep-alive), and knows from its first bytes how many it
  needs; and no proper prefix of it is taken for a message or panics. Numbers have to fit the width they
  are written with, and a message of the extension protocol needs the id both sides agreed on.\<close>

theorem peer_message_roundtrip:
  assumes "wire_ok w" and "message_ok m" and "is_prot_extension m \<longrightarrow> ut_id_known ext u"
    and "m = KeepAlive \<longrightarrow> (\<exists>r'. r = 0 # r')"
  shows "\<exists>bs m'. message_write_bytes w m ext (VecWriter pre) = Ok (VecWriter (pre @ bs)) \<and>
    length bs = message_size m \<and> bytes_needed w (bs @ r) = Ok (Some (message_size m)) \<and>
    message_parse_bytes w chk (bs @ r) ext = Ok m' \<and> message_eq m' m \<and> message_size m' = message_size m \<and>
    (\<forall>p q. bs = p @ q \<and> q \<noteq> [] \<longrightarrow> message_parse_bytes w chk p ext = Err OtherError)"
proof -
  let ?bs = "message_encoding w u m"
  have f: "message_fields_ok m" using assms(2) by (simp add: message_ok_def)
  obtain m' where m': "message_parse_bytes w chk (?bs @ r) ext = Ok m'" "message_eq m' m"
    using parse_message_encoding [OF assms(1,2), of ext u r chk] assms(3,4) by blast
  have "message_parse_bytes w chk p ext = Err OtherError" if "?bs = p @ q" "q \<noteq> []" for p q
    using that assms(3) by (intro parse_prefix [OF assms(1,2)]) (auto simp: ut_id_known_def)
  with m' message_eq_size [OF m'(2)] message_written [OF assms(1) f, of ext u "VecWriter pre"] assms(3)
    length_message_encoding [OF assms(1) f, of u] bytes_needed_encoding [OF assms(1,2), of u r]
  show ?thesis by (intro exI [of _ ?bs] exI [of _ m']) auto
qed

theorem peer_message_roundtrip_witness:
  "\<exists>bs m'. message_write_bytes sample_wire (Piece \<lparr>piece_piece_index = 3, piece_block_offset = 16384, piece_block = [7, 8]\<rparr>) None
      (VecWriter []) = Ok (VecWriter bs) \<and> length bs = 15 \<and>
    message_parse_bytes sample_wire True (bs @ [0, 0]) None = Ok m' \<and>
    message_eq m' (Piece \<lparr>piece_piece_index = 3, piece_block_offset = 16384, piece_block = [7, 8]\<rparr>)"
  using peer_message_roundtrip [OF sample_wire_ok, of "Piece \<lparr>piece_piece_index = 3, piece_block_offset = 16384, piece_block = [7, 8]\<rparr>"
      None 0 "[0, 0]" "[]" True]
  by (auto simp: message_ok_def message_size_def peer_consts)





text \<open>The iterator over a bit field yields a have message for every set bit and no other, in order, and ends.\<close>

theorem bitfield_iterates:
  "bitfield_collect (Suc (8 * length bs)) (bitfield_message_iter \<lparr>bitfield_bytes = bs\<rparr>) =
     Some (map (\<lambda>j. \<lparr>have_piece_index = word_of_nat j\<rparr>) (filter (msb_bit bs) [0..<8 * length bs]))"
  by (simp add: bitfield_message_iter_def bitfield_collect_from del: bitfield_collect.simps)

text \<open>A message that announces less than its id takes is a panic in a build with overflow checks.\<close>

theorem short_length_panics:
  assumes "wire_ok w"
  shows "message_parse_bytes w True (put_u32 w 0 @ 5 # r) ext = Panic"
  using parse_message_head [OF assms]
  by (simp add: message_parse_bytes_def parse_standard_def peer_consts word_sub_def split_off_def assms with_arg_def)

end
