(* ===== verification/Spec2Isabelle.thy ===== *)
theory Spec2Isabelle
  imports Bencode_Props Bencode_Access Util_Convert Util_Hash Util_Ids Util_Contiguous Utp_Packet Utp_Socket_Props
    Dht_Table_Props Dht_Storage Dht_Token Dht_Transaction Dht_Security Dht_Message_Props
    Dht_Handler_Peers Utracker_Client_Props Peer_Message_Props
begin

text \<open>
  A verification development for the crate \<open>bittorrent-protocol\<close>.
\<close>

end
